(* ===== verification/Prelude.thy ===== *)
theory Prelude
  imports Main "HOL-Library.Word"
begin

unbundle bit_operations_syntax

text \<open>
  The prelude of the development: the names of the machine types, the buffer primitive
  behind the source's calls of memcpy, the reading of machine words as natural numbers that
  the checksum and header proofs share, and the collections of rewrite rules the component
  theories fill (\<open>wire_simps\<close> for the packet layout, \<open>world_simps\<close> for the effects of the
  network primitives on the scripted environment).
\<close>

named_theorems wire_simps "layout of packets: lengths, slices and fields"
named_theorems world_simps "effects of the environment primitives"

type_synonym byte = "8 word"
type_synonym bytes = "byte list"
type_synonym u16 = "16 word"
type_synonym u32 = "32 word"

subsection \<open>Buffers\<close>

text \<open>
  \<^verbatim>\<open>memcpy(buffer + off, src, n)\<close> on a buffer that holds at least \<open>off + n\<close> bytes: the other
  bytes of the buffer stay.
\<close>

definition memcpy_at :: "nat \<Rightarrow> 'a list \<Rightarrow> 'a list \<Rightarrow> 'a list" where
  "memcpy_at off src dst = take off dst @ src @ drop (off + length src) dst"

lemma length_memcpy_at [simp]:
  "off + length src \<le> length dst \<Longrightarrow> length (memcpy_at off src dst) = length dst"
  by (simp add: memcpy_at_def)

lemma memcpy_at_append:
  "length pre = off \<Longrightarrow> length old = length src \<Longrightarrow>
   memcpy_at off src (pre @ old @ post) = pre @ src @ post"
  by (simp add: memcpy_at_def)

lemma list_eq_upt_nth: "n \<le> length xs \<Longrightarrow> take n xs = map (nth xs) [0..<n]"
  by (rule nth_equalityI) auto

text \<open>A list of known length is the list of its elements.\<close>

lemma take_drop_nth:
  "i < length xs \<Longrightarrow> drop i xs = xs ! i # drop (Suc i) xs"
  by (simp add: Cons_nth_drop_Suc)

lemma concat_take_prefix:
  "concat (take n xs) @ concat (drop n xs) = concat xs"
  by (simp flip: concat_append)

subsection \<open>Words as natural numbers\<close>

lemma unat_byte_less: "unat (b::byte) < 256"
  using unsigned_less [of b, where ?'a = nat] by simp

lemma unat_u16_less: "unat (w::u16) < 65536"
  using unsigned_less [of w, where ?'a = nat] by simp

lemma unat_u32_less: "unat (w::u32) < 4294967296"
  using unsigned_less [of w, where ?'a = nat] by simp

lemma unat_ucast_byte [simp]: "unat (ucast (b::byte) :: u32) = unat b"
  using unat_byte_less [of b] by (simp add: unsigned_ucast_eq take_bit_nat_eq_self)

lemma unat_shift8_byte: "unat (push_bit 8 (ucast (b::byte)) :: u32) = 256 * unat b"
  using unat_byte_less [of b]
  by (simp add: push_bit_eq_mult unat_word_ariths)

lemma unat_byte_pair:
  "unat ((push_bit 8 (ucast (a::byte)) :: u32) OR ucast (b::byte)) = 256 * unat a + unat b"
proof -
  have "(push_bit 8 (ucast a) :: u32) AND ucast b = 0"
    by (rule bit_word_eqI) (auto simp: bit_simps dest: bit_imp_le_length)
  then have "(push_bit 8 (ucast a) :: u32) OR ucast b = push_bit 8 (ucast a) + ucast b"
    by (simp add: disjunctive_add_eq_or)
  then show ?thesis
    using unat_byte_less [of a] unat_byte_less [of b]
    by (simp add: unat_word_ariths unat_shift8_byte)
qed

lemma unat_and_ffff: "unat (x AND 0xffff :: u32) = unat x mod 65536"
proof -
  have "x AND 0xffff = take_bit 16 x"
    by (simp add: take_bit_eq_mask mask_eq_exp_minus_1)
  then show ?thesis by (simp add: unsigned_take_bit_eq take_bit_nat_def)
qed

lemma unat_shr16: "unat (drop_bit 16 x :: u32) = unat x div 65536"
  by (simp add: unat_drop_bit_eq drop_bit_nat_def)

lemma unat_not_u16: "unat (NOT x :: u16) = 65535 - unat x"
proof -
  have "NOT x = - 1 - x" by (simp add: not_eq_complement)
  moreover have "x \<le> - 1" by simp
  ultimately have "unat (NOT x) = unat (- 1 :: u16) - unat x" by (simp only: unat_sub)
  moreover have "unat (- 1 :: u16) = 65535" by (simp add: unsigned_minus_1_eq_mask mask_eq_exp_minus_1)
  ultimately show ?thesis by simp
qed

lemma bit_byte_ge [simp]: "8 \<le> n \<Longrightarrow> \<not> bit (b::byte) n"
  using bit_imp_le_length [of b n] by auto

lemma unat_u32_plus1: "unat (w + 1 :: u32) = (unat w + 1) mod 4294967296"
  by (simp add: unat_word_ariths)

lemma unat_of_nat_u32: "n < 4294967296 \<Longrightarrow> unat (of_nat n :: u32) = n"
  by (simp add: unat_of_nat)

lemma of_nat_u32_inject:
  "m < 4294967296 \<Longrightarrow> n < 4294967296 \<Longrightarrow> (of_nat m :: u32) = of_nat n \<longleftrightarrow> m = n"
  using unat_of_nat_u32 by metis

end
