(* ===== verification/Ascii_Translator.thy ===== *)
theory Ascii_Translator
  imports Prelude
begin

text \<open>
  The ASCII mode of both sides, \<^verbatim>\<open>AsciiTranslator.cpp\<close> of server and client (the two files have the
  same code): line ends are brought to CR LF, with the last byte of a chunk remembered for the next
  one. The lemmas show that translating a file chunk by chunk is translating it as a whole, and that
  translating what was translated changes nothing.
\<close>

definition CR :: byte where "CR = 13"
definition LF :: byte where "LF = 10"

lemma CR_LF [simp]: "CR \<noteq> LF" "LF \<noteq> CR" by (simp_all add: CR_def LF_def)

text \<open>The loop over the bytes of a chunk: the output, and whether the last byte was a CR.\<close>

fun normalizeToCRLF :: "bool \<Rightarrow> bytes \<Rightarrow> bytes \<times> bool" where
  "normalizeToCRLF prevWasCR [] = ([], prevWasCR)"
| "normalizeToCRLF prevWasCR (b # rest) =
     (if b = LF
      then case normalizeToCRLF False rest of
          (out, carry) \<Rightarrow> ((if prevWasCR then [LF] else [CR, LF]) @ out, carry)
      else case normalizeToCRLF (b = CR) rest of (out, carry) \<Rightarrow> (b # out, carry))"

record AsciiTranslator =
  encodeCarryCR :: bool
  decodeCarryCR :: bool

definition new_translator :: AsciiTranslator where
  "new_translator = \<lparr>encodeCarryCR = False, decodeCarryCR = False\<rparr>"

definition ascii_encode :: "bytes \<Rightarrow> AsciiTranslator \<Rightarrow> bytes \<times> AsciiTranslator" where
  "ascii_encode raw t =
     (case normalizeToCRLF (encodeCarryCR t) raw of (out, c) \<Rightarrow> (out, t\<lparr>encodeCarryCR := c\<rparr>))"

definition ascii_decode :: "bytes \<Rightarrow> AsciiTranslator \<Rightarrow> bytes \<times> AsciiTranslator" where
  "ascii_decode wire t =
     (case normalizeToCRLF (decodeCarryCR t) wire of (out, c) \<Rightarrow> (out, t\<lparr>decodeCarryCR := c\<rparr>))"

section \<open>Chunks and the whole\<close>

abbreviation crlf :: "bool \<Rightarrow> bytes \<Rightarrow> bytes" where
  "crlf c bs \<equiv> fst (normalizeToCRLF c bs)"

lemma normalize_append:
  "normalizeToCRLF c (xs @ ys) =
     (crlf c xs @ crlf (snd (normalizeToCRLF c xs)) ys, snd (normalizeToCRLF (snd (normalizeToCRLF c xs)) ys))"
  by (induction c xs rule: normalizeToCRLF.induct) (auto simp: split_beta)

lemma crlf_append: "crlf c (xs @ ys) = crlf c xs @ crlf (snd (normalizeToCRLF c xs)) ys"
  by (simp add: normalize_append)

lemma length_crlf: "length bs \<le> length (crlf c bs)"
  by (induction c bs rule: normalizeToCRLF.induct) (auto simp: split_beta)

lemma crlf_Nil_iff [simp]: "crlf c bs = [] \<longleftrightarrow> bs = []"
  by (cases bs) (auto simp: split_beta)

text \<open>The carry is what the last byte was.\<close>

lemma carry_last: "bs \<noteq> [] \<Longrightarrow> snd (normalizeToCRLF c bs) \<longleftrightarrow> last bs = CR"
  by (induction c bs rule: normalizeToCRLF.induct) (auto simp: split_beta)

section \<open>Line ends\<close>

text \<open>Every LF has a CR before it; \<open>c\<close> says that the byte before the list is a CR.\<close>

fun crlf_lines :: "bool \<Rightarrow> bytes \<Rightarrow> bool" where
  "crlf_lines c [] = True"
| "crlf_lines c (b # bs) = ((b = LF \<longrightarrow> c) \<and> crlf_lines (b = CR) bs)"

lemma crlf_lines_crlf: "crlf_lines c (crlf c bs)"
  by (induction c bs rule: normalizeToCRLF.induct) (auto simp: split_beta)

lemma normalize_crlf_lines: "crlf_lines c bs \<Longrightarrow> crlf c bs = bs"
  by (induction c bs rule: normalizeToCRLF.induct) (auto simp: split_beta)

lemma crlf_idem: "crlf c (crlf c bs) = crlf c bs"
  by (rule normalize_crlf_lines [OF crlf_lines_crlf])

section \<open>Several chunks\<close>

text \<open>A list of chunks through one translator, as \<^verbatim>\<open>receiveFile\<close> decodes them.\<close>

fun decode_chunks :: "bytes list \<Rightarrow> AsciiTranslator \<Rightarrow> bytes" where
  "decode_chunks [] t = []"
| "decode_chunks (c # cs) t = (case ascii_decode c t of (out, t') \<Rightarrow> out @ decode_chunks cs t')"

lemma decode_chunks_concat: "decode_chunks cs t = crlf (decodeCarryCR t) (concat cs)"
  by (induction cs arbitrary: t) (simp_all add: ascii_decode_def crlf_append split_beta)

text \<open>
  C33: chunk boundaries do not matter to ASCII mode. Decoding the chunks of a file one after the other
  gives the translation of the whole file, and since every LF on the wire already has its CR, decoding
  what was encoded gives exactly the bytes sent: no CR is doubled or lost where a chunk ends between
  CR and LF.
\<close>

theorem ascii_chunks_roundtrip:
  assumes "concat chunks = crlf False file"
  shows "decode_chunks chunks new_translator = crlf False file \<and> crlf_lines False (decode_chunks chunks new_translator)"
  using assms crlf_idem crlf_lines_crlf by (simp add: decode_chunks_concat new_translator_def)

theorem ascii_chunks_roundtrip_witness:
  "decode_chunks [[65, CR], [LF, 66]] new_translator = [65, CR, LF, 66]"
  using ascii_chunks_roundtrip [of "[[65, CR], [LF, 66]]" "[65, LF, 66]"] by (simp add: CR_def LF_def)

end
