(* ===== verification/Rdt_Header.thy ===== *)
theory Rdt_Header
  imports Prelude
begin

unbundle bit_operations_syntax

text \<open>
  The wire format of the reliable UDP transport, from \<^verbatim>\<open>shared/protocol\<close>: the constants
  (ProtocolConstants.h), the flags and the 16-byte header (RdtHeader.h) and its big-endian
  encoding and decoding (RdtHeader.cpp). The lemmas show that encoding writes exactly the first
  sixteen bytes of a buffer and that decoding inverts it on every header.
\<close>

section \<open>Constants\<close>

definition MAX_PAYLOAD :: nat where "MAX_PAYLOAD = 1024"
definition RDT_RECEIVE_WINDOW :: nat where "RDT_RECEIVE_WINDOW = 10"
definition HANDSHAKE_TIMEOUT_MS :: nat where "HANDSHAKE_TIMEOUT_MS = 500"
definition HANDSHAKE_MAX_RETRIES :: nat where "HANDSHAKE_MAX_RETRIES = 10"
definition DATA_IDLE_TIMEOUT_MS :: nat where "DATA_IDLE_TIMEOUT_MS = 5000"
definition HEADER_SIZE :: nat where "HEADER_SIZE = 16"

definition FLAG_SYN :: byte where "FLAG_SYN = 1"
definition FLAG_ACK :: byte where "FLAG_ACK = 2"
definition FLAG_FIN :: byte where "FLAG_FIN = 4"
definition FLAG_DATA :: byte where "FLAG_DATA = 8"
definition FLAG_NAK :: byte where "FLAG_NAK = 16"

lemmas wire_constants =
  MAX_PAYLOAD_def RDT_RECEIVE_WINDOW_def HEADER_SIZE_def

lemmas flag_defs =
  FLAG_SYN_def FLAG_ACK_def FLAG_FIN_def FLAG_DATA_def FLAG_NAK_def

datatype TransferMode = Binary | ASCII

section \<open>The header\<close>

record RdtHeader =
  seq_num :: u32
  ack_num :: u32
  flags :: byte
  window_size :: u16
  payload_len :: u16
  checksum :: u16
  reserved :: byte

text \<open>\<^verbatim>\<open>RdtHeader header{}\<close>: every field zero.\<close>

definition zero_header :: RdtHeader where
  "zero_header = \<lparr>seq_num = 0, ack_num = 0, flags = 0, window_size = 0, payload_len = 0,
     checksum = 0, reserved = 0\<rparr>"

definition has_flag :: "RdtHeader \<Rightarrow> byte \<Rightarrow> bool" where
  "has_flag h f \<longleftrightarrow> flags h AND f \<noteq> 0"

text \<open>
  \<^verbatim>\<open>htonl\<close> and \<^verbatim>\<open>htons\<close> followed by \<^verbatim>\<open>memcpy\<close> store the most significant byte first;
  \<^verbatim>\<open>memcpy\<close> followed by \<^verbatim>\<open>ntohl\<close> and \<^verbatim>\<open>ntohs\<close> read it back.
\<close>

definition htonl :: "u32 \<Rightarrow> bytes" where
  "htonl w = [ucast (drop_bit 24 w), ucast (drop_bit 16 w), ucast (drop_bit 8 w), ucast w]"

definition htons :: "u16 \<Rightarrow> bytes" where
  "htons w = [ucast (drop_bit 8 w), ucast w]"

definition ntohl :: "byte \<Rightarrow> byte \<Rightarrow> byte \<Rightarrow> byte \<Rightarrow> u32" where
  "ntohl a b c d =
     push_bit 24 (ucast a) OR push_bit 16 (ucast b) OR push_bit 8 (ucast c) OR ucast d"

definition ntohs :: "byte \<Rightarrow> byte \<Rightarrow> u16" where
  "ntohs a b = push_bit 8 (ucast a) OR ucast b"

definition serializeHeader :: "RdtHeader \<Rightarrow> bytes \<Rightarrow> bytes" where
  "serializeHeader header buffer =
     (let seq = htonl (seq_num header);
          ack = htonl (ack_num header);
          window = htons (window_size header);
          payloadLength = htons (payload_len header);
          check = htons (checksum header);
          b1 = memcpy_at 0 seq buffer;
          b2 = memcpy_at 4 ack b1;
          b3 = b2[8 := flags header];
          b4 = memcpy_at 9 window b3;
          b5 = memcpy_at 11 payloadLength b4;
          b6 = memcpy_at 13 check b5
      in b6[15 := reserved header])"

definition deserializeHeader :: "bytes \<Rightarrow> RdtHeader" where
  "deserializeHeader buffer =
     \<lparr>seq_num = ntohl (buffer ! 0) (buffer ! 1) (buffer ! 2) (buffer ! 3),
      ack_num = ntohl (buffer ! 4) (buffer ! 5) (buffer ! 6) (buffer ! 7),
      flags = buffer ! 8,
      window_size = ntohs (buffer ! 9) (buffer ! 10),
      payload_len = ntohs (buffer ! 11) (buffer ! 12),
      checksum = ntohs (buffer ! 13) (buffer ! 14),
      reserved = buffer ! 15\<rparr>"

section \<open>Encoding and decoding are inverse\<close>

lemma ntohl_htonl:
  "ntohl (ucast (drop_bit 24 w)) (ucast (drop_bit 16 w)) (ucast (drop_bit 8 w)) (ucast w) = w"
  unfolding ntohl_def
proof (rule bit_word_eqI, goal_cases)
  case (1 n)
  then consider "n < 8" | "8 \<le> n \<and> n < 16" | "16 \<le> n \<and> n < 24" | "24 \<le> n \<and> n < 32"
    by fastforce
  then show ?case by cases (auto simp: bit_simps)
qed

lemma ntohs_htons: "ntohs (ucast (drop_bit 8 w)) (ucast w) = w"
  unfolding ntohs_def
proof (rule bit_word_eqI, goal_cases)
  case (1 n)
  then consider "n < 8" | "8 \<le> n \<and> n < 16"
    by fastforce
  then show ?case by cases (auto simp: bit_simps)
qed

lemma htonl_ntohl: "htonl (ntohl a b c d) = [a, b, c, d]"
  unfolding htonl_def ntohl_def
  by (auto intro!: bit_word_eqI simp: bit_simps)

lemma htons_ntohs: "htons (ntohs a b) = [a, b]"
  unfolding htons_def ntohs_def
  by (auto intro!: bit_word_eqI simp: bit_simps)

text \<open>The sixteen bytes a header occupies.\<close>

definition header_bytes :: "RdtHeader \<Rightarrow> bytes" where
  "header_bytes h =
     htonl (seq_num h) @ htonl (ack_num h) @ [flags h] @ htons (window_size h) @
     htons (payload_len h) @ htons (checksum h) @ [reserved h]"

lemma length_htonl [simp]: "length (htonl w) = 4"
  by (simp add: htonl_def)

lemma length_htons [simp]: "length (htons w) = 2"
  by (simp add: htons_def)

lemma length_header_bytes [simp]: "length (header_bytes h) = 16"
  by (simp add: header_bytes_def)

lemma list_16_cases:
  assumes "16 \<le> length xs"
  obtains a0 a1 a2 a3 a4 a5 a6 a7 a8 a9 a10 a11 a12 a13 a14 a15 ys where
    "xs = a0 # a1 # a2 # a3 # a4 # a5 # a6 # a7 # a8 # a9 # a10 # a11 # a12 # a13 # a14 # a15 # ys"
proof -
  have "length (take 16 xs) = 16" using assms by simp
  then obtain a0 a1 a2 a3 a4 a5 a6 a7 a8 a9 a10 a11 a12 a13 a14 a15 where
    "take 16 xs = [a0, a1, a2, a3, a4, a5, a6, a7, a8, a9, a10, a11, a12, a13, a14, a15]"
    by (auto simp: length_Suc_conv numeral_eq_Suc simp del: length_take)
  then show thesis using that append_take_drop_id [of 16 xs] by (metis append_Cons append_Nil)
qed

lemma serializeHeader_eq:
  assumes "16 \<le> length buffer"
  shows "serializeHeader h buffer = header_bytes h @ drop 16 buffer"
  using assms
proof (rule list_16_cases)
  fix a0 a1 a2 a3 a4 a5 a6 a7 a8 a9 a10 a11 a12 a13 a14 a15 rest
  assume b: "buffer = a0 # a1 # a2 # a3 # a4 # a5 # a6 # a7 # a8 # a9 # a10 # a11 # a12 # a13 #
    a14 # a15 # rest"
  let ?s = "htonl (seq_num h)" and ?a = "htonl (ack_num h)"
    and ?w = "htons (window_size h)" and ?p = "htons (payload_len h)"
    and ?c = "htons (checksum h)"
  have 1: "memcpy_at 0 ?s buffer = ?s @ [a4, a5, a6, a7] @ [a8, a9, a10, a11, a12, a13, a14, a15] @ rest"
    using memcpy_at_append [of "[]" 0 "[a0, a1, a2, a3]" ?s] by (simp add: b)
  have 2: "memcpy_at 4 ?a \<dots> = (?s @ ?a) @ a8 # [a9, a10, a11, a12, a13, a14, a15] @ rest"
    using memcpy_at_append [of ?s 4 "[a4, a5, a6, a7]" ?a] by simp
  have 3: "\<dots>[8 := flags h] = (?s @ ?a @ [flags h]) @ [a9, a10] @ [a11, a12, a13, a14, a15] @ rest"
    by (simp add: list_update_append)
  have 4: "memcpy_at 9 ?w \<dots> = (?s @ ?a @ [flags h] @ ?w) @ [a11, a12] @ [a13, a14, a15] @ rest"
    using memcpy_at_append [of "?s @ ?a @ [flags h]" 9 "[a9, a10]" ?w] by simp
  have 5: "memcpy_at 11 ?p \<dots> = (?s @ ?a @ [flags h] @ ?w @ ?p) @ [a13, a14] @ a15 # rest"
    using memcpy_at_append [of "?s @ ?a @ [flags h] @ ?w" 11 "[a11, a12]" ?p] by simp
  have 6: "memcpy_at 13 ?c \<dots> = (?s @ ?a @ [flags h] @ ?w @ ?p @ ?c) @ a15 # rest"
    using memcpy_at_append [of "?s @ ?a @ [flags h] @ ?w @ ?p" 13 "[a13, a14]" ?c] by simp
  have 7: "\<dots>[15 := reserved h] = header_bytes h @ rest"
    by (simp add: list_update_append header_bytes_def)
  show ?thesis
    unfolding serializeHeader_def Let_def 1 2 3 4 5 6 7 by (simp add: b)
qed

lemma deserializeHeader_header_bytes [simp]: "deserializeHeader (header_bytes h @ rest) = h"
  by (simp add: deserializeHeader_def header_bytes_def htonl_def htons_def ntohl_htonl ntohs_htons)

lemma header_bytes_deserializeHeader:
  assumes "16 \<le> length buffer"
  shows "header_bytes (deserializeHeader buffer) = take 16 buffer"
  using assms
  by (rule list_16_cases)
    (simp add: deserializeHeader_def header_bytes_def htonl_ntohl htons_ntohs)

text \<open>
  The wire codec of the header is lossless in both directions. What \<^verbatim>\<open>serializeHeader\<close> writes
  into a buffer of at least sixteen bytes, \<^verbatim>\<open>deserializeHeader\<close> reads back, and the bytes after the
  header are untouched; and writing a header that was read restores the very bytes it was read from.
\<close>

theorem header_codec_roundtrip:
  assumes "HEADER_SIZE \<le> length buffer"
  shows "deserializeHeader (serializeHeader h buffer) = h \<and>
    drop HEADER_SIZE (serializeHeader h buffer) = drop HEADER_SIZE buffer \<and>
    serializeHeader (deserializeHeader buffer) buffer = buffer"
  using assms header_bytes_deserializeHeader [of buffer]
  by (simp add: HEADER_SIZE_def serializeHeader_eq)

theorem header_codec_roundtrip_witness:
  "deserializeHeader (serializeHeader (zero_header\<lparr>seq_num := 7, flags := FLAG_DATA\<rparr>) (replicate 16 255)) =
   zero_header\<lparr>seq_num := 7, flags := FLAG_DATA\<rparr>"
  using header_codec_roundtrip [of "replicate 16 255" "zero_header\<lparr>seq_num := 7, flags := FLAG_DATA\<rparr>"]
  by (simp add: HEADER_SIZE_def)

end
