(* ===== verification/File_Io.thy ===== *)
theory File_Io
  imports Ascii_Translator Rdt_Header
begin

text \<open>
  Files: the chunked readers and the atomic writers of both sides
  (\<^verbatim>\<open>ChunkedFileReader\<close>, \<^verbatim>\<open>AsciiChunkedReader\<close>, \<^verbatim>\<open>ChunkedFileWriter\<close>) over a file system whose
  operations may fail. A locale states what a reader promises to the code that sends from it; both
  readers are interpretations of it.
\<close>

section \<open>The file system\<close>

text \<open>
  The files by path, the results of the operations to come (as in the script of the sockets: an
  operation past the end of the list succeeds) and the names \<^verbatim>\<open>GetTempFileNameW\<close> will hand out.
\<close>

type_synonym path = string

record fsys =
  files :: "path \<rightharpoonup> bytes"
  fsOk :: "bool list"
  tmpNames :: "path list"
  lastError :: "string \<times> string"

text \<open>
  \<open>lastError\<close> is what \<^verbatim>\<open>GetLastError\<close> reports after a failed call: the message of the system and the
  number of the error, as text.
\<close>

definition windowsFailure :: "string \<Rightarrow> string \<times> string \<Rightarrow> string" where
  "windowsFailure operation e = operation @ '': '' @ fst e @ '' (Windows error '' @ snd e @ '').''"

definition fs_try :: "fsys \<Rightarrow> bool \<times> fsys" where
  "fs_try F = (case fsOk F of [] \<Rightarrow> (True, F) | ok # rest \<Rightarrow> (ok, F\<lparr>fsOk := rest\<rparr>))"

text \<open>\<^verbatim>\<open>GetTempFileNameW\<close> creates an empty file with a new name; it may fail.\<close>

definition GetTempFileName :: "fsys \<Rightarrow> path option \<times> fsys" where
  "GetTempFileName F =
     (case fs_try F of
        (False, F1) \<Rightarrow> (None, F1)
      | (True, F1) \<Rightarrow>
          (case tmpNames F1 of
             [] \<Rightarrow> (None, F1)
           | t # ts \<Rightarrow> (Some t, F1\<lparr>tmpNames := ts, files := (files F1)(t \<mapsto> [])\<rparr>)))"

text \<open>Removing a file; a failure is ignored by every caller.\<close>

definition fs_remove :: "path \<Rightarrow> fsys \<Rightarrow> fsys" where
  "fs_remove p F =
     (case fs_try F of (False, F1) \<Rightarrow> F1 | (True, F1) \<Rightarrow> F1\<lparr>files := (files F1)(p := None)\<rparr>)"

text \<open>\<^verbatim>\<open>MoveFileExW\<close> with \<^verbatim>\<open>MOVEFILE_REPLACE_EXISTING\<close>: all or nothing.\<close>

definition MoveFile :: "path \<Rightarrow> path \<Rightarrow> fsys \<Rightarrow> bool \<times> fsys" where
  "MoveFile src dst F =
     (case fs_try F of
        (False, F1) \<Rightarrow> (False, F1)
      | (True, F1) \<Rightarrow>
          (case files F1 src of
             None \<Rightarrow> (False, F1)
           | Some bs \<Rightarrow> (True, F1\<lparr>files := ((files F1)(src := None))(dst \<mapsto> bs)\<rparr>)))"

lemma fs_try_files [simp]: "files (snd (fs_try F)) = files F" "tmpNames (snd (fs_try F)) = tmpNames F"
  by (auto simp: fs_try_def split: list.splits)

lemma fs_try_eq: "fs_try F = (ok, F1) \<Longrightarrow> files F1 = files F \<and> tmpNames F1 = tmpNames F"
  using fs_try_files [of F] by simp

section \<open>Readers\<close>

definition CHUNK_SIZE :: nat where "CHUNK_SIZE = MAX_PAYLOAD"

text \<open>
  \<^verbatim>\<open>ChunkedFileReader\<close>: the stream is open, and what it will still deliver. A read that delivers
  fewer bytes than asked for is at the end of the file.
\<close>

record ChunkedFileReader =
  streamOpen :: bool
  streamRest :: bytes

definition open_reader :: "path \<Rightarrow> fsys \<Rightarrow> ChunkedFileReader" where
  "open_reader p F =
     (case files F p of
        None \<Rightarrow> \<lparr>streamOpen = False, streamRest = []\<rparr>
      | Some bs \<Rightarrow> \<lparr>streamOpen = True, streamRest = bs\<rparr>)"

text \<open>\<open>None\<close> where the source returns false.\<close>

definition reader_nextChunk :: "ChunkedFileReader \<Rightarrow> (bytes \<times> ChunkedFileReader) option" where
  "reader_nextChunk r =
     (let chunk = take CHUNK_SIZE (streamRest r)
      in if chunk = [] then None
         else Some (chunk, r\<lparr>streamRest := drop CHUNK_SIZE (streamRest r)\<rparr>))"

record AsciiChunkedReader =
  ar_reader :: ChunkedFileReader
  ar_translator :: AsciiTranslator
  pendingOutput :: bytes

definition open_ascii_reader :: "path \<Rightarrow> fsys \<Rightarrow> AsciiChunkedReader" where
  "open_ascii_reader p F =
     \<lparr>ar_reader = open_reader p F, ar_translator = new_translator, pendingOutput = []\<rparr>"

text \<open>\<^verbatim>\<open>while (pendingOutput.size() < CHUNK_SIZE)\<close>\<close>

function ascii_fill :: "AsciiChunkedReader \<Rightarrow> AsciiChunkedReader" where
  "ascii_fill r =
     (if length (pendingOutput r) < CHUNK_SIZE
      then case reader_nextChunk (ar_reader r) of
          None \<Rightarrow> r
        | Some (raw, rd) \<Rightarrow>
            (case ascii_encode raw (ar_translator r) of
               (translated, t) \<Rightarrow>
                 ascii_fill (r\<lparr>ar_reader := rd, ar_translator := t,
                               pendingOutput := pendingOutput r @ translated\<rparr>))
      else r)"
  by pat_completeness auto
termination
  by (relation "measure (\<lambda>r. length (streamRest (ar_reader r)))")
    (auto simp: reader_nextChunk_def Let_def CHUNK_SIZE_def MAX_PAYLOAD_def split: if_splits)

declare ascii_fill.simps [simp del]

definition ascii_nextChunk :: "AsciiChunkedReader \<Rightarrow> (bytes \<times> AsciiChunkedReader) option" where
  "ascii_nextChunk r =
     (let r1 = ascii_fill r
      in if pendingOutput r1 = [] then None
         else let n = min (length (pendingOutput r1)) CHUNK_SIZE
           in Some (take n (pendingOutput r1), r1\<lparr>pendingOutput := drop n (pendingOutput r1)\<rparr>))"

subsection \<open>What a reader promises\<close>

text \<open>
  \<open>content\<close> is what the reader still has to deliver: it delivers it in order, in chunks of 1024 bytes
  and a last one that may be shorter, and says so when there is none left.
\<close>

locale chunk_reader =
  fixes nextChunk :: "'r \<Rightarrow> (bytes \<times> 'r) option"
    and content :: "'r \<Rightarrow> bytes"
  assumes next_None: "nextChunk r = None \<longleftrightarrow> content r = []"
    and next_Some: "nextChunk r = Some (c, r') \<Longrightarrow>
      content r \<noteq> [] \<and> c = take MAX_PAYLOAD (content r) \<and> content r' = drop MAX_PAYLOAD (content r)"
begin

lemma next_less: "nextChunk r = Some (c, r') \<Longrightarrow> length (content r') < length (content r)"
  using next_Some [of r c r'] by (simp add: MAX_PAYLOAD_def)

end

lemma reader_contract:
  "reader_nextChunk r = None \<longleftrightarrow> streamRest r = []"
  "reader_nextChunk r = Some (c, r') \<Longrightarrow>
     streamRest r \<noteq> [] \<and> c = take MAX_PAYLOAD (streamRest r) \<and> streamRest r' = drop MAX_PAYLOAD (streamRest r)"
  by (auto simp: reader_nextChunk_def Let_def CHUNK_SIZE_def MAX_PAYLOAD_def split: if_splits)

interpretation bin_reader: chunk_reader reader_nextChunk streamRest
  by unfold_locales (fact reader_contract)+

text \<open>The ASCII reader still has to deliver its pending output and the translation of the rest.\<close>

definition ascii_content :: "AsciiChunkedReader \<Rightarrow> bytes" where
  "ascii_content r =
     pendingOutput r @ crlf (encodeCarryCR (ar_translator r)) (streamRest (ar_reader r))"

lemma ascii_fill_content:
  "ascii_content (ascii_fill r) = ascii_content r \<and>
   (CHUNK_SIZE \<le> length (pendingOutput (ascii_fill r)) \<or> streamRest (ar_reader (ascii_fill r)) = [])"
proof (induction r rule: ascii_fill.induct)
  case (1 r)
  note eq = ascii_fill.simps [of r]
  show ?case
  proof (cases "length (pendingOutput r) < CHUNK_SIZE")
    case True
    show ?thesis
    proof (cases "reader_nextChunk (ar_reader r)")
      case None
      with reader_contract(1) [of "ar_reader r"] True show ?thesis by (simp add: eq)
    next
      case (Some p)
      obtain raw rd where p: "reader_nextChunk (ar_reader r) = Some (raw, rd)" using Some by (cases p) auto
      obtain out t where t: "ascii_encode raw (ar_translator r) = (out, t)" by fastforce
      have "out = crlf (encodeCarryCR (ar_translator r)) raw"
        "encodeCarryCR t = snd (normalizeToCRLF (encodeCarryCR (ar_translator r)) raw)"
        using t by (auto simp: ascii_encode_def split: prod.splits)
      then have "ascii_content (r\<lparr>ar_reader := rd, ar_translator := t, pendingOutput := pendingOutput r @ out\<rparr>) =
          ascii_content r"
        using reader_contract(2) [OF p] crlf_append [of "encodeCarryCR (ar_translator r)" raw "streamRest rd"]
        by (simp add: ascii_content_def)
      with "1.IH" [OF True p refl t [symmetric]] True p t show ?thesis by (simp add: eq)
    qed
  qed (simp add: eq)
qed

lemma ascii_contract:
  "ascii_nextChunk r = None \<longleftrightarrow> ascii_content r = []"
  "ascii_nextChunk r = Some (c, r') \<Longrightarrow>
     ascii_content r \<noteq> [] \<and> c = take MAX_PAYLOAD (ascii_content r) \<and>
     ascii_content r' = drop MAX_PAYLOAD (ascii_content r)"
proof -
  let ?f = "ascii_fill r"
  have full: "ascii_content r = ascii_content ?f"
    "CHUNK_SIZE \<le> length (pendingOutput ?f) \<or> streamRest (ar_reader ?f) = []"
    using ascii_fill_content [of r] by simp_all
  have "pendingOutput ?f = [] \<longleftrightarrow> ascii_content ?f = []"
    using full(2) by (auto simp: ascii_content_def CHUNK_SIZE_def MAX_PAYLOAD_def)
  with full(1) show "ascii_nextChunk r = None \<longleftrightarrow> ascii_content r = []"
    by (simp add: ascii_nextChunk_def Let_def)
  assume "ascii_nextChunk r = Some (c, r')"
  then show "ascii_content r \<noteq> [] \<and> c = take MAX_PAYLOAD (ascii_content r) \<and>
      ascii_content r' = drop MAX_PAYLOAD (ascii_content r)"
    using full
    by (auto simp: ascii_nextChunk_def Let_def ascii_content_def CHUNK_SIZE_def min_def split: if_splits)
qed

interpretation ascii_reader: chunk_reader ascii_nextChunk ascii_content
  by unfold_locales (fact ascii_contract)+

section \<open>The server's writer\<close>

text \<open>
  \<^verbatim>\<open>ChunkedFileWriter\<close>: chunks go to a temporary file beside the destination, which \<^verbatim>\<open>commit\<close> moves into
  place. \<open>outOpen\<close> is \<^verbatim>\<open>output.is_open()\<close>; an empty \<open>temporaryPath\<close> means there is none.
\<close>

record writer =
  destinationPath :: path
  temporaryPath :: path
  outOpen :: bool
  nextExpectedSequence :: u32
  committed :: bool
  valid :: bool

definition no_writer :: "path \<Rightarrow> writer" where
  "no_writer dest = \<lparr>destinationPath = dest, temporaryPath = [], outOpen = False,
     nextExpectedSequence = 0, committed = False, valid = False\<rparr>"

text \<open>
  Construction. \<open>absolute\<close> stands for \<^verbatim>\<open>fs::absolute\<close> followed by the test for a parent directory:
  \<open>None\<close> where the source returns early.
\<close>

definition sv_writer_new :: "(path \<Rightarrow> path option) \<Rightarrow> path \<Rightarrow> fsys \<Rightarrow> writer \<times> fsys" where
  "sv_writer_new absolute filePath F =
     (if filePath = [] then (no_writer [], F)
      else case absolute filePath of
          None \<Rightarrow> (no_writer [], F)
        | Some dest \<Rightarrow>
            (case GetTempFileName F of
               (None, F1) \<Rightarrow> (no_writer dest, F1)
             | (Some tmp, F1) \<Rightarrow>
                 (case fs_try F1 of
                    (False, F2) \<Rightarrow> (no_writer dest, fs_remove tmp F2)
                  | (True, F2) \<Rightarrow>
                      ((no_writer dest)\<lparr>temporaryPath := tmp, outOpen := True, valid := True\<rparr>,
                       F2\<lparr>files := (files F2)(tmp \<mapsto> [])\<rparr>))))"

text \<open>Bytes written to the stream reach the temporary file, unless the write fails.\<close>

definition stream_write :: "path \<Rightarrow> bytes \<Rightarrow> fsys \<Rightarrow> bool \<times> fsys" where
  "stream_write p bs F =
     (case fs_try F of
        (False, F1) \<Rightarrow> (False, F1)
      | (True, F1) \<Rightarrow>
          (True, F1\<lparr>files := (files F1)(p \<mapsto> (case files F1 p of None \<Rightarrow> [] | Some old \<Rightarrow> old) @ bs)\<rparr>))"

definition sv_appendChunk :: "u32 \<Rightarrow> bytes \<Rightarrow> writer \<Rightarrow> fsys \<Rightarrow> bool \<times> writer \<times> fsys" where
  "sv_appendChunk seqNum data wr F =
     (if \<not> valid wr \<or> committed wr \<or> seqNum \<noteq> nextExpectedSequence wr then (False, wr, F)
      else let (good, F1) = (if data \<noteq> [] then stream_write (temporaryPath wr) data F else (True, F))
        in if \<not> good then (False, wr, F1)
           else (True, wr\<lparr>nextExpectedSequence := nextExpectedSequence wr + 1\<rparr>, F1))"

text \<open>Flush, close and move, each of which may fail.\<close>

definition sv_commit :: "writer \<Rightarrow> fsys \<Rightarrow> bool \<times> writer \<times> fsys" where
  "sv_commit wr F =
     (if \<not> valid wr \<or> committed wr then (False, wr, F)
      else let (flushed, F1) = fs_try F
        in if \<not> flushed then (False, wr, F1)
           else let (closed, F2) = fs_try F1
             in if \<not> closed then (False, wr, F2)
                else let wr1 = wr\<lparr>outOpen := False\<rparr>;
                         (moved, F3) = MoveFile (temporaryPath wr1) (destinationPath wr1) F2
                  in if \<not> moved then (False, wr1, F3)
                     else (True, wr1\<lparr>committed := True, valid := False, temporaryPath := []\<rparr>, F3))"

definition writer_abort :: "writer \<Rightarrow> fsys \<Rightarrow> writer \<times> fsys" where
  "writer_abort wr F =
     (if committed wr then (wr, F)
      else let wr1 = wr\<lparr>outOpen := False\<rparr>
        in if temporaryPath wr1 \<noteq> []
           then (wr1\<lparr>temporaryPath := [], valid := False\<rparr>, fs_remove (temporaryPath wr1) F)
           else (wr1\<lparr>valid := False\<rparr>, F))"

section \<open>The client's writer\<close>

text \<open>
  The client inspects the destination before it downloads. What the operating system answers is a
  record of the results of the calls of \<^verbatim>\<open>resolveDestination\<close>; \<open>Some e\<close> is an error with message \<open>e\<close>.
\<close>

record dest_probe =
  absoluteResult :: "path + string"
  parentEmpty :: bool
  parentExists :: "bool + string"
  parentIsDirectory :: "bool + string"
  destExists :: "bool + string"
  destIsDirectory :: "bool + string"
  destAttributes :: "bool + (string \<times> string)"
  destReplaceable :: "(string \<times> string) option"

definition resolveDestination :: "dest_probe \<Rightarrow> path \<Rightarrow> string + path" where
  "resolveDestination os filePath =
     (if filePath = [] then Inl ''The local destination path is empty.''
      else case absoluteResult os of
          Inr e \<Rightarrow> Inl (''Could not resolve the local destination: '' @ e @ ''.'')
        | Inl destination \<Rightarrow>
            if parentEmpty os then Inl ''The local destination has no parent directory.''
            else case parentExists os of
                Inr e \<Rightarrow> Inl (''Could not inspect the parent directory: '' @ e @ ''.'')
              | Inl False \<Rightarrow> Inl ''The parent directory does not exist.''
              | Inl True \<Rightarrow>
                  (case parentIsDirectory os of
                     Inr e \<Rightarrow> Inl (''Could not inspect the parent directory: '' @ e @ ''.'')
                   | Inl False \<Rightarrow> Inl ''The destination parent is not a directory.''
                   | Inl True \<Rightarrow>
                       (case destExists os of
                          Inr e \<Rightarrow> Inl (''Could not inspect the local destination: '' @ e @ ''.'')
                        | Inl False \<Rightarrow> Inr destination
                        | Inl True \<Rightarrow>
                            (case destIsDirectory os of
                               Inl True \<Rightarrow> Inl ''The local destination is a directory; specify a filename.''
                             | Inr e \<Rightarrow> Inl (''Could not inspect the local destination: '' @ e @ ''.'')
                             | Inl False \<Rightarrow>
                                 (case destAttributes os of
                                    Inr e \<Rightarrow> Inl (windowsFailure ''Could not inspect the local destination'' e)
                                  | Inl True \<Rightarrow> Inl ''The local destination is read-only.''
                                  | Inl False \<Rightarrow>
                                      (case destReplaceable os of
                                         Some e \<Rightarrow> Inl (windowsFailure ''The local destination cannot be replaced'' e)
                                       | None \<Rightarrow> Inr destination))))))"

record cl_writer = writer +
  failureReason :: string

definition cl_no_writer :: "path \<Rightarrow> string \<Rightarrow> cl_writer" where
  "cl_no_writer dest reason = \<lparr>destinationPath = dest, temporaryPath = [], outOpen = False,
     nextExpectedSequence = 0, committed = False, valid = False, failureReason = reason\<rparr>"

definition cl_writer_new :: "dest_probe \<Rightarrow> path \<Rightarrow> fsys \<Rightarrow> cl_writer \<times> fsys" where
  "cl_writer_new os filePath F =
     (case resolveDestination os filePath of
        Inl reason \<Rightarrow> (cl_no_writer [] reason, F)
      | Inr dest \<Rightarrow>
          (case GetTempFileName F of
             (None, F1) \<Rightarrow>
               (cl_no_writer dest (windowsFailure ''Could not create a temporary download file'' (lastError F1)), F1)
           | (Some tmp, F1) \<Rightarrow>
               (case fs_try F1 of
                  (False, F2) \<Rightarrow>
                    (cl_no_writer dest ''Could not open the temporary download file for writing.'',
                     fs_remove tmp F2)
                | (True, F2) \<Rightarrow>
                    ((cl_no_writer dest [])\<lparr>temporaryPath := tmp, outOpen := True, valid := True\<rparr>,
                     F2\<lparr>files := (files F2)(tmp \<mapsto> [])\<rparr>))))"

definition validateDestination :: "dest_probe \<Rightarrow> path \<Rightarrow> fsys \<Rightarrow> string option \<times> fsys" where
  "validateDestination os filePath F =
     (case resolveDestination os filePath of
        Inl reason \<Rightarrow> (Some reason, F)
      | Inr dest \<Rightarrow>
          (case GetTempFileName F of
             (None, F1) \<Rightarrow> (Some (windowsFailure ''Could not create a temporary download file'' (lastError F1)), F1)
           | (Some probe, F1) \<Rightarrow>
               (case fs_try F1 of
                  (False, F2) \<Rightarrow>
                    (Some (windowsFailure ''Could not clean up the temporary destination probe'' (lastError F2)),
                     fs_remove probe F2)
                | (True, F2) \<Rightarrow> (None, F2\<lparr>files := (files F2)(probe := None)\<rparr>))))"

definition cl_appendChunk :: "u32 \<Rightarrow> bytes \<Rightarrow> cl_writer \<Rightarrow> fsys \<Rightarrow> bool \<times> cl_writer \<times> fsys" where
  "cl_appendChunk seqNum data wr F =
     (if \<not> valid wr
      then (False, (if failureReason wr = []
                    then wr\<lparr>failureReason := ''The temporary download file is not available.''\<rparr> else wr), F)
      else if committed wr
      then (False, wr\<lparr>failureReason := ''The download file was already committed.''\<rparr>, F)
      else if seqNum \<noteq> nextExpectedSequence wr
      then (False, wr\<lparr>failureReason := ''Received an unexpected data sequence number.''\<rparr>, F)
      else let (good, F1) = (if data \<noteq> [] then stream_write (temporaryPath wr) data F else (True, F))
        in if \<not> good
           then (False, wr\<lparr>failureReason := ''Could not write data to the temporary download file.''\<rparr>, F1)
           else (True, wr\<lparr>nextExpectedSequence := nextExpectedSequence wr + 1\<rparr>, F1))"

definition cl_commit :: "cl_writer \<Rightarrow> fsys \<Rightarrow> bool \<times> cl_writer \<times> fsys" where
  "cl_commit wr F =
     (if \<not> valid wr \<or> committed wr
      then (False, (if failureReason wr = []
                    then wr\<lparr>failureReason := ''The temporary download file cannot be committed.''\<rparr> else wr), F)
      else let (flushed, F1) = fs_try F
        in if \<not> flushed
           then (False, wr\<lparr>failureReason := ''Could not flush the temporary download file.''\<rparr>, F1)
           else let (closed, F2) = fs_try F1
             in if \<not> closed
                then (False, wr\<lparr>failureReason := ''Could not close the temporary download file.''\<rparr>, F2)
                else let wr1 = wr\<lparr>outOpen := False\<rparr>;
                         (moved, F3) = MoveFile (temporaryPath wr1) (destinationPath wr1) F2
                  in if \<not> moved
                     then (False, wr1\<lparr>failureReason :=
                            windowsFailure ''Could not replace the local destination'' (lastError F3)\<rparr>, F3)
                     else (True, wr1\<lparr>committed := True, valid := False, temporaryPath := []\<rparr>, F3))"

definition cl_writer_abort :: "cl_writer \<Rightarrow> fsys \<Rightarrow> cl_writer \<times> fsys" where
  "cl_writer_abort wr F =
     (if committed wr then (wr, F)
      else let wr1 = wr\<lparr>outOpen := False\<rparr>
        in if temporaryPath wr1 \<noteq> []
           then (wr1\<lparr>temporaryPath := [], valid := False\<rparr>, fs_remove (temporaryPath wr1) F)
           else (wr1\<lparr>valid := False\<rparr>, F))"

section \<open>What a writer promises\<close>

text \<open>The temporary file of an open writer holds \<open>bs\<close>, and chunk \<open>n\<close> comes next.\<close>

definition writing :: "'a writer_scheme \<Rightarrow> fsys \<Rightarrow> bytes \<Rightarrow> u32 \<Rightarrow> bool" where
  "writing wr F bs n \<longleftrightarrow>
     valid wr \<and> \<not> committed wr \<and> temporaryPath wr \<noteq> [] \<and> temporaryPath wr \<noteq> destinationPath wr \<and>
     files F (temporaryPath wr) = Some bs \<and> nextExpectedSequence wr = n"

text \<open>Two file systems agree outside the file \<open>p\<close>.\<close>

definition same_except :: "path \<Rightarrow> fsys \<Rightarrow> fsys \<Rightarrow> bool" where
  "same_except p F F' \<longleftrightarrow> (\<forall>q. q \<noteq> p \<longrightarrow> files F' q = files F q)"

lemma same_except_refl [simp]: "same_except p F F"
  by (simp add: same_except_def)

lemma same_except_trans: "same_except p F F1 \<Longrightarrow> same_except p F1 F2 \<Longrightarrow> same_except p F F2"
  by (simp add: same_except_def)

lemma same_except_files: "files F' = files F \<Longrightarrow> same_except p F F'"
  by (simp add: same_except_def)

locale chunk_writer =
  fixes append :: "u32 \<Rightarrow> bytes \<Rightarrow> 'a writer_scheme \<Rightarrow> fsys \<Rightarrow> bool \<times> 'a writer_scheme \<times> fsys"
    and commit :: "'a writer_scheme \<Rightarrow> fsys \<Rightarrow> bool \<times> 'a writer_scheme \<times> fsys"
    and abort :: "'a writer_scheme \<Rightarrow> fsys \<Rightarrow> 'a writer_scheme \<times> fsys"
  assumes append_paths: "append n d wr F = (ok, wr', F') \<Longrightarrow>
      destinationPath wr' = destinationPath wr \<and> temporaryPath wr' = temporaryPath wr \<and>
      (committed wr' \<longleftrightarrow> committed wr) \<and> same_except (temporaryPath wr) F F'"
    and append_writing: "append n d wr F = (True, wr', F') \<Longrightarrow> writing wr F bs m \<Longrightarrow>
      n = m \<and> writing wr' F' (bs @ d) (m + 1)"
    and commit_ok: "commit wr F = (True, wr', F') \<Longrightarrow> writing wr F bs m \<Longrightarrow>
      committed wr' \<and> files F' = (files F)(temporaryPath wr := None, destinationPath wr \<mapsto> bs)"
    and commit_failed: "commit wr F = (False, wr', F') \<Longrightarrow> writing wr F bs m \<Longrightarrow>
      \<not> committed wr' \<and> destinationPath wr' = destinationPath wr \<and>
      temporaryPath wr' = temporaryPath wr \<and> files F' = files F"
    and abort_committed: "abort wr F = (wr', F') \<Longrightarrow> committed wr \<Longrightarrow> files F' = files F"
    and abort_open: "abort wr F = (wr', F') \<Longrightarrow> \<not> committed wr \<Longrightarrow> same_except (temporaryPath wr) F F'"
begin

text \<open>Whatever happens before it, a writer that ends without a commit leaves every other file alone.\<close>

lemma abort_unchanged:
  assumes "same_except (temporaryPath wr) F F1" "\<not> committed wr" "abort wr F1 = (wr', F2)"
    "p \<noteq> temporaryPath wr"
  shows "files F2 p = files F p"
  using assms abort_open [OF assms(3,2)] by (simp add: same_except_def)

end

lemma stream_write_files:
  assumes "stream_write p bs F = (ok, F')"
  shows "same_except p F F'" "ok \<Longrightarrow> files F p = Some old \<Longrightarrow> files F' p = Some (old @ bs)"
proof -
  obtain b F1 where b: "fs_try F = (b, F1)" by fastforce
  with assms fs_try_eq [OF b] show "same_except p F F'"
    "ok \<Longrightarrow> files F p = Some old \<Longrightarrow> files F' p = Some (old @ bs)"
    by (cases b; force simp: stream_write_def same_except_def)+
qed

lemma MoveFile_files:
  assumes "MoveFile src dst F = (ok, F')"
  shows "\<not> ok \<Longrightarrow> files F' = files F"
    "ok \<Longrightarrow> files F src = Some bs \<Longrightarrow> files F' = (files F)(src := None, dst \<mapsto> bs)"
proof -
  obtain b F1 where b: "fs_try F = (b, F1)" by fastforce
  with assms fs_try_eq [OF b] show "\<not> ok \<Longrightarrow> files F' = files F"
    "ok \<Longrightarrow> files F src = Some bs \<Longrightarrow> files F' = (files F)(src := None, dst \<mapsto> bs)"
    by (cases b; auto simp: MoveFile_def split: option.splits)+
qed

lemma fs_remove_files: "same_except p F (fs_remove p F)"
proof -
  obtain b F1 where b: "fs_try F = (b, F1)" by fastforce
  with fs_try_eq [OF b] show ?thesis by (cases b) (auto simp: fs_remove_def same_except_def)
qed

text \<open>The steps of a commit, for both writers.\<close>

lemma commit_steps:
  assumes "fs_try F = (a, F1)" "fs_try F1 = (b, F2)" "MoveFile t d F2 = (c, F3)"
  shows "files F1 = files F" "files F2 = files F" "\<not> c \<Longrightarrow> files F3 = files F"
    "c \<Longrightarrow> files F t = Some bs \<Longrightarrow> files F3 = (files F)(t := None, d \<mapsto> bs)"
  using fs_try_eq [OF assms(1)] fs_try_eq [OF assms(2)] MoveFile_files [OF assms(3)] by simp_all

text \<open>Appending: nothing happens, or the data reaches the temporary file.\<close>

definition appended :: "path \<Rightarrow> bytes \<Rightarrow> fsys \<Rightarrow> fsys \<Rightarrow> bool" where
  "appended p d F F' \<longleftrightarrow> same_except p F F' \<and>
     (\<forall>bs. files F p = Some bs \<longrightarrow> files F' p = Some (bs @ d))"

lemma append_data:
  assumes "(if d \<noteq> [] then stream_write p d F else (True, F)) = (good, F')"
  shows "same_except p F F'" "good \<Longrightarrow> appended p d F F'"
  using assms stream_write_files [of p d F good F'] by (auto simp: appended_def split: if_splits)

lemma sv_appendE:
  assumes "sv_appendChunk n d wr F = (ok, wr', F')"
  obtains (refused) "\<not> ok" "wr' = wr" "same_except (temporaryPath wr) F F'"
  | (stored) "ok" "valid wr" "n = nextExpectedSequence wr"
    "wr' = wr\<lparr>nextExpectedSequence := nextExpectedSequence wr + 1\<rparr>" "appended (temporaryPath wr) d F F'"
proof (cases "valid wr \<and> \<not> committed wr \<and> n = nextExpectedSequence wr")
  case True
  obtain g F1 where g: "(if d \<noteq> [] then stream_write (temporaryPath wr) d F else (True, F)) = (g, F1)" by fastforce
  have eq: "sv_appendChunk n d wr F =
      (if g then (True, wr\<lparr>nextExpectedSequence := nextExpectedSequence wr + 1\<rparr>, F1) else (False, wr, F1))"
    unfolding sv_appendChunk_def g using True by simp
  show thesis
  proof (cases g)
    case ok: True
    show thesis by (rule stored) (use ok eq assms True append_data [OF g] in auto)
  next
    case False
    show thesis by (rule refused) (use False eq assms append_data [OF g] in auto)
  qed
next
  case False
  with assms refused show thesis by (auto simp: sv_appendChunk_def)
qed

lemma cl_appendE:
  assumes "cl_appendChunk n d wr F = (ok, wr', F')"
  obtains (refused) reason where "\<not> ok" "wr' = wr\<lparr>failureReason := reason\<rparr>" "same_except (temporaryPath wr) F F'"
  | (stored) "ok" "valid wr" "n = nextExpectedSequence wr"
    "wr' = wr\<lparr>nextExpectedSequence := nextExpectedSequence wr + 1\<rparr>" "appended (temporaryPath wr) d F F'"
proof (cases "valid wr \<and> \<not> committed wr \<and> n = nextExpectedSequence wr")
  case True
  obtain g F1 where g: "(if d \<noteq> [] then stream_write (temporaryPath wr) d F else (True, F)) = (g, F1)" by fastforce
  let ?r = "''Could not write data to the temporary download file.''"
  have eq: "cl_appendChunk n d wr F =
      (if g then (True, wr\<lparr>nextExpectedSequence := nextExpectedSequence wr + 1\<rparr>, F1)
       else (False, wr\<lparr>failureReason := ?r\<rparr>, F1))"
    unfolding cl_appendChunk_def g using True by simp
  show thesis
  proof (cases g)
    case ok: True
    show thesis by (rule stored) (use ok eq assms True append_data [OF g] in auto)
  next
    case False
    show thesis by (rule refused [of ?r]) (use False eq assms append_data [OF g] in auto)
  qed
next
  case False
  then have "\<exists>reason. cl_appendChunk n d wr F = (False, wr\<lparr>failureReason := reason\<rparr>, F)"
    by (auto simp: cl_appendChunk_def intro: exI [of _ "failureReason wr"])
  with assms refused show thesis by auto
qed

lemma sv_commit_eq:
  assumes "valid wr" "\<not> committed wr" "fs_try F = (a, F1)" "fs_try F1 = (b, F2)"
    "MoveFile (temporaryPath wr) (destinationPath wr) F2 = (c, F3)"
  shows "sv_commit wr F =
      (if \<not> a then (False, wr, F1) else if \<not> b then (False, wr, F2)
       else if \<not> c then (False, wr\<lparr>outOpen := False\<rparr>, F3)
       else (True, wr\<lparr>outOpen := False, committed := True, valid := False, temporaryPath := []\<rparr>, F3))"
  using assms by (simp add: sv_commit_def)

lemma cl_commit_eq:
  assumes "valid wr" "\<not> committed wr" "fs_try F = (a, F1)" "fs_try F1 = (b, F2)"
    "MoveFile (temporaryPath wr) (destinationPath wr) F2 = (c, F3)"
  shows "cl_commit wr F =
      (if \<not> a then (False, wr\<lparr>failureReason := ''Could not flush the temporary download file.''\<rparr>, F1)
       else if \<not> b then (False, wr\<lparr>failureReason := ''Could not close the temporary download file.''\<rparr>, F2)
       else if \<not> c then (False, wr\<lparr>outOpen := False, failureReason :=
            windowsFailure ''Could not replace the local destination'' (lastError F3)\<rparr>, F3)
       else (True, wr\<lparr>outOpen := False, committed := True, valid := False, temporaryPath := []\<rparr>, F3))"
  using assms by (simp add: cl_commit_def)

lemma commit_outcome:
  assumes "writing wr F bs m" "fs_try F = (a, F1)" "fs_try F1 = (b, F2)"
    "MoveFile (temporaryPath wr) (destinationPath wr) F2 = (c, F3)"
    "R = (if \<not> a then (False, wr1, F1) else if \<not> b then (False, wr2, F2)
          else if \<not> c then (False, wr3, F3) else (True, wr4, F3))" "R = (ok, wr', F')"
    "\<forall>x \<in> {wr1, wr2, wr3}. committed x = committed wr \<and> destinationPath x = destinationPath wr \<and>
       temporaryPath x = temporaryPath wr" "committed wr4"
  shows "if ok then committed wr' \<and> files F' = (files F)(temporaryPath wr := None, destinationPath wr \<mapsto> bs)
    else \<not> committed wr' \<and> destinationPath wr' = destinationPath wr \<and>
      temporaryPath wr' = temporaryPath wr \<and> files F' = files F"
proof -
  have wr: "\<not> committed wr" "files F (temporaryPath wr) = Some bs" using assms(1) by (simp_all add: writing_def)
  note fsx = commit_steps [OF assms(2-4)]
  show ?thesis
  proof (cases "a \<and> b \<and> c")
    case True
    then have "ok" "wr' = wr4" "F' = F3" using assms(5,6) by simp_all
    with True assms(8) fsx(4) wr(2) show ?thesis by simp
  next
    case False
    then have nok: "\<not> ok" "wr' = wr1 \<or> wr' = wr2 \<or> wr' = wr3" using assms(5,6) by (auto split: if_splits)
    have "F' = F1 \<or> F' = F2 \<or> F' = F3 \<and> \<not> c" using False assms(5,6) by (auto split: if_splits)
    then have "files F' = files F" using fsx(1-3) by (elim disjE conjE) simp_all
    moreover from nok(2) have mem: "wr' \<in> {wr1, wr2, wr3}" by simp
    ultimately show ?thesis using bspec [OF assms(7) mem] wr(1) nok(1) by simp
  qed
qed

lemma sv_commit_outcome:
  assumes "sv_commit wr F = (ok, wr', F')" "writing wr F bs m"
  shows "if ok then committed wr' \<and> files F' = (files F)(temporaryPath wr := None, destinationPath wr \<mapsto> bs)
    else \<not> committed wr' \<and> destinationPath wr' = destinationPath wr \<and>
      temporaryPath wr' = temporaryPath wr \<and> files F' = files F"
proof -
  obtain a F1 where a: "fs_try F = (a, F1)" by fastforce
  obtain b F2 where b: "fs_try F1 = (b, F2)" by fastforce
  obtain c F3 where c: "MoveFile (temporaryPath wr) (destinationPath wr) F2 = (c, F3)" by fastforce
  have "valid wr" "\<not> committed wr" using assms(2) by (simp_all add: writing_def)
  from commit_outcome [OF assms(2) a b c sv_commit_eq [OF this a b c] assms(1)] show ?thesis by simp
qed

lemma cl_commit_outcome:
  assumes "cl_commit wr F = (ok, wr', F')" "writing wr F bs m"
  shows "if ok then committed wr' \<and> files F' = (files F)(temporaryPath wr := None, destinationPath wr \<mapsto> bs)
    else \<not> committed wr' \<and> destinationPath wr' = destinationPath wr \<and>
      temporaryPath wr' = temporaryPath wr \<and> files F' = files F"
proof -
  obtain a F1 where a: "fs_try F = (a, F1)" by fastforce
  obtain b F2 where b: "fs_try F1 = (b, F2)" by fastforce
  obtain c F3 where c: "MoveFile (temporaryPath wr) (destinationPath wr) F2 = (c, F3)" by fastforce
  have "valid wr" "\<not> committed wr" using assms(2) by (simp_all add: writing_def)
  from commit_outcome [OF assms(2) a b c cl_commit_eq [OF this a b c] assms(1)] show ?thesis by simp
qed

interpretation sv_wr: chunk_writer sv_appendChunk sv_commit writer_abort
proof
  fix n d bs m ok F F' and wr wr' :: writer
  show "destinationPath wr' = destinationPath wr \<and> temporaryPath wr' = temporaryPath wr \<and>
      (committed wr' \<longleftrightarrow> committed wr) \<and> same_except (temporaryPath wr) F F'"
    if "sv_appendChunk n d wr F = (ok, wr', F')"
    using that by (cases rule: sv_appendE) (auto simp: appended_def)
  show "n = m \<and> writing wr' F' (bs @ d) (m + 1)"
    if "sv_appendChunk n d wr F = (True, wr', F')" "writing wr F bs m"
    using that by (cases rule: sv_appendE) (auto simp: writing_def appended_def)
  show "committed wr' \<and> files F' = (files F)(temporaryPath wr := None, destinationPath wr \<mapsto> bs)"
    if "sv_commit wr F = (True, wr', F')" "writing wr F bs m"
    using sv_commit_outcome [OF that] by simp
  show "\<not> committed wr' \<and> destinationPath wr' = destinationPath wr \<and>
      temporaryPath wr' = temporaryPath wr \<and> files F' = files F"
    if "sv_commit wr F = (False, wr', F')" "writing wr F bs m"
    using sv_commit_outcome [OF that] by simp
  show "files F' = files F" if "writer_abort wr F = (wr', F')" "committed wr"
    using that by (simp add: writer_abort_def)
  show "same_except (temporaryPath wr) F F'" if "writer_abort wr F = (wr', F')" "\<not> committed wr"
    using that fs_remove_files by (auto simp: writer_abort_def Let_def split: if_splits)
qed

interpretation cl_wr: chunk_writer cl_appendChunk cl_commit cl_writer_abort
proof
  fix n d bs m ok F F' and wr wr' :: cl_writer
  show "destinationPath wr' = destinationPath wr \<and> temporaryPath wr' = temporaryPath wr \<and>
      (committed wr' \<longleftrightarrow> committed wr) \<and> same_except (temporaryPath wr) F F'"
    if "cl_appendChunk n d wr F = (ok, wr', F')"
    using that by (cases rule: cl_appendE) (auto simp: appended_def)
  show "n = m \<and> writing wr' F' (bs @ d) (m + 1)"
    if "cl_appendChunk n d wr F = (True, wr', F')" "writing wr F bs m"
    using that by (cases rule: cl_appendE) (auto simp: writing_def appended_def)
  show "committed wr' \<and> files F' = (files F)(temporaryPath wr := None, destinationPath wr \<mapsto> bs)"
    if "cl_commit wr F = (True, wr', F')" "writing wr F bs m"
    using cl_commit_outcome [OF that] by simp
  show "\<not> committed wr' \<and> destinationPath wr' = destinationPath wr \<and>
      temporaryPath wr' = temporaryPath wr \<and> files F' = files F"
    if "cl_commit wr F = (False, wr', F')" "writing wr F bs m"
    using cl_commit_outcome [OF that] by simp
  show "files F' = files F" if "cl_writer_abort wr F = (wr', F')" "committed wr"
    using that by (simp add: cl_writer_abort_def)
  show "same_except (temporaryPath wr) F F'" if "cl_writer_abort wr F = (wr', F')" "\<not> committed wr"
    using that fs_remove_files by (auto simp: cl_writer_abort_def Let_def split: if_splits)
qed

end
