(* ===== verification/Check_Sum.thy ===== *)
theory Check_Sum
  imports Prelude
begin

unbundle bit_operations_syntax

text \<open>
  The Internet checksum of \<^verbatim>\<open>shared/protocol/CheckSum.cpp\<close> on 32-bit words, the loop that folds
  the carries back with its termination proof, and its equivalence with the ones'-complement sum
  over natural numbers. The last group of lemmas shows that the checksum tells apart any two
  byte strings that differ in a single byte.
\<close>

section \<open>The checksum as the code computes it\<close>

text \<open>The pair loop and the odd last byte: \<^verbatim>\<open>sum\<close> is a \<^verbatim>\<open>uint32_t\<close> and wraps.\<close>

fun checksum_sum :: "u32 \<Rightarrow> bytes \<Rightarrow> u32" where
  "checksum_sum s (a # b # rest) =
     checksum_sum (s + (push_bit 8 (ucast a) OR ucast b)) rest"
| "checksum_sum s [a] = s + push_bit 8 (ucast a)"
| "checksum_sum s [] = s"

lemma unat_fold_carry:
  "unat ((s AND 0xffff) + drop_bit 16 s :: u32) = unat s mod 65536 + unat s div 65536"
proof -
  have "unat s mod 65536 + unat s div 65536 < 2 ^ 32"
    using unat_u32_less [of s] by simp
  then show ?thesis by (simp add: unat_word_ariths unat_and_ffff unat_shr16)
qed

lemma fold_carry_less:
  "drop_bit 16 s \<noteq> (0::u32) \<Longrightarrow> unat ((s AND 0xffff) + drop_bit 16 s) < unat s"
proof -
  assume "drop_bit 16 s \<noteq> (0::u32)"
  then have "0 < unat s div 65536" by (metis unat_shr16 unat_gt_0)
  moreover have "unat s = 65536 * (unat s div 65536) + unat s mod 65536" by simp
  ultimately show ?thesis unfolding unat_fold_carry by linarith
qed

text \<open>\<^verbatim>\<open>while (sum >> 16) sum = (sum & 0xffff) + (sum >> 16);\<close>\<close>

function fold_carries :: "u32 \<Rightarrow> u32" where
  "fold_carries s =
     (if drop_bit 16 s \<noteq> 0 then fold_carries ((s AND 0xffff) + drop_bit 16 s) else s)"
  by pat_completeness auto
termination
  by (relation "measure unat") (auto simp: fold_carry_less)

declare fold_carries.simps [simp del]

definition internetChecksum :: "bytes \<Rightarrow> u16" where
  "internetChecksum data = ucast (NOT (fold_carries (checksum_sum 0 data)))"

section \<open>The ones'-complement sum\<close>

fun word_sum :: "bytes \<Rightarrow> nat" where
  "word_sum (a # b # rest) = 256 * unat a + unat b + word_sum rest"
| "word_sum [a] = 256 * unat a"
| "word_sum [] = 0"

text \<open>The representative of \<open>n\<close> modulo 65535 in \<open>1..65535\<close>, and 0 for 0.\<close>

definition ones_complement :: "nat \<Rightarrow> nat" where
  "ones_complement n = (if n = 0 then 0 else (n - 1) mod 65535 + 1)"

lemma word_sum_bound: "word_sum xs \<le> 65535 * ((length xs + 1) div 2)"
proof (induction xs rule: word_sum.induct)
  case (1 a b rest)
  have "(length (a # b # rest) + 1) div 2 = (length rest + 1) div 2 + 1" by simp
  with 1 show ?case using unat_byte_less [of a] unat_byte_less [of b] by simp
next
  case (2 a)
  show ?case using unat_byte_less [of a] by simp
qed simp

lemma checksum_sum_word_sum:
  "unat s + word_sum xs < 2 ^ 32 \<Longrightarrow> unat (checksum_sum s xs) = unat s + word_sum xs"
proof (induction s xs rule: checksum_sum.induct)
  case (1 s a b rest)
  let ?p = "push_bit 8 (ucast a) OR ucast b :: u32"
  have p: "unat ?p = 256 * unat a + unat b" by (rule unat_byte_pair)
  then have "unat (s + ?p) = unat s + (256 * unat a + unat b)"
    using "1.prems" by (simp add: unat_word_ariths)
  with 1 show ?case by simp
next
  case (2 s a)
  then show ?case by (simp add: unat_word_ariths unat_shift8_byte)
qed simp

lemma ones_complement_fold:
  "ones_complement (n mod 65536 + n div 65536) = ones_complement n"
proof (cases "n = 0")
  case False
  have n: "n = (n mod 65536 + n div 65536) + 65535 * (n div 65536)"
    using div_mult_mod_eq [of n 65536] by linarith
  have pos: "0 < n mod 65536 + n div 65536" using False n by linarith
  have "(n - 1) mod 65535 = (n mod 65536 + n div 65536 - 1 + 65535 * (n div 65536)) mod 65535"
    using pos n by (metis Nat.add_diff_assoc2 One_nat_def Suc_leI)
  also have "\<dots> = (n mod 65536 + n div 65536 - 1) mod 65535" by (rule mod_mult_self2)
  finally show ?thesis using False pos by (simp add: ones_complement_def)
qed (simp add: ones_complement_def)

lemma ones_complement_small: "n < 65536 \<Longrightarrow> ones_complement n = n"
  by (simp add: ones_complement_def)

lemma unat_fold_carries: "unat (fold_carries s) = ones_complement (unat s)"
proof (induction s rule: fold_carries.induct)
  case (1 s)
  show ?case
  proof (cases "drop_bit 16 s = 0")
    case True
    then have "unat s div 65536 = 0" by (metis unat_shr16 unat_0)
    then have "unat s < 65536" by simp
    with True show ?thesis by (simp add: fold_carries.simps [of s] ones_complement_small)
  next
    case False
    with 1 show ?thesis
      by (simp add: fold_carries.simps [of s] unat_fold_carry ones_complement_fold)
  qed
qed

lemma ones_complement_le: "ones_complement n \<le> 65535"
proof -
  have "(n - 1) mod 65535 < 65535" by simp
  then have "(n - 1) mod 65535 + 1 \<le> 65535" by linarith
  then show ?thesis by (simp add: ones_complement_def)
qed

lemma fold_carries_16_bit: "unat (fold_carries s) < 65536"
  using ones_complement_le [of "unat s"] by (simp add: unat_fold_carries)

lemma unat_internetChecksum:
  assumes "word_sum data < 2 ^ 32"
  shows "unat (internetChecksum data) = 65535 - ones_complement (word_sum data)"
proof -
  let ?f = "fold_carries (checksum_sum 0 data)"
  have "(ucast (NOT ?f) :: u16) = NOT (ucast ?f)"
    by (rule bit_word_eqI) (auto simp: bit_simps)
  moreover have "unat (ucast ?f :: u16) = unat ?f"
    using fold_carries_16_bit [of "checksum_sum 0 data"]
    by (simp add: unsigned_ucast_eq take_bit_nat_eq_self)
  ultimately have "unat (internetChecksum data) = 65535 - unat ?f"
    by (simp add: internetChecksum_def unat_not_u16)
  also have "unat ?f = ones_complement (word_sum data)"
    using checksum_sum_word_sum [of 0 data] assms by (simp add: unat_fold_carries)
  finally show ?thesis .
qed

section \<open>Sensitivity to a single byte\<close>

lemma ones_complement_mod: "ones_complement n mod 65535 = n mod 65535"
proof (cases "n = 0")
  case False
  have "((n - 1) mod 65535 + 1) mod 65535 = (n - 1 + 1) mod 65535" by (rule mod_add_left_eq)
  with False show ?thesis by (simp add: ones_complement_def)
qed (simp add: ones_complement_def)

lemma mod_add_cancel_less:
  fixes m u v r :: nat
  assumes "u < m" and "v < m"
  shows "(r + u) mod m = (r + v) mod m \<longleftrightarrow> u = v"
proof -
  have *: "v' = u'" if "(r + u') mod m = (r + v') mod m" "u' \<le> v'" "v' < m" for u' v'
  proof -
    have "m dvd (r + v') - (r + u')"
      using that by (metis add_left_mono mod_eq_dvd_iff_nat)
    then have "m dvd v' - u'" by simp
    with that show ?thesis using nat_dvd_not_less [of "v' - u'" m] by force
  qed
  show ?thesis using * [of u v] * [of v u] assms by (metis linear)
qed

text \<open>Replacing a byte changes the sum by less than 65535 in either direction.\<close>

lemma word_sum_update:
  "i < length xs \<Longrightarrow>
   \<exists>r. word_sum (xs[i := b]) = r + (if even i then 256 * unat b else unat b) \<and>
       word_sum xs = r + (if even i then 256 * unat (xs ! i) else unat (xs ! i))"
proof (induction xs arbitrary: i rule: word_sum.induct)
  case (1 x y rest)
  consider "i = 0" | "i = 1" | j where "i = Suc (Suc j)" by (metis One_nat_def not0_implies_Suc)
  then show ?case
  proof cases
    case (3 j)
    with 1 obtain r where
      "word_sum (rest[j := b]) = r + (if even j then 256 * unat b else unat b)"
      "word_sum rest = r + (if even j then 256 * unat (rest ! j) else unat (rest ! j))"
      by auto
    then show ?thesis using 3 by (intro exI [of _ "256 * unat x + unat y + r"]) simp
  next
    case 1
    then show ?thesis by (intro exI [of _ "unat y + word_sum rest"]) simp
  next
    case 2
    then show ?thesis by (intro exI [of _ "256 * unat x + word_sum rest"]) simp
  qed
qed auto

lemma word_sum_update_mod:
  assumes "i < length xs" and "b \<noteq> xs ! i"
  shows "word_sum (xs[i := b]) mod 65535 \<noteq> word_sum xs mod 65535"
proof -
  obtain r where
    new: "word_sum (xs[i := b]) = r + (if even i then 256 * unat b else unat b)" and
    old: "word_sum xs = r + (if even i then 256 * unat (xs ! i) else unat (xs ! i))"
    using word_sum_update [OF assms(1)] by blast
  let ?u = "if even i then 256 * unat b else unat b"
  let ?v = "if even i then 256 * unat (xs ! i) else unat (xs ! i)"
  have less: "?u < 65535" "?v < 65535"
    using unat_byte_less [of b] unat_byte_less [of "xs ! i"] by auto
  have "?u \<noteq> ?v" using assms(2) by (auto simp: word_unat_eq_iff)
  have "(r + ?u) mod 65535 = (r + ?v) mod 65535 \<longleftrightarrow> ?u = ?v"
    using less by (rule mod_add_cancel_less)
  with \<open>?u \<noteq> ?v\<close> show ?thesis unfolding new old by blast
qed

lemma word_sum_bound_32: "length xs \<le> 131072 \<Longrightarrow> word_sum xs < 2 ^ 32"
  using word_sum_bound [of xs] by simp

lemma internetChecksum_update:
  assumes "i < length xs" and "b \<noteq> xs ! i" and "length xs \<le> 131072"
  shows "internetChecksum (xs[i := b]) \<noteq> internetChecksum xs"
proof
  assume "internetChecksum (xs[i := b]) = internetChecksum xs"
  moreover have "word_sum xs < 2 ^ 32" and "word_sum (xs[i := b]) < 2 ^ 32"
    using word_sum_bound_32 [of xs] word_sum_bound_32 [of "xs[i := b]"] assms(3) by simp_all
  ultimately have "65535 - ones_complement (word_sum (xs[i := b])) = 65535 - ones_complement (word_sum xs)"
    by (metis unat_internetChecksum)
  then have "ones_complement (word_sum (xs[i := b])) = ones_complement (word_sum xs)"
    using ones_complement_le [of "word_sum xs"] ones_complement_le [of "word_sum (xs[i := b])"] by linarith
  then have "word_sum (xs[i := b]) mod 65535 = word_sum xs mod 65535"
    by (metis ones_complement_mod)
  with word_sum_update_mod [OF assms(1,2)] show False by simp
qed

text \<open>
  C23: the shift-and-mask loop of \<^verbatim>\<open>internetChecksum\<close> computes the complement of the ones'-complement
  sum of the data read as big-endian 16-bit words (an odd last byte is the high half of its word),
  for all data up to 131072 bytes, where the 32-bit accumulator cannot overflow.
\<close>

theorem internetChecksum_ones_complement:
  assumes "length data \<le> 131072"
  shows "unat (internetChecksum data) = 65535 - ones_complement (word_sum data)"
  using assms by (intro unat_internetChecksum word_sum_bound_32)

theorem internetChecksum_ones_complement_witness:
  "unat (internetChecksum [0x45, 0x00, 0xff]) = 65535 - ones_complement (0x4500 + 0xff00)"
  using internetChecksum_ones_complement [of "[0x45, 0x00, 0xff]"] by simp

end
