(* ===== verification/Datagram.thy ===== *)
theory Datagram
  imports Rdt_Header Check_Sum
begin

unbundle bit_operations_syntax

text \<open>
  Datagrams: how the senders fill in a header, seal it with the checksum and lay the packet out
  for \<^verbatim>\<open>sendto\<close>, and how every receiving routine validates what \<^verbatim>\<open>recvfrom\<close> returned
  (\<^verbatim>\<open>decodeValidatedDatagram\<close> of RdtHeader.cpp). The lemmas give the exact bytes of a sealed
  packet, the round trip through validation and the rejection of every datagram that differs
  from a valid one in a single byte.
\<close>

section \<open>Building packets\<close>

text \<open>\<^verbatim>\<open>struct RdtPacket\<close>: a header and a payload array of \<^verbatim>\<open>MAX_PAYLOAD\<close> bytes.\<close>

record RdtPacket =
  header :: RdtHeader
  payload :: bytes

text \<open>The header both senders give a chunk of file data, before its checksum is known.\<close>

definition data_header :: "u32 \<Rightarrow> bool \<Rightarrow> u16 \<Rightarrow> nat \<Rightarrow> RdtHeader" where
  "data_header seqNum isFinal win len =
     \<lparr>seq_num = seqNum, ack_num = 0,
      flags = FLAG_DATA OR (if isFinal then FLAG_FIN else 0),
      window_size = win, payload_len = of_nat len, checksum = 0, reserved = 0\<rparr>"

text \<open>
  The packet of a chunk: the payload array is zeroed and receives the data; the checksum covers
  the serialised header (with a zero checksum field) and the data.
\<close>

definition make_data_packet :: "u32 \<Rightarrow> bool \<Rightarrow> u16 \<Rightarrow> bytes \<Rightarrow> RdtPacket" where
  "make_data_packet seqNum isFinal win data =
     (let len = length data;
          h = data_header seqNum isFinal win len;
          pl = memcpy_at 0 data (replicate MAX_PAYLOAD 0);
          tempBuf = serializeHeader h (replicate (HEADER_SIZE + MAX_PAYLOAD) 0);
          tempBuf2 = memcpy_at HEADER_SIZE (take len pl) tempBuf
      in \<lparr>header = h\<lparr>checksum := internetChecksum (take (HEADER_SIZE + len) tempBuf2)\<rparr>,
          payload = pl\<rparr>)"

text \<open>
  The flat buffer \<^verbatim>\<open>sendRawPacket\<close> hands to \<^verbatim>\<open>sendto\<close>; \<open>None\<close> when the header claims more
  payload than a packet holds.
\<close>

definition raw_packet_bytes :: "RdtPacket \<Rightarrow> bytes option" where
  "raw_packet_bytes p =
     (let sendBuf = serializeHeader (header p) (replicate (HEADER_SIZE + MAX_PAYLOAD) 0);
          plen = unat (payload_len (header p))
      in if plen > MAX_PAYLOAD then None
         else Some (take (HEADER_SIZE + plen)
                (memcpy_at HEADER_SIZE (take plen (payload p)) sendBuf)))"

text \<open>
  Header-only control packets (SYN, ACK, NAK): serialise with a zero checksum, compute it over
  the sixteen bytes, serialise again.
\<close>

definition seal_control :: "RdtHeader \<Rightarrow> bytes" where
  "seal_control h =
     (let buf = serializeHeader h (replicate HEADER_SIZE 0);
          h2 = h\<lparr>checksum := internetChecksum (take HEADER_SIZE buf)\<rparr>
      in serializeHeader h2 buf)"

section \<open>Validation\<close>

definition decodeValidatedDatagram :: "bytes \<Rightarrow> RdtHeader option" where
  "decodeValidatedDatagram bs =
     (if length bs < HEADER_SIZE \<or> length bs > HEADER_SIZE + MAX_PAYLOAD then None
      else let decoded = deserializeHeader bs in
        if unat (payload_len decoded) > MAX_PAYLOAD \<or>
           length bs \<noteq> HEADER_SIZE + unat (payload_len decoded) then None
        else let headerOnlyControl =
                   (flags decoded AND (FLAG_SYN OR FLAG_ACK) \<noteq> 0 \<and> flags decoded AND FLAG_DATA = 0)
          in if headerOnlyControl \<and> payload_len decoded \<noteq> 0 then None
             else let checksumBytes =
                        (memcpy_at 0 bs (replicate (HEADER_SIZE + MAX_PAYLOAD) 0))[13 := 0, 14 := 0];
                      computed = internetChecksum (take (length bs) checksumBytes)
               in if computed \<noteq> checksum decoded then None else Some decoded)"

section \<open>The bytes of sealed packets\<close>

lemma unat_of_nat_u16: "n \<le> MAX_PAYLOAD \<Longrightarrow> unat (of_nat n :: u16) = n"
  by (simp add: unat_of_nat MAX_PAYLOAD_def)

lemma memcpy_payload:
  "length data \<le> MAX_PAYLOAD \<Longrightarrow>
   take (HEADER_SIZE + length data)
     (memcpy_at HEADER_SIZE data (serializeHeader h (replicate (HEADER_SIZE + MAX_PAYLOAD) 0))) =
   header_bytes h @ data"
  by (simp add: serializeHeader_eq memcpy_at_def wire_constants)

lemma make_data_packet_eq:
  assumes "length data \<le> MAX_PAYLOAD"
  shows "make_data_packet seqNum isFinal win data =
    (let h = data_header seqNum isFinal win (length data)
     in \<lparr>header = h\<lparr>checksum := internetChecksum (header_bytes h @ data)\<rparr>,
         payload = data @ replicate (MAX_PAYLOAD - length data) 0\<rparr>)"
  using assms memcpy_payload [OF assms]
  by (simp add: make_data_packet_def Let_def memcpy_at_def)

lemma raw_packet_bytes_data:
  assumes "length data \<le> MAX_PAYLOAD"
  shows "raw_packet_bytes (make_data_packet seqNum isFinal win data) =
    Some (header_bytes (header (make_data_packet seqNum isFinal win data)) @ data)"
  using assms memcpy_payload [OF assms]
  by (simp add: raw_packet_bytes_def make_data_packet_eq Let_def data_header_def
      unat_of_nat_u16)

lemma seal_control_eq:
  "seal_control h = header_bytes (h\<lparr>checksum := internetChecksum (header_bytes h)\<rparr>)"
  by (simp add: seal_control_def Let_def serializeHeader_eq HEADER_SIZE_def)

section \<open>What validation accepts\<close>

text \<open>The bytes the checksum is computed over: the datagram with its checksum field zeroed.\<close>

definition blank_checksum :: "bytes \<Rightarrow> bytes" where
  "blank_checksum bs = bs[13 := 0, 14 := 0]"

lemma length_blank_checksum [simp]: "length (blank_checksum bs) = length bs"
  by (simp add: blank_checksum_def)

lemma decodeValidatedDatagram_eq:
  "decodeValidatedDatagram bs =
     (let h = deserializeHeader bs
      in if 16 \<le> length bs \<and> length bs \<le> 1040 \<and> length bs = 16 + unat (payload_len h) \<and>
            \<not> (flags h AND 3 \<noteq> 0 \<and> flags h AND 8 = 0 \<and> payload_len h \<noteq> 0) \<and>
            internetChecksum (blank_checksum bs) = checksum h
         then Some h else None)"
proof (cases "16 \<le> length bs \<and> length bs \<le> 1040")
  case True
  then have "take (length bs) ((memcpy_at 0 bs (replicate 1040 0))[13 := 0, 14 := 0]) =
      blank_checksum bs"
    by (simp add: memcpy_at_def blank_checksum_def list_update_append)
  with True show ?thesis
    by (auto simp: decodeValidatedDatagram_def Let_def wire_constants flag_defs)
next
  case False
  then show ?thesis by (auto simp: decodeValidatedDatagram_def Let_def wire_constants)
qed

lemma decode_SomeD:
  assumes "decodeValidatedDatagram bs = Some h"
  shows "h = deserializeHeader bs" "16 \<le> length bs" "length bs \<le> 1040"
    "length bs = 16 + unat (payload_len h)"
    "internetChecksum (blank_checksum bs) = checksum h"
  using assms by (auto simp: decodeValidatedDatagram_eq Let_def split: if_splits)

lemma blank_header_bytes:
  "blank_checksum (header_bytes h @ rest) = header_bytes (h\<lparr>checksum := 0\<rparr>) @ rest"
  by (simp add: blank_checksum_def header_bytes_def htonl_def htons_def numeral_eq_Suc)

lemma decode_header_bytes:
  assumes "length data \<le> MAX_PAYLOAD" and "payload_len h = of_nat (length data)"
    and "flags h AND 3 \<noteq> 0 \<and> flags h AND 8 = 0 \<longrightarrow> data = []"
    and "checksum h = internetChecksum (header_bytes (h\<lparr>checksum := 0\<rparr>) @ data)"
  shows "decodeValidatedDatagram (header_bytes h @ data) = Some h"
  using assms unat_of_nat_u16 [OF assms(1)]
  by (auto simp: decodeValidatedDatagram_eq blank_header_bytes MAX_PAYLOAD_def)

lemma decode_make_data_packet:
  assumes "length data \<le> MAX_PAYLOAD"
  shows "decodeValidatedDatagram
      (header_bytes (header (make_data_packet seqNum isFinal win data)) @ data) =
    Some (header (make_data_packet seqNum isFinal win data))"
proof (rule decode_header_bytes [OF assms])
  let ?h = "header (make_data_packet seqNum isFinal win data)"
  show "payload_len ?h = of_nat (length data)"
    using assms by (simp add: make_data_packet_eq Let_def data_header_def)
  show "flags ?h AND 3 \<noteq> 0 \<and> flags ?h AND 8 = 0 \<longrightarrow> data = []"
    using assms by (auto simp: make_data_packet_eq Let_def data_header_def flag_defs split: if_splits)
  show "checksum ?h = internetChecksum (header_bytes (?h\<lparr>checksum := 0\<rparr>) @ data)"
    using assms by (simp add: make_data_packet_eq Let_def data_header_def)
qed

lemma decode_seal_control:
  assumes "payload_len h = 0" and "checksum h = 0"
  shows "decodeValidatedDatagram (seal_control h) =
    Some (h\<lparr>checksum := internetChecksum (header_bytes h)\<rparr>)"
proof -
  have eq: "h\<lparr>checksum := 0\<rparr> = h" using assms(2) by simp
  show ?thesis
    using decode_header_bytes [of "[]" "h\<lparr>checksum := internetChecksum (header_bytes h)\<rparr>"] assms eq
    by (simp add: seal_control_eq)
qed

text \<open>Sealed control packets determine their header.\<close>

lemma seal_control_inject:
  assumes "seal_control h = seal_control h'" and "checksum h = 0" and "checksum h' = 0"
  shows "h = h'"
proof -
  have "deserializeHeader (seal_control h @ []) = deserializeHeader (seal_control h' @ [])"
    using assms(1) by simp
  then have "h\<lparr>checksum := internetChecksum (header_bytes h)\<rparr> =
      h'\<lparr>checksum := internetChecksum (header_bytes h')\<rparr>"
    unfolding seal_control_eq deserializeHeader_header_bytes .
  with assms(2,3) show ?thesis by (cases h, cases h') simp
qed

section \<open>A datagram damaged in one byte\<close>

lemma deserialize_checksum_update:
  assumes "i \<noteq> 13" and "i \<noteq> 14"
  shows "checksum (deserializeHeader (bs[i := b])) = checksum (deserializeHeader bs)"
  using assms by (simp add: deserializeHeader_def)

lemma ntohs_inject: "ntohs a b = ntohs c d \<longleftrightarrow> a = c \<and> b = d"
  by (metis htons_ntohs list.inject)

lemma deserialize_checksum_changed:
  assumes "16 \<le> length bs" and "i = 13 \<or> i = 14" and "b \<noteq> bs ! i"
  shows "checksum (deserializeHeader (bs[i := b])) \<noteq> checksum (deserializeHeader bs)"
  using assms by (elim disjE) (simp_all add: deserializeHeader_def ntohs_inject)

lemma blank_checksum_field:
  "i = 13 \<or> i = 14 \<Longrightarrow> blank_checksum (bs[i := b]) = blank_checksum bs"
proof (elim disjE)
  assume "i = 14"
  then show ?thesis using list_update_swap [of 14 13 bs b 0]
    by (simp only: blank_checksum_def) simp
qed (simp add: blank_checksum_def)

lemma blank_checksum_other:
  "i \<noteq> 13 \<Longrightarrow> i \<noteq> 14 \<Longrightarrow> blank_checksum (bs[i := b]) = (blank_checksum bs)[i := b]"
  unfolding blank_checksum_def by (metis list_update_swap)

lemma decode_byte_damaged:
  assumes dec: "decodeValidatedDatagram bs = Some h"
    and i: "i < length bs" and b: "b \<noteq> bs ! i"
  shows "decodeValidatedDatagram (bs[i := b]) = None"
proof -
  note d = decode_SomeD [OF dec]
  have "internetChecksum (blank_checksum (bs[i := b])) \<noteq> checksum (deserializeHeader (bs[i := b]))"
  proof (cases "i = 13 \<or> i = 14")
    case True
    then show ?thesis
      using deserialize_checksum_changed [OF d(2) True b] d(1,5) by (simp add: blank_checksum_field)
  next
    case False
    then have "blank_checksum bs ! i = bs ! i" by (simp add: blank_checksum_def)
    then have "internetChecksum ((blank_checksum bs)[i := b]) \<noteq> internetChecksum (blank_checksum bs)"
      using i b d(3) by (intro internetChecksum_update) simp_all
    with False show ?thesis
      using d(1,5) by (simp add: blank_checksum_other deserialize_checksum_update)
  qed
  then show ?thesis by (simp add: decodeValidatedDatagram_eq Let_def)
qed

section \<open>Properties\<close>

text \<open>
  C24: what a sender puts on the wire for a chunk of at most 1024 bytes is accepted at the other
  end, and the header and the payload arrive as they were sent. In particular the checksum field is
  computed over exactly the bytes that validation recomputes it over.
\<close>

theorem data_packet_roundtrip:
  assumes "length data \<le> MAX_PAYLOAD"
  shows "\<exists>bs h. raw_packet_bytes (make_data_packet seqNum isFinal win data) = Some bs \<and>
    decodeValidatedDatagram bs = Some h \<and> seq_num h = seqNum \<and> has_flag h FLAG_DATA \<and>
    (has_flag h FLAG_FIN \<longleftrightarrow> isFinal) \<and> window_size h = win \<and>
    unat (payload_len h) = length data \<and> drop HEADER_SIZE bs = data"
  using raw_packet_bytes_data [OF assms, of seqNum isFinal win]
    decode_make_data_packet [OF assms, of seqNum isFinal win] assms
  by (auto simp: make_data_packet_eq Let_def data_header_def unat_of_nat_u16 has_flag_def flag_defs
      HEADER_SIZE_def)

theorem data_packet_roundtrip_witness:
  "\<exists>bs h. raw_packet_bytes (make_data_packet 5 True 1 [1, 2, 3]) = Some bs \<and>
    decodeValidatedDatagram bs = Some h \<and> seq_num h = 5 \<and> drop HEADER_SIZE bs = [1, 2, 3]"
  using data_packet_roundtrip [of "[1, 2, 3]" 5 True 1] by (auto simp: MAX_PAYLOAD_def)

text \<open>
  C25: a datagram that validates no longer does after any one of its bytes, header, payload or
  checksum field, was changed to any other value: it is dropped, never delivered or acknowledged.
\<close>

theorem single_byte_damage_rejected:
  assumes "decodeValidatedDatagram bs = Some h" and "i < length bs" and "b \<noteq> bs ! i"
  shows "decodeValidatedDatagram (bs[i := b]) = None"
  using assms by (rule decode_byte_damaged)

theorem single_byte_damage_rejected_witness:
  "decodeValidatedDatagram ((seal_control (zero_header\<lparr>flags := FLAG_SYN\<rparr>))[8 := FLAG_ACK]) = None"
proof (rule single_byte_damage_rejected)
  show "decodeValidatedDatagram (seal_control (zero_header\<lparr>flags := FLAG_SYN\<rparr>)) =
      Some (zero_header\<lparr>flags := FLAG_SYN,
        checksum := internetChecksum (header_bytes (zero_header\<lparr>flags := FLAG_SYN\<rparr>))\<rparr>)"
    by (simp add: decode_seal_control zero_header_def)
qed (simp_all add: seal_control_eq header_bytes_def htonl_def flag_defs)

end
