(* ===== verification/Net_World.thy ===== *)
theory Net_World
  imports Datagram
begin

text \<open>
  The environment of the transport code: sockets, the monotonic clock and the abort predicate.
  Everything the code learns from outside is scripted: the results of the next calls of
  \<^verbatim>\<open>recvfrom\<close>, of \<^verbatim>\<open>sendto\<close>, of the abort predicate, of the clock and of the socket set-up calls
  are lists in the state, consumed one per call. A theorem over all scripts is a theorem over all
  behaviours of the network and of the user. Where a script runs out, a blocking receive has no
  result yet (\<open>None\<close>); the other calls then take their ordinary outcome (the send succeeds, no
  abort is requested, no time passes, the call succeeds).
\<close>

section \<open>Endpoints\<close>

record sockaddr_in =
  sin_family :: u16
  sin_port :: u16
  sin_addr :: u32

definition zero_addr :: sockaddr_in where
  "zero_addr = \<lparr>sin_family = 0, sin_port = 0, sin_addr = 0\<rparr>"

definition AF_INET :: u16 where "AF_INET = 2"

definition sameEndpoint :: "sockaddr_in \<Rightarrow> sockaddr_in \<Rightarrow> bool" where
  "sameEndpoint left right \<longleftrightarrow>
     sin_family left = sin_family right \<and> sin_port left = sin_port right \<and>
     sin_addr left = sin_addr right"

lemma sameEndpoint_iff [simp]: "sameEndpoint a b \<longleftrightarrow> a = b"
  by (auto simp: sameEndpoint_def)

section \<open>The scripted environment\<close>

datatype recv_result =
    Received bytes sockaddr_in
  | RecvTimeout
  | RecvError nat

record world =
  inbox :: "recv_result list"
  outbox :: "(bytes \<times> sockaddr_in) list"
  sendOk :: "bool list"
  aborts :: "bool list"
  time :: nat
  ticks :: "nat list"
  sysOk :: "bool list"

definition idle_world :: "recv_result list \<Rightarrow> world" where
  "idle_world evs = \<lparr>inbox = evs, outbox = [], sendOk = [], aborts = [], time = 0, ticks = [],
     sysOk = []\<rparr>"

text \<open>
  \<^verbatim>\<open>recvfrom\<close> into a buffer of \<^verbatim>\<open>HEADER_SIZE + MAX_PAYLOAD\<close> bytes. Winsock reports a datagram
  that does not fit as an error (WSAEMSGSIZE, 10040).
\<close>

definition recvfrom :: "world \<Rightarrow> (recv_result \<times> world) option" where
  "recvfrom w =
     (case inbox w of
        [] \<Rightarrow> None
      | r # rest \<Rightarrow>
          Some ((case r of
                   Received bs from \<Rightarrow>
                     if length bs > HEADER_SIZE + MAX_PAYLOAD then RecvError 10040 else r
                 | _ \<Rightarrow> r), w\<lparr>inbox := rest\<rparr>))"

definition sendto :: "bytes \<Rightarrow> sockaddr_in \<Rightarrow> world \<Rightarrow> bool \<times> world" where
  "sendto bs dest w =
     (case sendOk w of
        [] \<Rightarrow> (True, w\<lparr>outbox := outbox w @ [(bs, dest)]\<rparr>)
      | True # rest \<Rightarrow> (True, w\<lparr>outbox := outbox w @ [(bs, dest)], sendOk := rest\<rparr>)
      | False # rest \<Rightarrow> (False, w\<lparr>sendOk := rest\<rparr>))"

text \<open>
  \<^verbatim>\<open>isAbortRequested()\<close> of the transports and \<^verbatim>\<open>isAborted()\<close> of the data channel: false when no
  predicate is installed, else what the predicate answers now.
\<close>

definition isAbortRequested :: "bool \<Rightarrow> world \<Rightarrow> bool \<times> world" where
  "isAbortRequested installed w =
     (if \<not> installed then (False, w)
      else case aborts w of [] \<Rightarrow> (False, w) | a # rest \<Rightarrow> (a, w\<lparr>aborts := rest\<rparr>))"

text \<open>\<^verbatim>\<open>steady_clock::now()\<close>, in nanoseconds: it never goes back.\<close>

definition steady_now :: "world \<Rightarrow> nat \<times> world" where
  "steady_now w =
     (case ticks w of
        [] \<Rightarrow> (time w, w)
      | d # rest \<Rightarrow> (time w + d, w\<lparr>time := time w + d, ticks := rest\<rparr>))"

text \<open>A socket set-up call (socket, setsockopt, bind, getsockname): does it succeed?\<close>

definition syscall :: "world \<Rightarrow> bool \<times> world" where
  "syscall w =
     (case sysOk w of [] \<Rightarrow> (True, w) | ok # rest \<Rightarrow> (ok, w\<lparr>sysOk := rest\<rparr>))"

definition ns_per_ms :: nat where "ns_per_ms = 1000000"

section \<open>What the primitives leave alone\<close>

lemma world_update_order [simp]:
  "w\<lparr>outbox := x, inbox := y\<rparr> = w\<lparr>inbox := y, outbox := x\<rparr>"
  by simp

lemma recvfrom_SomeD:
  assumes "recvfrom w = Some (r, w')"
  shows "outbox w' = outbox w" "aborts w' = aborts w" "\<exists>e. inbox w = e # inbox w'"
    "length (inbox w) = Suc (length (inbox w'))" "sendOk w' = sendOk w"
  using assms by (auto simp: recvfrom_def split: list.splits)

lemma recvfrom_Received:
  assumes "recvfrom w = Some (Received bs from, w')"
  shows "inbox w = Received bs from # inbox w'" "length bs \<le> HEADER_SIZE + MAX_PAYLOAD"
  using assms by (auto simp: recvfrom_def split: list.splits recv_result.splits if_splits)

lemma recvfrom_None: "recvfrom w = None \<longleftrightarrow> inbox w = []"
  by (simp add: recvfrom_def split: list.splits)

lemma sendto_frame [world_simps]:
  "inbox (snd (sendto bs dest w)) = inbox w"
  "aborts (snd (sendto bs dest w)) = aborts w"
  "time (snd (sendto bs dest w)) = time w"
  by (auto simp: sendto_def split: list.splits bool.splits)

lemma outbox_sendto:
  "outbox (snd (sendto bs dest w)) = outbox w @ (if fst (sendto bs dest w) then [(bs, dest)] else [])"
  by (auto simp: sendto_def split: list.splits bool.splits)

lemma isAbortRequested_frame [world_simps]:
  "inbox (snd (isAbortRequested b w)) = inbox w"
  "outbox (snd (isAbortRequested b w)) = outbox w"
  "time (snd (isAbortRequested b w)) = time w"
  "sendOk (snd (isAbortRequested b w)) = sendOk w"
  by (auto simp: isAbortRequested_def split: list.splits)

text \<open>The same facts for the pattern matches of the loops.\<close>

lemma isAbortRequested_inbox: "isAbortRequested i w = (b, w') \<Longrightarrow> inbox w' = inbox w"
  by (auto simp: isAbortRequested_def split: list.splits if_splits)

lemma isAbortRequested_none:
  "aborts w = [] \<Longrightarrow> isAbortRequested b w = (False, w)"
  by (simp add: isAbortRequested_def)

lemma steady_now_frame [world_simps]:
  "inbox (snd (steady_now w)) = inbox w"
  "outbox (snd (steady_now w)) = outbox w"
  "aborts (snd (steady_now w)) = aborts w"
  "sendOk (snd (steady_now w)) = sendOk w"
  by (auto simp: steady_now_def split: list.splits)

lemma steady_now_inbox: "steady_now w = (t, w') \<Longrightarrow> inbox w' = inbox w"
  by (auto simp: steady_now_def split: list.splits)

lemma steady_now_mono: "time w \<le> fst (steady_now w)" "time (snd (steady_now w)) = fst (steady_now w)"
  by (auto simp: steady_now_def split: list.splits)

lemma syscall_frame [world_simps]:
  "inbox (snd (syscall w)) = inbox w"
  "outbox (snd (syscall w)) = outbox w"
  "aborts (snd (syscall w)) = aborts w"
  by (auto simp: syscall_def split: list.splits)

end
