(* ===== verification/Receiver_State.thy ===== *)
theory Receiver_State
  imports Net_World
begin

text \<open>
  The state the two receivers share (the members of the classes \<^verbatim>\<open>RdtReceiver\<close> of server and
  client, which keep the same fields under nearly the same names), the invariants of the reorder
  buffer and what it means that the datagrams on the wire are those of one sender.
\<close>

section \<open>State\<close>

text \<open>
  \<open>udpSocketOk\<close> is \<^verbatim>\<open>isValid()\<close>; \<open>abortInstalled\<close> says that \<^verbatim>\<open>abortPredicate\<close> is not empty;
  \<open>rcvTimeout\<close> is the value last given to \<^verbatim>\<open>SO_RCVTIMEO\<close>, in milliseconds.
\<close>

record receiver =
  udpSocketOk :: bool
  outOfOrderBuffer :: "u32 \<rightharpoonup> (bytes \<times> bool)"
  expected_seq :: u32
  peerAddr :: sockaddr_in
  peerKnown :: bool
  pendingDatagram :: bytes
  pendingFrom :: sockaddr_in
  abortInstalled :: bool
  rcvTimeout :: nat

text \<open>What \<^verbatim>\<open>receiveNext\<close> hands to its caller: sequence number, data, and whether it is the last.\<close>

type_synonym chunk = "u32 \<times> bytes \<times> bool"

definition ABORT_POLL_TIMEOUT_MS :: nat where "ABORT_POLL_TIMEOUT_MS = 100"

text \<open>The payload of a validated datagram: \<^verbatim>\<open>payload_len\<close> bytes after the header.\<close>

definition datagram_payload :: "RdtHeader \<Rightarrow> bytes \<Rightarrow> bytes" where
  "datagram_payload h bs = take (unat (payload_len h)) (drop HEADER_SIZE bs)"

text \<open>
  One round of a receive loop: the call is still waiting, it returns (\<open>None\<close> for
  \<^verbatim>\<open>return false\<close>), or the loop goes on.
\<close>

datatype 'r round =
    Waiting
  | Stop "chunk option" 'r world
  | Again 'r world

text \<open>The first valid DATA datagram fixes the peer, unless the handshake did.\<close>

definition learn_peer :: "sockaddr_in \<Rightarrow> 'a receiver_scheme \<Rightarrow> 'a receiver_scheme" where
  "learn_peer a r = (if \<not> peerKnown r then r\<lparr>peerAddr := a, peerKnown := True\<rparr> else r)"

lemma learn_peer_frame [simp]:
  "outOfOrderBuffer (learn_peer a r) = outOfOrderBuffer r"
  "expected_seq (learn_peer a r) = expected_seq r"
  "pendingDatagram (learn_peer a r) = pendingDatagram r"
  "pendingFrom (learn_peer a r) = pendingFrom r"
  "abortInstalled (learn_peer a r) = abortInstalled r"
  "peerKnown (learn_peer a r)"
  by (simp_all add: learn_peer_def)

lemma learn_peer_addr:
  "(peerKnown r \<longrightarrow> a = peerAddr r) \<Longrightarrow> peerAddr (learn_peer a r) = a"
  by (simp add: learn_peer_def)

section \<open>The reorder buffer\<close>

text \<open>
  Buffered packets lie inside the receive window. \<open>lo\<close> is the least distance from the expected
  number: 0 between calls of \<^verbatim>\<open>receiveNext\<close>, 1 inside its loop.
\<close>

definition buffer_in_window :: "nat \<Rightarrow> 'a receiver_scheme \<Rightarrow> bool" where
  "buffer_in_window lo r \<longleftrightarrow>
     (\<forall>s v. outOfOrderBuffer r s = Some v \<longrightarrow>
        unat (expected_seq r) + lo \<le> unat s \<and>
        unat s < unat (expected_seq r) + RDT_RECEIVE_WINDOW)"

lemma buffer_in_windowD:
  assumes "buffer_in_window lo r" and "outOfOrderBuffer r s = Some v"
  shows "unat (expected_seq r) + lo \<le> unat s"
    "unat s < unat (expected_seq r) + RDT_RECEIVE_WINDOW"
  using assms by (auto simp: buffer_in_window_def)

lemma buffer_in_window_mono: "buffer_in_window lo r \<Longrightarrow> buffer_in_window 0 r"
  by (force simp: buffer_in_window_def)

lemma buffer_in_window_learn [simp]: "buffer_in_window lo (learn_peer a r) \<longleftrightarrow> buffer_in_window lo r"
  by (simp add: buffer_in_window_def)

text \<open>A buffer inside the window holds at most ten packets.\<close>

lemma buffer_in_window_card:
  assumes "buffer_in_window 0 r"
  shows "finite (dom (outOfOrderBuffer r))" "card (dom (outOfOrderBuffer r)) \<le> RDT_RECEIVE_WINDOW"
proof -
  let ?e = "unat (expected_seq r)" and ?B = "dom (outOfOrderBuffer r)"
  have inj: "inj_on unat ?B" by (auto intro: inj_onI simp: word_unat_eq_iff)
  have sub: "unat ` ?B \<subseteq> {?e..<?e + RDT_RECEIVE_WINDOW}"
    using buffer_in_windowD [OF assms] by fastforce
  then have "finite (unat ` ?B)" by (rule finite_subset) simp
  with inj show "finite ?B" by (metis finite_imageD)
  from card_mono [OF _ sub] have "card (unat ` ?B) \<le> RDT_RECEIVE_WINDOW" by simp
  with inj show "card ?B \<le> RDT_RECEIVE_WINDOW" by (simp add: card_image)
qed

text \<open>Raising the expected number by one, when the packet of that number is not buffered.\<close>

lemma unat_expected_Suc:
  fixes e s :: u32
  shows "unat e < unat s \<Longrightarrow> unat (e + 1) = Suc (unat e)"
  using unat_u32_less [of s] by (simp add: unat_u32_plus1)

lemma buffer_in_window_advance:
  assumes "buffer_in_window 1 r"
  shows "buffer_in_window 0 (r\<lparr>expected_seq := expected_seq r + 1\<rparr>)"
proof -
  have "unat (expected_seq r + 1) \<le> unat s \<and> unat s < unat (expected_seq r + 1) + RDT_RECEIVE_WINDOW"
    if "outOfOrderBuffer r s = Some v" for s v
    using buffer_in_windowD [OF assms that] unat_expected_Suc [of "expected_seq r" s] by simp
  then show ?thesis by (simp add: buffer_in_window_def)
qed

lemma buffer_in_window_take:
  assumes "buffer_in_window 0 r"
  shows "buffer_in_window 1 (r\<lparr>outOfOrderBuffer := (outOfOrderBuffer r)(expected_seq r := None)\<rparr>)"
proof -
  have "unat (expected_seq r) + 1 \<le> unat s"
    if "outOfOrderBuffer r s = Some v" "s \<noteq> expected_seq r" for s v
  proof -
    have "unat (expected_seq r) \<noteq> unat s" using that(2) by (simp add: word_unat_eq_iff)
    then show ?thesis using buffer_in_windowD(1) [OF assms that(1)] by linarith
  qed
  with buffer_in_windowD(2) [OF assms] show ?thesis by (auto simp: buffer_in_window_def)
qed

lemma buffer_in_window_insert:
  assumes "buffer_in_window 1 r" and "unat (expected_seq r) < unat s"
    and "unat s < unat (expected_seq r) + RDT_RECEIVE_WINDOW"
  shows "buffer_in_window 1 (r\<lparr>outOfOrderBuffer := (outOfOrderBuffer r)(s \<mapsto> v)\<rparr>)"
  using assms by (auto simp: buffer_in_window_def)

lemma buffer_in_window_closed:
  "outOfOrderBuffer r (expected_seq r) = None \<Longrightarrow> buffer_in_window 0 r \<Longrightarrow> buffer_in_window 1 r"
  using buffer_in_window_take [of r] by (simp add: buffer_in_window_def fun_upd_idem)

section \<open>One sender's stream\<close>

text \<open>
  \<open>f n\<close> is what the sender's n-th chunk is: its data and whether it is the last. A datagram
  carries the stream \<open>f\<close> when, if it validates as DATA, its payload and FIN flag are those of
  the chunk its sequence number names.
\<close>

definition carries_stream :: "(nat \<Rightarrow> (bytes \<times> bool) option) \<Rightarrow> bytes \<Rightarrow> bool" where
  "carries_stream f bs \<longleftrightarrow>
     (\<forall>h. decodeValidatedDatagram bs = Some h \<longrightarrow> has_flag h FLAG_DATA \<longrightarrow>
        f (unat (seq_num h)) = Some (datagram_payload h bs, has_flag h FLAG_FIN))"

definition buffer_stream :: "(nat \<Rightarrow> (bytes \<times> bool) option) \<Rightarrow> 'a receiver_scheme \<Rightarrow> bool" where
  "buffer_stream f r \<longleftrightarrow>
     (\<forall>s v. outOfOrderBuffer r s = Some v \<longrightarrow> f (unat s) = Some v)"

text \<open>
  The datagrams still to come, the one set aside by the handshake and the buffered ones all
  belong to the stream, as far as they come from the peer (from anyone, while no peer is known).
\<close>

definition stream_inv ::
  "(nat \<Rightarrow> (bytes \<times> bool) option) \<Rightarrow> 'a receiver_scheme \<Rightarrow> recv_result list \<Rightarrow> bool" where
  "stream_inv f r evs \<longleftrightarrow>
     buffer_stream f r \<and>
     (pendingDatagram r \<noteq> [] \<longrightarrow> (peerKnown r \<longrightarrow> pendingFrom r = peerAddr r) \<longrightarrow>
        carries_stream f (pendingDatagram r)) \<and>
     (\<forall>bs from. Received bs from \<in> set evs \<longrightarrow> (peerKnown r \<longrightarrow> from = peerAddr r) \<longrightarrow>
        carries_stream f bs)"

lemma stream_inv_inbox:
  "stream_inv f r evs \<Longrightarrow> set evs' \<subseteq> set evs \<Longrightarrow> stream_inv f r evs'"
  by (auto simp: stream_inv_def)

lemma stream_inv_learn:
  "stream_inv f r evs \<Longrightarrow> (peerKnown r \<longrightarrow> a = peerAddr r) \<Longrightarrow> stream_inv f (learn_peer a r) evs"
  by (auto simp: stream_inv_def buffer_stream_def learn_peer_def)

lemma stream_inv_expected [simp]:
  "stream_inv f (r\<lparr>expected_seq := e\<rparr>) evs \<longleftrightarrow> stream_inv f r evs"
  by (simp add: stream_inv_def buffer_stream_def)

lemma stream_inv_buffer:
  "stream_inv f r evs \<Longrightarrow> f (unat s) = Some v \<Longrightarrow>
   stream_inv f (r\<lparr>outOfOrderBuffer := (outOfOrderBuffer r)(s \<mapsto> v)\<rparr>) evs"
  by (auto simp: stream_inv_def buffer_stream_def)

lemma stream_inv_unbuffer:
  "stream_inv f r evs \<Longrightarrow>
   stream_inv f (r\<lparr>outOfOrderBuffer := (outOfOrderBuffer r)(s := None)\<rparr>) evs"
  by (auto simp: stream_inv_def buffer_stream_def)

lemma stream_inv_pending:
  "stream_inv f r evs \<Longrightarrow> stream_inv f (r\<lparr>pendingDatagram := []\<rparr>) evs"
  by (simp add: stream_inv_def buffer_stream_def)

lemma stream_inv_head:
  "stream_inv f r (Received bs a # evs) \<Longrightarrow>
   (peerKnown r \<longrightarrow> a = peerAddr r) \<longrightarrow> carries_stream f bs"
  unfolding stream_inv_def by (metis list.set_intros(1))

lemma stream_inv_set_aside:
  "stream_inv f r evs \<Longrightarrow> pendingDatagram r \<noteq> [] \<Longrightarrow>
   (peerKnown r \<longrightarrow> pendingFrom r = peerAddr r) \<longrightarrow> carries_stream f (pendingDatagram r)"
  unfolding stream_inv_def by blast

text \<open>What a receive call that returned has done, in terms of the stream.\<close>

definition delivered ::
  "(nat \<Rightarrow> (bytes \<times> bool) option) \<Rightarrow> u32 \<Rightarrow> chunk option \<Rightarrow> u32 \<Rightarrow> bool" where
  "delivered f before res after \<longleftrightarrow>
     (case res of
        None \<Rightarrow> after = before
      | Some (s, d, fin) \<Rightarrow> s = before \<and> f (unat s) = Some (d, fin) \<and> after = before + 1)"


text \<open>The receiver holds chunk \<open>s\<close>: it handed it on already, or it is in the reorder buffer.\<close>

definition holds :: "'a receiver_scheme \<Rightarrow> u32 \<Rightarrow> bool" where
  "holds r s \<longleftrightarrow> unat s < unat (expected_seq r) \<or> outOfOrderBuffer r s \<noteq> None"

lemma holds_learn [simp]: "holds (learn_peer a r) s \<longleftrightarrow> holds r s"
  by (simp add: holds_def)

lemma holds_advance:
  assumes "unat (expected_seq r) < 2 ^ 32 - 1" and "holds r s \<or> s = expected_seq r"
  shows "holds (r\<lparr>expected_seq := expected_seq r + 1\<rparr>) s"
  using assms by (auto simp: holds_def unat_u32_plus1)

lemma holds_insert: "holds r s \<Longrightarrow> holds (r\<lparr>outOfOrderBuffer := (outOfOrderBuffer r)(k \<mapsto> v)\<rparr>) s"
  by (auto simp: holds_def)

text \<open>Every datagram of \<open>new\<close> acknowledges, in the form \<open>mk\<close>, a chunk the receiver holds.\<close>

definition acks_held ::
  "(u32 \<Rightarrow> bytes) \<Rightarrow> 'a receiver_scheme \<Rightarrow> (bytes \<times> sockaddr_in) list \<Rightarrow> bool" where
  "acks_held mk r new \<longleftrightarrow> (\<forall>p \<in> set new. \<exists>s. fst p = mk s \<and> holds r s)"

lemma acks_held_mono:
  "acks_held mk r new \<Longrightarrow> (\<And>s. holds r s \<Longrightarrow> holds r' s) \<Longrightarrow> acks_held mk r' new"
  unfolding acks_held_def by blast

lemma acks_held_append [simp]:
  "acks_held mk r (xs @ ys) \<longleftrightarrow> acks_held mk r xs \<and> acks_held mk r ys"
  by (auto simp: acks_held_def)

lemma acks_held_Nil [simp]: "acks_held mk r []"
  by (simp add: acks_held_def)

text \<open>
  Between two states the receiver lost nothing it held, and every datagram it sent acknowledges
  a chunk it holds now.
\<close>

definition acks_sound ::
  "(u32 \<Rightarrow> bytes) \<Rightarrow> 'a receiver_scheme \<Rightarrow> world \<Rightarrow> 'a receiver_scheme \<Rightarrow> world \<Rightarrow> bool" where
  "acks_sound mk r w r' w' \<longleftrightarrow>
     (\<exists>new. outbox w' = outbox w @ new \<and> acks_held mk r' new) \<and> (\<forall>s. holds r s \<longrightarrow> holds r' s)"

lemma acks_sound_refl: "outbox w' = outbox w \<Longrightarrow> \<forall>s. holds r s \<longrightarrow> holds r' s \<Longrightarrow> acks_sound mk r w r' w'"
  by (auto simp: acks_sound_def)

lemma acks_sound_trans:
  assumes "acks_sound mk r w r1 w1" and "acks_sound mk r1 w1 r2 w2"
  shows "acks_sound mk r w r2 w2"
proof -
  obtain new new' where "outbox w1 = outbox w @ new" "acks_held mk r1 new"
      "outbox w2 = outbox w1 @ new'" "acks_held mk r2 new'"
    using assms unfolding acks_sound_def by blast
  then have "outbox w2 = outbox w @ (new @ new') \<and> acks_held mk r2 (new @ new')"
    using acks_held_mono [of mk r1 new r2] assms(2) by (simp add: acks_sound_def)
  then show ?thesis using assms unfolding acks_sound_def by blast
qed

section \<open>Where a round takes its datagram from\<close>

text \<open>
  The head of both receive loops: the abort check, then the datagram the handshake set aside,
  or else the next result of \<^verbatim>\<open>recvfrom\<close> with the handling of a timeout. \<open>GiveUp\<close> is
  \<^verbatim>\<open>return false\<close>, \<open>Retry\<close> is \<^verbatim>\<open>continue\<close>, \<open>NoInput\<close> a receive that is still waiting.
\<close>

datatype 'r input =
    NoInput
  | GiveUp world
  | Retry world
  | Got bytes sockaddr_in 'r world

definition next_datagram ::
  "nat \<Rightarrow> 'a receiver_scheme \<Rightarrow> world \<Rightarrow> 'a receiver_scheme input" where
  "next_datagram idleDeadline r w =
     (let (ab, w1) = isAbortRequested (abortInstalled r) w
      in if ab then GiveUp w1
         else if pendingDatagram r \<noteq> []
         then Got (pendingDatagram r) (pendingFrom r) (r\<lparr>pendingDatagram := []\<rparr>) w1
         else case recvfrom w1 of
             None \<Rightarrow> NoInput
           | Some (RecvTimeout, w2) \<Rightarrow>
               (let (ab2, w3) = isAbortRequested (abortInstalled r) w2
                in if ab2 then GiveUp w3
                   else if \<not> abortInstalled r then GiveUp w3
                   else let (now, w4) = steady_now w3
                     in if now < idleDeadline then Retry w4 else GiveUp w4)
           | Some (RecvError e, w2) \<Rightarrow> GiveUp w2
           | Some (Received bs from, w2) \<Rightarrow> Got bs from r w2)"

text \<open>What is left of the input after a round: the measure of the loops.\<close>

definition receive_measure :: "'a receiver_scheme \<Rightarrow> world \<Rightarrow> nat" where
  "receive_measure r w = length (inbox w) + (if pendingDatagram r = [] then 0 else 1)"

text \<open>How the result of \<open>next_datagram\<close> relates to the script.\<close>

definition input_ok :: "'a receiver_scheme \<Rightarrow> world \<Rightarrow> 'a receiver_scheme input \<Rightarrow> bool" where
  "input_ok r w i =
     (case i of
        NoInput \<Rightarrow> True
      | GiveUp w1 \<Rightarrow> outbox w1 = outbox w \<and> set (inbox w1) \<subseteq> set (inbox w)
      | Retry w1 \<Rightarrow> outbox w1 = outbox w \<and> pendingDatagram r = [] \<and>
          inbox w = RecvTimeout # inbox w1
      | Got bs a r1 w1 \<Rightarrow> outbox w1 = outbox w \<and>
          (pendingDatagram r \<noteq> [] \<and> bs = pendingDatagram r \<and> a = pendingFrom r \<and>
             r1 = r\<lparr>pendingDatagram := []\<rparr> \<and> inbox w1 = inbox w \<or>
           pendingDatagram r = [] \<and> r1 = r \<and> inbox w = Received bs a # inbox w1))"

lemma input_ok_next_datagram: "input_ok r w (next_datagram d r w)"
proof -
  obtain ab w1 where ab: "isAbortRequested (abortInstalled r) w = (ab, w1)" by fastforce
  then have w1: "inbox w1 = inbox w" "outbox w1 = outbox w"
    using isAbortRequested_frame(1,2) [of "abortInstalled r" w] by simp_all
  show ?thesis
  proof (cases "inbox w")
    case Nil
    with ab w1 show ?thesis by (simp add: next_datagram_def recvfrom_def input_ok_def)
  next
    case (Cons e rest)
    let ?w2 = "w1\<lparr>inbox := rest\<rparr>"
    obtain ab2 w3 where ab2: "isAbortRequested (abortInstalled r) ?w2 = (ab2, w3)" by fastforce
    then have w3: "inbox w3 = rest" "outbox w3 = outbox w"
      using isAbortRequested_frame(1,2) [of "abortInstalled r" ?w2] w1 by simp_all
    obtain t w4 where t: "steady_now w3 = (t, w4)" by fastforce
    then have w4: "inbox w4 = rest" "outbox w4 = outbox w"
      using steady_now_frame(1,2) [of w3] w3 by simp_all
    show ?thesis
      by (cases e)
        (use ab w1 Cons ab2 w3 t w4 in
          \<open>auto simp: next_datagram_def recvfrom_def input_ok_def\<close>)
  qed
qed

lemma input_ok_measure:
  "input_ok r w (Retry w1) \<Longrightarrow> receive_measure r w1 < receive_measure r w"
  "input_ok r w (Got bs a r1 w1) \<Longrightarrow> receive_measure r1 w1 < receive_measure r w"
  by (auto simp: input_ok_def receive_measure_def)

lemma input_ok_state:
  assumes "input_ok r w (Got bs a r1 w1)"
  shows "outOfOrderBuffer r1 = outOfOrderBuffer r" "expected_seq r1 = expected_seq r"
    "peerKnown r1 = peerKnown r" "peerAddr r1 = peerAddr r" "outbox w1 = outbox w"
    "buffer_in_window lo r1 \<longleftrightarrow> buffer_in_window lo r" "abortInstalled r1 = abortInstalled r"
  using assms by (auto simp: input_ok_def buffer_in_window_def)

lemma input_ok_acks:
  "input_ok r w (Got bs a r1 w1) \<Longrightarrow> acks_sound mk r w r1 w1"
  "input_ok r w (Retry w1) \<Longrightarrow> acks_sound mk r w r w1"
  "input_ok r w (GiveUp w1) \<Longrightarrow> acks_sound mk r w r w1"
  by (auto intro!: acks_sound_refl simp: input_ok_def holds_def)

lemma input_ok_stream:
  assumes "input_ok r w (Got bs a r1 w1)" and "stream_inv f r (inbox w)"
  shows "stream_inv f r1 (inbox w1)" "(peerKnown r1 \<longrightarrow> a = peerAddr r1) \<longrightarrow> carries_stream f bs"
proof -
  show "stream_inv f r1 (inbox w1)"
    using assms by (auto simp: input_ok_def intro: stream_inv_pending elim: stream_inv_inbox)
  show "(peerKnown r1 \<longrightarrow> a = peerAddr r1) \<longrightarrow> carries_stream f bs"
    using assms stream_inv_head [of f r bs a "inbox w1"] stream_inv_set_aside [of f r "inbox w"]
    by (auto simp: input_ok_def)
qed

lemma input_ok_stream_wait:
  assumes "stream_inv f r (inbox w)"
  shows "input_ok r w (Retry w1) \<Longrightarrow> stream_inv f r (inbox w1)"
    "input_ok r w (GiveUp w1) \<Longrightarrow> stream_inv f r (inbox w1)"
  using assms by (auto simp: input_ok_def elim: stream_inv_inbox)

section \<open>Rounds and calls\<close>

text \<open>
  One round of \<^verbatim>\<open>while (true)\<close> of \<^verbatim>\<open>receiveNext\<close>, for the treatment \<open>handle\<close> of a datagram that
  arrived: it returns (\<open>Stop\<close>) or continues (\<open>Again\<close>).
\<close>

type_synonym 'r handler = "bytes \<Rightarrow> sockaddr_in \<Rightarrow> 'r \<Rightarrow> world \<Rightarrow> 'r round"

definition receive_round ::
  "'a receiver_scheme handler \<Rightarrow> nat \<Rightarrow> 'a receiver_scheme \<Rightarrow> world \<Rightarrow> 'a receiver_scheme round" where
  "receive_round handle idleDeadline r w =
     (case next_datagram idleDeadline r w of
        NoInput \<Rightarrow> Waiting
      | GiveUp w1 \<Rightarrow> Stop None r w1
      | Retry w1 \<Rightarrow> Again r w1
      | Got bs from r1 w1 \<Rightarrow> handle bs from r1 w1)"

text \<open>
  The part of \<^verbatim>\<open>receiveNext\<close> before its loop: the abort check, the deadline, and the packet the
  reorder buffer already holds. \<open>loop\<close> is the loop of the side in question.
\<close>

definition receive_next ::
  "nat \<Rightarrow> (nat \<Rightarrow> 'a receiver_scheme \<Rightarrow> world \<Rightarrow> (chunk option \<times> 'a receiver_scheme \<times> world) option) \<Rightarrow>
   'a receiver_scheme \<Rightarrow> world \<Rightarrow> (chunk option \<times> 'a receiver_scheme \<times> world) option" where
  "receive_next idleMs loop r w =
     (let (ab, w1) = isAbortRequested (abortInstalled r) w
      in if ab then Some (None, r, w1)
         else let (start, w2) = steady_now w1;
                  idleDeadline = start + idleMs * ns_per_ms
           in case outOfOrderBuffer r (expected_seq r) of
                Some (data, isFinal) \<Rightarrow>
                  Some (Some (expected_seq r, data, isFinal),
                    r\<lparr>outOfOrderBuffer := (outOfOrderBuffer r)(expected_seq r := None),
                      expected_seq := expected_seq r + 1\<rparr>, w2)
              | None \<Rightarrow> loop idleDeadline r w2)"

lemma receive_next_cases:
  assumes "receive_next ms loop r w = Some (res, r', w')"
  obtains
    (aborted) "res = None" "r' = r" "inbox w' = inbox w" "outbox w' = outbox w"
  | (buffered) data isFinal where "outOfOrderBuffer r (expected_seq r) = Some (data, isFinal)"
      "res = Some (expected_seq r, data, isFinal)"
      "r' = r\<lparr>outOfOrderBuffer := (outOfOrderBuffer r)(expected_seq r := None),
             expected_seq := expected_seq r + 1\<rparr>" "inbox w' = inbox w" "outbox w' = outbox w"
  | (looped) d w2 where "outOfOrderBuffer r (expected_seq r) = None"
      "loop d r w2 = Some (res, r', w')" "inbox w2 = inbox w" "outbox w2 = outbox w"
proof -
  obtain ab w1 where ab: "isAbortRequested (abortInstalled r) w = (ab, w1)" by fastforce
  obtain t w2 where t: "steady_now w1 = (t, w2)" by fastforce
  have fr: "inbox w1 = inbox w" "outbox w1 = outbox w" "inbox w2 = inbox w" "outbox w2 = outbox w"
    using isAbortRequested_frame [of "abortInstalled r" w] steady_now_frame [of w1] ab t by simp_all
  consider "ab" | "\<not> ab" "outOfOrderBuffer r (expected_seq r) = None"
    | d fin where "\<not> ab" "outOfOrderBuffer r (expected_seq r) = Some (d, fin)" by fastforce
  then show thesis
  proof cases
    case 1
    with assms ab fr that(1) show ?thesis by (simp add: receive_next_def)
  next
    case 2
    with assms ab t fr that(3) [of "t + ms * ns_per_ms" w2] show ?thesis
      by (simp add: receive_next_def)
  next
    case 3
    with assms ab t fr that(2) show ?thesis by (simp add: receive_next_def)
  qed
qed

text \<open>With nothing set aside and no abort, the round takes the first datagram that arrived.\<close>

lemma receive_round_Received:
  assumes "inbox w = Received bs a # rest" and "length bs \<le> HEADER_SIZE + MAX_PAYLOAD"
    and "aborts w = []" and "pendingDatagram r = []"
  shows "receive_round handle d r w = handle bs a r (w\<lparr>inbox := rest\<rparr>)"
  using assms
  by (simp add: receive_round_def next_datagram_def recvfrom_def isAbortRequested_none)

lemma receive_round_less:
  assumes "receive_round handle d r w = Again r' w'"
    and "\<And>bs a r w r' w'. handle bs a r w = Again r' w' \<Longrightarrow>
      inbox w' = inbox w \<and> pendingDatagram r' = pendingDatagram r"
  shows "receive_measure r' w' < receive_measure r w"
proof (cases "next_datagram d r w")
  case (Got bs a r1 w1)
  with assms(1) have "handle bs a r1 w1 = Again r' w'" by (simp add: receive_round_def)
  from assms(2) [OF this] have "receive_measure r' w' = receive_measure r1 w1"
    by (simp add: receive_measure_def)
  then show ?thesis using input_ok_measure(2) input_ok_next_datagram Got by metis
next
  case (Retry w1)
  with assms(1) have "r' = r" "w' = w1" by (simp_all add: receive_round_def)
  then show ?thesis using input_ok_measure(1) input_ok_next_datagram Retry by metis
qed (use assms in \<open>simp_all add: receive_round_def\<close>)

lemma receive_round_AgainE:
  assumes "receive_round handle d r w = Again r2 w2"
  obtains
    (timeout) "r2 = r" "input_ok r w (Retry w2)"
  | (handled) bs a r1 w1 where "input_ok r w (Got bs a r1 w1)" "handle bs a r1 w1 = Again r2 w2"
  using assms input_ok_next_datagram [of r w d] that
  by (auto simp: receive_round_def split: input.splits)

lemma receive_round_StopE:
  assumes "receive_round handle d r w = Stop c r2 w2"
  obtains
    (failed) "c = None" "r2 = r" "input_ok r w (GiveUp w2)"
  | (handled) bs a r1 w1 where "input_ok r w (Got bs a r1 w1)" "handle bs a r1 w1 = Stop c r2 w2"
  using assms input_ok_next_datagram [of r w d] that
  by (auto simp: receive_round_def split: input.splits)

section \<open>The contract of a receive routine\<close>

text \<open>
  What the treatment of one datagram promises, whichever side it belongs to: the reorder buffer
  stays inside the window, a chunk is handed on only with the number expected and only if it is
  that chunk of the sender's stream, and every acknowledgement sent is for a chunk held. \<open>mk\<close>
  is the form of the side's acknowledgements.
\<close>

locale receive_routine =
  fixes handle :: "'a receiver_scheme handler"
    and loop :: "nat \<Rightarrow> 'a receiver_scheme \<Rightarrow> world \<Rightarrow> (chunk option \<times> 'a receiver_scheme \<times> world) option"
    and idleMs :: nat
    and mk :: "u32 \<Rightarrow> bytes"
  assumes loop_unfold: "loop d r w =
      (case receive_round handle d r w of
         Waiting \<Rightarrow> None
       | Stop c r' w' \<Rightarrow> Some (c, r', w')
       | Again r' w' \<Rightarrow> loop d r' w')"
    and handle_inbox_Again: "handle bs a r w = Again r' w' \<Longrightarrow>
      inbox w' = inbox w \<and> pendingDatagram r' = pendingDatagram r"
    and handle_inbox_Stop: "handle bs a r w = Stop c r' w' \<Longrightarrow> inbox w' = inbox w"
    and handle_Again_expected: "handle bs a r w = Again r' w' \<Longrightarrow> expected_seq r' = expected_seq r"
    and handle_Again_window: "handle bs a r w = Again r' w' \<Longrightarrow> buffer_in_window 1 r \<Longrightarrow>
      buffer_in_window 1 r'"
    and handle_Stop_window: "handle bs a r w = Stop c r' w' \<Longrightarrow> buffer_in_window 1 r \<Longrightarrow>
      buffer_in_window 0 r'"
    and handle_Again_stream: "handle bs a r w = Again r' w' \<Longrightarrow> stream_inv f r evs \<Longrightarrow>
      (peerKnown r \<longrightarrow> a = peerAddr r) \<longrightarrow> carries_stream f bs \<Longrightarrow> stream_inv f r' evs"
    and handle_Stop_stream: "handle bs a r w = Stop c r' w' \<Longrightarrow> stream_inv f r evs \<Longrightarrow>
      (peerKnown r \<longrightarrow> a = peerAddr r) \<longrightarrow> carries_stream f bs \<Longrightarrow>
      stream_inv f r' evs \<and> delivered f (expected_seq r) c (expected_seq r')"
    and handle_Again_acks: "handle bs a r w = Again r' w' \<Longrightarrow> unat (expected_seq r) < 2 ^ 32 - 1 \<Longrightarrow>
      acks_sound mk r w r' w'"
    and handle_Stop_acks: "handle bs a r w = Stop c r' w' \<Longrightarrow> unat (expected_seq r) < 2 ^ 32 - 1 \<Longrightarrow>
      acks_sound mk r w r' w'"
begin

text \<open>
  A rule for the loop: what holds at the start and survives every round that goes on holds
  where the loop stops.
\<close>

lemma loop_rule:
  assumes "loop d r w = Some (res, r', w')" and "P r w"
    and again: "\<And>r w r2 w2. P r w \<Longrightarrow> receive_round handle d r w = Again r2 w2 \<Longrightarrow> P r2 w2"
    and stop: "\<And>r w c r2 w2. P r w \<Longrightarrow> receive_round handle d r w = Stop c r2 w2 \<Longrightarrow> Q c r2 w2"
  shows "Q res r' w'"
  using assms(1,2)
proof (induction "receive_measure r w" arbitrary: r w rule: less_induct)
  case less
  show ?case
  proof (cases "receive_round handle d r w")
    case Waiting
    with less.prems(1) show ?thesis by (simp add: loop_unfold [of d r w])
  next
    case (Stop c r2 w2)
    with stop [OF less.prems(2) Stop] less.prems(1) show ?thesis by (simp add: loop_unfold [of d r w])
  next
    case (Again r2 w2)
    then have "receive_measure r2 w2 < receive_measure r w"
      by (rule receive_round_less) (rule handle_inbox_Again)
    with less.hyps again [OF less.prems(2) Again] less.prems(1) Again show ?thesis
      by (simp add: loop_unfold [of d r w])
  qed
qed

lemma round_Again_expected:
  "receive_round handle d r w = Again r' w' \<Longrightarrow> expected_seq r' = expected_seq r"
  by (elim receive_round_AgainE) (simp_all add: handle_Again_expected input_ok_state(2))

lemma loop_window:
  assumes "loop d r w = Some (res, r', w')" and "buffer_in_window 1 r"
  shows "buffer_in_window 0 r'"
proof (rule loop_rule [OF assms(1), where P = "\<lambda>r w. buffer_in_window 1 r"])
  fix r w r2 w2
  assume "buffer_in_window 1 r" and "receive_round handle d r w = Again r2 w2"
  then show "buffer_in_window 1 r2"
    by (elim receive_round_AgainE) (auto dest: handle_Again_window simp: input_ok_state(6))
next
  fix r w c r2 w2
  assume "buffer_in_window 1 r" and "receive_round handle d r w = Stop c r2 w2"
  then show "buffer_in_window 0 r2"
    by (elim receive_round_StopE)
      (auto dest: handle_Stop_window buffer_in_window_mono simp: input_ok_state(6))
qed (rule assms(2))

lemma next_window:
  assumes "receive_next idleMs loop r w = Some (res, r', w')" and "buffer_in_window 0 r"
  shows "buffer_in_window 0 r'"
  using assms(1)
proof (cases rule: receive_next_cases)
  case buffered
  with buffer_in_window_advance [OF buffer_in_window_take [OF assms(2)]] show ?thesis by simp
qed (use assms(2) in \<open>auto dest: loop_window buffer_in_window_closed\<close>)

lemma round_Again_stream:
  assumes "receive_round handle d r w = Again r' w'" and "stream_inv f r (inbox w)"
  shows "stream_inv f r' (inbox w')"
  using assms(1)
proof (cases rule: receive_round_AgainE)
  case (handled bs a r3 w3)
  from handle_Again_stream [OF handled(2) input_ok_stream(1,2) [OF handled(1) assms(2)]]
  show ?thesis using handle_inbox_Again [OF handled(2)] by simp
qed (use assms(2) input_ok_stream_wait(1) [of f r w w'] in simp)

lemma loop_stream:
  assumes "loop d r w = Some (res, r', w')" and "stream_inv f r (inbox w)"
  shows "stream_inv f r' (inbox w') \<and> delivered f (expected_seq r) res (expected_seq r')"
proof (rule loop_rule [OF assms(1), where
      P = "\<lambda>r1 w1. stream_inv f r1 (inbox w1) \<and> expected_seq r1 = expected_seq r"])
  fix r1 w1 r2 w2
  assume P: "stream_inv f r1 (inbox w1) \<and> expected_seq r1 = expected_seq r"
    and R: "receive_round handle d r1 w1 = Again r2 w2"
  with P round_Again_expected [OF R] round_Again_stream [OF R]
  show "stream_inv f r2 (inbox w2) \<and> expected_seq r2 = expected_seq r" by simp
next
  fix r1 w1 c r2 w2
  assume P: "stream_inv f r1 (inbox w1) \<and> expected_seq r1 = expected_seq r"
    and "receive_round handle d r1 w1 = Stop c r2 w2"
  from this(2) show "stream_inv f r2 (inbox w2) \<and> delivered f (expected_seq r) c (expected_seq r2)"
  proof (cases rule: receive_round_StopE)
    case (handled bs a r3 w3)
    from handle_Stop_stream [OF handled(2) input_ok_stream(1,2) [OF handled(1)]] P
    show ?thesis using handle_inbox_Stop [OF handled(2)] input_ok_state(2) [OF handled(1)] by simp
  qed (use P input_ok_stream_wait(2) [of f r1 w1 w2] in \<open>simp add: delivered_def\<close>)
qed (use assms(2) in simp)

lemma next_stream:
  assumes "receive_next idleMs loop r w = Some (res, r', w')" and "stream_inv f r (inbox w)"
  shows "stream_inv f r' (inbox w') \<and> delivered f (expected_seq r) res (expected_seq r')"
  using assms(1)
proof (cases rule: receive_next_cases)
  case (buffered d fin)
  then have "f (unat (expected_seq r)) = Some (d, fin)"
    using assms(2) by (simp add: stream_inv_def buffer_stream_def)
  with buffered stream_inv_unbuffer [OF assms(2)] show ?thesis by (simp add: delivered_def)
next
  case (looped d w2)
  with loop_stream [of d r w2 res r' w' f] assms(2) show ?thesis by simp
qed (use assms(2) in \<open>simp add: delivered_def\<close>)

lemma round_acks:
  assumes "unat (expected_seq r) < 2 ^ 32 - 1"
  shows "receive_round handle d r w = Again r' w' \<Longrightarrow> acks_sound mk r w r' w'"
    and "receive_round handle d r w = Stop c r' w' \<Longrightarrow> acks_sound mk r w r' w'"
proof -
  assume "receive_round handle d r w = Again r' w'"
  then show "acks_sound mk r w r' w'"
  proof (cases rule: receive_round_AgainE)
    case (handled bs a r1 w1)
    from acks_sound_trans [OF input_ok_acks(1) [OF handled(1)] handle_Again_acks [OF handled(2)]]
    show ?thesis using assms input_ok_state(2) [OF handled(1)] by simp
  qed (simp add: input_ok_acks)
next
  assume "receive_round handle d r w = Stop c r' w'"
  then show "acks_sound mk r w r' w'"
  proof (cases rule: receive_round_StopE)
    case (handled bs a r1 w1)
    from acks_sound_trans [OF input_ok_acks(1) [OF handled(1)] handle_Stop_acks [OF handled(2)]]
    show ?thesis using assms input_ok_state(2) [OF handled(1)] by simp
  qed (simp add: input_ok_acks)
qed

lemma loop_acks:
  assumes "loop d r w = Some (res, r', w')" and "unat (expected_seq r) < 2 ^ 32 - 1"
  shows "acks_sound mk r w r' w'"
proof (rule loop_rule [OF assms(1), where
      P = "\<lambda>r1 w1. expected_seq r1 = expected_seq r \<and> acks_sound mk r w r1 w1"])
  show "expected_seq r = expected_seq r \<and> acks_sound mk r w r w" by (simp add: acks_sound_refl)
next
  fix r1 w1 r2 w2
  assume P: "expected_seq r1 = expected_seq r \<and> acks_sound mk r w r1 w1"
    and R: "receive_round handle d r1 w1 = Again r2 w2"
  then have "acks_sound mk r1 w1 r2 w2" using round_acks(1) [OF _ R] assms(2) by simp
  with P round_Again_expected [OF R]
  show "expected_seq r2 = expected_seq r \<and> acks_sound mk r w r2 w2"
    using acks_sound_trans by metis
next
  fix r1 w1 c r2 w2
  assume P: "expected_seq r1 = expected_seq r \<and> acks_sound mk r w r1 w1"
    and R: "receive_round handle d r1 w1 = Stop c r2 w2"
  then have "acks_sound mk r1 w1 r2 w2" using round_acks(2) [OF _ R] assms(2) by simp
  with P show "acks_sound mk r w r2 w2" using acks_sound_trans by metis
qed

lemma next_acks:
  assumes "receive_next idleMs loop r w = Some (res, r', w')" and "unat (expected_seq r) < 2 ^ 32 - 1"
  shows "acks_sound mk r w r' w'"
  using assms(1)
proof (cases rule: receive_next_cases)
  case (buffered d fin)
  then have "\<forall>s. holds r s \<longrightarrow> holds r' s"
    using assms(2) by (auto simp: holds_def unat_u32_plus1)
  with buffered show ?thesis by (simp add: acks_sound_refl)
next
  case (looped d w2)
  with loop_acks [of d r w2 res r' w'] assms(2) show ?thesis by (simp add: acks_sound_def)
qed (simp add: acks_sound_refl)

text \<open>
  Progress: datagrams that are handled one after the other, until one that returns a chunk.
  \<open>live\<close> says of a state that the datagram \<open>bs\<close> will return a chunk, and survives what comes before.
\<close>

lemma loop_progress:
  assumes "inbox w = before @ Received bs a # after" and "aborts w = []" and "sendOk w = []"
    and "pendingDatagram r = []" and "live r"
    and "length bs \<le> HEADER_SIZE + MAX_PAYLOAD"
    and small: "\<And>e. e \<in> set before \<Longrightarrow> \<exists>b a'. e = Received b a' \<and> length b \<le> HEADER_SIZE + MAX_PAYLOAD"
    and final: "\<And>r w. live r \<Longrightarrow> sendOk w = [] \<Longrightarrow> \<exists>c r' w'. handle bs a r w = Stop (Some c) r' w'"
    and keep: "\<And>b a' r w. Received b a' \<in> set before \<Longrightarrow> live r \<Longrightarrow> sendOk w = [] \<Longrightarrow>
      (\<exists>c r' w'. handle b a' r w = Stop (Some c) r' w') \<or>
      (\<exists>r' w'. handle b a' r w = Again r' w' \<and> live r' \<and> sendOk w' = [] \<and> aborts w' = aborts w)"
  shows "\<exists>c r' w'. loop d r w = Some (Some c, r', w')"
  using assms(1-5) small keep
proof (induction before arbitrary: r w)
  case Nil
  from receive_round_Received [of w bs a after r handle d] Nil assms(6)
  have "receive_round handle d r w = handle bs a r (w\<lparr>inbox := after\<rparr>)" by simp
  moreover from final [OF Nil.prems(5), of "w\<lparr>inbox := after\<rparr>"] Nil.prems(3)
  obtain c r' w' where "handle bs a r (w\<lparr>inbox := after\<rparr>) = Stop (Some c) r' w'" by auto
  ultimately show ?case by (cases c) (simp add: loop_unfold [of d r w])
next
  case (Cons e es)
  from Cons.prems(6) [of e] obtain b a' where e: "e = Received b a'"
    and b: "length b \<le> HEADER_SIZE + MAX_PAYLOAD" by auto
  let ?w = "w\<lparr>inbox := es @ Received bs a # after\<rparr>"
  from receive_round_Received [of w b a' "es @ Received bs a # after" r handle d] Cons.prems e b
  have rd: "receive_round handle d r w = handle b a' r ?w" by simp
  from Cons.prems(7) [of b a' r ?w] e Cons.prems
  consider (stop) c r' w' where "handle b a' r ?w = Stop (Some c) r' w'"
    | (go) r' w' where "handle b a' r ?w = Again r' w'" "live r'" "sendOk w' = []" "aborts w' = aborts ?w"
    by auto
  then show ?case
  proof cases
    case (stop c)
    with rd show ?thesis by (cases c) (simp add: loop_unfold [of d r w])
  next
    case go
    have "\<exists>c r2 w2. loop d r' w' = Some (Some c, r2, w2)"
      using Cons.prems go handle_inbox_Again [OF go(1)] by (intro Cons.IH) auto
    with rd go show ?thesis by (simp add: loop_unfold [of d r w])
  qed
qed

lemma next_progress:
  assumes "aborts w = []" and "\<And>d w2. inbox w2 = inbox w \<Longrightarrow> aborts w2 = [] \<Longrightarrow>
      sendOk w2 = sendOk w \<Longrightarrow> \<exists>c r' w'. loop d r w2 = Some (Some c, r', w')"
  shows "\<exists>c r' w'. receive_next idleMs loop r w = Some (Some c, r', w')"
proof (cases "outOfOrderBuffer r (expected_seq r)")
  case None
  obtain t w2 where t: "steady_now w = (t, w2)" by fastforce
  have "inbox w2 = inbox w" "aborts w2 = []" "sendOk w2 = sendOk w"
    using steady_now_frame [of w] t assms(1) by simp_all
  with assms(2) [of w2 "t + idleMs * ns_per_ms"] None t assms(1) show ?thesis
    by (simp add: receive_next_def isAbortRequested_none)
qed (use assms(1) in \<open>auto simp: receive_next_def isAbortRequested_none split: prod.splits\<close>)

end

section \<open>A sample exchange\<close>

text \<open>A peer at 10.0.0.1:2000 sends the one-byte chunk 65 as its only packet.\<close>

definition sample_peer :: sockaddr_in where
  "sample_peer = \<lparr>sin_family = AF_INET, sin_port = 2000, sin_addr = 0x0A000001\<rparr>"

definition sample_packet :: "u16 \<Rightarrow> bytes" where
  "sample_packet win = header_bytes (header (make_data_packet 0 True win [65])) @ [65]"

definition sample_stream :: "nat \<Rightarrow> (bytes \<times> bool) option" where
  "sample_stream n = (if n = 0 then Some ([65], True) else None)"

lemma sample_decode:
  "decodeValidatedDatagram (sample_packet win) = Some (header (make_data_packet 0 True win [65]))"
  by (simp add: sample_packet_def decode_make_data_packet MAX_PAYLOAD_def)

lemma sample_header:
  "seq_num (header (make_data_packet 0 True win [65])) = 0"
  "has_flag (header (make_data_packet 0 True win [65])) FLAG_DATA"
  "has_flag (header (make_data_packet 0 True win [65])) FLAG_FIN"
  "payload_len (header (make_data_packet 0 True win [65])) = 1"
  by (simp_all add: make_data_packet_eq MAX_PAYLOAD_def Let_def data_header_def has_flag_def flag_defs)

lemma sample_payload:
  "datagram_payload (header (make_data_packet 0 True win [65])) (sample_packet win) = [65]"
  by (simp add: datagram_payload_def sample_header sample_packet_def HEADER_SIZE_def)

lemma sample_length: "length (sample_packet win) = 17"
  by (simp add: sample_packet_def)

lemma sample_carries: "carries_stream sample_stream (sample_packet win)"
  by (simp add: carries_stream_def sample_decode sample_header sample_payload sample_stream_def)

end
