(* ===== verification/Sender_State.thy ===== *)
theory Sender_State
  imports Receiver_State
begin

unbundle bit_operations_syntax

text \<open>
  What the two senders share: the packet of a chunk as it goes on the wire, which incoming
  datagrams count as acknowledgements, and the two facts about a sender that a receiver relies on
  or that rely on a receiver: that every datagram sent carries the sender's stream, and that the
  acknowledgements coming in are honest.
\<close>

definition MAX_RETRIES :: nat where "MAX_RETRIES = 10"

section \<open>Packets on the wire\<close>

text \<open>The bytes of the packet for a chunk.\<close>

definition data_bytes :: "u32 \<Rightarrow> bool \<Rightarrow> u16 \<Rightarrow> bytes \<Rightarrow> bytes" where
  "data_bytes seqNum isFinal win data =
     header_bytes (header (make_data_packet seqNum isFinal win data)) @ data"

lemma data_header_fields:
  assumes "length data \<le> MAX_PAYLOAD"
  shows "seq_num (header (make_data_packet s fin win data)) = s"
    "has_flag (header (make_data_packet s fin win data)) FLAG_DATA"
    "has_flag (header (make_data_packet s fin win data)) FLAG_FIN \<longleftrightarrow> fin"
    "unat (payload_len (header (make_data_packet s fin win data))) = length data"
  using assms
  by (simp_all add: make_data_packet_eq Let_def data_header_def has_flag_def flag_defs unat_of_nat_u16)

lemma data_bytes_decode:
  assumes "length data \<le> MAX_PAYLOAD"
  shows "decodeValidatedDatagram (data_bytes s fin win data) =
    Some (header (make_data_packet s fin win data))"
  using decode_make_data_packet [OF assms] by (simp add: data_bytes_def)

lemma data_bytes_length:
  "length data \<le> MAX_PAYLOAD \<Longrightarrow> length (data_bytes s fin win data) \<le> HEADER_SIZE + MAX_PAYLOAD"
  by (simp add: data_bytes_def HEADER_SIZE_def)

lemma data_bytes_carries:
  assumes "length data \<le> MAX_PAYLOAD" and "f (unat s) = Some (data, fin)"
  shows "carries_stream f (data_bytes s fin win data)"
  using assms data_header_fields [OF assms(1), of s fin win]
  by (simp add: carries_stream_def decode_make_data_packet datagram_payload_def data_bytes_def HEADER_SIZE_def)

text \<open>The shape of a data packet.\<close>

definition is_data :: "bytes \<Rightarrow> bool" where
  "is_data bs \<longleftrightarrow> (\<exists>n fin win data. length data \<le> MAX_PAYLOAD \<and> bs = data_bytes n fin win data)"

lemma data_bytes_is_data: "length data \<le> MAX_PAYLOAD \<Longrightarrow> is_data (data_bytes n fin win data)"
  unfolding is_data_def by blast

text \<open>Every datagram sent between two states is a data packet, carries the stream and goes to \<open>dest\<close>.\<close>

definition sends_stream ::
  "(nat \<Rightarrow> (bytes \<times> bool) option) \<Rightarrow> sockaddr_in \<Rightarrow> world \<Rightarrow> world \<Rightarrow> bool" where
  "sends_stream f dest w w' \<longleftrightarrow>
     (\<exists>new. outbox w' = outbox w @ new \<and> (\<forall>p \<in> set new. carries_stream f (fst p) \<and> is_data (fst p) \<and> snd p = dest))"

lemma sends_stream_refl: "outbox w' = outbox w \<Longrightarrow> sends_stream f dest w w'"
  by (simp add: sends_stream_def)

lemma sends_stream_trans:
  "sends_stream f dest w w1 \<Longrightarrow> sends_stream f dest w1 w2 \<Longrightarrow> sends_stream f dest w w2"
  by (auto simp: sends_stream_def)

lemma sends_stream_frame:
  "sends_stream f dest w w1 \<Longrightarrow> outbox v = outbox w \<Longrightarrow> outbox v1 = outbox w1 \<Longrightarrow> sends_stream f dest v v1"
  by (simp add: sends_stream_def)

section \<open>Acknowledgements\<close>

text \<open>
  The acknowledgements that reach a sender at \<open>dest\<close> are honest with respect to \<open>A\<close>: a valid ACK of
  number \<open>n\<close> comes from there only if \<open>A n\<close>.
\<close>

definition acks_honest :: "(u32 \<Rightarrow> bool) \<Rightarrow> sockaddr_in \<Rightarrow> recv_result list \<Rightarrow> bool" where
  "acks_honest A dest evs \<longleftrightarrow>
     (\<forall>bs h. Received bs dest \<in> set evs \<longrightarrow> decodeValidatedDatagram bs = Some h \<longrightarrow>
        has_flag h FLAG_ACK \<longrightarrow> \<not> has_flag h FLAG_DATA \<longrightarrow> A (ack_num h))"

lemma acks_honest_inbox: "acks_honest A dest evs \<Longrightarrow> set evs' \<subseteq> set evs \<Longrightarrow> acks_honest A dest evs'"
  by (auto simp: acks_honest_def)

text \<open>The ACKs of the receivers are honest by \<open>acks_sound\<close>: the link to their theories.\<close>

lemma seal_control_honest:
  assumes "checksum h = 0" and "payload_len h = 0" and "A (ack_num h)"
  shows "acks_honest A dest [Received (seal_control h) dest]"
  using assms decode_seal_control [OF assms(2,1)] by (simp add: acks_honest_def)

end
