(* ===== verification/Double_Rounding.thy ===== *)
theory Double_Rounding
  imports Complex_Main "HOL-Library.Log_Nat"
begin

text \<open>
  The arithmetic of \<^verbatim>\<open>double\<close>: a finite double is the rational it denotes, and an operation is the
  exact one followed by rounding to the nearest multiple of the unit in the last place, ties to
  even, with 53 bits of precision and the least exponent of the format. Infinities and NaN do not
  occur in the range of values the sender works with and are left out.
\<close>

definition round_even :: "rat \<Rightarrow> int" where
  "round_even x =
     (let n = floor x; d = x - of_int n
      in if d < 1 / 2 then n else if 1 / 2 < d then n + 1 else if even n then n else n + 1)"

text \<open>The exponent of the leading binary digit of a positive number, from numerator and denominator.\<close>

definition leading_exponent :: "rat \<Rightarrow> int" where
  "leading_exponent x =
     (let (p, q) = quotient_of \<bar>x\<bar>;
          k = int (floorlog 2 (nat p)) - int (floorlog 2 (nat q))
      in if 2 powi k \<le> \<bar>x\<bar> then k else k - 1)"

definition unit_exponent :: "rat \<Rightarrow> int" where
  "unit_exponent x = max (leading_exponent x - 52) (- 1074)"

definition fl :: "rat \<Rightarrow> rat" where
  "fl x = of_int (round_even (x / 2 powi unit_exponent x)) * 2 powi unit_exponent x"

section \<open>Rounding\<close>

lemma round_even_cases: "round_even x = floor x \<or> round_even x = floor x + 1 \<and> x \<noteq> of_int (floor x)"
  by (auto simp: round_even_def Let_def)

lemma round_even_ge: "of_int n \<le> x \<Longrightarrow> n \<le> round_even x"
  using round_even_cases [of x] le_floor_iff [of n x] by auto

lemma round_even_le: "x \<le> of_int n \<Longrightarrow> round_even x \<le> n"
  using round_even_cases [of x] by linarith

lemma round_even_int [simp]: "round_even (of_int n) = n"
  by (rule antisym) (auto intro: round_even_ge round_even_le)

lemma powi_2_pos: "0 < (2 :: rat) powi k"
  by (simp add: zero_less_power_int)

lemma fl_0 [simp]: "fl 0 = 0"
  using round_even_int [of 0] by (simp add: fl_def)

lemma fl_nonneg: "0 \<le> x \<Longrightarrow> 0 \<le> fl x"
  using round_even_ge [of 0 "x / 2 powi unit_exponent x"] powi_2_pos [of "unit_exponent x"]
  by (simp add: fl_def)

section \<open>Exponents\<close>

lemma powi_2_neg: "u \<le> 0 \<Longrightarrow> (2 :: rat) powi u = 1 / 2 ^ nat (- u)"
  by (cases "u = 0") (simp_all add: power_int_def power_one_over)

lemma floorlog_2_bounds:
  assumes "0 < n"
  shows "(2 :: rat) ^ (floorlog 2 (nat n) - 1) \<le> of_int n" "of_int n < (2 :: rat) ^ floorlog 2 (nat n)"
    "0 < floorlog 2 (nat n)"
proof -
  have "2 ^ (floorlog 2 (nat n) - 1) \<le> nat n \<and> nat n < 2 ^ floorlog 2 (nat n)"
    using floorlog_bounds [of "nat n" 2] assms by simp
  then have "(of_nat (2 ^ (floorlog 2 (nat n) - 1)) :: rat) \<le> of_nat (nat n)"
    "(of_nat (nat n) :: rat) < of_nat (2 ^ floorlog 2 (nat n))" by (simp_all only: of_nat_le_iff of_nat_less_iff)
  with assms show "(2 :: rat) ^ (floorlog 2 (nat n) - 1) \<le> of_int n"
    "of_int n < (2 :: rat) ^ floorlog 2 (nat n)" by simp_all
  show "0 < floorlog 2 (nat n)" using assms floorlog_eq_zero_iff [of 2 "nat n"] by simp
qed

lemma quotient_of_pos:
  assumes "x \<noteq> 0" and "quotient_of \<bar>x\<bar> = (p, q)"
  shows "0 < p" "0 < q" "\<bar>x\<bar> = of_int p / of_int q"
proof -
  show q: "0 < q" using quotient_of_denom_pos [OF assms(2)] .
  show x: "\<bar>x\<bar> = of_int p / of_int q" using quotient_of_div [OF assms(2)] .
  have "0 < (of_int p :: rat) / of_int q" using assms(1) x by (metis zero_less_abs_iff)
  with q show "0 < p" by (simp add: zero_less_divide_iff)
qed

lemma leading_exponent_le:
  assumes "x \<noteq> 0"
  shows "2 powi leading_exponent x \<le> \<bar>x\<bar>"
proof -
  obtain p q where pq: "quotient_of \<bar>x\<bar> = (p, q)" by fastforce
  note pos = quotient_of_pos [OF assms pq]
  let ?a = "floorlog 2 (nat p)" and ?b = "floorlog 2 (nat q)"
  note P = floorlog_2_bounds [OF pos(1)] and Q = floorlog_2_bounds [OF pos(2)]
  obtain c where c: "?a = Suc c" using P(3) by (cases ?a) auto
  have e: "(2 :: rat) powi (int ?a - int ?b - 1) = 2 ^ c / 2 ^ ?b"
    unfolding c by (simp add: power_int_diff)
  have "(2 :: rat) ^ c / 2 ^ ?b \<le> of_int p / of_int q"
    using P(1) Q(2) pos(1,2) by (intro frac_le) (simp_all add: c)
  then have "2 powi (int ?a - int ?b - 1) \<le> \<bar>x\<bar>" unfolding e pos(3) .
  then show ?thesis by (simp add: leading_exponent_def pq Let_def)
qed

lemma fl_ge_1:
  assumes "1 \<le> x"
  shows "1 \<le> fl x"
proof (cases "unit_exponent x \<le> 0")
  case True
  define k where "k = nat (- unit_exponent x)"
  have k: "2 powi unit_exponent x = 1 / (2 :: rat) ^ k" using powi_2_neg [OF True] by (simp add: k_def)
  have "1 * (2 :: rat) ^ k \<le> x * 2 ^ k" using assms by (intro mult_right_mono) simp_all
  then have "of_int (2 ^ k) \<le> x * 2 ^ k" by simp
  from round_even_ge [OF this] have "(of_int (2 ^ k) :: rat) \<le> of_int (round_even (x * 2 ^ k))"
    by (simp only: of_int_le_iff)
  then show ?thesis by (simp add: fl_def k)
next
  case False
  let ?U = "2 powi unit_exponent x :: rat"
  have "?U \<le> 2 powi leading_exponent x"
    using False by (intro power_int_increasing) (auto simp: unit_exponent_def)
  also have "\<dots> \<le> x" using leading_exponent_le [of x] assms by simp
  finally have "of_int 1 \<le> x / ?U" using powi_2_pos [of "unit_exponent x"] by simp
  from round_even_ge [OF this] have "(1 :: rat) \<le> of_int (round_even (x / ?U))" by simp
  moreover have "1 \<le> ?U" using False by (simp add: power_int_def)
  ultimately have "1 * 1 \<le> of_int (round_even (x / ?U)) * ?U" by (intro mult_mono) simp_all
  then show ?thesis by (simp add: fl_def)
qed

text \<open>Small integers are doubles.\<close>

lemma fl_int:
  assumes "unit_exponent (of_int n) \<le> 0"
  shows "fl (of_int n) = of_int n"
proof -
  define k where "k = nat (- unit_exponent (of_int n))"
  have k: "2 powi unit_exponent (of_int n) = 1 / (2 :: rat) ^ k"
    using powi_2_neg [OF assms] by (simp add: k_def)
  have "(of_int n :: rat) * 2 ^ k = of_int (n * 2 ^ k)" by simp
  then have "round_even (of_int n * 2 ^ k) = n * 2 ^ k" by (simp only: round_even_int)
  then show ?thesis by (simp add: fl_def k)
qed

end
