(* ===== verification/Server_Sender.thy ===== *)
theory Server_Sender
  imports Sender_State Double_Rounding "HOL-Library.Sublist"
begin

unbundle bit_operations_syntax

text \<open>
  The server's selective-repeat sender, \<^verbatim>\<open>server/src/rdt/RdtSender.cpp\<close>: the window of packets in
  flight, the estimate of the round-trip time, the congestion window, polling for acknowledgements
  with retransmission, \<^verbatim>\<open>sendChunk\<close>, \<^verbatim>\<open>flush\<close> and the passive-mode handshake. The test seams
  \<^verbatim>\<open>injectedSendTo\<close> and \<^verbatim>\<open>injectedPreSendDelay\<close> are empty in the program and are left out.
\<close>

section \<open>State\<close>

text \<open>Times are readings of the monotonic clock, in nanoseconds.\<close>

record InFlightPacket =
  pkt_seq_num :: u32
  pkt_data :: bytes
  is_final :: bool
  sent_time :: nat
  acked :: bool
  retransmitted :: bool
  retries :: nat

record sv_sender =
  ss_socketOk :: bool
  destAddr :: sockaddr_in
  timeoutMs :: int
  estimatedRttMs :: rat
  devRttMs :: rat
  cwnd :: rat
  cleanAcks :: nat
  window :: "InFlightPacket list"
  ss_abortInstalled :: bool
  ss_rcvTimeout :: int

definition RTT_ALPHA :: rat where "RTT_ALPHA = 1 / 8"
definition RTT_BETA :: rat where "RTT_BETA = 1 / 4"
definition MIN_TIMEOUT_MS :: int where "MIN_TIMEOUT_MS = 50"
definition MAX_TIMEOUT_MS :: int where "MAX_TIMEOUT_MS = 2000"
definition MIN_CWND :: rat where "MIN_CWND = 1"
definition INITIAL_CWND :: rat where "INITIAL_CWND = 4"

text \<open>\<^verbatim>\<open>std::clamp\<close>\<close>

definition clamp :: "'a \<Rightarrow> 'a \<Rightarrow> 'a \<Rightarrow> 'a :: linorder" where
  "clamp v lo hi = (if v < lo then lo else if hi < v then hi else v)"

lemma clamp_bounds: "lo \<le> hi \<Longrightarrow> lo \<le> clamp v lo hi \<and> clamp v lo hi \<le> hi"
  by (auto simp: clamp_def)

section \<open>Construction\<close>

definition sv_sender_init :: "bool \<Rightarrow> sockaddr_in \<Rightarrow> int \<Rightarrow> sv_sender" where
  "sv_sender_init ok dest initialTimeoutMs =
     (let t = clamp initialTimeoutMs MIN_TIMEOUT_MS MAX_TIMEOUT_MS
      in \<lparr>ss_socketOk = ok, destAddr = dest, timeoutMs = t, estimatedRttMs = of_int t, devRttMs = 0,
          cwnd = INITIAL_CWND, cleanAcks = 0, window = [], ss_abortInstalled = False, ss_rcvTimeout = t\<rparr>)"

text \<open>\<open>inet_pton\<close> is the address conversion of the socket library.\<close>

definition sv_RdtSender_target ::
  "(string \<Rightarrow> u32 option) \<Rightarrow> string \<Rightarrow> u16 \<Rightarrow> int \<Rightarrow> world \<Rightarrow> sv_sender \<times> world" where
  "sv_RdtSender_target inet_pton targetIp targetPort initialTimeoutMs w =
     (let (created, w1) = syscall w
      in if \<not> created then (sv_sender_init False zero_addr initialTimeoutMs, w1)
         else let (optOk, w2) = syscall w1
           in if \<not> optOk then (sv_sender_init False zero_addr initialTimeoutMs, w2)
              else let dest = zero_addr\<lparr>sin_family := AF_INET, sin_port := targetPort\<rparr>
                in if targetPort = 0 then (sv_sender_init False dest initialTimeoutMs, w2)
                   else case inet_pton targetIp of
                       None \<Rightarrow> (sv_sender_init False dest initialTimeoutMs, w2)
                     | Some ip \<Rightarrow> (sv_sender_init True (dest\<lparr>sin_addr := ip\<rparr>) initialTimeoutMs, w2))"

definition sv_RdtSender_existing :: "bool \<Rightarrow> int \<Rightarrow> world \<Rightarrow> sv_sender \<times> world" where
  "sv_RdtSender_existing existing initialTimeoutMs w =
     (if \<not> existing then (sv_sender_init False zero_addr initialTimeoutMs, w)
      else let (optOk, w1) = syscall w in (sv_sender_init optOk zero_addr initialTimeoutMs, w1))"

definition sv_sender_setAbortPredicate :: "bool \<Rightarrow> sv_sender \<Rightarrow> sv_sender" where
  "sv_sender_setAbortPredicate installed s = s\<lparr>ss_abortInstalled := installed\<rparr>"

section \<open>Round-trip time and congestion window\<close>

definition effectiveWindowSize :: "sv_sender \<Rightarrow> nat" where
  "effectiveWindowSize s = clamp (nat (floor (cwnd s))) 1 RDT_RECEIVE_WINDOW"

definition updateRtt :: "rat \<Rightarrow> sv_sender \<Rightarrow> sv_sender" where
  "updateRtt sampleRttMs s =
     (let previousEstimatedRtt = estimatedRttMs s;
          dev = fl (fl ((1 - RTT_BETA) * devRttMs s) +
                    fl (RTT_BETA * \<bar>fl (sampleRttMs - previousEstimatedRtt)\<bar>));
          est = fl (fl ((1 - RTT_ALPHA) * estimatedRttMs s) + fl (RTT_ALPHA * sampleRttMs))
      in s\<lparr>devRttMs := dev, estimatedRttMs := est,
           timeoutMs := clamp (ceiling (fl (est + fl (4 * dev)))) MIN_TIMEOUT_MS MAX_TIMEOUT_MS\<rparr>)"

definition applyCongestionDecrease :: "sv_sender \<Rightarrow> sv_sender" where
  "applyCongestionDecrease s =
     s\<lparr>cwnd := max MIN_CWND (fl (cwnd s / 2)), cleanAcks := 0,
       timeoutMs := clamp (timeoutMs s * 2) MIN_TIMEOUT_MS MAX_TIMEOUT_MS\<rparr>"

section \<open>Sending one packet\<close>

text \<open>The clock is read just before \<^verbatim>\<open>sendto\<close>; the reading is the send time if the send succeeds.\<close>

definition sv_sendRawPacket :: "RdtPacket \<Rightarrow> sv_sender \<Rightarrow> world \<Rightarrow> nat option \<times> world" where
  "sv_sendRawPacket packet s w =
     (case raw_packet_bytes packet of
        None \<Rightarrow> (None, w)
      | Some sendBuf \<Rightarrow>
          (let (sendTime, w1) = steady_now w;
               (sent, w2) = sendto sendBuf (destAddr s) w1
           in (if sent then Some sendTime else None, w2)))"

section \<open>Acknowledgements\<close>

text \<open>The packet of the window that an acknowledgement is for, and the window with it marked.\<close>

fun mark_acked :: "u32 \<Rightarrow> InFlightPacket list \<Rightarrow> (InFlightPacket \<times> InFlightPacket list) option" where
  "mark_acked n [] = None"
| "mark_acked n (p # ps) =
     (if pkt_seq_num p = n \<and> \<not> acked p then Some (p, p\<lparr>acked := True\<rparr> # ps)
      else case mark_acked n ps of None \<Rightarrow> None | Some (q, qs) \<Rightarrow> Some (q, p # qs))"

text \<open>A sample in milliseconds, from a clock difference in nanoseconds.\<close>

definition sample_rtt_ms :: "nat \<Rightarrow> rat" where
  "sample_rtt_ms ns = fl (fl (of_nat ns) / 1000000)"

text \<open>The first acknowledgement of a packet sent once gives a sample and a step of the window.\<close>

definition clean_ack :: "nat \<Rightarrow> sv_sender \<Rightarrow> sv_sender" where
  "clean_ack elapsed s =
     (let s1 = updateRtt (sample_rtt_ms elapsed) s;
          s2 = s1\<lparr>cleanAcks := cleanAcks s1 + 1\<rparr>
      in if cleanAcks s2 \<ge> effectiveWindowSize s2
         then s2\<lparr>cwnd := fl (cwnd s2 + 1), cleanAcks := 0\<rparr> else s2)"

definition handle_ack :: "u32 \<Rightarrow> sv_sender \<Rightarrow> world \<Rightarrow> sv_sender \<times> world" where
  "handle_ack n s w =
     (let (s1, w1) =
            (case mark_acked n (window s) of
               None \<Rightarrow> (s, w)
             | Some (p, win) \<Rightarrow>
                 let s0 = s\<lparr>window := win\<rparr>
                 in if retransmitted p then (s0, w)
                    else let (ackTime, w0) = steady_now w
                      in (clean_ack (ackTime - sent_time p) s0, w0))
      in (s1\<lparr>window := dropWhile acked (window s1)\<rparr>, w1))"

text \<open>
  One round of the receive loop of \<^verbatim>\<open>pollAcksAndRetransmit\<close>: the script has ended (\<open>Blocked\<close>), the
  loop is left (\<open>Finished\<close>, with \<open>False\<close> where the source returns false: an abort, or a NAK), or it
  goes on. An event \<open>RecvTimeout\<close> is a \<^verbatim>\<open>select\<close> that finds nothing to read, \<open>RecvError\<close> a
  \<^verbatim>\<open>recvfrom\<close> that fails.
\<close>

datatype poll_round = Blocked | Finished bool sv_sender world | Continue sv_sender world

definition poll_step :: "sv_sender \<Rightarrow> world \<Rightarrow> poll_round" where
  "poll_step s w =
     (let (ab, w1) = isAbortRequested (ss_abortInstalled s) w
      in if ab then Finished False s w1
         else case recvfrom w1 of
             None \<Rightarrow> Blocked
           | Some (RecvTimeout, w2) \<Rightarrow> Finished True s w2
           | Some (RecvError e, w2) \<Rightarrow> Finished True s w2
           | Some (Received bs from, w2) \<Rightarrow>
               (case (if sameEndpoint from (destAddr s) then decodeValidatedDatagram bs else None) of
                  None \<Rightarrow> Continue s w2
                | Some h \<Rightarrow>
                    if has_flag h FLAG_DATA \<or> payload_len h \<noteq> 0 then Continue s w2
                    else if has_flag h FLAG_NAK then Finished False s w2
                    else if \<not> has_flag h FLAG_ACK then Continue s w2
                    else case handle_ack (ack_num h) s w2 of (s1, w3) \<Rightarrow> Continue s1 w3))"

lemma clean_ack_frame [simp]:
  "window (clean_ack d s) = window s" "destAddr (clean_ack d s) = destAddr s"
  "ss_abortInstalled (clean_ack d s) = ss_abortInstalled s"
  by (simp_all add: clean_ack_def updateRtt_def Let_def)

lemma handle_ackE:
  assumes "handle_ack n s w = (s1, w1)"
  obtains
    (stale) "mark_acked n (window s) = None" "s1 = s\<lparr>window := dropWhile acked (window s)\<rparr>" "w1 = w"
  | (resent) p win where "mark_acked n (window s) = Some (p, win)" "retransmitted p"
      "s1 = s\<lparr>window := dropWhile acked win\<rparr>" "w1 = w"
  | (clean) p win t where "mark_acked n (window s) = Some (p, win)" "\<not> retransmitted p"
      "steady_now w = (t, w1)"
      "s1 = (clean_ack (t - sent_time p) (s\<lparr>window := win\<rparr>))\<lparr>window := dropWhile acked win\<rparr>"
proof -
  obtain t w0 where t: "steady_now w = (t, w0)" by fastforce
  show thesis
  proof (cases "mark_acked n (window s)")
    case None
    with assms stale show thesis by (simp add: handle_ack_def)
  next
    case (Some q)
    then obtain p win where "mark_acked n (window s) = Some (p, win)" by (cases q) auto
    with assms t resent clean show thesis
      by (cases "retransmitted p") (simp_all add: handle_ack_def)
  qed
qed

lemma handle_ack_frame:
  assumes "handle_ack n s w = (s1, w1)"
  shows "inbox w1 = inbox w" "outbox w1 = outbox w" "destAddr s1 = destAddr s"
    "ss_abortInstalled s1 = ss_abortInstalled s" "aborts w1 = aborts w" "sendOk w1 = sendOk w"
  using assms steady_now_frame [of w] by (cases rule: handle_ackE; simp)+

lemma poll_step_ContinueE:
  assumes "poll_step s w = Continue s' w'"
  obtains
    (skipped) e where "s' = s" "inbox w = e # inbox w'" "outbox w' = outbox w"
  | (acknowledged) bs h w2 where "inbox w = Received bs (destAddr s) # inbox w2" "outbox w2 = outbox w"
      "decodeValidatedDatagram bs = Some h" "has_flag h FLAG_ACK" "\<not> has_flag h FLAG_DATA"
      "handle_ack (ack_num h) s w2 = (s', w')"
proof -
  obtain ab w1 where ab: "isAbortRequested (ss_abortInstalled s) w = (ab, w1)" by fastforce
  then have w1: "inbox w1 = inbox w" "outbox w1 = outbox w" "\<not> ab"
    using isAbortRequested_frame [of "ss_abortInstalled s" w] assms by (auto simp: poll_step_def)
  obtain e w2 where r: "recvfrom w1 = Some (e, w2)"
    using assms ab w1(3) by (cases "recvfrom w1") (auto simp: poll_step_def)
  have w2: "inbox w = e # inbox w2 \<or> (\<exists>x. inbox w = x # inbox w2)" "outbox w2 = outbox w"
    using recvfrom_SomeD [OF r] w1 by auto
  from assms ab w1(3) r obtain bs a where e: "e = Received bs a"
    by (cases e) (auto simp: poll_step_def)
  have rcv: "inbox w = Received bs a # inbox w2" using recvfrom_Received(1) [of w1 bs a w2] r e w1 by simp
  show thesis
  proof (cases "\<exists>h. a = destAddr s \<and> decodeValidatedDatagram bs = Some h \<and> has_flag h FLAG_ACK \<and>
      \<not> has_flag h FLAG_DATA \<and> payload_len h = 0")
    case True
    then obtain h where h: "a = destAddr s" "decodeValidatedDatagram bs = Some h" "has_flag h FLAG_ACK"
      "\<not> has_flag h FLAG_DATA" "payload_len h = 0" by blast
    with assms ab w1(3) r e have "handle_ack (ack_num h) s w2 = (s', w')"
      by (auto simp: poll_step_def split: if_splits prod.splits)
    with acknowledged rcv w2(2) h show thesis by blast
  next
    case False
    with assms ab w1(3) r e have "s' = s \<and> w' = w2"
      by (auto simp: poll_step_def split: if_splits prod.splits option.splits)
    with skipped rcv w2(2) show thesis by blast
  qed
qed

lemma poll_step_FinishedE:
  assumes "poll_step s w = Finished ok s' w'"
  shows "s' = s \<and> outbox w' = outbox w \<and> set (inbox w') \<subseteq> set (inbox w) \<and>
    (ok \<longrightarrow> length (inbox w') < length (inbox w))"
proof -
  obtain ab w1 where ab: "isAbortRequested (ss_abortInstalled s) w = (ab, w1)" by fastforce
  then have w1: "inbox w1 = inbox w" "outbox w1 = outbox w"
    using isAbortRequested_frame [of "ss_abortInstalled s" w] by auto
  show ?thesis
  proof (cases "ab \<or> recvfrom w1 = None")
    case True
    with assms ab w1 show ?thesis by (auto simp: poll_step_def split: if_splits)
  next
    case False
    then obtain e w2 where r: "recvfrom w1 = Some (e, w2)" by auto
    note rs = recvfrom_SomeD [OF r]
    have "s' = s \<and> w' = w2"
      using assms ab False r
      by (cases e) (auto simp: poll_step_def split: option.splits if_splits prod.splits)
    with rs w1 show ?thesis by auto
  qed
qed

lemma poll_step_less:
  "poll_step s w = Continue s' w' \<Longrightarrow> length (inbox w') < length (inbox w)"
  by (elim poll_step_ContinueE) (simp_all add: handle_ack_frame(1))

function poll_acks :: "sv_sender \<Rightarrow> world \<Rightarrow> (bool \<times> sv_sender \<times> world) option" where
  "poll_acks s w =
     (case poll_step s w of
        Blocked \<Rightarrow> None
      | Finished ok s' w' \<Rightarrow> Some (ok, s', w')
      | Continue s' w' \<Rightarrow> poll_acks s' w')"
  by pat_completeness auto
termination
  by (relation "measure (\<lambda>(s, w). length (inbox w))") (auto dest: poll_step_less)

declare poll_acks.simps [simp del]

text \<open>A rule for the loop: what every round keeps holds at the end.\<close>

lemma poll_acks_rule:
  assumes "poll_acks s w = Some (ok, s', w')" and "P s w"
    and "\<And>s w s2 w2. P s w \<Longrightarrow> poll_step s w = Continue s2 w2 \<Longrightarrow> P s2 w2"
    and "\<And>s w ok s2 w2. P s w \<Longrightarrow> poll_step s w = Finished ok s2 w2 \<Longrightarrow> Q ok s2 w2"
  shows "Q ok s' w'"
  using assms(1,2)
proof (induction s w rule: poll_acks.induct)
  case (1 s w)
  show ?case
  proof (cases "poll_step s w")
    case (Finished b s2 w2)
    with assms(4) [OF "1.prems"(2) Finished] "1.prems"(1) show ?thesis by (simp add: poll_acks.simps [of s w])
  next
    case (Continue s2 w2)
    with "1.IH" assms(3) [OF "1.prems"(2) Continue] "1.prems"(1) show ?thesis
      by (simp add: poll_acks.simps [of s w])
  qed (use "1.prems"(1) in \<open>simp add: poll_acks.simps [of s w]\<close>)
qed

section \<open>Retransmission\<close>

definition expired :: "nat \<Rightarrow> int \<Rightarrow> InFlightPacket \<Rightarrow> bool" where
  "expired now currentTimeoutMs p \<longleftrightarrow>
     \<not> acked p \<and> int ((now - sent_time p) div ns_per_ms) > currentTimeoutMs"

text \<open>The scan for a packet past its time, with its abort checks; \<open>None\<close> when aborted.\<close>

fun congestion_scan ::
  "bool \<Rightarrow> nat \<Rightarrow> int \<Rightarrow> InFlightPacket list \<Rightarrow> bool \<Rightarrow> world \<Rightarrow> bool option \<times> world" where
  "congestion_scan installed now t [] c w = (Some c, w)"
| "congestion_scan installed now t (p # ps) c w =
     (let (ab, w1) = isAbortRequested installed w
      in if ab then (None, w1) else congestion_scan installed now t ps (c \<or> expired now t p) w1)"

text \<open>The packet of a window entry, as it is retransmitted.\<close>

definition repacket :: "sv_sender \<Rightarrow> InFlightPacket \<Rightarrow> RdtPacket" where
  "repacket s p =
     make_data_packet (pkt_seq_num p) (is_final p) (of_nat (effectiveWindowSize s)) (pkt_data p)"

text \<open>The retransmission loop: the window as far as it got, and \<open>False\<close> where the source gives up.\<close>

fun retransmit_all ::
  "nat \<Rightarrow> int \<Rightarrow> sv_sender \<Rightarrow> InFlightPacket list \<Rightarrow> world \<Rightarrow> bool \<times> InFlightPacket list \<times> world" where
  "retransmit_all now t s [] w = (True, [], w)"
| "retransmit_all now t s (p # ps) w =
     (if \<not> expired now t p
      then case retransmit_all now t s ps w of (ok, qs, w1) \<Rightarrow> (ok, p # qs, w1)
      else if retries p \<ge> MAX_RETRIES then (False, p # ps, w)
      else case sv_sendRawPacket (repacket s p) s w of
          (None, w1) \<Rightarrow> (False, p # ps, w1)
        | (Some actualSendTime, w1) \<Rightarrow>
            (case retransmit_all now t s ps w1 of
               (ok, qs, w2) \<Rightarrow>
                 (ok, p\<lparr>retries := retries p + 1, sent_time := actualSendTime,
                        retransmitted := True\<rparr> # qs, w2)))"

definition pollAcksAndRetransmit :: "sv_sender \<Rightarrow> world \<Rightarrow> (bool \<times> sv_sender \<times> world) option" where
  "pollAcksAndRetransmit s w =
     (let (ab, w1) = isAbortRequested (ss_abortInstalled s) w
      in if ab then Some (False, s, w1)
         else case poll_acks s w1 of
             None \<Rightarrow> None
           | Some (False, s2, w2) \<Rightarrow> Some (False, s2, w2)
           | Some (True, s2, w2) \<Rightarrow>
               (let (now, w3) = steady_now w2;
                    currentTimeoutMs = timeoutMs s2;
                    (scan, w4) = congestion_scan (ss_abortInstalled s2) now currentTimeoutMs
                                   (window s2) False w3
                in case scan of
                     None \<Rightarrow> Some (False, s2, w4)
                   | Some congestionEvent \<Rightarrow>
                       (let s3 = (if congestionEvent then applyCongestionDecrease s2 else s2);
                            (ok, win, w5) = retransmit_all now currentTimeoutMs s3 (window s3) w4
                        in Some (ok, s3\<lparr>window := win\<rparr>, w5))))"

section \<open>Input is used up\<close>

lemma poll_acks_inbox:
  assumes "poll_acks s w = Some (ok, s', w')"
  shows "outbox w' = outbox w \<and> set (inbox w') \<subseteq> set (inbox w) \<and> (ok \<longrightarrow> length (inbox w') < length (inbox w))"
proof (rule poll_acks_rule [OF assms, where P = "\<lambda>s1 w1. outbox w1 = outbox w \<and>
      set (inbox w1) \<subseteq> set (inbox w) \<and> length (inbox w1) \<le> length (inbox w)"])
  fix s1 w1 s2 w2
  assume P: "outbox w1 = outbox w \<and> set (inbox w1) \<subseteq> set (inbox w) \<and> length (inbox w1) \<le> length (inbox w)"
    and R: "poll_step s1 w1 = Continue s2 w2"
  from R show "outbox w2 = outbox w \<and> set (inbox w2) \<subseteq> set (inbox w) \<and> length (inbox w2) \<le> length (inbox w)"
    using P by (cases rule: poll_step_ContinueE) (auto simp: handle_ack_frame(1,2))
next
  fix s1 w1 b s2 w2
  assume P: "outbox w1 = outbox w \<and> set (inbox w1) \<subseteq> set (inbox w) \<and> length (inbox w1) \<le> length (inbox w)"
    and R: "poll_step s1 w1 = Finished b s2 w2"
  from poll_step_FinishedE [OF R] P
  show "outbox w2 = outbox w \<and> set (inbox w2) \<subseteq> set (inbox w) \<and> (b \<longrightarrow> length (inbox w2) < length (inbox w))"
    by auto
qed simp

lemma congestion_scan_frame:
  "congestion_scan b now t ps c w = (res, w') \<Longrightarrow>
   inbox w' = inbox w \<and> outbox w' = outbox w \<and> time w' = time w"
proof (induction ps arbitrary: c w)
  case (Cons p ps)
  then show ?case
    using isAbortRequested_frame [of b w]
    by (cases "isAbortRequested b w") (auto simp: Let_def split: if_splits)
qed auto

lemma sv_sendRawPacket_inbox: "sv_sendRawPacket p s w = (res, w') \<Longrightarrow> inbox w' = inbox w"
  using steady_now_frame(1) [of w] sendto_frame(1)
  by (auto simp: sv_sendRawPacket_def Let_def split: option.splits prod.splits)
    (metis sendto_frame(1) snd_conv steady_now_inbox)+

lemma retransmit_all_inbox: "retransmit_all now t s ps w = (ok, qs, w') \<Longrightarrow> inbox w' = inbox w"
proof (induction ps arbitrary: ok qs w w')
  case (Cons p ps)
  then show ?case
    by (fastforce dest: sv_sendRawPacket_inbox split: if_splits prod.splits option.splits)
qed simp

lemma poll_inbox:
  assumes "pollAcksAndRetransmit s w = Some (True, s', w')"
  shows "length (inbox w') < length (inbox w)"
proof -
  obtain ab w1 where ab: "isAbortRequested (ss_abortInstalled s) w = (ab, w1)" by fastforce
  with assms obtain s2 w2 where p: "\<not> ab" "poll_acks s w1 = Some (True, s2, w2)"
    by (auto simp: pollAcksAndRetransmit_def split: if_splits option.splits bool.splits)
  obtain now w3 where now: "steady_now w2 = (now, w3)" by fastforce
  obtain scan w4 where scan: "congestion_scan (ss_abortInstalled s2) now (timeoutMs s2) (window s2) False w3 = (scan, w4)"
    by fastforce
  have "inbox w' = inbox w4"
    using assms ab p now scan retransmit_all_inbox
    by (auto simp: pollAcksAndRetransmit_def Let_def split: option.splits prod.splits)
  then show ?thesis
    using poll_acks_inbox [OF p(2)] isAbortRequested_inbox [OF ab] steady_now_inbox [OF now]
      congestion_scan_frame [OF scan] by simp
qed

section \<open>sendChunk and flush\<close>

text \<open>\<^verbatim>\<open>while (window.size() >= effectiveWindowSize())\<close> of \<^verbatim>\<open>sendChunk\<close>.\<close>

function wait_for_space :: "sv_sender \<Rightarrow> world \<Rightarrow> (bool \<times> sv_sender \<times> world) option" where
  "wait_for_space s w =
     (if length (window s) \<ge> effectiveWindowSize s
      then let (ab, w1) = isAbortRequested (ss_abortInstalled s) w
        in if ab then Some (False, s, w1)
           else case pollAcksAndRetransmit s w1 of
               None \<Rightarrow> None
             | Some (False, s2, w2) \<Rightarrow> Some (False, s2, w2)
             | Some (True, s2, w2) \<Rightarrow> wait_for_space s2 w2
      else Some (True, s, w))"
  by pat_completeness auto
termination
  by (relation "measure (\<lambda>(s, w). length (inbox w))")
    (auto dest!: isAbortRequested_inbox [OF sym] poll_inbox)

declare wait_for_space.simps [simp del]

definition sv_sendChunk ::
  "u32 \<Rightarrow> bytes \<Rightarrow> bool \<Rightarrow> sv_sender \<Rightarrow> world \<Rightarrow> (bool \<times> sv_sender \<times> world) option" where
  "sv_sendChunk seqNum data isFinal s w =
     (let (ab, w1) = isAbortRequested (ss_abortInstalled s) w
      in if ab then Some (False, s, w1)
         else if length data > MAX_PAYLOAD then Some (False, s, w1)
         else case wait_for_space s w1 of
             None \<Rightarrow> None
           | Some (False, s2, w2) \<Rightarrow> Some (False, s2, w2)
           | Some (True, s2, w2) \<Rightarrow>
               (case sv_sendRawPacket
                       (make_data_packet seqNum isFinal (of_nat (effectiveWindowSize s2)) data) s2 w2 of
                  (None, w3) \<Rightarrow> Some (False, s2, w3)
                | (Some actualSendTime, w3) \<Rightarrow>
                    pollAcksAndRetransmit
                      (s2\<lparr>window := window s2 @
                         [\<lparr>pkt_seq_num = seqNum, pkt_data = data, is_final = isFinal,
                           sent_time = actualSendTime, acked = False, retransmitted = False,
                           retries = 0\<rparr>]\<rparr>) w3))"

function sv_flush :: "sv_sender \<Rightarrow> world \<Rightarrow> (bool \<times> sv_sender \<times> world) option" where
  "sv_flush s w =
     (if window s \<noteq> []
      then let (ab, w1) = isAbortRequested (ss_abortInstalled s) w
        in if ab then Some (False, s, w1)
           else case pollAcksAndRetransmit s w1 of
               None \<Rightarrow> None
             | Some (False, s2, w2) \<Rightarrow> Some (False, s2, w2)
             | Some (True, s2, w2) \<Rightarrow> sv_flush s2 w2
      else Some (True, s, w))"
  by pat_completeness auto
termination
  by (relation "measure (\<lambda>(s, w). length (inbox w))")
    (auto dest!: isAbortRequested_inbox [OF sym] poll_inbox)

declare sv_flush.simps [simp del]

definition sv_sender_receiveNext :: "sv_sender \<Rightarrow> world \<Rightarrow> chunk option \<times> sv_sender \<times> world" where
  "sv_sender_receiveNext s w = (None, s, w)"

section \<open>The passive-mode handshake\<close>

definition sv_ready_ack_header :: "u32 \<Rightarrow> RdtHeader" where
  "sv_ready_ack_header n =
     zero_header\<lparr>seq_num := 0, ack_num := n, flags := FLAG_ACK, window_size := 1, payload_len := 0,
       reserved := 0, checksum := 0\<rparr>"

fun sv_clientReady_loop :: "nat \<Rightarrow> sv_sender \<Rightarrow> world \<Rightarrow> (bool \<times> sv_sender \<times> world) option" where
  "sv_clientReady_loop 0 s w = Some (False, s, w)"
| "sv_clientReady_loop (Suc n) s w =
     (let (ab, w1) = isAbortRequested (ss_abortInstalled s) w
      in if ab then Some (False, s, w1)
         else case recvfrom w1 of
             None \<Rightarrow> None
           | Some (RecvTimeout, w2) \<Rightarrow>
               (let (ab2, w3) = isAbortRequested (ss_abortInstalled s) w2
                in if ab2 then Some (False, s, w3) else sv_clientReady_loop n s w3)
           | Some (RecvError e, w2) \<Rightarrow>
               Some (False, s, snd (isAbortRequested (ss_abortInstalled s) w2))
           | Some (Received bs from, w2) \<Rightarrow>
               (case decodeValidatedDatagram bs of
                  None \<Rightarrow> sv_clientReady_loop n s w2
                | Some h \<Rightarrow>
                    if has_flag h FLAG_SYN \<and> \<not> has_flag h FLAG_DATA \<and> payload_len h = 0
                    then let s1 = s\<lparr>destAddr := from\<rparr>;
                             (sent, w3) = sendto (seal_control (sv_ready_ack_header (seq_num h)))
                                            (destAddr s1) w2
                      in Some (sent, s1, w3)
                    else sv_clientReady_loop n s w2))"

definition waitForClientReady :: "sv_sender \<Rightarrow> world \<Rightarrow> (bool \<times> sv_sender \<times> world) option" where
  "waitForClientReady s w =
     (let (ab, w1) = isAbortRequested (ss_abortInstalled s) w
      in if ab then Some (False, s, w1)
         else sv_clientReady_loop HANDSHAKE_MAX_RETRIES
                (s\<lparr>ss_rcvTimeout := int HANDSHAKE_TIMEOUT_MS\<rparr>) w1)"

section \<open>Invariant\<close>

text \<open>A packet of the window belongs to the stream \<open>f\<close>, fits into a datagram and has retries left to it.\<close>

definition packet_ok :: "(nat \<Rightarrow> (bytes \<times> bool) option) \<Rightarrow> InFlightPacket \<Rightarrow> bool" where
  "packet_ok f p \<longleftrightarrow>
     f (unat (pkt_seq_num p)) = Some (pkt_data p, is_final p) \<and>
     length (pkt_data p) \<le> MAX_PAYLOAD \<and> retries p \<le> MAX_RETRIES"

definition sender_inv :: "(nat \<Rightarrow> (bytes \<times> bool) option) \<Rightarrow> sv_sender \<Rightarrow> bool" where
  "sender_inv f s \<longleftrightarrow>
     (\<forall>p \<in> set (window s). packet_ok f p) \<and>
     length (window s) \<le> RDT_RECEIVE_WINDOW \<and>
     (window s \<noteq> [] \<longrightarrow> \<not> acked (hd (window s))) \<and>
     MIN_TIMEOUT_MS \<le> timeoutMs s \<and> timeoutMs s \<le> MAX_TIMEOUT_MS \<and>
     1 \<le> cwnd s \<and> 0 \<le> estimatedRttMs s \<and> 0 \<le> devRttMs s"

text \<open>Chunk \<open>n\<close> is accounted for: \<open>A n\<close> holds, or its packet is in the window and not acknowledged.\<close>

definition accounted :: "(u32 \<Rightarrow> bool) \<Rightarrow> sv_sender \<Rightarrow> u32 \<Rightarrow> bool" where
  "accounted A s n \<longleftrightarrow> A n \<or> (\<exists>p \<in> set (window s). pkt_seq_num p = n \<and> \<not> acked p)"

text \<open>
  What every part of the sender does between two states: it keeps the invariant and sends only
  packets of the stream, loses no chunk, and removes packets only at the front of the window.
\<close>

definition sender_step ::
  "(nat \<Rightarrow> (bytes \<times> bool) option) \<Rightarrow> (u32 \<Rightarrow> bool) \<Rightarrow> sv_sender \<Rightarrow> world \<Rightarrow> sv_sender \<Rightarrow> world \<Rightarrow> bool" where
  "sender_step f A s w s' w' \<longleftrightarrow>
     destAddr s' = destAddr s \<and> set (inbox w') \<subseteq> set (inbox w) \<and>
     suffix (map pkt_seq_num (window s')) (map pkt_seq_num (window s)) \<and>
     (sender_inv f s \<longrightarrow> sender_inv f s' \<and> sends_stream f (destAddr s) w w') \<and>
     (acks_honest A (destAddr s) (inbox w) \<longrightarrow> (\<forall>n. accounted A s n \<longrightarrow> accounted A s' n))"

lemma sender_stepD:
  assumes "sender_step f A s w s' w'"
  shows "destAddr s' = destAddr s" "set (inbox w') \<subseteq> set (inbox w)"
    "suffix (map pkt_seq_num (window s')) (map pkt_seq_num (window s))"
    "sender_inv f s \<Longrightarrow> sender_inv f s'" "sender_inv f s \<Longrightarrow> sends_stream f (destAddr s) w w'"
    "acks_honest A (destAddr s) (inbox w) \<Longrightarrow> accounted A s n \<Longrightarrow> accounted A s' n"
    "acks_honest A (destAddr s) (inbox w) \<Longrightarrow> acks_honest A (destAddr s') (inbox w')"
  using assms acks_honest_inbox by (auto simp: sender_step_def)

lemma sender_step_world:
  "set (inbox w') \<subseteq> set (inbox w) \<Longrightarrow> outbox w' = outbox w \<Longrightarrow> sender_step f A s w s w'"
  by (simp add: sender_step_def sends_stream_refl)

lemma sender_step_trans:
  assumes "sender_step f A s w s1 w1" and "sender_step f A s1 w1 s2 w2"
  shows "sender_step f A s w s2 w2"
  unfolding sender_step_def
proof (intro conjI impI allI)
  show "destAddr s2 = destAddr s" "set (inbox w2) \<subseteq> set (inbox w)"
    "suffix (map pkt_seq_num (window s2)) (map pkt_seq_num (window s))"
    using sender_stepD(1-3) [OF assms(1)] sender_stepD(1-3) [OF assms(2)] suffix_order.trans by auto
  assume "sender_inv f s"
  then show "sender_inv f s2" "sends_stream f (destAddr s) w w2"
    using sender_stepD(1,4,5) [OF assms(1)] sender_stepD(4,5) [OF assms(2)] sends_stream_trans by auto
next
  fix n assume "acks_honest A (destAddr s) (inbox w)" "accounted A s n"
  then show "accounted A s2 n"
    using sender_stepD(6,7) [OF assms(1)] sender_stepD(6) [OF assms(2)] by blast
qed

section \<open>Acknowledgements keep the invariant\<close>

lemma mark_acked_Some:
  assumes "mark_acked n ps = Some (p, qs)"
  shows "map pkt_seq_num qs = map pkt_seq_num ps" "length qs = length ps"
    "\<And>q. q \<in> set qs \<Longrightarrow> q \<in> set ps \<or> (\<exists>r \<in> set ps. q = r\<lparr>acked := True\<rparr> \<and> pkt_seq_num r = n)"
    "\<And>r. r \<in> set ps \<Longrightarrow> r \<in> set qs \<or> pkt_seq_num r = n"
  using assms
  by (induction ps arbitrary: qs) (fastforce split: if_splits option.splits)+

lemma packet_ok_acked [simp]: "packet_ok f (p\<lparr>acked := b\<rparr>) = packet_ok f p"
  by (simp add: packet_ok_def)

lemma suffix_map_dropWhile: "suffix (map g (dropWhile P xs)) (map g xs)"
  by (metis dropWhile_eq_drop map_mono_suffix suffix_drop suffix_dropWhile)

lemma dropWhile_keeps: "x \<in> set xs \<Longrightarrow> \<not> P x \<Longrightarrow> x \<in> set (dropWhile P xs)"
  by (induction xs) auto

lemma clean_ack_inv:
  assumes "1 \<le> cwnd s" "0 \<le> estimatedRttMs s" "0 \<le> devRttMs s"
  shows "1 \<le> cwnd (clean_ack d s)" "0 \<le> estimatedRttMs (clean_ack d s)" "0 \<le> devRttMs (clean_ack d s)"
    "MIN_TIMEOUT_MS \<le> timeoutMs (clean_ack d s)" "timeoutMs (clean_ack d s) \<le> MAX_TIMEOUT_MS"
proof -
  have "0 \<le> sample_rtt_ms d" by (simp add: sample_rtt_ms_def fl_nonneg)
  with assms show "1 \<le> cwnd (clean_ack d s)" "0 \<le> estimatedRttMs (clean_ack d s)"
      "0 \<le> devRttMs (clean_ack d s)"
    by (simp_all add: clean_ack_def updateRtt_def Let_def fl_ge_1 fl_nonneg RTT_ALPHA_def RTT_BETA_def)
  show "MIN_TIMEOUT_MS \<le> timeoutMs (clean_ack d s)" "timeoutMs (clean_ack d s) \<le> MAX_TIMEOUT_MS"
    using clamp_bounds [of MIN_TIMEOUT_MS MAX_TIMEOUT_MS]
    by (simp_all add: clean_ack_def updateRtt_def Let_def MIN_TIMEOUT_MS_def MAX_TIMEOUT_MS_def)
qed

text \<open>Marking and sliding: what it does to a window.\<close>

lemma slide_window:
  assumes "mark_acked n ps = Some (p, qs) \<or> mark_acked n ps = None \<and> qs = ps"
  shows "suffix (map pkt_seq_num (dropWhile acked qs)) (map pkt_seq_num ps)"
    "\<forall>q \<in> set ps. packet_ok f q \<Longrightarrow> \<forall>q \<in> set (dropWhile acked qs). packet_ok f q"
    "length (dropWhile acked qs) \<le> length ps"
    "\<And>m. m \<noteq> n \<Longrightarrow> (\<exists>q \<in> set ps. pkt_seq_num q = m \<and> \<not> acked q) \<Longrightarrow>
       (\<exists>q \<in> set (dropWhile acked qs). pkt_seq_num q = m \<and> \<not> acked q)"
proof -
  have eq: "map pkt_seq_num qs = map pkt_seq_num ps" "length qs = length ps"
    and old: "\<And>q. q \<in> set qs \<Longrightarrow> q \<in> set ps \<or> (\<exists>r \<in> set ps. q = r\<lparr>acked := True\<rparr> \<and> pkt_seq_num r = n)"
    and new: "\<And>r. r \<in> set ps \<Longrightarrow> r \<in> set qs \<or> pkt_seq_num r = n"
    using assms mark_acked_Some by (elim disjE; fastforce)+
  show "suffix (map pkt_seq_num (dropWhile acked qs)) (map pkt_seq_num ps)"
    using suffix_map_dropWhile [of pkt_seq_num acked qs] eq by simp
  show "\<forall>q \<in> set (dropWhile acked qs). packet_ok f q" if "\<forall>q \<in> set ps. packet_ok f q"
    using that old set_dropWhileD by fastforce
  show "length (dropWhile acked qs) \<le> length ps"
    using length_dropWhile_le [of acked qs] eq by simp
  show "\<exists>q \<in> set (dropWhile acked qs). pkt_seq_num q = m \<and> \<not> acked q"
    if "m \<noteq> n" "\<exists>q \<in> set ps. pkt_seq_num q = m \<and> \<not> acked q" for m
    using that new dropWhile_keeps by metis
qed

lemma handle_ack_step:
  assumes "handle_ack n s w = (s', w')" and "acks_honest A (destAddr s) (inbox v) \<longrightarrow> A n"
    and "set (inbox w) \<subseteq> set (inbox v)" and "outbox w = outbox v"
  shows "sender_step f A s v s' w'"
proof -
  obtain p qs where qs: "mark_acked n (window s) = Some (p, qs) \<or> mark_acked n (window s) = None \<and> qs = window s"
    and win: "window s' = dropWhile acked qs"
    and rest: "timeoutMs s' = timeoutMs s \<and> cwnd s' = cwnd s \<and> estimatedRttMs s' = estimatedRttMs s \<and>
      devRttMs s' = devRttMs s \<or> (\<exists>d s0. timeoutMs s' = timeoutMs (clean_ack d s0) \<and>
      cwnd s' = cwnd (clean_ack d s0) \<and> estimatedRttMs s' = estimatedRttMs (clean_ack d s0) \<and>
      devRttMs s' = devRttMs (clean_ack d s0) \<and> cwnd s0 = cwnd s \<and>
      estimatedRttMs s0 = estimatedRttMs s \<and> devRttMs s0 = devRttMs s)"
    using assms(1)
  proof (cases rule: handle_ackE)
    case (clean p win t)
    then show ?thesis
      by (intro that [of p win]) (auto intro!: exI [of _ "t - sent_time p"] exI [of _ "s\<lparr>window := win\<rparr>"])
  qed (auto intro: that)
  note sl = slide_window [OF qs]
  have "sender_inv f s'" if "sender_inv f s"
  proof -
    have num: "MIN_TIMEOUT_MS \<le> timeoutMs s'" "timeoutMs s' \<le> MAX_TIMEOUT_MS" "1 \<le> cwnd s'"
      "0 \<le> estimatedRttMs s'" "0 \<le> devRttMs s'"
      using rest that by (auto simp: sender_inv_def clean_ack_inv)
    show ?thesis using that sl(2,3) num hd_dropWhile [of acked qs]
      by (auto simp: sender_inv_def win)
  qed
  moreover have "accounted A s' m" if "acks_honest A (destAddr s) (inbox v)" "accounted A s m" for m
    using that assms(2) sl(4) [of m] by (cases "m = n") (auto simp: accounted_def win)
  ultimately show ?thesis
    using handle_ack_frame [OF assms(1)] sl(1) assms(3,4)
    by (auto simp: sender_step_def win sends_stream_refl)
qed

lemma poll_acks_step:
  assumes "poll_acks s w = Some (ok, s', w')"
  shows "sender_step f A s w s' w'"
proof (rule poll_acks_rule [OF assms, where P = "\<lambda>s1 w1. sender_step f A s w s1 w1"])
  show "sender_step f A s w s w" by (simp add: sender_step_world)
next
  fix s1 w1 s2 w2
  assume P: "sender_step f A s w s1 w1" and R: "poll_step s1 w1 = Continue s2 w2"
  from R have "sender_step f A s1 w1 s2 w2"
  proof (cases rule: poll_step_ContinueE)
    case (skipped e)
    then show ?thesis by (auto intro: sender_step_world)
  next
    case (acknowledged bs h w3)
    have "acks_honest A (destAddr s1) (inbox w1) \<longrightarrow> A (ack_num h)"
      using acknowledged by (auto simp: acks_honest_def)
    from handle_ack_step [OF acknowledged(6) this] acknowledged(1,2) show ?thesis by auto
  qed
  with P show "sender_step f A s w s2 w2" by (rule sender_step_trans)
next
  fix s1 w1 b s2 w2
  assume P: "sender_step f A s w s1 w1" and R: "poll_step s1 w1 = Finished b s2 w2"
  then show "sender_step f A s w s2 w2"
    using poll_step_FinishedE [OF R] sender_step_trans sender_step_world by metis
qed

section \<open>Retransmission keeps the invariant\<close>

lemma sv_sendRawPacket_data:
  assumes "length data \<le> MAX_PAYLOAD" and "sv_sendRawPacket (make_data_packet n fin win data) s w = (res, w')"
  shows "inbox w' = inbox w" "res \<noteq> None \<Longrightarrow> outbox w' = outbox w @ [(data_bytes n fin win data, destAddr s)]"
    "res = None \<Longrightarrow> outbox w' = outbox w"
proof -
  obtain t w1 where t: "steady_now w = (t, w1)" by fastforce
  obtain b w2 where b: "sendto (data_bytes n fin win data) (destAddr s) w1 = (b, w2)" by fastforce
  have "res = (if b then Some t else None) \<and> w' = w2"
    using assms t b raw_packet_bytes_data [OF assms(1), of n fin win]
    by (auto simp: sv_sendRawPacket_def data_bytes_def)
  then show "inbox w' = inbox w" "res \<noteq> None \<Longrightarrow> outbox w' = outbox w @ [(data_bytes n fin win data, destAddr s)]"
    "res = None \<Longrightarrow> outbox w' = outbox w"
    using steady_now_frame(1,2) [of w] t outbox_sendto [of "data_bytes n fin win data" "destAddr s" w1]
      sendto_frame(1) [of "data_bytes n fin win data" "destAddr s" w1] b
    by (auto split: if_splits)
qed

lemma sv_sendRawPacket_stream:
  assumes "length data \<le> MAX_PAYLOAD" and "f (unat n) = Some (data, fin)"
    and "sv_sendRawPacket (make_data_packet n fin win data) s w = (res, w')"
  shows "sends_stream f (destAddr s) w w'"
  using sv_sendRawPacket_data [OF assms(1,3)] data_bytes_carries [of data f n fin win] data_bytes_is_data [OF assms(1)] assms(1,2)
  by (cases res) (auto simp: sends_stream_def)

lemma retransmit_all_outcome:
  assumes "retransmit_all now t s ps w = (ok, qs, w')"
  shows "map pkt_seq_num qs = map pkt_seq_num ps \<and> map acked qs = map acked ps \<and> inbox w' = inbox w \<and>
    ((\<forall>p \<in> set ps. packet_ok f p) \<longrightarrow>
      (\<forall>q \<in> set qs. packet_ok f q) \<and> sends_stream f (destAddr s) w w')"
  using assms
proof (induction ps arbitrary: ok qs w w')
  case Nil
  then show ?case by (simp add: sends_stream_refl)
next
  case (Cons p ps)
  consider (fresh) "\<not> expired now t p" | (spent) "expired now t p" "retries p \<ge> MAX_RETRIES"
    | (again) "expired now t p" "retries p < MAX_RETRIES" by linarith
  then show ?case
  proof cases
    case fresh
    obtain ok' qs' w1 where r: "retransmit_all now t s ps w = (ok', qs', w1)" by (metis surj_pair)
    from Cons.IH [OF this] Cons.prems fresh r show ?thesis by auto
  next
    case spent
    with Cons.prems show ?thesis by (auto simp: sends_stream_refl)
  next
    case again
    obtain res w1 where sd: "sv_sendRawPacket (repacket s p) s w = (res, w1)" by fastforce
    have in1: "inbox w1 = inbox w" using sv_sendRawPacket_inbox [OF sd] .
    have st: "sends_stream f (destAddr s) w w1" if "packet_ok f p"
      using that sv_sendRawPacket_stream [OF _ _ sd [unfolded repacket_def]] by (simp add: packet_ok_def)
    show ?thesis
    proof (cases res)
      case None
      with Cons.prems again sd in1 st show ?thesis by auto
    next
      case (Some time)
      obtain ok' qs' w2 where r: "retransmit_all now t s ps w1 = (ok', qs', w2)" by (metis surj_pair)
      let ?p = "p\<lparr>retries := retries p + 1, sent_time := time, retransmitted := True\<rparr>"
      have eqs: "ok = ok'" "qs = ?p # qs'" "w' = w2" using Cons.prems again sd Some r by simp_all
      have "packet_ok f ?p" if "packet_ok f p" using that again by (simp add: packet_ok_def)
      with Cons.IH [OF r] in1 st show ?thesis by (auto simp: eqs intro: sends_stream_trans)
    qed
  qed
qed

lemma sender_inv_decrease:
  assumes "sender_inv f s"
  shows "sender_inv f (applyCongestionDecrease s)"
  using assms clamp_bounds [of MIN_TIMEOUT_MS MAX_TIMEOUT_MS]
  by (simp add: sender_inv_def applyCongestionDecrease_def MIN_CWND_def MIN_TIMEOUT_MS_def
      MAX_TIMEOUT_MS_def)

lemma sender_step_fields:
  assumes "destAddr s' = destAddr s" "window s' = window s" "sender_inv f s \<longrightarrow> sender_inv f s'"
    and "set (inbox w') \<subseteq> set (inbox w)" "outbox w' = outbox w"
  shows "sender_step f A s w s' w'"
  using assms by (simp add: sender_step_def sends_stream_refl accounted_def)

lemma accounted_pairs:
  "accounted A s n \<longleftrightarrow> A n \<or> (n, False) \<in> set (zip (map pkt_seq_num (window s)) (map acked (window s)))"
proof -
  have eq: "zip (map pkt_seq_num ps) (map acked ps) = map (\<lambda>p. (pkt_seq_num p, acked p)) ps" for ps
    by (induction ps) simp_all
  show ?thesis unfolding accounted_def eq by (auto simp: image_iff)
qed

lemma retransmit_step:
  assumes "retransmit_all now t s (window s) w = (ok, qs, w')"
  shows "sender_step f A s w (s\<lparr>window := qs\<rparr>) w'"
proof -
  note out = retransmit_all_outcome [OF assms, of f]
  have acc: "accounted A (s\<lparr>window := qs\<rparr>) n = accounted A s n" for n
    using out by (simp add: accounted_pairs)
  have "sender_inv f (s\<lparr>window := qs\<rparr>)" if "sender_inv f s"
  proof -
    have "length qs = length (window s)" using out by (metis length_map)
    moreover have "acked (hd qs) = acked (hd (window s))" if "qs \<noteq> []"
      using that out by (metis hd_map length_0_conv length_map)
    ultimately show ?thesis using that out by (auto simp: sender_inv_def)
  qed
  with out acc show ?thesis by (auto simp: sender_step_def sender_inv_def)
qed

lemma poll_sender_step:
  assumes "pollAcksAndRetransmit s w = Some (ok, s', w')"
  shows "sender_step f A s w s' w'"
proof -
  obtain ab w1 where ab: "isAbortRequested (ss_abortInstalled s) w = (ab, w1)" by fastforce
  then have s1: "sender_step f A s w s w1"
    using isAbortRequested_frame [of "ss_abortInstalled s" w] by (auto intro: sender_step_world)
  show ?thesis
  proof (cases "ab \<or> poll_acks s w1 = None")
    case True
    with assms ab s1 show ?thesis by (auto simp: pollAcksAndRetransmit_def split: if_splits)
  next
    case False
    then obtain b s2 w2 where pa: "poll_acks s w1 = Some (b, s2, w2)" and nab: "\<not> ab" by auto
    have s2: "sender_step f A s w s2 w2" using sender_step_trans [OF s1 poll_acks_step [OF pa]] .
    obtain now w3 where now: "steady_now w2 = (now, w3)" by fastforce
    obtain scan w4 where scan: "congestion_scan (ss_abortInstalled s2) now (timeoutMs s2) (window s2) False w3 = (scan, w4)"
      by fastforce
    have w4: "inbox w4 = inbox w2" "outbox w4 = outbox w2"
      using steady_now_frame(1,2) [of w2] now congestion_scan_frame [OF scan] by simp_all
    show ?thesis
    proof (cases "b \<and> scan \<noteq> None")
      case False
      with assms ab nab pa now scan have "s' = s2 \<and> (w' = w2 \<or> w' = w4)"
        by (auto simp: pollAcksAndRetransmit_def split: bool.splits)
      with s2 w4 show ?thesis using sender_step_trans sender_step_world by (metis subset_refl)
    next
      case True
      then obtain c where c: "b" "scan = Some c" by auto
      let ?s3 = "if c then applyCongestionDecrease s2 else s2"
      obtain ok' qs w5 where r: "retransmit_all now (timeoutMs s2) ?s3 (window ?s3) w4 = (ok', qs, w5)"
        by (metis surj_pair)
      have "s' = ?s3\<lparr>window := qs\<rparr>" "w' = w5"
        using assms ab nab pa c now scan r by (auto simp: pollAcksAndRetransmit_def Let_def)
      moreover have "sender_step f A s2 w2 ?s3 w4"
        using w4 sender_inv_decrease by (auto intro!: sender_step_fields simp: applyCongestionDecrease_def)
      ultimately show ?thesis using s2 retransmit_step [OF r] sender_step_trans by metis
    qed
  qed
qed

section \<open>sendChunk and flush\<close>

lemma wait_for_space_step:
  "wait_for_space s w = Some (ok, s', w') \<Longrightarrow>
   sender_step f A s w s' w' \<and> (ok \<longrightarrow> length (window s') < effectiveWindowSize s')"
proof (induction s w rule: wait_for_space.induct)
  case (1 s w)
  note eq = wait_for_space.simps [of s w]
  show ?case
  proof (cases "length (window s) \<ge> effectiveWindowSize s")
    case False
    with "1.prems" show ?thesis by (auto simp: eq sender_step_world)
  next
    case True
    obtain ab w1 where ab: "isAbortRequested (ss_abortInstalled s) w = (ab, w1)" by fastforce
    then have s1: "sender_step f A s w s w1"
      using isAbortRequested_frame [of "ss_abortInstalled s" w] by (auto intro: sender_step_world)
    show ?thesis
    proof (cases "ab \<or> pollAcksAndRetransmit s w1 = None")
      case True
      with \<open>length (window s) \<ge> _\<close> "1.prems" ab s1 show ?thesis by (auto simp: eq split: if_splits)
    next
      case False
      then obtain b s2 w2 where p: "pollAcksAndRetransmit s w1 = Some (b, s2, w2)" "\<not> ab" by auto
      have s2: "sender_step f A s w s2 w2" using sender_step_trans [OF s1 poll_sender_step [OF p(1)]] .
      show ?thesis
      proof (cases b)
        case True
        with "1.prems" \<open>length (window s) \<ge> _\<close> ab p have rec: "wait_for_space s2 w2 = Some (ok, s', w')"
          by (simp add: eq)
        with "1.IH" [OF \<open>length (window s) \<ge> _\<close> ab [symmetric] refl p(2,1) refl _ refl] True
        show ?thesis using sender_step_trans [OF s2] by simp
      next
        case False
        with "1.prems" \<open>length (window s) \<ge> _\<close> ab p s2 show ?thesis by (auto simp: eq)
      qed
    qed
  qed
qed

lemma sv_flush_step:
  "sv_flush s w = Some (ok, s', w') \<Longrightarrow> sender_step f A s w s' w' \<and> (ok \<longrightarrow> window s' = [])"
proof (induction s w rule: sv_flush.induct)
  case (1 s w)
  note eq = sv_flush.simps [of s w]
  show ?case
  proof (cases "window s = []")
    case True
    with "1.prems" show ?thesis by (auto simp: eq sender_step_world)
  next
    case False
    obtain ab w1 where ab: "isAbortRequested (ss_abortInstalled s) w = (ab, w1)" by fastforce
    then have s1: "sender_step f A s w s w1"
      using isAbortRequested_frame [of "ss_abortInstalled s" w] by (auto intro: sender_step_world)
    show ?thesis
    proof (cases "ab \<or> pollAcksAndRetransmit s w1 = None")
      case True
      with \<open>window s \<noteq> []\<close> "1.prems" ab s1 show ?thesis by (auto simp: eq split: if_splits)
    next
      case nab: False
      then obtain b s2 w2 where p: "pollAcksAndRetransmit s w1 = Some (b, s2, w2)" "\<not> ab" by auto
      have s2: "sender_step f A s w s2 w2" using sender_step_trans [OF s1 poll_sender_step [OF p(1)]] .
      show ?thesis
      proof (cases b)
        case True
        with "1.prems" False ab p have rec: "sv_flush s2 w2 = Some (ok, s', w')" by (simp add: eq)
        with "1.IH" [OF False ab [symmetric] refl p(2,1) refl _ refl] True
        show ?thesis using sender_step_trans [OF s2] by simp
      next
        case b: False
        with "1.prems" False ab p s2 show ?thesis by (auto simp: eq)
      qed
    qed
  qed
qed

text \<open>A call of \<^verbatim>\<open>sendChunk\<close> either stops before its packet enters the window, or polls with it there.\<close>

definition new_packet :: "u32 \<Rightarrow> bytes \<Rightarrow> bool \<Rightarrow> nat \<Rightarrow> InFlightPacket" where
  "new_packet n data fin t =
     \<lparr>pkt_seq_num = n, pkt_data = data, is_final = fin, sent_time = t, acked = False,
      retransmitted = False, retries = 0\<rparr>"

lemma sv_sendChunkE:
  assumes "sv_sendChunk n data fin s w = Some (ok, s', w')"
  obtains
    (stopped) "\<not> ok" "sender_step f A s w s' w'"
  | (unsent) s2 w2 where "\<not> ok" "sender_step f A s w s2 w2" "s' = s2" "inbox w' = inbox w2"
      "outbox w' = outbox w2"
  | (queued) s2 w2 t w3 where "length data \<le> MAX_PAYLOAD" "sender_step f A s w s2 w2"
      "length (window s2) < effectiveWindowSize s2" "inbox w3 = inbox w2"
      "outbox w3 = outbox w2 @ [(data_bytes n fin (of_nat (effectiveWindowSize s2)) data, destAddr s2)]"
      "pollAcksAndRetransmit (s2\<lparr>window := window s2 @ [new_packet n data fin t]\<rparr>) w3 = Some (ok, s', w')"
proof -
  obtain ab w1 where ab: "isAbortRequested (ss_abortInstalled s) w = (ab, w1)" by fastforce
  then have s1: "sender_step f A s w s w1"
    using isAbortRequested_frame [of "ss_abortInstalled s" w] by (auto intro: sender_step_world)
  show thesis
  proof (cases "ab \<or> length data > MAX_PAYLOAD \<or> wait_for_space s w1 = None")
    case True
    with assms ab s1 stopped show thesis by (auto simp: sv_sendChunk_def split: if_splits)
  next
    case False
    then obtain b s2 w2 where p: "wait_for_space s w1 = Some (b, s2, w2)" "\<not> ab" "length data \<le> MAX_PAYLOAD"
      by auto
    have s2: "sender_step f A s w s2 w2" and room: "b \<longrightarrow> length (window s2) < effectiveWindowSize s2"
      using wait_for_space_step [OF p(1), of f A] sender_step_trans [OF s1] by blast+
    obtain res w3 where sd: "sv_sendRawPacket (make_data_packet n fin (of_nat (effectiveWindowSize s2)) data) s2 w2 = (res, w3)"
      by fastforce
    note out = sv_sendRawPacket_data [OF p(3) sd]
    show thesis
    proof (cases b)
      case False
      with assms ab p s2 stopped show thesis by (auto simp: sv_sendChunk_def)
    next
      case True
      show thesis
      proof (cases res)
        case None
        with True assms ab p sd out s2 unsent show thesis by (auto simp: sv_sendChunk_def)
      next
        case (Some t)
        with True assms ab p sd have
          "pollAcksAndRetransmit (s2\<lparr>window := window s2 @ [new_packet n data fin t]\<rparr>) w3 = Some (ok, s', w')"
          by (simp add: sv_sendChunk_def new_packet_def)
        with queued p(3) s2 room True out Some show thesis by simp
      qed
    qed
  qed
qed

lemma effectiveWindowSize_bounds: "1 \<le> effectiveWindowSize s" "effectiveWindowSize s \<le> RDT_RECEIVE_WINDOW"
  using clamp_bounds [of 1 RDT_RECEIVE_WINDOW "nat (floor (cwnd s))"]
  by (simp_all add: effectiveWindowSize_def RDT_RECEIVE_WINDOW_def)

lemma sender_inv_push:
  assumes "sender_inv f s" "f (unat n) = Some (data, fin)" "length data \<le> MAX_PAYLOAD"
    "length (window s) < effectiveWindowSize s"
  shows "sender_inv f (s\<lparr>window := window s @ [new_packet n data fin t]\<rparr>)"
  using assms effectiveWindowSize_bounds [of s]
  by (auto simp: sender_inv_def packet_ok_def new_packet_def hd_append)

lemma accounted_push:
  "accounted A (s\<lparr>window := window s @ [new_packet n data fin t]\<rparr>) m \<longleftrightarrow> accounted A s m \<or> m = n"
  by (auto simp: accounted_def new_packet_def)

lemma sv_sendChunk_outcome:
  assumes call: "sv_sendChunk n data fin s w = Some (ok, s', w')"
    and inv: "sender_inv f s" and chunk: "f (unat n) = Some (data, fin)"
  shows "sender_inv f s' \<and> destAddr s' = destAddr s \<and> set (inbox w') \<subseteq> set (inbox w) \<and>
    sends_stream f (destAddr s) w w' \<and>
    (acks_honest A (destAddr s) (inbox w) \<longrightarrow>
       (\<forall>m. accounted A s m \<longrightarrow> accounted A s' m) \<and> (ok \<longrightarrow> accounted A s' n))"
  using call
proof (cases rule: sv_sendChunkE [where f = f and A = A])
  case stopped
  with sender_stepD [OF stopped(2)] inv show ?thesis by blast
next
  case (unsent s2 w2)
  with sender_stepD [OF unsent(2)] inv show ?thesis
    using sends_stream_frame [of f "destAddr s" w w2 w w'] by auto
next
  case (queued s2 w2 t w3)
  let ?s3 = "s2\<lparr>window := window s2 @ [new_packet n data fin t]\<rparr>"
  note a = sender_stepD [OF queued(2)] and b = sender_stepD [OF poll_sender_step [OF queued(6), of f A]]
  have inv3: "sender_inv f ?s3" using sender_inv_push [OF a(4) [OF inv] chunk queued(1,3)] .
  have st: "sends_stream f (destAddr s) w2 w3"
    using queued(5) data_bytes_carries [of data f n fin] data_bytes_is_data queued(1) chunk a(1) by (auto simp: sends_stream_def)
  have "sends_stream f (destAddr s) w w'"
    using sends_stream_trans [OF sends_stream_trans [OF a(5) [OF inv] st]] b(5) [OF inv3] a(1) by simp
  moreover have "(\<forall>m. accounted A s m \<longrightarrow> accounted A s' m) \<and> accounted A s' n"
    if "acks_honest A (destAddr s) (inbox w)"
    using a(6,7) [OF that] b(6) queued(4) accounted_push by auto
  ultimately show ?thesis using a(1,2) b(1,2,4) inv3 queued(4) by auto
qed

end
