(* ===== verification/Server_Sender_Facts.thy ===== *)
theory Server_Sender_Facts
  imports Server_Sender
begin

text \<open>
  What the server's sender guarantees: its invariant, the consecutive window, the meaning of a
  successful \<^verbatim>\<open>flush\<close>, and that it gives up instead of retransmitting for ever.
\<close>

section \<open>The window is a run of consecutive numbers\<close>

definition window_run :: "nat \<Rightarrow> sv_sender \<Rightarrow> bool" where
  "window_run next s \<longleftrightarrow>
     length (window s) \<le> next \<and>
     map pkt_seq_num (window s) = map of_nat [next - length (window s)..<next]"

lemma suffix_upt: "suffix xs (map f [a..<b]) \<Longrightarrow> xs = map f [b - length xs..<b] \<and> length xs \<le> b - a"
proof -
  assume "suffix xs (map f [a..<b])"
  then obtain ys where ys: "map f [a..<b] = ys @ xs" by (auto simp: suffix_def)
  then have len: "b - a = length ys + length xs" by (metis length_append length_map length_upt)
  have "xs = drop (length ys) (map f [a..<b])" using ys by simp
  also have "\<dots> = map f [a + length ys..<b]" by (simp add: drop_map drop_upt)
  also have "map f [a + length ys..<b] = map f [b - length xs..<b]"
  proof (cases "a \<le> b")
    case True
    then have "a + length ys = b - length xs" using len by linarith
    then show ?thesis by simp
  qed (use len in simp)
  finally show ?thesis using len by simp
qed

lemma window_run_suffix:
  assumes "window_run next s" and "suffix (map pkt_seq_num (window s')) (map pkt_seq_num (window s))"
  shows "window_run next s'"
proof -
  have "suffix (map pkt_seq_num (window s')) (map of_nat [next - length (window s)..<next])"
    using assms by (simp add: window_run_def)
  from suffix_upt [OF this] assms(1) show ?thesis by (simp add: window_run_def)
qed

lemma window_run_push:
  assumes "window_run next s"
  shows "window_run (next + 1) (s\<lparr>window := window s @ [new_packet (of_nat next) data fin t]\<rparr>)"
  using assms by (simp add: window_run_def new_packet_def Suc_diff_le)

lemma sv_sendChunk_run:
  assumes "sv_sendChunk (of_nat next) data fin s w = Some (ok, s', w')" and "window_run next s"
  shows "window_run next s' \<or> window_run (next + 1) s'" "ok \<Longrightarrow> window_run (next + 1) s'"
proof -
  have "window_run next s' \<and> \<not> ok \<or> window_run (next + 1) s'"
    using assms(1)
  proof (cases rule: sv_sendChunkE [where f = "\<lambda>n. None" and A = "\<lambda>n. True"])
    case (queued s2 w2 t w3)
    have "window_run next s2" using window_run_suffix [OF assms(2) sender_stepD(3) [OF queued(2)]] .
    from window_run_suffix [OF window_run_push [OF this]
        sender_stepD(3) [OF poll_sender_step [OF queued(6)]]]
    show ?thesis by simp
  qed (use window_run_suffix [OF assms(2)] sender_stepD(3) in auto)
  then show "window_run next s' \<or> window_run (next + 1) s'" "ok \<Longrightarrow> window_run (next + 1) s'" by auto
qed

section \<open>Giving up\<close>

text \<open>A clock that advances by more than the longest timeout at every reading.\<close>

definition slow_clock :: "nat \<Rightarrow> world \<Rightarrow> bool" where
  "slow_clock n w \<longleftrightarrow> n \<le> length (ticks w) \<and> (\<forall>d \<in> set (ticks w). 2001 * ns_per_ms \<le> d)"

text \<open>No abort is requested and every send succeeds.\<close>

definition undisturbed :: "world \<Rightarrow> bool" where
  "undisturbed w \<longleftrightarrow> aborts w = [] \<and> sendOk w = []"

lemma steady_now_slow:
  assumes "slow_clock (Suc n) w" and "steady_now w = (now, w')"
  shows "slow_clock n w'" "time w + 2001 * ns_per_ms \<le> now" "time w' = now"
    "inbox w' = inbox w" "undisturbed w' \<longleftrightarrow> undisturbed w"
  using assms by (auto simp: slow_clock_def steady_now_def undisturbed_def split: list.splits)

definition stalled :: "world \<Rightarrow> InFlightPacket list \<Rightarrow> bool" where
  "stalled w ps \<longleftrightarrow> (\<forall>p \<in> set ps. \<not> acked p \<and> sent_time p \<le> time w \<and> length (pkt_data p) \<le> MAX_PAYLOAD)"

lemma stalled_later: "stalled w ps \<Longrightarrow> time w \<le> time w' \<Longrightarrow> stalled w' ps"
  by (auto simp: stalled_def)

lemma stalled_expired:
  assumes "stalled w ps" "time w + 2001 * ns_per_ms \<le> now" "t \<le> MAX_TIMEOUT_MS" "p \<in> set ps"
  shows "expired now t p"
proof -
  have "2001 * ns_per_ms \<le> now - sent_time p" using assms by (force simp: stalled_def)
  then have "2001 \<le> (now - sent_time p) div ns_per_ms" by (simp add: less_eq_div_iff_mult_less_eq ns_per_ms_def)
  with assms(1,3,4) show ?thesis by (auto simp: expired_def stalled_def MAX_TIMEOUT_MS_def)
qed

lemma sv_sendRawPacket_undisturbed:
  assumes "undisturbed w" "length data \<le> MAX_PAYLOAD" "slow_clock (Suc n) w"
  obtains t w' where "sv_sendRawPacket (make_data_packet k fin win data) s w = (Some t, w')"
    "undisturbed w'" "slow_clock n w'" "time w \<le> time w'" "t \<le> time w'" "inbox w' = inbox w"
proof -
  obtain t w1 where t: "steady_now w = (t, w1)" by fastforce
  note sl = steady_now_slow [OF assms(3) t]
  let ?b = "(data_bytes k fin win data, destAddr s)"
  have "sv_sendRawPacket (make_data_packet k fin win data) s w = (Some t, w1\<lparr>outbox := outbox w1 @ [?b]\<rparr>)"
    using t sl assms(1) raw_packet_bytes_data [OF assms(2), of k fin win]
    by (simp add: sv_sendRawPacket_def data_bytes_def undisturbed_def sendto_def)
  from that [OF this] sl assms(1) show thesis
    by (simp add: undisturbed_def slow_clock_def)
qed

text \<open>With every packet past its time, a round resends all of them, or fails if one has no retry left.\<close>

lemma retransmit_all_stalled:
  assumes "\<forall>p \<in> set ps. expired now t p \<and> length (pkt_data p) \<le> MAX_PAYLOAD"
    and "undisturbed w" and "slow_clock (length ps + n) w"
    and "retransmit_all now t s ps w = (ok, qs, w')"
  shows "if \<exists>p \<in> set ps. retries p \<ge> MAX_RETRIES then \<not> ok
    else ok \<and> map retries qs = map (\<lambda>p. retries p + 1) ps \<and> stalled w' qs \<and> undisturbed w' \<and>
      slow_clock n w' \<and> inbox w' = inbox w \<and> time w \<le> time w'"
  using assms
proof (induction ps arbitrary: w ok qs w')
  case Nil
  then show ?case by (simp add: stalled_def)
next
  case (Cons p ps)
  show ?case
  proof (cases "retries p \<ge> MAX_RETRIES")
    case True
    with Cons.prems show ?thesis by auto
  next
    case False
    obtain st w1 where sd: "sv_sendRawPacket (repacket s p) s w = (Some st, w1)" "undisturbed w1"
      "slow_clock (length ps + n) w1" "time w \<le> time w1" "st \<le> time w1" "inbox w1 = inbox w"
      using sv_sendRawPacket_undisturbed [of w "pkt_data p" "length ps + n" "pkt_seq_num p" "is_final p"
          "of_nat (effectiveWindowSize s)" s] Cons.prems by (auto simp: repacket_def)
    obtain ok1 qs1 w2 where r: "retransmit_all now t s ps w1 = (ok1, qs1, w2)" by (metis surj_pair)
    let ?p = "p\<lparr>retries := retries p + 1, sent_time := st, retransmitted := True\<rparr>"
    have eqs: "ok = ok1" "qs = ?p # qs1" "w' = w2" using Cons.prems sd r False by simp_all
    have "\<not> acked p" "length (pkt_data p) \<le> MAX_PAYLOAD" using Cons.prems(1) by (auto simp: expired_def)
    with Cons.IH [OF _ sd(2,3) r] Cons.prems(1) False sd show ?thesis
      by (auto simp: eqs stalled_def split: if_splits)
  qed
qed

lemma poll_acks_silent:
  assumes "inbox w = RecvTimeout # rest" "undisturbed w"
  shows "poll_acks s w = Some (True, s, w\<lparr>inbox := rest\<rparr>)"
  using assms
  by (simp add: poll_acks.simps [of s w] poll_step_def isAbortRequested_none undisturbed_def recvfrom_def)

lemma congestion_scan_undisturbed:
  "undisturbed w \<Longrightarrow> congestion_scan b now t ps c w = (Some (c \<or> (\<exists>p \<in> set ps. expired now t p)), w)"
  by (induction ps arbitrary: c) (auto simp: isAbortRequested_none undisturbed_def)

lemma poll_stalled:
  assumes "inbox w = RecvTimeout # rest" "undisturbed w" "stalled w (window s)" "timeoutMs s \<le> MAX_TIMEOUT_MS"
    "slow_clock (Suc (length (window s) + n)) w"
    "pollAcksAndRetransmit s w = Some (ok, s', w')"
  shows "if \<exists>p \<in> set (window s). retries p \<ge> MAX_RETRIES then \<not> ok
    else ok \<and> map retries (window s') = map (\<lambda>p. retries p + 1) (window s) \<and> stalled w' (window s') \<and>
      undisturbed w' \<and> slow_clock n w' \<and> inbox w' = rest \<and> timeoutMs s' \<le> MAX_TIMEOUT_MS"
proof -
  let ?w1 = "w\<lparr>inbox := rest\<rparr>"
  have w1: "slow_clock (Suc (length (window s) + n)) ?w1" "undisturbed ?w1" "stalled ?w1 (window s)"
    "time ?w1 = time w" using assms by (simp_all add: slow_clock_def undisturbed_def stalled_def)
  obtain now w2 where now: "steady_now ?w1 = (now, w2)" by fastforce
  note sl = steady_now_slow [OF w1(1) now]
  have w2: "undisturbed w2" using sl(5) w1(2) by simp
  have ex: "\<forall>p \<in> set (window s). expired now (timeoutMs s) p \<and> length (pkt_data p) \<le> MAX_PAYLOAD"
    using stalled_expired [OF w1(3) sl(2) assms(4)] assms(3) by (auto simp: stalled_def)
  define s3 where "s3 = (if \<exists>p \<in> set (window s). expired now (timeoutMs s) p
      then applyCongestionDecrease s else s)"
  have s3: "window s3 = window s" "timeoutMs s3 \<le> MAX_TIMEOUT_MS"
    using assms(4) clamp_bounds [of MIN_TIMEOUT_MS MAX_TIMEOUT_MS "timeoutMs s * 2"]
    by (auto simp: s3_def applyCongestionDecrease_def MIN_TIMEOUT_MS_def MAX_TIMEOUT_MS_def)
  obtain ok' qs w3 where r: "retransmit_all now (timeoutMs s) s3 (window s) w2 = (ok', qs, w3)"
    by (metis surj_pair)
  have "isAbortRequested (ss_abortInstalled s) w = (False, w)"
    using assms(2) by (simp add: isAbortRequested_none undisturbed_def)
  then have "ok = ok'" "s' = s3\<lparr>window := qs\<rparr>" "w' = w3"
    using assms(6) poll_acks_silent [OF assms(1,2), of s] now congestion_scan_undisturbed [OF w2] r s3(1)
    by (auto simp: pollAcksAndRetransmit_def Let_def s3_def [symmetric])
  with retransmit_all_stalled [OF ex w2 sl(1) r] s3(2) sl(4) show ?thesis by simp
qed

lemma poll_stalled_returns:
  assumes "inbox w = RecvTimeout # rest" "undisturbed w"
  shows "\<exists>ok s' w'. pollAcksAndRetransmit s w = Some (ok, s', w')"
proof -
  let ?w1 = "w\<lparr>inbox := rest\<rparr>"
  obtain now w2 where now: "steady_now ?w1 = (now, w2)" by fastforce
  have "undisturbed w2" using assms(2) steady_now_frame(3,4) [of ?w1] now by (simp add: undisturbed_def)
  from congestion_scan_undisturbed [OF this] assms now poll_acks_silent [OF assms, of s] show ?thesis
    by (simp add: pollAcksAndRetransmit_def isAbortRequested_none undisturbed_def Let_def split_beta)
qed

lemma sv_flush_gives_up:
  assumes "inbox w = replicate (Suc k) RecvTimeout @ rest" "undisturbed w" "stalled w (window s)"
    "timeoutMs s \<le> MAX_TIMEOUT_MS" "slow_clock (Suc k * Suc (length (window s))) w"
    "p \<in> set (window s)" "MAX_RETRIES \<le> retries p + k"
  shows "\<exists>s' w'. sv_flush s w = Some (False, s', w')"
  using assms
proof (induction k arbitrary: s w p)
  case (Suc k)
  let ?n = "Suc k * Suc (length (window s))"
  have ne: "window s \<noteq> []" using Suc.prems(6) by auto
  obtain ok s2 w2 where p: "pollAcksAndRetransmit s w = Some (ok, s2, w2)"
    using poll_stalled_returns [of w "replicate (Suc k) RecvTimeout @ rest" s] Suc.prems(1,2) by auto
  have "slow_clock (Suc (length (window s) + ?n)) w"
    using Suc.prems(5) by (simp add: algebra_simps)
  note out = poll_stalled [OF _ Suc.prems(2-4) this p, of "replicate (Suc k) RecvTimeout @ rest"]
  have ab: "isAbortRequested (ss_abortInstalled s) w = (False, w)"
    using Suc.prems(2) by (simp add: isAbortRequested_none undisturbed_def)
  show ?case
  proof (cases ok)
    case False
    with ne ab p show ?thesis by (simp add: sv_flush.simps [of s w])
  next
    case True
    with out Suc.prems(1) have st: "map retries (window s2) = map (\<lambda>p. retries p + 1) (window s)"
      "stalled w2 (window s2)" "undisturbed w2" "slow_clock ?n w2" "inbox w2 = replicate (Suc k) RecvTimeout @ rest"
      "timeoutMs s2 \<le> MAX_TIMEOUT_MS" by (auto split: if_splits)
    have len: "length (window s2) = length (window s)" using st(1) by (metis length_map)
    have "retries p + 1 \<in> set (map retries (window s2))" using Suc.prems(6) unfolding st(1) by auto
    then obtain q where q: "q \<in> set (window s2)" "retries q = retries p + 1" by auto
    have "\<exists>s' w'. sv_flush s2 w2 = Some (False, s', w')"
      by (rule Suc.IH [OF st(5,3,2,6) _ q(1)]) (use st(4) len q Suc.prems(7) in simp_all)
    with True ne ab p show ?thesis by (simp add: sv_flush.simps [of s w])
  qed
next
  case 0
  have ne: "window s \<noteq> []" using "0.prems"(6) by auto
  obtain ok s2 w2 where p: "pollAcksAndRetransmit s w = Some (ok, s2, w2)"
    using poll_stalled_returns [of w rest s] "0.prems"(1,2) by auto
  have "slow_clock (Suc (length (window s) + 0)) w" using "0.prems"(5) by simp
  from poll_stalled [OF _ "0.prems"(2-4) this p, of rest] "0.prems"(1,6,7) have "\<not> ok"
    by (auto split: if_splits)
  moreover have "isAbortRequested (ss_abortInstalled s) w = (False, w)"
    using "0.prems"(2) by (simp add: isAbortRequested_none undisturbed_def)
  ultimately show ?case using ne p by (simp add: sv_flush.simps [of s w])
qed

section \<open>Properties\<close>

text \<open>
  C31: the invariant of the server's sender. A new sender satisfies it, and \<^verbatim>\<open>sendChunk\<close> of the next
  chunk of a stream and \<^verbatim>\<open>flush\<close> keep it, whatever the network does and whether they succeed or
  fail: at most ten packets are in flight, each with at most ten retries and with the data of its
  number, the first of them is not acknowledged, the timeout lies between 50 and 2000 ms, and the
  congestion window does not fall below one packet.
\<close>

theorem sv_sender_invariant:
  assumes "f (unat n) = Some (data, fin)"
  shows "sender_inv f (sv_sender_init ok dest t) \<and>
    (\<forall>s w b s' w'. sender_inv f s \<longrightarrow> sv_sendChunk n data fin s w = Some (b, s', w') \<longrightarrow> sender_inv f s') \<and>
    (\<forall>s w b s' w'. sender_inv f s \<longrightarrow> sv_flush s w = Some (b, s', w') \<longrightarrow> sender_inv f s')"
proof (intro conjI allI impI)
  show "sender_inv f (sv_sender_init ok dest t)"
    using clamp_bounds [of MIN_TIMEOUT_MS MAX_TIMEOUT_MS t]
    by (simp add: sender_inv_def sv_sender_init_def Let_def MIN_TIMEOUT_MS_def MAX_TIMEOUT_MS_def
        INITIAL_CWND_def)
  fix s w b s' w' assume s: "sender_inv f s"
  show "sender_inv f s'" if "sv_sendChunk n data fin s w = Some (b, s', w')"
    using sv_sendChunk_outcome [OF that s assms, of "\<lambda>n. True"] by simp
  show "sender_inv f s'" if "sv_flush s w = Some (b, s', w')"
    using sv_flush_step [OF that, of f "\<lambda>n. True"] sender_stepD(4) s by blast
qed

text \<open>
  A successful \<^verbatim>\<open>flush\<close> means delivery. If the acknowledgements from the destination are honest
  with respect to \<open>A\<close>, every chunk that was accounted for (acknowledged already, or in the window and
  not acknowledged) satisfies \<open>A\<close> after a \<^verbatim>\<open>flush\<close> that returns true; and \<^verbatim>\<open>sendChunk\<close> keeps every chunk
  accounted for and adds its own.
\<close>

theorem sv_flush_delivers:
  assumes "sender_inv f s" and "f (unat n) = Some (data, fin)"
    and "sv_sendChunk n data fin s w = Some (True, s1, w1)"
    and "sv_flush s1 w1 = Some (True, s2, w2)"
    and "acks_honest A (destAddr s) (inbox w)"
  shows "A n \<and> (\<forall>m. accounted A s m \<longrightarrow> A m)"
proof -
  note c = sv_sendChunk_outcome [OF assms(3,1,2), of A]
  have fl: "sender_step f A s1 w1 s2 w2" "window s2 = []" using sv_flush_step [OF assms(4)] by auto
  have "acks_honest A (destAddr s1) (inbox w1)" using c assms(5) acks_honest_inbox by metis
  from sender_stepD(6) [OF fl(1) this] have "A m" if "accounted A s1 m" for m
    using that fl(2) by (fastforce simp: accounted_def)
  with c assms(5) show ?thesis by blast
qed

text \<open>
  The sender stays inside the receiver's window. Its window always is the run of the consecutive
  numbers before the next one to send, so a packet it transmits is less than ten ahead of the first
  one not yet acknowledged; \<^verbatim>\<open>sendChunk\<close> appends its number and polling removes only at the front.
\<close>

theorem sv_window_consecutive:
  assumes "sender_inv f s" and "window_run next s" and "f (unat (of_nat next :: u32)) = Some (data, fin)"
    and "sv_sendChunk (of_nat next) data fin s w = Some (ok, s', w')"
  shows "(if ok then window_run (next + 1) s' else window_run next s' \<or> window_run (next + 1) s') \<and>
    length (window s') \<le> RDT_RECEIVE_WINDOW"
  using sv_sendChunk_run [OF assms(4,2)] sv_sendChunk_outcome [OF assms(4,1,3), of "\<lambda>n. True"]
  by (auto simp: sender_inv_def)


section \<open>Instances\<close>

definition sv_sample_sender :: sv_sender where
  "sv_sample_sender = (sv_sender_init True sample_peer 500)\<lparr>ss_abortInstalled := True\<rparr>"

definition sv_sample_ack :: bytes where
  "sv_sample_ack = seal_control (zero_header\<lparr>ack_num := 0, flags := FLAG_ACK,
     window_size := of_nat RDT_RECEIVE_WINDOW\<rparr>)"

lemma sv_sample_ack_decode:
  "decodeValidatedDatagram sv_sample_ack = Some (zero_header\<lparr>ack_num := 0, flags := FLAG_ACK,
     window_size := of_nat RDT_RECEIVE_WINDOW, checksum := internetChecksum (header_bytes
       (zero_header\<lparr>ack_num := 0, flags := FLAG_ACK, window_size := of_nat RDT_RECEIVE_WINDOW\<rparr>))\<rparr>)"
  by (simp add: sv_sample_ack_def decode_seal_control zero_header_def)

lemma sv_sample_ack_length: "length sv_sample_ack = 16"
  by (simp add: sv_sample_ack_def seal_control_eq)

abbreviation sv_sample_events :: "recv_result list" where
  "sv_sample_events \<equiv> [RecvTimeout, Received sv_sample_ack sample_peer, RecvTimeout]"

definition sv_sample_queued :: sv_sender where
  "sv_sample_queued = sv_sample_sender\<lparr>window := [new_packet 0 [65] True 0]\<rparr>"

definition sv_sample_sent :: world where
  "sv_sample_sent = (idle_world [Received sv_sample_ack sample_peer, RecvTimeout])\<lparr>outbox :=
     [(data_bytes 0 True 4 [65], sample_peer)]\<rparr>"

lemma sv_sample_poll:
  "pollAcksAndRetransmit sv_sample_queued (sv_sample_sent\<lparr>inbox := RecvTimeout # rest\<rparr>) =
   Some (True, sv_sample_queued, sv_sample_sent\<lparr>inbox := rest\<rparr>)"
  using poll_acks_silent [of "sv_sample_sent\<lparr>inbox := RecvTimeout # rest\<rparr>" rest sv_sample_queued]
  by (simp add: pollAcksAndRetransmit_def isAbortRequested_none sv_sample_sent_def idle_world_def
      undisturbed_def steady_now_def sv_sample_queued_def sv_sample_sender_def sv_sender_init_def
      new_packet_def expired_def ns_per_ms_def clamp_def MIN_TIMEOUT_MS_def MAX_TIMEOUT_MS_def)

lemma sv_sample_sendChunk:
  "sv_sendChunk 0 [65] True sv_sample_sender (idle_world sv_sample_events) =
   Some (True, sv_sample_queued, sv_sample_sent)"
proof -
  let ?w = "idle_world sv_sample_events"
  have size: "effectiveWindowSize sv_sample_sender = 4"
    by (simp add: effectiveWindowSize_def sv_sample_sender_def sv_sender_init_def Let_def INITIAL_CWND_def
        clamp_def RDT_RECEIVE_WINDOW_def)
  have win: "window sv_sample_sender = []" "destAddr sv_sample_sender = sample_peer"
    by (simp_all add: sv_sample_sender_def sv_sender_init_def Let_def)
  have "raw_packet_bytes (make_data_packet 0 True 4 [65]) = Some (data_bytes 0 True 4 [65])"
    using raw_packet_bytes_data [of "[65]" 0 True 4] by (simp add: data_bytes_def MAX_PAYLOAD_def)
  then have "sv_sendRawPacket (make_data_packet 0 True 4 [65]) sv_sample_sender ?w =
      (Some 0, ?w\<lparr>outbox := [(data_bytes 0 True 4 [65], sample_peer)]\<rparr>)"
    by (simp add: sv_sendRawPacket_def steady_now_def sendto_def idle_world_def win)
  with size win sv_sample_poll [of "[Received sv_sample_ack sample_peer, RecvTimeout]"] show ?thesis
    by (simp add: sv_sendChunk_def isAbortRequested_none idle_world_def MAX_PAYLOAD_def
        wait_for_space.simps [of sv_sample_sender] sv_sample_queued_def sv_sample_sent_def new_packet_def)
qed

lemma sv_sample_flush:
  "\<exists>s2 w2. sv_flush sv_sample_queued sv_sample_sent = Some (True, s2, w2) \<and>
     outbox w2 = [(data_bytes 0 True 4 [65], sample_peer)] \<and> aborts w2 = []"
proof -
  let ?w = "sv_sample_sent\<lparr>inbox := [RecvTimeout]\<rparr>"
  let ?s = "(clean_ack 0 (sv_sample_queued\<lparr>window := [(new_packet 0 [65] True 0)\<lparr>acked := True\<rparr>]\<rparr>))\<lparr>window := []\<rparr>"
  have dest: "destAddr sv_sample_queued = sample_peer"
    by (simp add: sv_sample_queued_def sv_sample_sender_def sv_sender_init_def Let_def)
  have ack: "handle_ack 0 sv_sample_queued ?w = (?s, ?w)"
    by (simp add: handle_ack_def sv_sample_queued_def new_packet_def steady_now_def sv_sample_sent_def
        idle_world_def)
  have "poll_step sv_sample_queued sv_sample_sent = Continue ?s ?w"
    using ack by (simp add: poll_step_def isAbortRequested_none recvfrom_def sv_sample_sent_def idle_world_def
        sv_sample_ack_decode sv_sample_ack_length HEADER_SIZE_def MAX_PAYLOAD_def dest has_flag_def
        flag_defs zero_header_def)
  moreover have und: "undisturbed ?w" by (simp add: undisturbed_def sv_sample_sent_def idle_world_def)
  ultimately have "poll_acks sv_sample_queued sv_sample_sent = Some (True, ?s, ?w\<lparr>inbox := []\<rparr>)"
    using poll_acks_silent [of ?w "[]" ?s] by (simp add: poll_acks.simps [of sv_sample_queued])
  then have "\<exists>w2. pollAcksAndRetransmit sv_sample_queued sv_sample_sent = Some (True, ?s, w2) \<and>
      outbox w2 = [(data_bytes 0 True 4 [65], sample_peer)] \<and> aborts w2 = []"
    using und by (simp add: pollAcksAndRetransmit_def isAbortRequested_none undisturbed_def
        sv_sample_sent_def idle_world_def steady_now_def)
  moreover have "aborts sv_sample_sent = []" "window sv_sample_queued \<noteq> []"
    by (simp_all add: sv_sample_sent_def idle_world_def sv_sample_queued_def)
  ultimately show ?thesis
    by (auto simp: sv_flush.simps [of sv_sample_queued] sv_flush.simps [of ?s] isAbortRequested_none)
qed

lemma sv_sample_inv: "sender_inv sample_stream sv_sample_sender" "sample_stream (unat (0 :: u32)) = Some ([65], True)"
  by (simp_all add: sv_sample_sender_def sender_inv_def sv_sender_init_def Let_def MIN_TIMEOUT_MS_def
      MAX_TIMEOUT_MS_def INITIAL_CWND_def clamp_def sample_stream_def)

theorem sv_sender_invariant_witness: "sender_inv sample_stream sv_sample_queued"
  using sv_sender_invariant [of sample_stream 0 "[65]" True True sample_peer 500] sv_sample_sendChunk sv_sample_inv
  by blast

theorem sv_flush_delivers_witness:
  "\<exists>bs h. Received bs sample_peer \<in> set (inbox (idle_world sv_sample_events)) \<and>
     decodeValidatedDatagram bs = Some h \<and> has_flag h FLAG_ACK \<and> ack_num h = 0"
proof -
  let ?A = "\<lambda>n. \<exists>bs h. Received bs sample_peer \<in> set (inbox (idle_world sv_sample_events)) \<and>
     decodeValidatedDatagram bs = Some h \<and> has_flag h FLAG_ACK \<and> ack_num h = n"
  obtain s2 w2 where fl: "sv_flush sv_sample_queued sv_sample_sent = Some (True, s2, w2)"
    using sv_sample_flush by blast
  have "destAddr sv_sample_sender = sample_peer"
    by (simp add: sv_sample_sender_def sv_sender_init_def Let_def)
  then have "acks_honest ?A (destAddr sv_sample_sender) (inbox (idle_world sv_sample_events))"
    unfolding acks_honest_def by metis
  from sv_flush_delivers [where n = 0 and data = "[65]" and fin = True and f = sample_stream,
      OF sv_sample_inv sv_sample_sendChunk fl this] show ?thesis by blast
qed

theorem sv_window_consecutive_witness:
  "window_run 1 sv_sample_queued \<and> length (window sv_sample_queued) \<le> RDT_RECEIVE_WINDOW"
proof -
  have run: "window_run 0 sv_sample_sender"
    by (simp add: window_run_def sv_sample_sender_def sv_sender_init_def Let_def)
  have "sv_sendChunk (of_nat 0) [65] True sv_sample_sender (idle_world sv_sample_events) =
      Some (True, sv_sample_queued, sv_sample_sent)" using sv_sample_sendChunk by simp
  from sv_window_consecutive [OF sv_sample_inv(1) run _ this] sv_sample_inv(2) show ?thesis by simp
qed


end
