(* ===== verification/Client_Sender.thy ===== *)
theory Client_Sender
  imports Sender_State
begin

unbundle bit_operations_syntax

text \<open>
  The client's stop-and-wait sender, \<^verbatim>\<open>client/src/rdt/RdtSender.cpp\<close>: construction, sending one
  packet, waiting for its acknowledgement, the retry loop of \<^verbatim>\<open>sendChunk\<close> and the handshake of an
  active-mode upload.
\<close>

section \<open>State and construction\<close>

record cl_sender =
  cs_socketOk :: bool
  cs_destAddr :: sockaddr_in
  cs_timeoutMs :: nat
  cs_abortInstalled :: bool
  cs_rcvTimeout :: nat

definition cl_sender_init :: "bool \<Rightarrow> sockaddr_in \<Rightarrow> nat \<Rightarrow> cl_sender" where
  "cl_sender_init ok dest timeout =
     \<lparr>cs_socketOk = ok, cs_destAddr = dest, cs_timeoutMs = timeout, cs_abortInstalled = False,
      cs_rcvTimeout = timeout\<rparr>"

text \<open>
  The constructor with a target: \<open>inet_pton\<close> is the address conversion of the socket library
  (\<open>None\<close> for text that is no IPv4 address).
\<close>

definition cl_RdtSender_target ::
  "(string \<Rightarrow> u32 option) \<Rightarrow> string \<Rightarrow> u16 \<Rightarrow> nat \<Rightarrow> world \<Rightarrow> cl_sender \<times> world" where
  "cl_RdtSender_target inet_pton targetIp targetPort timeout w =
     (let (created, w1) = syscall w
      in if \<not> created then (cl_sender_init False zero_addr timeout, w1)
         else let (optOk, w2) = syscall w1
           in if \<not> optOk then (cl_sender_init False zero_addr timeout, w2)
              else let dest = zero_addr\<lparr>sin_family := AF_INET, sin_port := targetPort\<rparr>
                in if targetPort = 0 then (cl_sender_init False dest timeout, w2)
                   else case inet_pton targetIp of
                       None \<Rightarrow> (cl_sender_init False dest timeout, w2)
                     | Some ip \<Rightarrow> (cl_sender_init True (dest\<lparr>sin_addr := ip\<rparr>) timeout, w2))"

definition cl_RdtSender_existing :: "bool \<Rightarrow> sockaddr_in \<Rightarrow> nat \<Rightarrow> world \<Rightarrow> cl_sender \<times> world" where
  "cl_RdtSender_existing existing targetAddr timeout w =
     (if \<not> existing then (cl_sender_init False targetAddr timeout, w)
      else let (optOk, w1) = syscall w in (cl_sender_init optOk targetAddr timeout, w1))"

text \<open>Active upload: the destination is learnt from the server's SYN.\<close>

definition cl_RdtSender_active :: "bool \<Rightarrow> nat \<Rightarrow> world \<Rightarrow> cl_sender \<times> world" where
  "cl_RdtSender_active existing timeout w =
     (if \<not> existing then (cl_sender_init False zero_addr timeout, w)
      else let (optOk, w1) = syscall w in (cl_sender_init optOk zero_addr timeout, w1))"

definition cl_sender_setAbortPredicate :: "bool \<Rightarrow> cl_sender \<Rightarrow> cl_sender" where
  "cl_sender_setAbortPredicate installed s = s\<lparr>cs_abortInstalled := installed\<rparr>"

section \<open>Sending\<close>

definition cl_sendRawPacket :: "RdtPacket \<Rightarrow> cl_sender \<Rightarrow> world \<Rightarrow> bool \<times> world" where
  "cl_sendRawPacket packet s w =
     (case raw_packet_bytes packet of
        None \<Rightarrow> (False, w)
      | Some sendBuf \<Rightarrow> sendto sendBuf (cs_destAddr s) w)"

text \<open>
  \<^verbatim>\<open>waitForAck\<close>: stale and foreign datagrams are skipped, a timeout or a socket error gives up.
\<close>

function cl_waitForAck :: "u32 \<Rightarrow> cl_sender \<Rightarrow> world \<Rightarrow> (bool \<times> world) option" where
  "cl_waitForAck expected_ack_num s w =
     (let (ab, w1) = isAbortRequested (cs_abortInstalled s) w
      in if ab then Some (False, w1)
         else case recvfrom w1 of
             None \<Rightarrow> None
           | Some (Received bs from, w2) \<Rightarrow>
               (case (if sameEndpoint from (cs_destAddr s) then decodeValidatedDatagram bs else None) of
                  None \<Rightarrow> cl_waitForAck expected_ack_num s w2
                | Some h \<Rightarrow>
                    if \<not> has_flag h FLAG_ACK \<or> has_flag h FLAG_DATA \<or> payload_len h \<noteq> 0
                    then cl_waitForAck expected_ack_num s w2
                    else if ack_num h = expected_ack_num then Some (True, w2)
                    else cl_waitForAck expected_ack_num s w2)
           | Some (RecvTimeout, w2) \<Rightarrow> Some (False, snd (isAbortRequested (cs_abortInstalled s) w2))
           | Some (RecvError e, w2) \<Rightarrow> Some (False, snd (isAbortRequested (cs_abortInstalled s) w2)))"
  by pat_completeness auto
termination
  by (relation "measure (\<lambda>(n, s, w). length (inbox w))")
    (auto dest!: isAbortRequested_inbox [OF sym] recvfrom_SomeD(4))

declare cl_waitForAck.simps [simp del]

text \<open>The retry loop of \<^verbatim>\<open>sendChunk\<close>, with the attempts left.\<close>

fun cl_send_loop :: "nat \<Rightarrow> RdtPacket \<Rightarrow> u32 \<Rightarrow> cl_sender \<Rightarrow> world \<Rightarrow> (bool \<times> world) option" where
  "cl_send_loop 0 packet seqNum s w = Some (False, w)"
| "cl_send_loop (Suc n) packet seqNum s w =
     (let (ab, w1) = isAbortRequested (cs_abortInstalled s) w
      in if ab then Some (False, w1)
         else let (sent, w2) = cl_sendRawPacket packet s w1
           in if \<not> sent then cl_send_loop n packet seqNum s w2
              else case cl_waitForAck seqNum s w2 of
                  None \<Rightarrow> None
                | Some (True, w3) \<Rightarrow> Some (True, w3)
                | Some (False, w3) \<Rightarrow> cl_send_loop n packet seqNum s w3)"

definition cl_sendChunk :: "u32 \<Rightarrow> bytes \<Rightarrow> bool \<Rightarrow> cl_sender \<Rightarrow> world \<Rightarrow> (bool \<times> world) option" where
  "cl_sendChunk seqNum data isFinal s w =
     (let (ab, w1) = isAbortRequested (cs_abortInstalled s) w
      in if ab then Some (False, w1)
         else if length data > MAX_PAYLOAD then Some (False, w1)
         else cl_send_loop MAX_RETRIES (make_data_packet seqNum isFinal 1 data) seqNum s w1)"

text \<open>A sender receives no chunks.\<close>

definition cl_sender_receiveNext :: "cl_sender \<Rightarrow> world \<Rightarrow> chunk option \<times> cl_sender \<times> world" where
  "cl_sender_receiveNext s w = (None, s, w)"

section \<open>The handshake of an active upload\<close>

definition cl_ready_ack_header :: "u32 \<Rightarrow> RdtHeader" where
  "cl_ready_ack_header n =
     zero_header\<lparr>ack_num := n, flags := FLAG_ACK, window_size := of_nat RDT_RECEIVE_WINDOW\<rparr>"

fun cl_serverReady_loop :: "nat \<Rightarrow> u32 \<Rightarrow> cl_sender \<Rightarrow> world \<Rightarrow> (bool \<times> cl_sender \<times> world) option" where
  "cl_serverReady_loop 0 expectedServerIp s w = Some (False, s, w)"
| "cl_serverReady_loop (Suc n) expectedServerIp s w =
     (let (ab, w1) = isAbortRequested (cs_abortInstalled s) w
      in if ab then Some (False, s, w1)
         else case recvfrom w1 of
             None \<Rightarrow> None
           | Some (RecvTimeout, w2) \<Rightarrow>
               (let (ab2, w3) = isAbortRequested (cs_abortInstalled s) w2
                in if ab2 then Some (False, s, w3) else cl_serverReady_loop n expectedServerIp s w3)
           | Some (RecvError e, w2) \<Rightarrow>
               Some (False, s, snd (isAbortRequested (cs_abortInstalled s) w2))
           | Some (Received bs from, w2) \<Rightarrow>
               (case (if sin_addr from = expectedServerIp then decodeValidatedDatagram bs else None) of
                  None \<Rightarrow> cl_serverReady_loop n expectedServerIp s w2
                | Some syn \<Rightarrow>
                    if \<not> has_flag syn FLAG_SYN \<or> has_flag syn FLAG_DATA \<or> payload_len syn \<noteq> 0
                    then cl_serverReady_loop n expectedServerIp s w2
                    else let s1 = s\<lparr>cs_destAddr := from, cs_rcvTimeout := cs_timeoutMs s\<rparr>;
                             (sent, w3) = sendto (seal_control (cl_ready_ack_header (seq_num syn)))
                                            (cs_destAddr s1) w2
                      in Some (sent, s1, w3)))"

definition waitForServerReady :: "u32 \<Rightarrow> cl_sender \<Rightarrow> world \<Rightarrow> (bool \<times> cl_sender \<times> world) option" where
  "waitForServerReady expectedServerIp s w =
     (if \<not> cs_socketOk s then Some (False, s, w)
      else let (ab, w1) = isAbortRequested (cs_abortInstalled s) w
        in if ab then Some (False, s, w1)
           else cl_serverReady_loop HANDSHAKE_MAX_RETRIES expectedServerIp
                  (s\<lparr>cs_rcvTimeout := HANDSHAKE_TIMEOUT_MS\<rparr>) w1)"

section \<open>What a wait and a retry loop do\<close>

lemma isAbortRequested_outbox: "isAbortRequested i w = (b, w') \<Longrightarrow> outbox w' = outbox w"
  using isAbortRequested_frame(2) [of i w] by simp

lemma cl_waitForAck_outcome:
  "cl_waitForAck n s w = Some (ok, w') \<Longrightarrow>
   outbox w' = outbox w \<and> set (inbox w') \<subseteq> set (inbox w) \<and>
   (ok \<longrightarrow> acks_honest A (cs_destAddr s) (inbox w) \<longrightarrow> A n)"
proof (induction n s w rule: cl_waitForAck.induct)
  case (1 n s w)
  obtain ab w1 where ab: "isAbortRequested (cs_abortInstalled s) w = (ab, w1)" by fastforce
  then have w1: "inbox w1 = inbox w" "outbox w1 = outbox w"
    by (auto dest: isAbortRequested_inbox isAbortRequested_outbox)
  note eq = cl_waitForAck.simps [of n s w]
  show ?case
  proof (cases "ab \<or> recvfrom w1 = None")
    case True
    with "1.prems" ab w1 show ?thesis by (auto simp: eq split: if_splits)
  next
    case False
    then obtain e w2 where r: "recvfrom w1 = Some (e, w2)" and nab: "\<not> ab" by auto
    note w2 = recvfrom_SomeD [OF r]
    have sub: "set (inbox w2) \<subseteq> set (inbox w)" and out: "outbox w2 = outbox w" using w1 w2 by auto
    show ?thesis
    proof (cases e)
      case (Received bs a)
      then have mem: "Received bs a \<in> set (inbox w)" using recvfrom_Received(1) [of w1 bs a w2] r w1 by simp
      let ?h = "if a = cs_destAddr s then decodeValidatedDatagram bs else None"
      show ?thesis
      proof (cases "\<exists>h. ?h = Some h \<and> has_flag h FLAG_ACK \<and> \<not> has_flag h FLAG_DATA \<and>
          payload_len h = 0 \<and> ack_num h = n")
        case True
        then obtain h where h: "a = cs_destAddr s" "decodeValidatedDatagram bs = Some h"
          "has_flag h FLAG_ACK" "\<not> has_flag h FLAG_DATA" "payload_len h = 0" "ack_num h = n"
          by (auto split: if_splits)
        with "1.prems" ab nab r Received have "ok" "w' = w2" by (auto simp: eq)
        with sub out h mem show ?thesis by (auto simp: acks_honest_def)
      next
        case False
        with "1.prems" ab nab r Received have rec: "cl_waitForAck n s w2 = Some (ok, w')"
          by (auto simp: eq split: option.splits if_splits)
        have "outbox w' = outbox w2 \<and> set (inbox w') \<subseteq> set (inbox w2) \<and>
            (ok \<longrightarrow> acks_honest A (cs_destAddr s) (inbox w2) \<longrightarrow> A n)"
        proof (cases ?h)
          case None
          with "1.IH"(1) [OF ab [symmetric] refl nab r refl Received] rec show ?thesis by auto
        next
          case (Some h)
          with "1.IH"(2,3) [OF ab [symmetric] refl nab r refl Received] False rec show ?thesis by auto
        qed
        with sub out acks_honest_inbox [OF _ sub, of A "cs_destAddr s"] show ?thesis by auto
      qed
    qed (use "1.prems" ab nab r sub out in \<open>auto simp: eq world_simps\<close>)
  qed
qed

lemma cl_sendRawPacket_data:
  assumes "length data \<le> MAX_PAYLOAD"
  shows "cl_sendRawPacket (make_data_packet n fin win data) s w =
    sendto (data_bytes n fin win data) (cs_destAddr s) w"
  using raw_packet_bytes_data [OF assms] by (simp add: cl_sendRawPacket_def data_bytes_def)

lemma cl_send_loop_outcome:
  assumes "length data \<le> MAX_PAYLOAD"
    and "cl_send_loop k (make_data_packet n fin win data) n s w = Some (ok, w')"
  shows "(\<exists>m \<le> k. outbox w' = outbox w @ replicate m (data_bytes n fin win data, cs_destAddr s)) \<and>
    set (inbox w') \<subseteq> set (inbox w) \<and> (ok \<longrightarrow> acks_honest A (cs_destAddr s) (inbox w) \<longrightarrow> A n)"
  using assms(2)
proof (induction k arbitrary: w)
  case (Suc k)
  let ?p = "make_data_packet n fin win data" and ?bs = "(data_bytes n fin win data, cs_destAddr s)"
  obtain ab w1 where ab: "isAbortRequested (cs_abortInstalled s) w = (ab, w1)" by fastforce
  then have w1: "inbox w1 = inbox w" "outbox w1 = outbox w"
    by (auto dest: isAbortRequested_inbox isAbortRequested_outbox)
  obtain sent w2 where sd: "cl_sendRawPacket ?p s w1 = (sent, w2)" by fastforce
  have w2: "inbox w2 = inbox w" "outbox w2 = outbox w @ (if sent then [?bs] else [])"
    using sd w1 sendto_frame(1) [of "fst ?bs" "snd ?bs" w1] outbox_sendto [of "fst ?bs" "snd ?bs" w1]
    by (simp_all add: cl_sendRawPacket_data [OF assms(1)])
  have later: ?case if "cl_send_loop k ?p n s v = Some (ok, w')" "set (inbox v) \<subseteq> set (inbox w)"
    "outbox v = outbox w @ replicate j ?bs" "j \<le> 1" for v j
  proof -
    from Suc.IH [OF that(1)] obtain m where m: "m \<le> k" "outbox w' = outbox v @ replicate m ?bs"
      "set (inbox w') \<subseteq> set (inbox v)" "ok \<longrightarrow> acks_honest A (cs_destAddr s) (inbox v) \<longrightarrow> A n" by blast
    then have "outbox w' = outbox w @ replicate (j + m) ?bs" using that(3) by (simp add: replicate_add)
    moreover have "j + m \<le> Suc k" using m that(4) by simp
    ultimately show ?thesis using m that(2) acks_honest_inbox [OF _ that(2)] by blast
  qed
  consider "ab" | "\<not> ab" "\<not> sent" | "\<not> ab" "sent" "cl_waitForAck n s w2 = None"
    | okA w3 where "\<not> ab" "sent" "cl_waitForAck n s w2 = Some (okA, w3)" by fastforce
  then show ?case
  proof cases
    case 1
    with Suc.prems ab w1 show ?thesis by (auto intro: exI [of _ 0])
  next
    case 2
    with Suc.prems ab sd have "cl_send_loop k ?p n s w2 = Some (ok, w')" by simp
    then show ?thesis by (rule later [where j = 0]) (use 2 w2 in simp_all)
  next
    case 4
    note wa = cl_waitForAck_outcome [OF 4(3), of A]
    have sub: "set (inbox w3) \<subseteq> set (inbox w)" "outbox w3 = outbox w @ replicate 1 ?bs"
      using wa w2 4(2) by simp_all
    show ?thesis
    proof (cases okA)
      case True
      with Suc.prems ab sd 4 have "ok" "w' = w3" by simp_all
      with wa sub w2 True show ?thesis by (auto intro!: exI [of _ 1])
    next
      case False
      with Suc.prems ab sd 4 have "cl_send_loop k ?p n s w3 = Some (ok, w')" by simp
      then show ?thesis by (rule later [where j = 1]) (use sub in simp_all)
    qed
  qed (use Suc.prems ab sd in simp)
qed simp

section \<open>Progress\<close>

lemma cl_waitForAck_timeout:
  "aborts w = [] \<Longrightarrow> inbox w = RecvTimeout # rest \<Longrightarrow>
   cl_waitForAck n s w = Some (False, w\<lparr>inbox := rest\<rparr>)"
  by (simp add: cl_waitForAck.simps [of n s w] isAbortRequested_none recvfrom_def)

lemma cl_waitForAck_ack:
  assumes "aborts w = []" "inbox w = Received bs (cs_destAddr s) # rest"
    "decodeValidatedDatagram bs = Some h" "has_flag h FLAG_ACK" "\<not> has_flag h FLAG_DATA"
    "payload_len h = 0" "ack_num h = n"
  shows "cl_waitForAck n s w = Some (True, w\<lparr>inbox := rest\<rparr>)"
proof -
  have "length bs \<le> 1040" using decode_SomeD(3) [OF assms(3)] .
  then show ?thesis using assms
    by (simp add: cl_waitForAck.simps [of n s w] isAbortRequested_none recvfrom_def HEADER_SIZE_def
        MAX_PAYLOAD_def)
qed

text \<open>One attempt whose acknowledgement does not come.\<close>

lemma cl_send_loop_timeout:
  assumes "length data \<le> MAX_PAYLOAD" "aborts w = []" "sendOk w = []" "inbox w = RecvTimeout # rest"
  shows "cl_send_loop (Suc k) (make_data_packet n fin win data) n s w =
    cl_send_loop k (make_data_packet n fin win data) n s
      (w\<lparr>inbox := rest, outbox := outbox w @ [(data_bytes n fin win data, cs_destAddr s)]\<rparr>)"
  using assms
  by (simp add: isAbortRequested_none cl_sendRawPacket_data sendto_def cl_waitForAck_timeout)

lemma cl_send_loop_retry:
  assumes "length data \<le> MAX_PAYLOAD" "aborts w = []" "sendOk w = []"
    "inbox w = replicate m RecvTimeout @ rest" "m \<le> k"
  shows "cl_send_loop k (make_data_packet n fin win data) n s w =
    cl_send_loop (k - m) (make_data_packet n fin win data) n s
      (w\<lparr>inbox := rest, outbox := outbox w @ replicate m (data_bytes n fin win data, cs_destAddr s)\<rparr>)"
  using assms
proof (induction m arbitrary: k w)
  case (Suc m)
  then obtain k' where k: "k = Suc k'" by (cases k) auto
  show ?case
    unfolding k using Suc.prems Suc.IH cl_send_loop_timeout [of data w "replicate m RecvTimeout @ rest" k' n fin win s] k
    by simp
next
  case 0
  then have "rest = inbox w" by simp
  then show ?case by simp
qed

section \<open>Properties\<close>

text \<open>
  A chunk the client reports as sent was acknowledged. If the acknowledgements that come from
  the destination are honest with respect to \<open>A\<close>, then \<^verbatim>\<open>sendChunk\<close> returns true only if \<open>A\<close> holds of
  its number; and in every case it sends nothing but at most ten copies of the packet of the chunk,
  to the destination.
\<close>

theorem cl_sendChunk_acknowledged:
  assumes "cl_sendChunk seqNum data isFinal s w = Some (ok, w')"
    and "acks_honest A (cs_destAddr s) (inbox w)"
  shows "(ok \<longrightarrow> A seqNum \<and> length data \<le> MAX_PAYLOAD) \<and>
    (\<exists>m \<le> MAX_RETRIES. outbox w' = outbox w @ replicate m (data_bytes seqNum isFinal 1 data, cs_destAddr s))"
proof -
  obtain ab w1 where ab: "isAbortRequested (cs_abortInstalled s) w = (ab, w1)" by fastforce
  then have w1: "inbox w1 = inbox w" "outbox w1 = outbox w"
    by (auto dest: isAbortRequested_inbox isAbortRequested_outbox)
  show ?thesis
  proof (cases "ab \<or> length data > MAX_PAYLOAD")
    case True
    with assms(1) ab w1 show ?thesis by (auto simp: cl_sendChunk_def intro!: exI [of _ 0] split: if_splits)
  next
    case False
    with assms(1) ab have "cl_send_loop MAX_RETRIES (make_data_packet seqNum isFinal 1 data) seqNum s w1 = Some (ok, w')"
      by (simp add: cl_sendChunk_def)
    from cl_send_loop_outcome [OF _ this, of A] False w1 assms(2) show ?thesis by simp
  qed
qed

text \<open>
  C30: stop-and-wait retransmission. If the first \<open>m\<close> waits time out and the acknowledgement comes in
  answer to attempt \<open>m + 1\<close> of the ten, \<^verbatim>\<open>sendChunk\<close> succeeds after exactly \<open>m + 1\<close> transmissions; if all
  ten waits time out it fails after exactly ten.
\<close>

theorem cl_sendChunk_retransmits:
  assumes "aborts w = []" and "sendOk w = []" and "length data \<le> MAX_PAYLOAD"
    and "inbox w = replicate m RecvTimeout @ rest"
    and "if m < MAX_RETRIES
         then \<exists>bs h rest'. rest = Received bs (cs_destAddr s) # rest' \<and> decodeValidatedDatagram bs = Some h \<and>
           has_flag h FLAG_ACK \<and> \<not> has_flag h FLAG_DATA \<and> payload_len h = 0 \<and> ack_num h = seqNum
         else m = MAX_RETRIES"
  shows "\<exists>w'. cl_sendChunk seqNum data isFinal s w = Some (m < MAX_RETRIES, w') \<and>
    outbox w' = outbox w @
      replicate (min (m + 1) MAX_RETRIES) (data_bytes seqNum isFinal 1 data, cs_destAddr s)"
proof -
  let ?bs = "(data_bytes seqNum isFinal 1 data, cs_destAddr s)"
  let ?v = "w\<lparr>inbox := rest, outbox := outbox w @ replicate m ?bs\<rparr>"
  have m: "m \<le> MAX_RETRIES" using assms(5) by (auto split: if_splits)
  have eq: "cl_sendChunk seqNum data isFinal s w =
      cl_send_loop (MAX_RETRIES - m) (make_data_packet seqNum isFinal 1 data) seqNum s ?v"
    using assms(1,3) cl_send_loop_retry [OF assms(3,1,2,4) m]
    by (simp add: cl_sendChunk_def isAbortRequested_none)
  show ?thesis
  proof (cases "m < MAX_RETRIES")
    case False
    with m eq show ?thesis by simp
  next
    case True
    then obtain bs h rest' where ack: "rest = Received bs (cs_destAddr s) # rest'"
      "decodeValidatedDatagram bs = Some h" "has_flag h FLAG_ACK" "\<not> has_flag h FLAG_DATA"
      "payload_len h = 0" "ack_num h = seqNum" using assms(5) by auto
    from True obtain k where k: "MAX_RETRIES - m = Suc k" by (cases "MAX_RETRIES - m") auto
    have "cl_waitForAck seqNum s (?v\<lparr>outbox := outbox ?v @ [?bs]\<rparr>) =
        Some (True, ?v\<lparr>outbox := outbox ?v @ [?bs], inbox := rest'\<rparr>)"
      using cl_waitForAck_ack [of "?v\<lparr>outbox := outbox ?v @ [?bs]\<rparr>" bs s rest' h seqNum] assms(1) ack by simp
    with True k eq assms(1-3) show ?thesis
      by (simp add: isAbortRequested_none cl_sendRawPacket_data sendto_def replicate_append_same)
  qed
qed

section \<open>Instances\<close>

definition cl_sample_sender :: cl_sender where
  "cl_sample_sender = cl_sender_init True sample_peer 500"

definition sample_ack :: bytes where
  "sample_ack = seal_control (cl_ready_ack_header 0)"

lemma sample_ack_decode:
  "\<exists>h. decodeValidatedDatagram sample_ack = Some h \<and> has_flag h FLAG_ACK \<and> \<not> has_flag h FLAG_DATA \<and>
     payload_len h = 0 \<and> ack_num h = 0"
  by (simp add: sample_ack_def decode_seal_control cl_ready_ack_header_def zero_header_def
      has_flag_def flag_defs)

theorem cl_sendChunk_retransmits_witness:
  "\<exists>w'. cl_sendChunk 0 [65] True cl_sample_sender
       (idle_world [RecvTimeout, RecvTimeout, Received sample_ack sample_peer]) = Some (True, w') \<and>
     length (outbox w') = 3"
proof -
  let ?w = "idle_world [RecvTimeout, RecvTimeout, Received sample_ack sample_peer]"
  have "\<exists>w'. cl_sendChunk 0 [65] True cl_sample_sender ?w = Some (2 < MAX_RETRIES, w') \<and>
      outbox w' = outbox ?w @
        replicate (min (2 + 1) MAX_RETRIES) (data_bytes 0 True 1 [65], cs_destAddr cl_sample_sender)"
    by (rule cl_sendChunk_retransmits [where rest = "[Received sample_ack sample_peer]"])
      (use sample_ack_decode in \<open>auto simp: idle_world_def MAX_PAYLOAD_def MAX_RETRIES_def
         cl_sample_sender_def cl_sender_init_def numeral_2_eq_2\<close>)
  then show ?thesis by (auto simp: MAX_RETRIES_def idle_world_def)
qed

theorem cl_sendChunk_acknowledged_witness:
  "\<exists>w'. cl_sendChunk 0 [65] True cl_sample_sender (idle_world [Received sample_ack sample_peer]) =
      Some (True, w') \<and>
    (\<exists>m \<le> MAX_RETRIES. outbox w' = replicate m (data_bytes 0 True 1 [65], sample_peer))"
proof -
  let ?w = "idle_world [Received sample_ack sample_peer]"
  obtain h where h: "decodeValidatedDatagram sample_ack = Some h" "has_flag h FLAG_ACK"
    "\<not> has_flag h FLAG_DATA" "payload_len h = 0" "ack_num h = 0" using sample_ack_decode by auto
  then have honest: "acks_honest (\<lambda>n. n = 0) (cs_destAddr cl_sample_sender) (inbox ?w)"
    by (auto simp: acks_honest_def idle_world_def)
  have "\<exists>w'. cl_sendChunk 0 [65] True cl_sample_sender ?w = Some (True, w')"
    using h cl_waitForAck_ack [of "?w\<lparr>outbox := [(data_bytes 0 True 1 [65], sample_peer)]\<rparr>" sample_ack
        cl_sample_sender "[]" h 0]
    by (simp add: cl_sendChunk_def isAbortRequested_none idle_world_def MAX_RETRIES_def MAX_PAYLOAD_def
        numeral_eq_Suc cl_sendRawPacket_data sendto_def cl_sample_sender_def cl_sender_init_def)
  then obtain w' where w': "cl_sendChunk 0 [65] True cl_sample_sender ?w = Some (True, w')" by blast
  from cl_sendChunk_acknowledged [OF w' honest] w' show ?thesis
    by (simp add: idle_world_def cl_sample_sender_def cl_sender_init_def)
qed

end
