(* ===== verification/Data_Channel_Send.thy ===== *)
theory Data_Channel_Send
  imports File_Io Server_Sender_Facts Client_Sender
begin

text \<open>
  Sending a file over the data channel, from \<^verbatim>\<open>DataChannelSession.cpp\<close> of both sides: the private
  snapshot of the source file, the template \<^verbatim>\<open>sendFromReader\<close> and \<^verbatim>\<open>sendFile\<close>. The template is a
  function of the reader and of the transport; what it needs of the transport is a locale of which
  the two senders are interpretations.
\<close>

section \<open>The snapshot of the source\<close>

text \<open>
  \<^verbatim>\<open>SourceSnapshot\<close>: size of the source, temporary directory, free space (an error of the query counts
  as enough space), temporary file, copy. The results of the queries come from the script of the file
  system.
\<close>

definition source_snapshot :: "path \<Rightarrow> fsys \<Rightarrow> path option \<times> fsys" where
  "source_snapshot src F =
     (case files F src of
        None \<Rightarrow> (None, F)
      | Some bs \<Rightarrow>
          (let (sizeOk, F1) = fs_try F
           in if \<not> sizeOk then (None, F1)
              else let (dirOk, F2) = fs_try F1
                in if \<not> dirOk then (None, F2)
                   else let (spaceOk, F3) = fs_try F2
                     in if \<not> spaceOk then (None, F3)
                        else case GetTempFileName F3 of
                            (None, F4) \<Rightarrow> (None, F4)
                          | (Some tmp, F4) \<Rightarrow>
                              (case fs_try F4 of
                                 (False, F5) \<Rightarrow> (None, fs_remove tmp F5)
                               | (True, F5) \<Rightarrow> (Some tmp, F5\<lparr>files := (files F5)(tmp \<mapsto> bs)\<rparr>))))"

lemma GetTempFileName_files:
  assumes "GetTempFileName F = (Some t, F')"
  shows "t \<in> set (tmpNames F)" "files F' = (files F)(t \<mapsto> [])"
proof -
  obtain b F1 where b: "fs_try F = (b, F1)" by fastforce
  with assms fs_try_eq [OF b] show "t \<in> set (tmpNames F)" "files F' = (files F)(t \<mapsto> [])"
    by (cases b; auto simp: GetTempFileName_def split: list.splits)+
qed

lemma GetTempFileName_None:
  assumes "GetTempFileName F = (None, F')"
  shows "files F' = files F"
proof -
  obtain b F1 where b: "fs_try F = (b, F1)" by fastforce
  with assms fs_try_eq [OF b] show ?thesis by (cases b) (auto simp: GetTempFileName_def split: list.splits)
qed

lemma source_snapshot_content:
  assumes "source_snapshot src F = (Some tmp, F')"
  shows "files F' tmp = files F src \<and> files F src \<noteq> None"
proof (cases "files F src")
  case (Some bs)
  then have "files F' tmp = Some bs"
    using assms by (auto simp: source_snapshot_def Let_def split: prod.splits if_splits option.splits bool.splits)
  with Some show ?thesis by simp
qed (use assms in \<open>simp add: source_snapshot_def\<close>)

section \<open>Sending from a reader\<close>

type_synonym 's send_op = "u32 \<Rightarrow> bytes \<Rightarrow> bool \<Rightarrow> 's \<Rightarrow> world \<Rightarrow> (bool \<times> 's \<times> world) option"
type_synonym 's flush_op = "'s \<Rightarrow> world \<Rightarrow> (bool \<times> 's \<times> world) option"

text \<open>
  The loop of \<^verbatim>\<open>sendFromReader\<close>: it reads one chunk ahead to know whether the current one is the last.
  \<open>None\<close> means that a call of the transport is still waiting.
\<close>

partial_function (option) send_loop ::
  "('r \<Rightarrow> (bytes \<times> 'r) option) \<Rightarrow> 's send_op \<Rightarrow> bool \<Rightarrow> u32 \<Rightarrow> bytes \<Rightarrow> 'r \<Rightarrow> 's \<Rightarrow> world \<Rightarrow>
   (bool \<times> 's \<times> world) option" where
  "send_loop nextChunk sendChunk installed seq current r s w =
     (case nextChunk r of
        None \<Rightarrow>
          (let (ab, w1) = isAbortRequested installed w
           in if ab then Some (False, s, w1) else sendChunk seq current True s w1)
      | Some (nxt, r1) \<Rightarrow>
          (let (ab, w1) = isAbortRequested installed w
           in if ab then Some (False, s, w1)
              else case sendChunk seq current False s w1 of
                  None \<Rightarrow> None
                | Some (ok, s2, w2) \<Rightarrow>
                    if \<not> ok then Some (False, s2, w2)
                    else send_loop nextChunk sendChunk installed (seq + 1) nxt r1 s2 w2))"

definition sendFromReader ::
  "('r \<Rightarrow> (bytes \<times> 'r) option) \<Rightarrow> 's send_op \<Rightarrow> 's flush_op \<Rightarrow> bool \<Rightarrow> bool \<Rightarrow> 'r \<Rightarrow> 's \<Rightarrow> world \<Rightarrow>
   (bool \<times> 's \<times> world) option" where
  "sendFromReader nextChunk sendChunk flush isOpen installed r s w =
     (if \<not> isOpen then Some (False, s, w)
      else let (ab, w1) = isAbortRequested installed w
        in if ab then Some (False, s, w1)
           else case nextChunk r of
               None \<Rightarrow>
                 (let (ab2, w2) = isAbortRequested installed w1
                  in if ab2 then Some (False, s, w2)
                     else case sendChunk 0 [] True s w2 of
                         None \<Rightarrow> None
                       | Some (ok, s3, w3) \<Rightarrow>
                           if \<not> ok then Some (False, s3, w3)
                           else let (ab3, w4) = isAbortRequested installed w3
                             in if ab3 then Some (False, s3, w4) else flush s3 w4)
             | Some (current, r1) \<Rightarrow>
                 (case send_loop nextChunk sendChunk installed 0 current r1 s w1 of
                    None \<Rightarrow> None
                  | Some (ok, s2, w2) \<Rightarrow>
                      if \<not> ok then Some (False, s2, w2)
                      else let (ab2, w3) = isAbortRequested installed w2
                        in if ab2 then Some (False, s2, w3)
                           else case flush s2 w3 of
                               None \<Rightarrow> None
                             | Some (ok3, s3, w4) \<Rightarrow>
                                 if \<not> ok3 then Some (False, s3, w4)
                                 else let (ab3, w5) = isAbortRequested installed w4
                                   in Some (\<not> ab3, s3, w5)))"

record SendResult =
  success :: bool
  sha256 :: string

section \<open>sendFile\<close>

text \<open>
  \<open>hashFile\<close> stands for \<^verbatim>\<open>Sha256Hasher::hashFile\<close>, which calls the cryptography library of the system: the
  digest of the bytes as hexadecimal text, or the empty string when it fails. The snapshot is removed
  when the function returns.
\<close>

definition send_file_over ::
  "'s send_op \<Rightarrow> 's flush_op \<Rightarrow> (bytes \<Rightarrow> string) \<Rightarrow> bool \<Rightarrow> path \<Rightarrow> TransferMode \<Rightarrow>
   's \<Rightarrow> world \<Rightarrow> fsys \<Rightarrow> (SendResult \<times> 's \<times> world \<times> fsys) option" where
  "send_file_over sendChunk flush hashFile installed filePath mode s w F =
     (case source_snapshot filePath F of
        (None, F1) \<Rightarrow> Some (\<lparr>success = False, sha256 = []\<rparr>, s, w, F1)
      | (Some snap, F1) \<Rightarrow>
          (case mode of
             Binary \<Rightarrow>
               (let digest = (case files F1 snap of None \<Rightarrow> [] | Some bs \<Rightarrow> hashFile bs)
                in if digest = [] then Some (\<lparr>success = False, sha256 = []\<rparr>, s, w, fs_remove snap F1)
                   else let r = open_reader snap F1
                     in case sendFromReader reader_nextChunk sendChunk flush (streamOpen r) installed r s w of
                          None \<Rightarrow> None
                        | Some (ok, s2, w2) \<Rightarrow>
                            Some (\<lparr>success = ok, sha256 = digest\<rparr>, s2, w2, fs_remove snap F1))
           | ASCII \<Rightarrow>
               (let r = open_ascii_reader snap F1
                in case sendFromReader ascii_nextChunk sendChunk flush (streamOpen (ar_reader r)) installed r s w of
                     None \<Rightarrow> None
                   | Some (ok, s2, w2) \<Rightarrow>
                       Some (\<lparr>success = ok, sha256 = []\<rparr>, s2, w2, fs_remove snap F1))))"

definition sv_sendFile where
  "sv_sendFile = send_file_over sv_sendChunk sv_flush"

text \<open>The client's sender keeps no state between chunks, and has nothing to flush.\<close>

definition cl_send_op :: "cl_sender send_op" where
  "cl_send_op seqNum data isFinal s w =
     (case cl_sendChunk seqNum data isFinal s w of None \<Rightarrow> None | Some (ok, w') \<Rightarrow> Some (ok, s, w'))"

definition cl_flush :: "cl_sender flush_op" where
  "cl_flush s w = Some (True, s, w)"

definition cl_sendFile where
  "cl_sendFile = send_file_over cl_send_op cl_flush"

section \<open>The stream of a file\<close>

text \<open>Chunk \<open>n\<close> of a file: its bytes, and whether it is the last. An empty file is one empty chunk.\<close>

definition file_stream :: "bytes \<Rightarrow> nat \<Rightarrow> (bytes \<times> bool) option" where
  "file_stream bs n =
     (if n = 0 \<or> MAX_PAYLOAD * n < length bs
      then Some (take MAX_PAYLOAD (drop (MAX_PAYLOAD * n) bs), length bs \<le> MAX_PAYLOAD * (n + 1))
      else None)"

text \<open>
  Sequence numbers neither wrap nor reach their maximum for contents up to 4 TiB less 1 KiB.
\<close>

definition fits :: "bytes \<Rightarrow> bool" where
  "fits bs \<longleftrightarrow> length bs \<le> MAX_PAYLOAD * (2 ^ 32 - 1)"

lemma fits_number: "fits bs \<Longrightarrow> MAX_PAYLOAD * n < length bs \<Longrightarrow> unat (of_nat n :: u32) = n"
  by (rule unat_of_nat_u32) (simp add: fits_def MAX_PAYLOAD_def)

section \<open>What the transport promises\<close>

text \<open>
  \<open>sinv f s\<close>: the sender is in order for the stream \<open>f\<close>; \<open>acc A s n\<close>: chunk \<open>n\<close> is accounted for, that is
  \<open>A n\<close> holds or the sender still has it; \<open>dest s\<close>: where it sends to.
\<close>

locale chunk_sender =
  fixes sendChunk :: "'s send_op" and flush :: "'s flush_op"
    and sinv :: "(nat \<Rightarrow> (bytes \<times> bool) option) \<Rightarrow> 's \<Rightarrow> bool"
    and acc :: "(u32 \<Rightarrow> bool) \<Rightarrow> 's \<Rightarrow> u32 \<Rightarrow> bool"
    and dest :: "'s \<Rightarrow> sockaddr_in"
  assumes send_frame: "sendChunk n d fin s w = Some (ok, s', w') \<Longrightarrow> sinv f s \<Longrightarrow> f (unat n) = Some (d, fin) \<Longrightarrow>
      sinv f s' \<and> dest s' = dest s \<and> set (inbox w') \<subseteq> set (inbox w) \<and> sends_stream f (dest s) w w'"
    and send_acc: "sendChunk n d fin s w = Some (ok, s', w') \<Longrightarrow> sinv f s \<Longrightarrow> f (unat n) = Some (d, fin) \<Longrightarrow>
      acks_honest A (dest s) (inbox w) \<Longrightarrow>
      (\<forall>m. acc A s m \<longrightarrow> acc A s' m) \<and> (ok \<longrightarrow> acc A s' n)"
    and flush_frame: "flush s w = Some (ok, s', w') \<Longrightarrow> sinv f s \<Longrightarrow>
      sinv f s' \<and> dest s' = dest s \<and> set (inbox w') \<subseteq> set (inbox w) \<and> sends_stream f (dest s) w w'"
    and flush_acc: "flush s w = Some (True, s', w') \<Longrightarrow> sinv f s \<Longrightarrow> acks_honest A (dest s) (inbox w) \<Longrightarrow>
      acc A s m \<Longrightarrow> A m"
begin

text \<open>The frame of a run that sends the stream \<open>f\<close>.\<close>

definition frame :: "(nat \<Rightarrow> (bytes \<times> bool) option) \<Rightarrow> 's \<Rightarrow> world \<Rightarrow> 's \<Rightarrow> world \<Rightarrow> bool" where
  "frame f s w s' w' \<longleftrightarrow>
     sinv f s' \<and> dest s' = dest s \<and> set (inbox w') \<subseteq> set (inbox w) \<and> sends_stream f (dest s) w w'"

lemma frame_trans: "frame f s w s1 w1 \<Longrightarrow> frame f s1 w1 s2 w2 \<Longrightarrow> frame f s w s2 w2"
  by (auto simp: frame_def intro: sends_stream_trans)

lemma frame_abort: "isAbortRequested b w = (x, w') \<Longrightarrow> sinv f s \<Longrightarrow> frame f s w s w'"
  using isAbortRequested_frame [of b w] by (simp add: frame_def sends_stream_refl)

lemma frame_honest: "frame f s w s' w' \<Longrightarrow> acks_honest A (dest s) (inbox w) \<Longrightarrow> acks_honest A (dest s') (inbox w')"
  by (auto simp: frame_def elim: acks_honest_inbox)

end

interpretation sv_snd: chunk_sender sv_sendChunk sv_flush sender_inv accounted destAddr
proof
  fix n d fin ok s s' w w' f A m
  show "sender_inv f s' \<and> destAddr s' = destAddr s \<and> set (inbox w') \<subseteq> set (inbox w) \<and>
      sends_stream f (destAddr s) w w'"
    if "sv_sendChunk n d fin s w = Some (ok, s', w')" "sender_inv f s" "f (unat n) = Some (d, fin)"
    using sv_sendChunk_outcome [OF that] by blast
  show "(\<forall>m. accounted A s m \<longrightarrow> accounted A s' m) \<and> (ok \<longrightarrow> accounted A s' n)"
    if "sv_sendChunk n d fin s w = Some (ok, s', w')" "sender_inv f s" "f (unat n) = Some (d, fin)"
      "acks_honest A (destAddr s) (inbox w)"
    using sv_sendChunk_outcome [OF that(1-3), of A] that(4) by blast
  show "sender_inv f s' \<and> destAddr s' = destAddr s \<and> set (inbox w') \<subseteq> set (inbox w) \<and>
      sends_stream f (destAddr s) w w'"
    if "sv_flush s w = Some (ok, s', w')" "sender_inv f s"
  proof -
    have "sender_step f A s w s' w'" using sv_flush_step [OF that(1)] by blast
    from sender_stepD [OF this] that(2) show ?thesis by simp
  qed
  show "A m" if "sv_flush s w = Some (True, s', w')" "sender_inv f s" "acks_honest A (destAddr s) (inbox w)"
    "accounted A s m"
    using sv_flush_step [OF that(1), of f A] sender_stepD(6) [OF _ that(3,4)] by (fastforce simp: accounted_def)
qed

lemma cl_sendChunk_inbox:
  assumes "cl_sendChunk n d fin s w = Some (ok, w')"
  shows "set (inbox w') \<subseteq> set (inbox w)" "\<exists>m. outbox w' = outbox w @ replicate m (data_bytes n fin 1 d, cs_destAddr s)"
    "ok \<Longrightarrow> acks_honest A (cs_destAddr s) (inbox w) \<Longrightarrow> A n"
proof -
  obtain ab w1 where ab: "isAbortRequested (cs_abortInstalled s) w = (ab, w1)" by fastforce
  then have w1: "inbox w1 = inbox w" "outbox w1 = outbox w"
    by (auto dest: isAbortRequested_inbox isAbortRequested_outbox)
  have "set (inbox w') \<subseteq> set (inbox w) \<and>
      (\<exists>m. outbox w' = outbox w @ replicate m (data_bytes n fin 1 d, cs_destAddr s)) \<and>
      (ok \<longrightarrow> acks_honest A (cs_destAddr s) (inbox w) \<longrightarrow> A n)"
  proof (cases "ab \<or> length d > MAX_PAYLOAD")
    case True
    with assms ab w1 show ?thesis by (auto simp: cl_sendChunk_def intro: exI [of _ 0] split: if_splits)
  next
    case False
    with assms ab have "cl_send_loop MAX_RETRIES (make_data_packet n fin 1 d) n s w1 = Some (ok, w')"
      by (simp add: cl_sendChunk_def)
    from cl_send_loop_outcome [OF _ this, of A] False w1 show ?thesis by auto
  qed
  then show "set (inbox w') \<subseteq> set (inbox w)"
    "\<exists>m. outbox w' = outbox w @ replicate m (data_bytes n fin 1 d, cs_destAddr s)"
    "ok \<Longrightarrow> acks_honest A (cs_destAddr s) (inbox w) \<Longrightarrow> A n" by blast+
qed

lemma cl_sendChunk_stream:
  assumes "cl_sendChunk n d fin s w = Some (ok, w')" "f (unat n) = Some (d, fin)"
  shows "sends_stream f (cs_destAddr s) w w'"
proof (cases "length d \<le> MAX_PAYLOAD")
  case True
  with cl_sendChunk_inbox(2) [OF assms(1)] data_bytes_carries [of d f n fin 1] data_bytes_is_data [of d n fin 1] assms(2) show ?thesis
    by (auto simp: sends_stream_def)
next
  case False
  obtain ab w1 where ab: "isAbortRequested (cs_abortInstalled s) w = (ab, w1)" by fastforce
  with False assms(1) isAbortRequested_frame(2) [of "cs_abortInstalled s" w] show ?thesis
    by (auto simp: cl_sendChunk_def sends_stream_refl split: if_splits)
qed

interpretation cl_snd: chunk_sender cl_send_op cl_flush "\<lambda>f s. True" "\<lambda>A s n. A n" cs_destAddr
proof
  fix n d fin ok s s' w w' f A
  assume "cl_send_op n d fin s w = Some (ok, s', w')" and f: "f (unat n) = Some (d, fin)"
  then have c: "cl_sendChunk n d fin s w = Some (ok, w')" "s' = s"
    by (auto simp: cl_send_op_def split: option.splits)
  show "True \<and> cs_destAddr s' = cs_destAddr s \<and> set (inbox w') \<subseteq> set (inbox w) \<and>
      sends_stream f (cs_destAddr s) w w'"
    using c cl_sendChunk_inbox(1) [OF c(1)] cl_sendChunk_stream [of n d fin s w ok w' f] f by simp
  show "(\<forall>m. A m \<longrightarrow> A m) \<and> (ok \<longrightarrow> A n)" if "acks_honest A (cs_destAddr s) (inbox w)"
    using cl_sendChunk_inbox(3) [OF c(1), of A] that by blast
qed (auto simp: cl_flush_def sends_stream_refl)

section \<open>Sending a file is sending its stream\<close>

locale file_sender = chunk_reader nextChunk content + chunk_sender sendChunk flush sinv acc dest
  for nextChunk :: "'r \<Rightarrow> (bytes \<times> 'r) option" and content :: "'r \<Rightarrow> bytes"
    and sendChunk :: "'s send_op" and flush :: "'s flush_op"
    and sinv :: "(nat \<Rightarrow> (bytes \<times> bool) option) \<Rightarrow> 's \<Rightarrow> bool"
    and acc :: "(u32 \<Rightarrow> bool) \<Rightarrow> 's \<Rightarrow> u32 \<Rightarrow> bool" and dest :: "'s \<Rightarrow> sockaddr_in"
begin

text \<open>Where the loop stands before it sends chunk \<open>k\<close>.\<close>

definition at_chunk :: "bytes \<Rightarrow> nat \<Rightarrow> bytes \<Rightarrow> 'r \<Rightarrow> bool" where
  "at_chunk bs k current r \<longleftrightarrow>
     MAX_PAYLOAD * k < length bs \<and> current = take MAX_PAYLOAD (drop (MAX_PAYLOAD * k) bs) \<and>
     content r = drop (MAX_PAYLOAD * (k + 1)) bs"

lemma at_chunk_stream:
  assumes "at_chunk bs k current r" "fits bs"
  shows "file_stream bs (unat (of_nat k :: u32)) = Some (current, nextChunk r = None)"
  using assms fits_number [OF assms(2), of k] by (simp add: at_chunk_def file_stream_def next_None)

lemma at_chunk_next:
  assumes "at_chunk bs k current r" "nextChunk r = Some (nxt, r')"
  shows "at_chunk bs (k + 1) nxt r'"
  using next_Some [OF assms(2)] assms(1) by (auto simp: at_chunk_def algebra_simps)

lemma send_loop_outcome:
  assumes "send_loop nextChunk sendChunk b (of_nat k) current r s w = Some (ok, s', w')"
    and "at_chunk bs k current r" "fits bs" "sinv (file_stream bs) s"
  shows "frame (file_stream bs) s w s' w' \<and>
    (acks_honest A (dest s) (inbox w) \<longrightarrow>
       (\<forall>m. acc A s m \<longrightarrow> acc A s' m) \<and>
       (ok \<longrightarrow> (\<forall>j. k \<le> j \<and> MAX_PAYLOAD * j < length bs \<longrightarrow> acc A s' (of_nat j))))"
  using assms
proof (induction "length (content r)" arbitrary: k current r s w rule: less_induct)
  case less
  let ?f = "file_stream bs"
  note eq = send_loop.simps [of nextChunk sendChunk b "of_nat k" current r s w]
  obtain ab w1 where ab: "isAbortRequested b w = (ab, w1)" by fastforce
  have fr1: "frame ?f s w s w1" using frame_abort [OF ab less.prems(4)] .
  note hon1 = frame_honest [OF fr1]
  have chunk: "?f (unat (of_nat k :: u32)) = Some (current, nextChunk r = None)"
    using at_chunk_stream [OF less.prems(2,3)] .
  show ?case
  proof (cases "ab")
    case True
    with less.prems(1) ab fr1 show ?thesis by (auto simp: eq split: option.splits)
  next
    case False
    show ?thesis
    proof (cases "nextChunk r")
      case None
      then have sd: "sendChunk (of_nat k) current True s w1 = Some (ok, s', w')"
        using less.prems(1) ab False by (simp add: eq)
      have f: "?f (unat (of_nat k :: u32)) = Some (current, True)" using chunk None by simp
      have "frame ?f s w1 s' w'" using send_frame [OF sd less.prems(4) f] by (simp add: frame_def)
      with fr1 have "frame ?f s w s' w'" by (rule frame_trans)
      moreover have "j = k" if "k \<le> j" "MAX_PAYLOAD * j < length bs" for j
      proof -
        have "length bs \<le> MAX_PAYLOAD * (k + 1)" using less.prems(2) None by (simp add: at_chunk_def next_None)
        then show ?thesis using that by (simp add: MAX_PAYLOAD_def)
      qed
      ultimately show ?thesis using send_acc [OF sd less.prems(4) f] hon1 by blast
    next
      case (Some p)
      obtain nxt r1 where p: "nextChunk r = Some (nxt, r1)" using Some by (cases p) auto
      obtain ok1 s1 w2 where sd: "sendChunk (of_nat k) current False s w1 = Some (ok1, s1, w2)"
        using less.prems(1) ab False p by (auto simp: eq split: option.splits)
      have f: "?f (unat (of_nat k :: u32)) = Some (current, False)" using chunk p by simp
      have fr2: "frame ?f s w1 s1 w2" using send_frame [OF sd less.prems(4) f] by (simp add: frame_def)
      have fr: "frame ?f s w s1 w2" using frame_trans [OF fr1 fr2] .
      show ?thesis
      proof (cases ok1)
        case False
        with less.prems(1) ab \<open>\<not> ab\<close> p sd have "\<not> ok" "s' = s1" "w' = w2" by (simp_all add: eq)
        with fr send_acc [OF sd less.prems(4) f] hon1 show ?thesis by blast
      next
        case True
        then have rec: "send_loop nextChunk sendChunk b (of_nat (k + 1)) nxt r1 s1 w2 = Some (ok, s', w')"
          using less.prems(1) ab False p sd by (simp add: eq add.commute)
        have "sinv ?f s1" using fr by (simp add: frame_def)
        note ih = less.hyps [OF next_less [OF p] rec at_chunk_next [OF less.prems(2) p] less.prems(3) this]
        have "frame ?f s w s' w'" using frame_trans [OF fr] ih by blast
        moreover have "(\<forall>m. acc A s m \<longrightarrow> acc A s' m) \<and>
            (ok \<longrightarrow> (\<forall>j. k \<le> j \<and> MAX_PAYLOAD * j < length bs \<longrightarrow> acc A s' (of_nat j)))"
          if hon: "acks_honest A (dest s) (inbox w)"
        proof -
          have a: "(\<forall>m. acc A s m \<longrightarrow> acc A s1 m) \<and> acc A s1 (of_nat k)"
            using send_acc [OF sd less.prems(4) f hon1 [OF hon]] True by blast
          have b: "(\<forall>m. acc A s1 m \<longrightarrow> acc A s' m) \<and>
              (ok \<longrightarrow> (\<forall>j. k + 1 \<le> j \<and> MAX_PAYLOAD * j < length bs \<longrightarrow> acc A s' (of_nat j)))"
            using ih frame_honest [OF fr hon] by blast
          have "acc A s' (of_nat j)" if "ok" "k \<le> j" "MAX_PAYLOAD * j < length bs" for j
            using that a b by (cases "j = k") auto
          with a b show ?thesis by blast
        qed
        ultimately show ?thesis by blast
      qed
    qed
  qed
qed

lemma flush_outcome:
  assumes "(let (ab, w1) = isAbortRequested b w in if ab then Some (False, s, w1) else flush s w1) = Some (ok, s', w')"
    "sinv f s"
  shows "frame f s w s' w' \<and> (ok \<and> acks_honest A (dest s) (inbox w) \<longrightarrow> (\<forall>m. acc A s m \<longrightarrow> A m))"
proof -
  obtain ab w1 where ab: "isAbortRequested b w = (ab, w1)" by fastforce
  have fr1: "frame f s w s w1" using frame_abort [OF ab assms(2)] .
  show ?thesis
  proof (cases ab)
    case True
    with assms(1) ab fr1 show ?thesis by simp
  next
    case False
    then have fl: "flush s w1 = Some (ok, s', w')" using assms(1) ab by simp
    have "frame f s w1 s' w'" using flush_frame [OF fl assms(2)] by (simp add: frame_def)
    with fr1 have "frame f s w s' w'" by (rule frame_trans)
    moreover have "A m" if "ok" "acks_honest A (dest s) (inbox w)" "acc A s m" for m
      using flush_acc [OF _ assms(2) frame_honest [OF fr1 that(2)] that(3)] fl that(1) by simp
    ultimately show ?thesis by blast
  qed
qed

text \<open>
  A run that returns has sent nothing but the stream of the file; and when it reports success, the
  receiver has acknowledged every chunk.
\<close>

lemma send_nonempty:
  assumes "send_loop nextChunk sendChunk b 0 current r1 s w = Some (True, s2, w2)"
    "nextChunk r = Some (current, r1)" "fits (content r)" "sinv (file_stream (content r)) s"
  shows "frame (file_stream (content r)) s w s2 w2"
    "acks_honest A (dest s) (inbox w) \<Longrightarrow> file_stream (content r) j \<noteq> None \<Longrightarrow> acc A s2 (of_nat j)"
proof -
  have at: "at_chunk (content r) 0 current r1"
    using next_Some [OF assms(2)] by (simp add: at_chunk_def)
  note out = send_loop_outcome [of b 0 current r1 s w True s2 w2 "content r", simplified, OF assms(1) at assms(3,4)]
  show "frame (file_stream (content r)) s w s2 w2" using out by blast
  assume hon: "acks_honest A (dest s) (inbox w)" and "file_stream (content r) j \<noteq> None"
  then have "MAX_PAYLOAD * j < length (content r)"
    using at by (auto simp: file_stream_def at_chunk_def split: if_splits)
  with out [of A] hon show "acc A s2 (of_nat j)" by blast
qed

lemma sendFromReader_outcome:
  assumes "sendFromReader nextChunk sendChunk flush isOpen b r s w = Some (ok, s', w')"
    and "fits (content r)" "sinv (file_stream (content r)) s"
  shows "frame (file_stream (content r)) s w s' w' \<and>
    (ok \<and> acks_honest A (dest s) (inbox w) \<longrightarrow> (\<forall>j. file_stream (content r) j \<noteq> None \<longrightarrow> A (of_nat j)))"
proof -
  let ?f = "file_stream (content r)"
  obtain ab w1 where ab: "isAbortRequested b w = (ab, w1)" by fastforce
  have fr1: "frame ?f s w s w1" using frame_abort [OF ab assms(3)] .
  have refl: "frame ?f s w s w" using assms(3) by (simp add: frame_def sends_stream_refl)
  show ?thesis
  proof (cases "isOpen \<and> \<not> ab")
    case False
    then have "ok = False" "s' = s" "w' = w \<or> w' = w1" using assms(1) ab by (auto simp: sendFromReader_def split: if_splits)
    with refl fr1 show ?thesis by auto
  next
    case go: True
    note eq = sendFromReader_def
    show ?thesis
    proof (cases "nextChunk r")
      case None
      obtain ab2 w2 where ab2: "isAbortRequested b w1 = (ab2, w2)" by fastforce
      have fr2: "frame ?f s w s w2" using frame_trans [OF fr1 frame_abort [OF ab2 assms(3)]] .
      show ?thesis
      proof (cases ab2)
        case True
        with assms(1) go ab None ab2 fr2 show ?thesis by (simp add: eq)
      next
        case False
        obtain ok3 s3 w3 where sd: "sendChunk 0 [] True s w2 = Some (ok3, s3, w3)"
          using assms(1) go ab None ab2 False by (auto simp: eq split: option.splits)
        have f: "?f (unat (0 :: u32)) = Some ([], True)" using None by (simp add: next_None file_stream_def)
        have only: "j = 0" if "?f j \<noteq> None" for j
          using None that by (auto simp: next_None file_stream_def split: if_splits)
        have fr3: "frame ?f s w s3 w3"
          using frame_trans [OF fr2] send_frame [OF sd assms(3) f] by (simp add: frame_def)
        then have s3: "sinv ?f s3" by (simp add: frame_def)
        show ?thesis
        proof (cases ok3)
          case bad: False
          with assms(1) go ab None ab2 False sd fr3 show ?thesis by (simp add: eq)
        next
          case True
          then have fl: "(let (ab, w1) = isAbortRequested b w3 in if ab then Some (False, s3, w1) else flush s3 w1) =
              Some (ok, s', w')"
            using assms(1) go ab None ab2 False sd by (simp add: eq)
          have "A (of_nat j)" if "ok" "acks_honest A (dest s) (inbox w)" "?f j \<noteq> None" for j
            using flush_outcome [OF fl s3, of A] frame_honest [OF fr3 that(2)] only [OF that(3)] that(1) True
              send_acc [OF sd assms(3) f frame_honest [OF fr2 that(2)]] by simp
          then show ?thesis using frame_trans [OF fr3] flush_outcome [OF fl s3, of A] by blast
        qed
      qed
    next
      case (Some p)
      obtain current r1 where p: "nextChunk r = Some (current, r1)" using Some by (cases p) auto
      obtain ok2 s2 w2 where lp: "send_loop nextChunk sendChunk b 0 current r1 s w1 = Some (ok2, s2, w2)"
        using assms(1) go ab p by (auto simp: eq split: option.splits)
      have fr2: "frame ?f s w s2 w2"
      proof -
        have at: "at_chunk (content r) 0 current r1" using next_Some [OF p] by (simp add: at_chunk_def)
        from send_loop_outcome [of b 0, simplified, OF lp this assms(2,3)] show ?thesis
          using frame_trans [OF fr1] by blast
      qed
      then have s2: "sinv ?f s2" by (simp add: frame_def)
      show ?thesis
      proof (cases ok2)
        case False
        with assms(1) go ab p lp fr2 show ?thesis by (simp add: eq)
      next
        case True
        obtain ok3 s3 w3 where fl: "(let (ab, w1) = isAbortRequested b w2 in if ab then Some (False, s2, w1) else flush s2 w1) =
              Some (ok3, s3, w3)"
          using assms(1) go ab p lp True by (auto simp: eq Let_def split: option.splits prod.splits if_splits)
        obtain ab4 w4 where ab4: "isAbortRequested b w3 = (ab4, w4)" by fastforce
        have res: "s' = s3" "w' = w3 \<or> w' = w4" "ok \<Longrightarrow> ok3"
          using assms(1) go ab p lp True fl ab4 by (auto simp: eq Let_def split: option.splits prod.splits if_splits)
        have fr3: "frame ?f s w s3 w3" using frame_trans [OF fr2] flush_outcome [OF fl s2] by blast
        have "sinv ?f s3" using fr3 by (simp add: frame_def)
        then have "frame ?f s w s3 w4" using frame_trans [OF fr3 frame_abort [OF ab4]] by blast
        with fr3 res have "frame ?f s w s' w'" by auto
        moreover have "A (of_nat j)" if "ok" "acks_honest A (dest s) (inbox w)" "?f j \<noteq> None" for j
        proof -
          have "acc A s2 (of_nat j)"
            using send_nonempty(2) [OF _ p assms(2,3) frame_honest [OF fr1 that(2)] that(3)] lp True by simp
          then show ?thesis
            using flush_outcome [OF fl s2, of A] frame_honest [OF fr2 that(2)] res(3) [OF that(1)] by blast
        qed
        ultimately show ?thesis by blast
      qed
    qed
  qed
qed

end

text \<open>Every transport sends from both readers.\<close>

sublocale chunk_sender \<subseteq> bin: file_sender reader_nextChunk streamRest sendChunk flush sinv acc dest
  by unfold_locales

sublocale chunk_sender \<subseteq> asc: file_sender ascii_nextChunk ascii_content sendChunk flush sinv acc dest
  by unfold_locales

text \<open>What goes over the wire for a file with content \<open>bs\<close>.\<close>

definition wire_content :: "TransferMode \<Rightarrow> bytes \<Rightarrow> bytes" where
  "wire_content mode bs = (case mode of Binary \<Rightarrow> bs | ASCII \<Rightarrow> crlf False bs)"

lemma open_reader_content: "files F p = Some bs \<Longrightarrow> streamRest (open_reader p F) = bs"
  by (simp add: open_reader_def)

lemma open_ascii_reader_content: "files F p = Some bs \<Longrightarrow> ascii_content (open_ascii_reader p F) = crlf False bs"
  by (simp add: open_ascii_reader_def ascii_content_def open_reader_def new_translator_def)

lemma source_snapshot_files:
  assumes "source_snapshot src F = (snap, F')" "p \<notin> set (tmpNames F)"
  shows "files F' p = files F p \<and> (\<forall>t. snap = Some t \<longrightarrow> p \<noteq> t)"
proof -
  obtain b1 F1 where b1: "fs_try F = (b1, F1)" by fastforce
  obtain b2 F2 where b2: "fs_try F1 = (b2, F2)" by fastforce
  obtain b3 F3 where b3: "fs_try F2 = (b3, F3)" by fastforce
  obtain tmp F4 where t: "GetTempFileName F3 = (tmp, F4)" by fastforce
  obtain b5 F5 where b5: "fs_try F4 = (b5, F5)" by fastforce
  have F3: "files F1 = files F" "files F2 = files F" "files F3 = files F" "tmpNames F3 = tmpNames F"
    using fs_try_eq [OF b1] fs_try_eq [OF b2] fs_try_eq [OF b3] by simp_all
  have F5: "files F5 = files F4" using fs_try_eq [OF b5] by simp
  show ?thesis
  proof (cases tmp)
    case None
    then have F4: "files F4 = files F" using GetTempFileName_None [of F3 F4] t F3(3) by simp
    have "snap = None \<and> (F' = F \<or> F' = F1 \<or> F' = F2 \<or> F' = F3 \<or> F' = F4)"
      using None assms(1) b1 b2 b3 t by (auto simp: source_snapshot_def split: option.splits if_splits)
    with F3 F4 show ?thesis by auto
  next
    case (Some u)
    then have "p \<noteq> u" "files F4 p = files F p"
      using GetTempFileName_files [of F3 u F4] t assms(2) F3 by auto
    with F5 fs_remove_files [of u F5] have "files (fs_remove u F5) p = files F p" "p \<noteq> u"
      by (simp_all add: same_except_def)
    moreover have "snap = None \<and> (F' = F \<or> F' = F1 \<or> F' = F2 \<or> F' = F3 \<or> F' = fs_remove u F5) \<or>
        snap = Some u \<and> (\<exists>bs. F' = F5\<lparr>files := (files F5)(u \<mapsto> bs)\<rparr>)"
      using Some assms(1) b1 b2 b3 t b5 by (cases b5) (auto simp: source_snapshot_def split: option.splits if_splits)
    ultimately show ?thesis using F3 F5 \<open>files F4 p = files F p\<close> by auto
  qed
qed

text \<open>The digest of a result is that of the file, or there is none.\<close>

lemma send_file_digest:
  assumes "send_file_over sendChunk flush hashFile b path mode s w F = Some (res, s', w', F')" "files F path = Some bs"
  shows "sha256 res = [] \<or> sha256 res = hashFile bs"
proof -
  obtain snap F1 where sn: "source_snapshot path F = (snap, F1)" by fastforce
  have "files F1 t = Some bs" if "snap = Some t" for t
    using source_snapshot_content [of path F t F1] sn that assms(2) by simp
  with assms(1) sn show ?thesis
    by (auto simp: send_file_over_def Let_def split: option.splits TransferMode.splits if_splits)
qed

text \<open>Sending leaves the files alone, up to the name of the snapshot.\<close>

lemma send_file_files:
  assumes "send_file_over sendChunk flush hashFile b path mode s w F = Some (res, s', w', F')" "p \<notin> set (tmpNames F)"
  shows "files F' p = files F p"
proof -
  obtain snap F1 where sn: "source_snapshot path F = (snap, F1)" by fastforce
  note fx = source_snapshot_files [OF sn assms(2)]
  have "F' = F1 \<or> (\<exists>t. snap = Some t \<and> F' = fs_remove t F1)"
    using assms(1) sn by (auto simp: send_file_over_def Let_def split: option.splits TransferMode.splits if_splits)
  with fx fs_remove_files show ?thesis by (auto simp: same_except_def)
qed

context chunk_sender
begin

lemma send_file_outcome:
  assumes "send_file_over sendChunk flush hashFile b path mode s w F = Some (res, s', w', F')"
    and "files F path = Some bs" "fits (wire_content mode bs)" "sinv (file_stream (wire_content mode bs)) s"
  shows "frame (file_stream (wire_content mode bs)) s w s' w' \<and>
    (success res \<and> acks_honest A (dest s) (inbox w) \<longrightarrow>
      (\<forall>j. file_stream (wire_content mode bs) j \<noteq> None \<longrightarrow> A (of_nat j))) \<and>
    (success res \<longrightarrow> sha256 res = (case mode of Binary \<Rightarrow> hashFile bs | ASCII \<Rightarrow> []))"
proof -
  let ?f = "file_stream (wire_content mode bs)"
  have refl: "frame ?f s w s w" using assms(4) by (simp add: frame_def sends_stream_refl)
  show ?thesis
  proof (cases "source_snapshot path F")
    case (Pair snap F1)
    show ?thesis
    proof (cases snap)
      case None
      with Pair assms(1) refl show ?thesis by (auto simp: send_file_over_def)
    next
      case (Some t)
      then have t: "files F1 t = Some bs"
        using source_snapshot_content [of path F t F1] Pair assms(2) by simp
      show ?thesis
      proof (cases mode)
        case Binary
        note out = bin.sendFromReader_outcome [where r = "open_reader t F1", unfolded open_reader_content [OF t]]
        from Binary Some Pair t assms refl out [where A = A] show ?thesis
          by (auto simp: send_file_over_def Let_def wire_content_def split: if_splits option.splits)
      next
        case ASCII
        note out = asc.sendFromReader_outcome [where r = "open_ascii_reader t F1", unfolded open_ascii_reader_content [OF t]]
        from ASCII Some Pair t assms refl out [where A = A] show ?thesis
          by (auto simp: send_file_over_def Let_def wire_content_def split: if_splits option.splits)
      qed
    qed
  qed
qed

end

section \<open>An upload whose chunks are acknowledged\<close>

text \<open>How many chunks a content has, and the packets that carry it.\<close>

definition chunk_count :: "bytes \<Rightarrow> nat" where
  "chunk_count bs = max 1 ((length bs + MAX_PAYLOAD - 1) div MAX_PAYLOAD)"

definition chunk_packet :: "bytes \<Rightarrow> nat \<Rightarrow> bytes" where
  "chunk_packet bs j =
     data_bytes (of_nat j) (j + 1 = chunk_count bs) 1 (take MAX_PAYLOAD (drop (MAX_PAYLOAD * j) bs))"

text \<open>An event that acknowledges chunk \<open>n\<close> to a sender whose peer is \<open>dest\<close>.\<close>

definition is_ack_event :: "sockaddr_in \<Rightarrow> u32 \<Rightarrow> recv_result \<Rightarrow> bool" where
  "is_ack_event dest n e \<longleftrightarrow>
     (case e of
        Received bs from \<Rightarrow>
          from = dest \<and>
          (case decodeValidatedDatagram bs of
             None \<Rightarrow> False
           | Some h \<Rightarrow> has_flag h FLAG_ACK \<and> \<not> has_flag h FLAG_DATA \<and> payload_len h = 0 \<and> ack_num h = n)
      | _ \<Rightarrow> False)"

lemma chunk_count_last:
  assumes "MAX_PAYLOAD * k < length bs"
  shows "k < chunk_count bs" "length bs \<le> MAX_PAYLOAD * (k + 1) \<longleftrightarrow> chunk_count bs = k + 1"
  using assms by (auto simp: chunk_count_def MAX_PAYLOAD_def)

lemma cl_send_op_ack:
  assumes "aborts w = []" "sendOk w = []" "length d \<le> MAX_PAYLOAD" "inbox w = e # rest"
    "is_ack_event (cs_destAddr s) n e"
  shows "cl_send_op n d fin s w =
    Some (True, s, w\<lparr>inbox := rest, outbox := outbox w @ [(data_bytes n fin 1 d, cs_destAddr s)]\<rparr>)"
proof -
  let ?v = "w\<lparr>outbox := outbox w @ [(data_bytes n fin 1 d, cs_destAddr s)]\<rparr>"
  obtain bs h where e: "e = Received bs (cs_destAddr s)" "decodeValidatedDatagram bs = Some h"
    "has_flag h FLAG_ACK" "\<not> has_flag h FLAG_DATA" "payload_len h = 0" "ack_num h = n"
    using assms(5) by (auto simp: is_ack_event_def split: recv_result.splits option.splits)
  have "cl_waitForAck n s ?v = Some (True, ?v\<lparr>inbox := rest\<rparr>)"
    using cl_waitForAck_ack [of ?v bs s rest h n] assms(1,4) e by simp
  then have "cl_send_loop (Suc 9) (make_data_packet n fin 1 d) n s w = Some (True, ?v\<lparr>inbox := rest\<rparr>)"
    using assms(1-3) by (simp only: cl_send_loop.simps) (simp add: isAbortRequested_none cl_sendRawPacket_data sendto_def)
  then have "cl_send_loop MAX_RETRIES (make_data_packet n fin 1 d) n s w = Some (True, ?v\<lparr>inbox := rest\<rparr>)"
    by (simp add: MAX_RETRIES_def)
  with assms(1,3) show ?thesis by (simp add: cl_send_op_def cl_sendChunk_def isAbortRequested_none)
qed

context file_sender
begin

lemma send_loop_acked:
  assumes "at_chunk bs k current r" "aborts w = []" "sendOk w = []"
    "length evs = chunk_count bs - k" "\<And>i. i < length evs \<Longrightarrow> is_ack_event (cs_destAddr s) (of_nat (k + i)) (evs ! i)"
    "inbox w = evs @ rest"
  shows "send_loop nextChunk cl_send_op b (of_nat k) current r s w =
    Some (True, s, w\<lparr>inbox := rest,
      outbox := outbox w @ map (\<lambda>j. (chunk_packet bs j, cs_destAddr s)) [k..<chunk_count bs]\<rparr>)"
  using assms
proof (induction "length (content r)" arbitrary: k current r w evs rule: less_induct)
  case less
  note eq = send_loop.simps [of nextChunk cl_send_op b "of_nat k" current r s w]
  have k: "MAX_PAYLOAD * k < length bs" "current = take MAX_PAYLOAD (drop (MAX_PAYLOAD * k) bs)"
    "content r = drop (MAX_PAYLOAD * (k + 1)) bs" using less.prems(1) by (simp_all add: at_chunk_def)
  then have last: "k < chunk_count bs" "nextChunk r = None \<longleftrightarrow> k + 1 = chunk_count bs"
    using chunk_count_last [OF k(1)] by (auto simp: next_None)
  then obtain e evs' where evs: "evs = e # evs'" using less.prems(4) by (cases evs) auto
  have ack: "is_ack_event (cs_destAddr s) (of_nat k) e" using less.prems(5) [of 0] evs by simp
  let ?w = "w\<lparr>inbox := evs' @ rest, outbox := outbox w @ [(chunk_packet bs k, cs_destAddr s)]\<rparr>"
  have sd: "cl_send_op (of_nat k) current (nextChunk r = None) s w = Some (True, s, ?w)"
    using cl_send_op_ack [of w current e "evs' @ rest" s "of_nat k" "nextChunk r = None"] less.prems(2,3,6) evs ack k(2) last(2)
    by (simp add: chunk_packet_def)
  show ?case
  proof (cases "nextChunk r")
    case None
    with last(2) have one: "chunk_count bs = Suc k" by simp
    then have "evs' = []" using less.prems(4) evs by simp
    with None sd one less.prems(2) show ?thesis by (simp add: eq isAbortRequested_none)
  next
    case (Some p)
    obtain nxt r1 where p: "nextChunk r = Some (nxt, r1)" using Some by (cases p) auto
    have ih: "send_loop nextChunk cl_send_op b (of_nat (k + 1)) nxt r1 s ?w =
      Some (True, s, ?w\<lparr>inbox := rest,
        outbox := outbox ?w @ map (\<lambda>j. (chunk_packet bs j, cs_destAddr s)) [k + 1..<chunk_count bs]\<rparr>)"
    proof (rule less.hyps [OF next_less [OF p] at_chunk_next [OF less.prems(1) p]])
      show "is_ack_event (cs_destAddr s) (of_nat (k + 1 + i)) (evs' ! i)" if "i < length evs'" for i
        using less.prems(5) [of "Suc i"] evs that by (simp add: add.commute)
    qed (use less.prems evs in simp_all)
    have "[k..<chunk_count bs] = k # [k + 1..<chunk_count bs]" using last(1) by (simp add: upt_conv_Cons)
    with ih p sd less.prems(2) show ?thesis by (simp add: eq isAbortRequested_none add.commute)
  qed
qed

lemma sendFromReader_acked:
  assumes "aborts w = []" "sendOk w = []" "length evs = chunk_count (content r)"
    "\<And>i. i < length evs \<Longrightarrow> is_ack_event (cs_destAddr s) (of_nat i) (evs ! i)" "inbox w = evs @ rest"
  shows "sendFromReader nextChunk cl_send_op cl_flush True b r s w =
    Some (True, s, w\<lparr>inbox := rest,
      outbox := outbox w @ map (\<lambda>j. (chunk_packet (content r) j, cs_destAddr s)) [0..<chunk_count (content r)]\<rparr>)"
proof (cases "nextChunk r")
  case None
  then have c: "content r = []" by (simp add: next_None)
  then have one: "chunk_count (content r) = 1" by (simp add: chunk_count_def MAX_PAYLOAD_def)
  then obtain e where evs: "evs = [e]" using assms(3) by (cases evs) auto
  have "cl_send_op 0 [] True s w =
      Some (True, s, w\<lparr>inbox := rest, outbox := outbox w @ [(chunk_packet (content r) 0, cs_destAddr s)]\<rparr>)"
    using cl_send_op_ack [of w "[]" e rest s 0 True] assms(1,2,5) assms(4) [of 0] evs c one by (simp add: chunk_packet_def)
  with None assms(1) one show ?thesis
    by (simp add: sendFromReader_def isAbortRequested_none cl_flush_def)
next
  case (Some p)
  obtain current r1 where p: "nextChunk r = Some (current, r1)" using Some by (cases p) auto
  have at: "at_chunk (content r) 0 current r1" using next_Some [OF p] by (simp add: at_chunk_def)
  from send_loop_acked [OF at assms(1,2), of evs s rest b] assms(3-5) p assms(1) show ?thesis
    by (simp add: sendFromReader_def isAbortRequested_none cl_flush_def)
qed

end

section \<open>Properties\<close>

text \<open>The server's sender is constructed in order for every stream.\<close>

lemma sv_sender_init_inv: "sender_inv f (sv_sender_init ok dest t)"
  by (auto simp: sender_inv_def sv_sender_init_def Let_def clamp_def MIN_TIMEOUT_MS_def MAX_TIMEOUT_MS_def
      INITIAL_CWND_def)

text \<open>
  A download the server reports as sent was acknowledged whole. Whatever the network does, the
  datagrams \<^verbatim>\<open>sendFile\<close> sends are packets of the stream of the file (translated, in ASCII mode), to the
  data peer; the files of the server do not change; and when the result is a success, every chunk up
  to the final one was acknowledged, and in binary mode the hash is the hash of the file.
\<close>

theorem sv_sendFile_delivers:
  assumes "sv_sendFile hashFile b path mode s w F = Some (res, s', w', F')"
    and "files F path = Some bs" "fits (wire_content mode bs)"
    and "s = (sv_sender_init True dest t)\<lparr>ss_abortInstalled := i\<rparr>"
    and "acks_honest A dest (inbox w)"
  shows "sends_stream (file_stream (wire_content mode bs)) dest w w' \<and>
    (\<forall>p. p \<in> set (tmpNames F) \<or> files F' p = files F p) \<and>
    (success res \<longrightarrow>
      (\<forall>j. file_stream (wire_content mode bs) j = None \<or> A (of_nat j)) \<and>
      sha256 res = (case mode of Binary \<Rightarrow> hashFile bs | ASCII \<Rightarrow> []))"
proof -
  have inv: "sender_inv (file_stream (wire_content mode bs)) s"
    using assms(4) sv_sender_init_inv [of _ True dest t] by (simp add: sender_inv_def)
  have "destAddr s = dest" using assms(4) by (simp add: sv_sender_init_def Let_def)
  with sv_snd.send_file_outcome [OF assms(1) [unfolded sv_sendFile_def] assms(2,3) inv, of A]
    send_file_files [OF assms(1) [unfolded sv_sendFile_def]] assms(5) show ?thesis
    unfolding sv_snd.frame_def by blast
qed

text \<open>
  An upload the client reports as sent was acknowledged whole, and what it sends are packets of
  the stream of the file.
\<close>

theorem cl_sendFile_delivers:
  assumes "cl_sendFile hashFile b path mode s w F = Some (res, s', w', F')"
    and "files F path = Some bs" "fits (wire_content mode bs)"
    and "acks_honest A (cs_destAddr s) (inbox w)"
  shows "sends_stream (file_stream (wire_content mode bs)) (cs_destAddr s) w w' \<and>
    (\<forall>p. p \<in> set (tmpNames F) \<or> files F' p = files F p) \<and>
    (success res \<longrightarrow>
      (\<forall>j. file_stream (wire_content mode bs) j = None \<or> A (of_nat j)) \<and>
      sha256 res = (case mode of Binary \<Rightarrow> hashFile bs | ASCII \<Rightarrow> []))"
  using cl_snd.send_file_outcome [OF assms(1) [unfolded cl_sendFile_def] assms(2,3) TrueI, of A]
    send_file_files [OF assms(1) [unfolded cl_sendFile_def]] assms(4)
  unfolding cl_snd.frame_def by blast

lemma snapshot_undisturbed:
  assumes "fsOk F = []" "tmpNames F = tmp # ts" "files F path = Some bs"
  shows "source_snapshot path F =
    (Some tmp, F\<lparr>tmpNames := ts, files := (files F)(tmp \<mapsto> bs)\<rparr>)"
  using assms by (simp add: source_snapshot_def fs_try_def GetTempFileName_def)

text \<open>
  An upload over a network that answers comes through. If the snapshot can be made and hashed,
  nobody aborts and the peer acknowledges each chunk in turn, \<^verbatim>\<open>sendFile\<close> returns a success after
  sending each chunk of the file exactly once, in order, the last one marked final, and leaves the
  source as it was.
\<close>

theorem cl_sendFile_succeeds:
  assumes "aborts w = []" "sendOk w = []" "fsOk F = []" "tmpNames F = tmp # ts" "tmp \<noteq> path"
    and "files F path = Some bs" "mode = Binary \<Longrightarrow> hashFile bs \<noteq> []"
    and "length evs = chunk_count (wire_content mode bs)" "inbox w = evs @ rest"
    and "\<And>i. i < length evs \<Longrightarrow> is_ack_event (cs_destAddr s) (of_nat i) (evs ! i)"
  shows "\<exists>w' F'. cl_sendFile hashFile b path mode s w F =
      Some (\<lparr>success = True, sha256 = (case mode of Binary \<Rightarrow> hashFile bs | ASCII \<Rightarrow> [])\<rparr>, s, w', F') \<and>
    outbox w' = outbox w @ map (\<lambda>j. (chunk_packet (wire_content mode bs) j, cs_destAddr s))
      [0..<chunk_count (wire_content mode bs)] \<and> files F' path = Some bs"
proof -
  let ?F = "F\<lparr>tmpNames := ts, files := (files F)(tmp \<mapsto> bs)\<rparr>"
  note snap = snapshot_undisturbed [OF assms(3,4,6)]
  have t: "files ?F tmp = Some bs" by simp
  have keep: "files (fs_remove tmp ?F) path = Some bs"
    using assms(5,6) fs_remove_files [of tmp ?F] by (simp add: same_except_def)
  note open_defs = open_reader_def open_ascii_reader_def
  show ?thesis
  proof (cases mode)
    case Binary
    with cl_snd.bin.sendFromReader_acked [OF assms(1,2), of evs "open_reader tmp ?F" s rest b,
        unfolded open_reader_content [OF t]] assms(7-10) snap keep show ?thesis
      by (simp add: cl_sendFile_def send_file_over_def wire_content_def open_reader_def)
  next
    case ASCII
    with cl_snd.asc.sendFromReader_acked [OF assms(1,2), of evs "open_ascii_reader tmp ?F" s rest b,
        unfolded open_ascii_reader_content [OF t]] assms(7-10) snap keep show ?thesis
      by (simp add: cl_sendFile_def send_file_over_def wire_content_def open_defs)
  qed
qed

section \<open>Instances\<close>

definition sample_disk :: fsys where
  "sample_disk = \<lparr>files = [''a'' \<mapsto> [65]], fsOk = [], tmpNames = [''t'', ''u''], lastError = ([], [])\<rparr>"

lemma sample_disk_simps [simp]:
  "files sample_disk ''a'' = Some [65]" "fsOk sample_disk = []" "tmpNames sample_disk = [''t'', ''u'']"
  by (simp_all add: sample_disk_def)

lemma sample_file_stream: "file_stream [65] = sample_stream"
  by (auto simp: file_stream_def sample_stream_def MAX_PAYLOAD_def)

lemma cl_sample_sendFile:
  "\<exists>w' F'. cl_sendFile (\<lambda>bs. ''h'') True ''a'' Binary cl_sample_sender
      (idle_world [Received sample_ack sample_peer]) sample_disk =
      Some (\<lparr>success = True, sha256 = ''h''\<rparr>, cl_sample_sender, w', F') \<and>
    outbox w' = [(chunk_packet [65] 0, sample_peer)]"
proof -
  let ?w = "idle_world [Received sample_ack sample_peer]"
  let ?F = "sample_disk\<lparr>tmpNames := [''u''], files := (files sample_disk)(''t'' \<mapsto> [65])\<rparr>"
  have t: "files ?F ''t'' = Some [65]" by simp
  have one: "chunk_count [65] = 1" by (simp add: chunk_count_def MAX_PAYLOAD_def)
  have "is_ack_event (cs_destAddr cl_sample_sender) 0 (Received sample_ack sample_peer)"
    using sample_ack_decode by (auto simp: is_ack_event_def cl_sample_sender_def cl_sender_init_def)
  with cl_snd.bin.sendFromReader_acked [of ?w "[Received sample_ack sample_peer]" "open_reader ''t'' ?F"
      cl_sample_sender "[]" True, unfolded open_reader_content [OF t]] one
    snapshot_undisturbed [of sample_disk "''t''" "[''u'']" "''a''" "[65]"]
  show ?thesis by (simp add: cl_sendFile_def send_file_over_def idle_world_def open_reader_def
      cl_sample_sender_def cl_sender_init_def)
qed

theorem cl_sendFile_succeeds_witness:
  "\<exists>w' F'. cl_sendFile (\<lambda>bs. ''h'') True ''a'' Binary cl_sample_sender
      (idle_world [Received sample_ack sample_peer]) sample_disk =
      Some (\<lparr>success = True, sha256 = ''h''\<rparr>, cl_sample_sender, w', F') \<and>
    outbox w' = [(chunk_packet [65] 0, sample_peer)] \<and> files F' ''a'' = Some [65]"
proof -
  let ?w = "idle_world [Received sample_ack sample_peer]"
  have one: "chunk_count (wire_content Binary [65]) = 1"
    by (simp add: chunk_count_def wire_content_def MAX_PAYLOAD_def)
  have dest: "cs_destAddr cl_sample_sender = sample_peer" by (simp add: cl_sample_sender_def cl_sender_init_def)
  have "is_ack_event (cs_destAddr cl_sample_sender) 0 (Received sample_ack sample_peer)"
    using sample_ack_decode by (auto simp: is_ack_event_def dest)
  then show ?thesis
    using cl_sendFile_succeeds [of ?w sample_disk "''t''" "[''u'']" "''a''" "[65]" Binary "\<lambda>bs. ''h''"
        "[Received sample_ack sample_peer]" "[]" cl_sample_sender True] one
    by (simp add: idle_world_def dest wire_content_def)
qed

theorem cl_sendFile_delivers_witness:
  "\<exists>res s' w' F'. cl_sendFile (\<lambda>bs. ''h'') True ''a'' Binary cl_sample_sender
      (idle_world [Received sample_ack sample_peer]) sample_disk = Some (res, s', w', F') \<and> success res \<and>
    sends_stream sample_stream sample_peer (idle_world [Received sample_ack sample_peer]) w'"
proof -
  let ?w = "idle_world [Received sample_ack sample_peer]"
  obtain w' F' where run: "cl_sendFile (\<lambda>bs. ''h'') True ''a'' Binary cl_sample_sender ?w sample_disk =
      Some (\<lparr>success = True, sha256 = ''h''\<rparr>, cl_sample_sender, w', F')"
    using cl_sample_sendFile by blast
  have dest: "cs_destAddr cl_sample_sender = sample_peer" by (simp add: cl_sample_sender_def cl_sender_init_def)
  have "acks_honest (\<lambda>n. True) (cs_destAddr cl_sample_sender) (inbox ?w)" by (simp add: acks_honest_def)
  from cl_sendFile_delivers [OF run _ _ this, of "[65]"] run show ?thesis
    by (simp add: dest wire_content_def sample_file_stream fits_def MAX_PAYLOAD_def)
qed

lemma sv_sample_sends:
  assumes "fsOk F = []" "tmpNames F = t # ts" "files F p = Some [65]" "hash [65] \<noteq> []"
  shows "\<exists>s' w' F'. sv_sendFile hash b p Binary sv_sample_sender (idle_world sv_sample_events) F =
      Some (\<lparr>success = True, sha256 = hash [65]\<rparr>, s', w', F') \<and> outbox w' = [(data_bytes 0 True 4 [65], sample_peer)]"
proof -
  let ?F = "F\<lparr>tmpNames := ts, files := (files F)(t \<mapsto> [65])\<rparr>"
  obtain s2 w2 where fl: "sv_flush sv_sample_queued sv_sample_sent = Some (True, s2, w2)"
    and out: "outbox w2 = [(data_bytes 0 True 4 [65], sample_peer)]" "aborts w2 = []" using sv_sample_flush by blast
  have calm: "aborts (idle_world evs) = []" "aborts sv_sample_sent = []" for evs by (simp_all add: idle_world_def sv_sample_sent_def)
  have rd: "reader_nextChunk (open_reader t ?F) = Some ([65], \<lparr>streamOpen = True, streamRest = []\<rparr>)"
    "reader_nextChunk \<lparr>streamOpen = True, streamRest = []\<rparr> = None"
    by (simp_all add: reader_nextChunk_def open_reader_def CHUNK_SIZE_def MAX_PAYLOAD_def)
  have "send_loop reader_nextChunk sv_sendChunk b 0 [65] \<lparr>streamOpen = True, streamRest = []\<rparr>
      sv_sample_sender (idle_world sv_sample_events) = Some (True, sv_sample_queued, sv_sample_sent)"
    using rd(2) sv_sample_sendChunk calm by (simp add: send_loop.simps isAbortRequested_none)
  then have "sv_sendFile hash b p Binary sv_sample_sender (idle_world sv_sample_events) F =
      Some (\<lparr>success = True, sha256 = hash [65]\<rparr>, s2, w2, fs_remove t ?F)"
    using rd(1) fl calm out(2) assms(4) snapshot_undisturbed [OF assms(1-3)]
    by (simp add: sv_sendFile_def send_file_over_def sendFromReader_def isAbortRequested_none open_reader_def)
  with out show ?thesis by blast
qed

lemma sv_sample_sendFile:
  "\<exists>s' w' F'. sv_sendFile (\<lambda>bs. ''h'') False ''a'' Binary sv_sample_sender (idle_world sv_sample_events) sample_disk =
      Some (\<lparr>success = True, sha256 = ''h''\<rparr>, s', w', F') \<and> outbox w' = [(data_bytes 0 True 4 [65], sample_peer)]"
  by (rule sv_sample_sends [of _ "''t''" "[''u'']"]) simp_all

theorem sv_sendFile_delivers_witness:
  "\<exists>res s' w' F'. sv_sendFile (\<lambda>bs. ''h'') False ''a'' Binary sv_sample_sender
      (idle_world sv_sample_events) sample_disk = Some (res, s', w', F') \<and> success res \<and>
    sends_stream sample_stream sample_peer (idle_world sv_sample_events) w'"
proof -
  obtain s' w' F' where run: "sv_sendFile (\<lambda>bs. ''h'') False ''a'' Binary sv_sample_sender
      (idle_world sv_sample_events) sample_disk = Some (\<lparr>success = True, sha256 = ''h''\<rparr>, s', w', F')"
    using sv_sample_sendFile by blast
  have s: "sv_sample_sender = (sv_sender_init True sample_peer 500)\<lparr>ss_abortInstalled := True\<rparr>"
    by (simp add: sv_sample_sender_def sv_sender_init_def Let_def)
  have "acks_honest (\<lambda>n. True) sample_peer (inbox (idle_world sv_sample_events))" by (simp add: acks_honest_def)
  from sv_sendFile_delivers [OF run _ _ s this, of "[65]"] run show ?thesis
    by (simp add: wire_content_def sample_file_stream fits_def MAX_PAYLOAD_def)
qed

end
