(* ===== verification/Server_Receiver.thy ===== *)
theory Server_Receiver
  imports Receiver_State
begin

unbundle bit_operations_syntax

text \<open>
  The server's selective-repeat receiver, \<^verbatim>\<open>server/src/rdt/RdtReceiver.cpp\<close>: construction, the
  active-mode handshake, acknowledgements and \<^verbatim>\<open>receiveNext\<close> with its receive loop.
\<close>

section \<open>Construction and options\<close>

definition receiverIdleTimeout :: nat where
  "receiverIdleTimeout = DATA_IDLE_TIMEOUT_MS"

definition fresh_receiver :: "bool \<Rightarrow> receiver" where
  "fresh_receiver ok =
     \<lparr>udpSocketOk = ok, outOfOrderBuffer = Map.empty, expected_seq = 0, peerAddr = zero_addr,
      peerKnown = False, pendingDatagram = [], pendingFrom = zero_addr, abortInstalled = False,
      rcvTimeout = 0\<rparr>"

definition sv_applyDataTimeout :: "receiver \<Rightarrow> receiver" where
  "sv_applyDataTimeout r =
     (if \<not> udpSocketOk r then r
      else r\<lparr>rcvTimeout := (if abortInstalled r then ABORT_POLL_TIMEOUT_MS else receiverIdleTimeout)\<rparr>)"

definition sv_setAbortPredicate :: "bool \<Rightarrow> receiver \<Rightarrow> receiver" where
  "sv_setAbortPredicate installed r =
     (let r1 = r\<lparr>abortInstalled := installed\<rparr>
      in if udpSocketOk r1 then sv_applyDataTimeout r1 else r1)"

text \<open>\<^verbatim>\<open>RdtReceiver(uint16_t listenPort)\<close>: socket, receive timeout, bind; any failure closes it.\<close>

definition sv_RdtReceiver_listen :: "world \<Rightarrow> receiver \<times> world" where
  "sv_RdtReceiver_listen w =
     (let (created, w1) = syscall w
      in if \<not> created then (fresh_receiver False, w1)
         else let (optOk, w2) = syscall w1
           in if \<not> optOk then (fresh_receiver False, w2)
              else let (bound, w3) = syscall w2
                in if \<not> bound then ((fresh_receiver False)\<lparr>rcvTimeout := receiverIdleTimeout\<rparr>, w3)
                   else ((fresh_receiver True)\<lparr>rcvTimeout := receiverIdleTimeout\<rparr>, w3))"

text \<open>\<^verbatim>\<open>RdtReceiver(SOCKET existingSocket)\<close>: takes over the socket of PASV.\<close>

definition sv_RdtReceiver_existing :: "bool \<Rightarrow> world \<Rightarrow> receiver \<times> world" where
  "sv_RdtReceiver_existing existing w =
     (if \<not> existing then (fresh_receiver False, w)
      else let (optOk, w1) = syscall w
        in if \<not> optOk then (fresh_receiver False, w1)
           else ((fresh_receiver True)\<lparr>rcvTimeout := receiverIdleTimeout\<rparr>, w1))"

section \<open>Acknowledgements\<close>

definition sv_ack_header :: "u32 \<Rightarrow> RdtHeader" where
  "sv_ack_header n =
     zero_header\<lparr>seq_num := 0, ack_num := n, flags := FLAG_ACK,
       window_size := of_nat RDT_RECEIVE_WINDOW, payload_len := 0, reserved := 0, checksum := 0\<rparr>"

text \<open>The result of the \<^verbatim>\<open>sendto\<close> is not looked at.\<close>

definition sv_sendAck :: "u32 \<Rightarrow> sockaddr_in \<Rightarrow> world \<Rightarrow> world" where
  "sv_sendAck n clientAddr w = snd (sendto (seal_control (sv_ack_header n)) clientAddr w)"

section \<open>The active-mode handshake\<close>

definition sv_syn_header :: RdtHeader where
  "sv_syn_header = zero_header\<lparr>seq_num := 0, flags := FLAG_SYN, window_size := 1\<rparr>"

text \<open>
  The retry loop; the first argument counts the attempts left. Every \<^verbatim>\<open>continue\<close> of the source
  uses up an attempt.
\<close>

fun sv_handshake_loop :: "nat \<Rightarrow> bytes \<Rightarrow> receiver \<Rightarrow> world \<Rightarrow> (bool \<times> receiver \<times> world) option" where
  "sv_handshake_loop 0 synBuffer r w = Some (False, sv_applyDataTimeout r, w)"
| "sv_handshake_loop (Suc n) synBuffer r w =
     (let (ab, w1) = isAbortRequested (abortInstalled r) w
      in if ab then Some (False, r, w1)
         else let (sent, w2) = sendto synBuffer (peerAddr r) w1
           in if \<not> sent then Some (False, r, w2)
              else case recvfrom w2 of
                  None \<Rightarrow> None
                | Some (RecvTimeout, w3) \<Rightarrow>
                    (let (ab2, w4) = isAbortRequested (abortInstalled r) w3
                     in if ab2 then Some (False, r, w4) else sv_handshake_loop n synBuffer r w4)
                | Some (RecvError e, w3) \<Rightarrow>
                    (let (ab2, w4) = isAbortRequested (abortInstalled r) w3
                     in Some (False, r, w4))
                | Some (Received bs from, w3) \<Rightarrow>
                    (if \<not> sameEndpoint from (peerAddr r) then sv_handshake_loop n synBuffer r w3
                     else case decodeValidatedDatagram bs of
                         None \<Rightarrow> sv_handshake_loop n synBuffer r w3
                       | Some h \<Rightarrow>
                           if has_flag h FLAG_ACK \<and> \<not> has_flag h FLAG_DATA \<and>
                              payload_len h = 0 \<and> ack_num h = seq_num sv_syn_header
                           then Some (True, sv_applyDataTimeout r, w3)
                           else if has_flag h FLAG_DATA
                           then Some (True, sv_applyDataTimeout
                                  (r\<lparr>pendingDatagram := bs, pendingFrom := from\<rparr>), w3)
                           else sv_handshake_loop n synBuffer r w3))"

definition sv_initiateActiveHandshake ::
  "sockaddr_in \<Rightarrow> receiver \<Rightarrow> world \<Rightarrow> (bool \<times> receiver \<times> world) option" where
  "sv_initiateActiveHandshake expectedPeer r w =
     (if \<not> udpSocketOk r then Some (False, r, w)
      else let (ab, w1) = isAbortRequested (abortInstalled r) w
        in if ab then Some (False, r, w1)
           else sv_handshake_loop HANDSHAKE_MAX_RETRIES (seal_control sv_syn_header)
                  (r\<lparr>peerAddr := expectedPeer, peerKnown := True,
                     rcvTimeout := HANDSHAKE_TIMEOUT_MS\<rparr>) w1)"

section \<open>Receiving\<close>

text \<open>
  The body of the receive loop once a datagram is there: \<open>Stop\<close> with the chunk to return, or
  \<open>Again\<close> where the source continues the loop.
\<close>

definition sv_handle_datagram :: "receiver handler" where
  "sv_handle_datagram recvBuf clientAddr r w =
     (case decodeValidatedDatagram recvBuf of
        None \<Rightarrow> Again r w
      | Some h \<Rightarrow>
          if \<not> has_flag h FLAG_DATA then Again r w
          else if peerKnown r \<and> \<not> sameEndpoint clientAddr (peerAddr r) then Again r w
          else let r1 = learn_peer clientAddr r
            in if seq_num h < expected_seq r1
               then Again r1 (sv_sendAck (seq_num h) clientAddr w)
               else if unat (seq_num h) \<ge> unat (expected_seq r1) + RDT_RECEIVE_WINDOW
               then Again r1 w
               else let w1 = sv_sendAck (seq_num h) clientAddr w;
                        data = datagram_payload h recvBuf;
                        isFin = has_flag h FLAG_FIN
                 in if seq_num h = expected_seq r1
                    then Stop (Some (seq_num h, data, isFin))
                           (r1\<lparr>expected_seq := expected_seq r1 + 1\<rparr>) w1
                    else if outOfOrderBuffer r1 (seq_num h) = None
                    then Again (r1\<lparr>outOfOrderBuffer :=
                            (outOfOrderBuffer r1)(seq_num h \<mapsto> (data, isFin))\<rparr>) w1
                    else Again r1 w1)"

lemma sv_sendAck_frame [world_simps]:
  "inbox (sv_sendAck n a w) = inbox w"
  "aborts (sv_sendAck n a w) = aborts w"
  by (simp_all add: sv_sendAck_def world_simps)

lemma sv_handle_Again_frame:
  "sv_handle_datagram bs a r w = Again r' w' \<Longrightarrow>
   inbox w' = inbox w \<and> pendingDatagram r' = pendingDatagram r"
  by (auto simp: sv_handle_datagram_def Let_def world_simps split: option.splits if_splits)

text \<open>\<^verbatim>\<open>while (true)\<close>; \<open>None\<close>: the call is still waiting when the script ends.\<close>

function sv_receive_loop ::
  "nat \<Rightarrow> receiver \<Rightarrow> world \<Rightarrow> (chunk option \<times> receiver \<times> world) option" where
  "sv_receive_loop idleDeadline r w =
     (case receive_round sv_handle_datagram idleDeadline r w of
        Waiting \<Rightarrow> None
      | Stop c r' w' \<Rightarrow> Some (c, r', w')
      | Again r' w' \<Rightarrow> sv_receive_loop idleDeadline r' w')"
  by pat_completeness auto
termination
  by (relation "measure (\<lambda>(d, r, w). receive_measure r w)")
    (auto dest!: receive_round_less [OF _ sv_handle_Again_frame])

declare sv_receive_loop.simps [simp del]

definition sv_receiveNext :: "receiver \<Rightarrow> world \<Rightarrow> (chunk option \<times> receiver \<times> world) option" where
  "sv_receiveNext = receive_next receiverIdleTimeout sv_receive_loop"

text \<open>A receiver sends no chunks, and has nothing to flush.\<close>

definition sv_receiver_sendChunk :: "u32 \<Rightarrow> bytes \<Rightarrow> bool \<Rightarrow> receiver \<Rightarrow> bool \<times> receiver" where
  "sv_receiver_sendChunk seqNum data isFinal r = (False, r)"

section \<open>The outcomes of one datagram\<close>

abbreviation sv_ack :: "u32 \<Rightarrow> bytes" where
  "sv_ack n \<equiv> seal_control (sv_ack_header n)"

lemma outbox_sv_sendAck:
  "outbox (sv_sendAck n a w) = outbox w \<or> outbox (sv_sendAck n a w) = outbox w @ [(sv_ack n, a)]"
  by (simp add: sv_sendAck_def outbox_sendto)

lemma sv_handle_AgainE:
  assumes "sv_handle_datagram bs a r w = Again r' w'"
  obtains
    (ignored) "r' = r" "w' = w"
  | (duplicate) s where "holds r s" "r' = learn_peer a r"
      "w' = sv_sendAck s a w" "peerKnown r \<longrightarrow> a = peerAddr r"
  | (too_far) "r' = learn_peer a r" "w' = w" "peerKnown r \<longrightarrow> a = peerAddr r"
  | (buffered) h where "decodeValidatedDatagram bs = Some h" "has_flag h FLAG_DATA"
      "peerKnown r \<longrightarrow> a = peerAddr r"
      "unat (expected_seq r) < unat (seq_num h)"
      "unat (seq_num h) < unat (expected_seq r) + RDT_RECEIVE_WINDOW"
      "r' = (learn_peer a r)\<lparr>outOfOrderBuffer :=
             (outOfOrderBuffer r)(seq_num h \<mapsto> (datagram_payload h bs, has_flag h FLAG_FIN))\<rparr>"
      "w' = sv_sendAck (seq_num h) a w"
proof (cases "\<exists>h. decodeValidatedDatagram bs = Some h \<and> has_flag h FLAG_DATA \<and>
    (peerKnown r \<longrightarrow> a = peerAddr r)")
  case False
  with assms have "r' = r \<and> w' = w"
    by (auto simp: sv_handle_datagram_def Let_def split: option.splits if_splits)
  with ignored show thesis by simp
next
  case True
  then obtain h where h: "decodeValidatedDatagram bs = Some h" "has_flag h FLAG_DATA"
    "peerKnown r \<longrightarrow> a = peerAddr r" by blast
  then have peer: "\<not> (peerKnown r \<and> a \<noteq> peerAddr r)" by simp
  let ?s = "seq_num h"
  note eq = sv_handle_datagram_def Let_def
  consider (old) "?s < expected_seq r \<or> outOfOrderBuffer r ?s \<noteq> None"
    | (far) "unat (expected_seq r) + RDT_RECEIVE_WINDOW \<le> unat ?s"
    | (exp) "?s = expected_seq r"
    | (new) "unat (expected_seq r) < unat ?s" "unat ?s < unat (expected_seq r) + RDT_RECEIVE_WINDOW"
        "outOfOrderBuffer r ?s = None"
    by (metis not_le word_less_nat_alt word_unat_eq_iff linorder_neqE_nat)
  then show thesis
  proof cases
    case old
    then have "holds r ?s" by (auto simp: holds_def word_less_nat_alt)
    with old assms h show ?thesis
      using duplicate [of ?s] too_far by (auto simp: eq split: if_splits)
  next
    case far
    then have "\<not> ?s < expected_seq r" by (simp add: word_less_nat_alt)
    with far assms h peer too_far show ?thesis by (simp add: eq)
  next
    case exp
    with assms h peer show ?thesis by (simp add: eq RDT_RECEIVE_WINDOW_def)
  next
    case new
    then have "\<not> ?s < expected_seq r" "?s \<noteq> expected_seq r" by (auto simp: word_less_nat_alt)
    with new assms h peer buffered [of h] show ?thesis by (simp add: eq)
  qed
qed

lemma sv_handle_StopE:
  assumes "sv_handle_datagram bs a r w = Stop c r' w'"
  obtains h where "decodeValidatedDatagram bs = Some h" "has_flag h FLAG_DATA"
    "peerKnown r \<longrightarrow> a = peerAddr r" "seq_num h = expected_seq r"
    "c = Some (seq_num h, datagram_payload h bs, has_flag h FLAG_FIN)"
    "r' = (learn_peer a r)\<lparr>expected_seq := expected_seq r + 1\<rparr>"
    "w' = sv_sendAck (seq_num h) a w"
  using assms that
  by (simp add: sv_handle_datagram_def Let_def split: option.splits if_splits)

lemma carries_streamD:
  "carries_stream f bs \<Longrightarrow> decodeValidatedDatagram bs = Some h \<Longrightarrow> has_flag h FLAG_DATA \<Longrightarrow>
   f (unat (seq_num h)) = Some (datagram_payload h bs, has_flag h FLAG_FIN)"
  by (simp add: carries_stream_def)

lemma sv_ack_sound:
  assumes "holds r' s" and "\<forall>s. holds r s \<longrightarrow> holds r' s"
  shows "acks_sound sv_ack r w r' (sv_sendAck s a w)"
  using assms outbox_sv_sendAck [of s a w] by (auto simp: acks_sound_def acks_held_def)

lemma sv_handle_Again_acks:
  assumes "sv_handle_datagram bs a r w = Again r' w'"
  shows "acks_sound sv_ack r w r' w'"
  using assms
proof (cases rule: sv_handle_AgainE)
  case (duplicate s)
  then show ?thesis by (simp add: sv_ack_sound)
next
  case (buffered h)
  then have "holds r' (seq_num h)" "\<forall>s. holds r s \<longrightarrow> holds r' s" by (auto simp: holds_def)
  with buffered(7) show ?thesis by (simp add: sv_ack_sound)
qed (simp_all add: acks_sound_refl)

lemma sv_handle_Stop_acks:
  assumes "sv_handle_datagram bs a r w = Stop c r' w'" and "unat (expected_seq r) < 2 ^ 32 - 1"
  shows "acks_sound sv_ack r w r' w'"
  using assms(1)
proof (cases rule: sv_handle_StopE)
  case (1 h)
  with assms(2) have "holds r' (seq_num h)" "\<forall>s. holds r s \<longrightarrow> holds r' s"
    using holds_advance [of "learn_peer a r"] by auto
  with 1 show ?thesis by (simp add: sv_ack_sound)
qed

lemma sv_handle_Again_stream:
  assumes "sv_handle_datagram bs a r w = Again r' w'" and "stream_inv f r evs"
    and "(peerKnown r \<longrightarrow> a = peerAddr r) \<longrightarrow> carries_stream f bs"
  shows "stream_inv f r' evs"
  using assms(1)
proof (cases rule: sv_handle_AgainE)
  case (buffered h)
  with carries_streamD [of f bs h] assms(3) stream_inv_learn [OF assms(2), of a]
    stream_inv_buffer [of f "learn_peer a r"] show ?thesis by simp
qed (use assms(2) stream_inv_learn [OF assms(2), of a] in simp_all)

lemma sv_handle_Stop_stream:
  assumes "sv_handle_datagram bs a r w = Stop c r' w'" and "stream_inv f r evs"
    and "(peerKnown r \<longrightarrow> a = peerAddr r) \<longrightarrow> carries_stream f bs"
  shows "stream_inv f r' evs \<and> delivered f (expected_seq r) c (expected_seq r')"
  using assms(1)
proof (cases rule: sv_handle_StopE)
  case (1 h)
  with carries_streamD [of f bs h] assms(3) stream_inv_learn [OF assms(2), of a] show ?thesis
    by (simp add: delivered_def)
qed

lemma sv_handle_Again_window:
  assumes "sv_handle_datagram bs a r w = Again r' w'" and "buffer_in_window 1 r"
  shows "buffer_in_window 1 r'"
  using assms(1)
proof (cases rule: sv_handle_AgainE)
  case (buffered h)
  with assms(2) buffer_in_window_insert [of "learn_peer a r"] show ?thesis by simp
qed (use assms(2) in simp_all)

lemma sv_handle_Stop_window:
  assumes "sv_handle_datagram bs a r w = Stop c r' w'" and "buffer_in_window 1 r"
  shows "buffer_in_window 0 r'"
  using assms(1)
proof (cases rule: sv_handle_StopE)
  case (1 h)
  with assms(2) buffer_in_window_advance [of "learn_peer a r"] show ?thesis by simp
qed

text \<open>Handling a datagram either goes on, with the same peer and number, or returns a chunk.\<close>

lemma sv_handle_Again_peer:
  assumes "sv_handle_datagram bs a r w = Again r' w'" and "peerKnown r" and "sendOk w = []"
  shows "peerKnown r' \<and> peerAddr r' = peerAddr r \<and> expected_seq r' = expected_seq r \<and>
    sendOk w' = [] \<and> aborts w' = aborts w"
  using assms
  by (elim sv_handle_AgainE) (auto simp: learn_peer_def sv_sendAck_def sendto_def)

lemma sv_handle_total:
  obtains (again) r' w' where "sv_handle_datagram bs a r w = Again r' w'"
  | (stop) c r' w' where "sv_handle_datagram bs a r w = Stop (Some c) r' w'"
proof (cases "sv_handle_datagram bs a r w")
  case Waiting
  then show thesis by (auto simp: sv_handle_datagram_def Let_def split: option.splits if_splits)
next
  case (Stop c r' w')
  then show thesis using stop by (auto elim: sv_handle_StopE)
qed (use again in simp)

section \<open>The server's receiver keeps the contract\<close>

interpretation sv_recv: receive_routine sv_handle_datagram sv_receive_loop receiverIdleTimeout sv_ack
proof
  show "sv_receive_loop d r w =
      (case receive_round sv_handle_datagram d r w of
         Waiting \<Rightarrow> None | Stop c r' w' \<Rightarrow> Some (c, r', w') | Again r' w' \<Rightarrow> sv_receive_loop d r' w')"
    for d r w by (rule sv_receive_loop.simps)
  show "inbox w' = inbox w" if "sv_handle_datagram bs a r w = Stop c r' w'" for bs a r w c r' w'
    using that by (elim sv_handle_StopE) (simp add: world_simps)
  show "expected_seq r' = expected_seq r" if "sv_handle_datagram bs a r w = Again r' w'"
    for bs a r w r' w' using that by (elim sv_handle_AgainE) simp_all
  show "acks_sound sv_ack r w r' w'" if "sv_handle_datagram bs a r w = Again r' w'"
    for bs a r w r' w' using that by (rule sv_handle_Again_acks)
qed (fact sv_handle_Again_frame sv_handle_Again_window sv_handle_Stop_window sv_handle_Again_stream
    sv_handle_Stop_stream sv_handle_Stop_acks)+

section \<open>Properties\<close>

text \<open>
  C26: the reorder buffer of the server's receiver never grows. Whatever arrives, a call of
  \<^verbatim>\<open>receiveNext\<close> that started with all buffered packets inside the receive window ends so, and
  then at most ten packets are buffered.
\<close>

theorem sv_receiveNext_window:
  assumes "sv_receiveNext r w = Some (res, r', w')" and "buffer_in_window 0 r"
  shows "buffer_in_window 0 r' \<and> finite (dom (outOfOrderBuffer r')) \<and>
    card (dom (outOfOrderBuffer r')) \<le> RDT_RECEIVE_WINDOW"
  using sv_recv.next_window [of r w res r' w'] buffer_in_window_card [of r'] assms
  by (simp add: sv_receiveNext_def)

text \<open>
  In-order, exactly-once delivery by the server's receiver. As long as the peer's datagrams
  carry one stream of chunks, a call of \<^verbatim>\<open>receiveNext\<close> that returns a chunk returns the chunk of
  that stream whose number was expected, and the number expected goes up by one; a call that
  fails leaves it as it was. The hypothesis holds again for the next call.
\<close>

theorem sv_receiveNext_stream:
  assumes "sv_receiveNext r w = Some (res, r', w')" and "stream_inv f r (inbox w)"
  shows "stream_inv f r' (inbox w') \<and> delivered f (expected_seq r) res (expected_seq r')"
  using sv_recv.next_stream assms by (simp add: sv_receiveNext_def)

text \<open>
  The server's receiver acknowledges only what it holds. Every datagram a call of
  \<^verbatim>\<open>receiveNext\<close> sends is the ACK of a chunk that was handed on or is in the reorder buffer when the
  call returns, and nothing held is lost, as long as the numbers do not wrap.
\<close>

theorem sv_receiveNext_acks:
  assumes "sv_receiveNext r w = Some (res, r', w')" and "unat (expected_seq r) < 2 ^ 32 - 1"
  shows "(\<exists>new. outbox w' = outbox w @ new \<and>
      (\<forall>p \<in> set new. \<exists>s. fst p = seal_control (sv_ack_header s) \<and> holds r' s)) \<and>
    (\<forall>s. holds r s \<longrightarrow> holds r' s)"
  using sv_recv.next_acks [of r w res r' w'] assms
  by (simp add: sv_receiveNext_def acks_sound_def acks_held_def)


section \<open>Instances\<close>

definition sample_receiver :: receiver where
  "sample_receiver = (fresh_receiver True)\<lparr>peerAddr := sample_peer, peerKnown := True\<rparr>"

text \<open>Any receiver at the start of a transfer takes the sample packet.\<close>

definition sv_at_start :: "receiver \<Rightarrow> bool" where
  "sv_at_start r \<longleftrightarrow> udpSocketOk r \<and> (peerKnown r \<longrightarrow> peerAddr r = sample_peer) \<and> expected_seq r = 0 \<and>
     outOfOrderBuffer r = Map.empty \<and> pendingDatagram r = []"

lemma sv_sample_takes:
  assumes "sv_at_start r" "aborts w = []" "inbox w = Received (sample_packet win) sample_peer # rest" "ticks w = []" "sendOk w = []"
  shows "sv_receiveNext r w = Some (Some (0, [65], True), (learn_peer sample_peer r)\<lparr>expected_seq := 1\<rparr>,
     w\<lparr>inbox := rest, outbox := outbox w @ [(sv_ack 0, sample_peer)]\<rparr>)"
proof -
  have "receive_round sv_handle_datagram d r w = Stop (Some (0, [65], True)) ((learn_peer sample_peer r)\<lparr>expected_seq := 1\<rparr>)
      (w\<lparr>inbox := rest, outbox := outbox w @ [(sv_ack 0, sample_peer)]\<rparr>)" for d
    using receive_round_Received [OF assms(3) _ assms(2), of r sv_handle_datagram d] assms(1,5)
    by (auto simp: sv_at_start_def sample_length HEADER_SIZE_def MAX_PAYLOAD_def sv_handle_datagram_def sample_decode
        sample_header sample_payload learn_peer_def RDT_RECEIVE_WINDOW_def sv_sendAck_def sendto_def Let_def)
  with assms show ?thesis
    by (simp add: sv_receiveNext_def receive_next_def isAbortRequested_none steady_now_def sv_receive_loop.simps sv_at_start_def)
qed

lemma sample_receiveNext:
  "sv_receiveNext sample_receiver (idle_world [Received (sample_packet 1) sample_peer]) =
   Some (Some (0, [65], True), sample_receiver\<lparr>expected_seq := 1\<rparr>,
     (idle_world [])\<lparr>outbox := [(seal_control (sv_ack_header 0), sample_peer)]\<rparr>)"
  using sv_sample_takes [of sample_receiver "idle_world [Received (sample_packet 1) sample_peer]" 1 "[]"]
  by (simp add: sv_at_start_def sample_receiver_def fresh_receiver_def idle_world_def learn_peer_def)

lemma sample_stream_inv:
  "stream_inv sample_stream sample_receiver (inbox (idle_world [Received (sample_packet 1) sample_peer]))"
  by (simp add: stream_inv_def buffer_stream_def sample_receiver_def fresh_receiver_def
      idle_world_def sample_carries)

theorem sv_receiveNext_window_witness:
  "buffer_in_window 0 (sample_receiver\<lparr>expected_seq := 1\<rparr>)"
proof -
  have "buffer_in_window 0 sample_receiver"
    by (simp add: buffer_in_window_def sample_receiver_def fresh_receiver_def)
  from sv_receiveNext_window [OF sample_receiveNext this] show ?thesis by simp
qed

theorem sv_receiveNext_stream_witness:
  "delivered sample_stream 0 (Some (0, [65], True)) 1"
  using sv_receiveNext_stream [OF sample_receiveNext sample_stream_inv]
  by (simp add: sample_receiver_def fresh_receiver_def)

theorem sv_receiveNext_acks_witness:
  "holds (sample_receiver\<lparr>expected_seq := 1\<rparr>) 0 \<and>
   (\<exists>s. seal_control (sv_ack_header 0) = seal_control (sv_ack_header s) \<and>
        holds (sample_receiver\<lparr>expected_seq := 1\<rparr>) s)"
proof -
  have "unat (expected_seq sample_receiver) < 2 ^ 32 - 1"
    by (simp add: sample_receiver_def fresh_receiver_def)
  from sv_receiveNext_acks [OF sample_receiveNext this] show ?thesis
    by (auto simp: idle_world_def holds_def)
qed


end
