(* ===== verification/Client_Receiver.thy ===== *)
theory Client_Receiver
  imports Receiver_State
begin

unbundle bit_operations_syntax

text \<open>
  The client's receiver, \<^verbatim>\<open>client/src/rdt/RdtReceiver.cpp\<close>. It differs from the server's in that
  the last packet of a file is acknowledged only after the file was committed
  (\<^verbatim>\<open>confirmReceive\<close>), in that a failed send ends the call, and in that the peer may be restricted
  to one IP address.
\<close>

section \<open>State, construction and options\<close>

record cl_receiver = receiver +
  expectedPeerIpSet :: bool
  expectedPeerIp :: u32
  finalAcknowledgementPending :: bool
  pendingFinalSequence :: u32

definition cl_fresh_receiver :: "bool \<Rightarrow> cl_receiver" where
  "cl_fresh_receiver ok =
     \<lparr>udpSocketOk = ok, outOfOrderBuffer = Map.empty, expected_seq = 0, peerAddr = zero_addr,
      peerKnown = False, pendingDatagram = [], pendingFrom = zero_addr, abortInstalled = False,
      rcvTimeout = 0, expectedPeerIpSet = False, expectedPeerIp = 0,
      finalAcknowledgementPending = False, pendingFinalSequence = 0\<rparr>"

definition cl_applyDataTimeout :: "cl_receiver \<Rightarrow> cl_receiver" where
  "cl_applyDataTimeout r =
     (if \<not> udpSocketOk r then r
      else r\<lparr>rcvTimeout := (if abortInstalled r then ABORT_POLL_TIMEOUT_MS else DATA_IDLE_TIMEOUT_MS)\<rparr>)"

definition cl_setAbortPredicate :: "bool \<Rightarrow> cl_receiver \<Rightarrow> cl_receiver" where
  "cl_setAbortPredicate installed r = cl_applyDataTimeout (r\<lparr>abortInstalled := installed\<rparr>)"

definition cl_RdtReceiver_listen :: "world \<Rightarrow> cl_receiver \<times> world" where
  "cl_RdtReceiver_listen w =
     (let (created, w1) = syscall w
      in if \<not> created then (cl_fresh_receiver False, w1)
         else let (optOk, w2) = syscall w1
           in if \<not> optOk then (cl_fresh_receiver False, w2)
              else let (bound, w3) = syscall w2
                in if \<not> bound then ((cl_fresh_receiver False)\<lparr>rcvTimeout := DATA_IDLE_TIMEOUT_MS\<rparr>, w3)
                   else ((cl_fresh_receiver True)\<lparr>rcvTimeout := DATA_IDLE_TIMEOUT_MS\<rparr>, w3))"

definition cl_RdtReceiver_existing :: "bool \<Rightarrow> world \<Rightarrow> cl_receiver \<times> world" where
  "cl_RdtReceiver_existing existing w =
     (if \<not> existing then (cl_fresh_receiver False, w)
      else let (optOk, w1) = syscall w
        in if \<not> optOk then (cl_fresh_receiver False, w1)
           else ((cl_fresh_receiver True)\<lparr>rcvTimeout := DATA_IDLE_TIMEOUT_MS\<rparr>, w1))"

definition cl_expectPeerIp :: "u32 \<Rightarrow> cl_receiver \<Rightarrow> cl_receiver" where
  "cl_expectPeerIp address r = r\<lparr>expectedPeerIp := address, expectedPeerIpSet := True\<rparr>"

section \<open>The passive-mode handshake\<close>

definition cl_syn_header :: RdtHeader where
  "cl_syn_header = zero_header\<lparr>seq_num := 0, flags := FLAG_SYN,
     window_size := of_nat RDT_RECEIVE_WINDOW\<rparr>"

text \<open>The retry loop, with the attempts left; every way out restores the data timeout.\<close>

fun cl_handshake_loop ::
  "nat \<Rightarrow> bytes \<Rightarrow> cl_receiver \<Rightarrow> world \<Rightarrow> (bool \<times> cl_receiver \<times> world) option" where
  "cl_handshake_loop 0 synBuffer r w = Some (False, cl_applyDataTimeout r, w)"
| "cl_handshake_loop (Suc n) synBuffer r w =
     (let (ab, w1) = isAbortRequested (abortInstalled r) w
      in if ab then Some (False, cl_applyDataTimeout r, w1)
         else let (sent, w2) = sendto synBuffer (peerAddr r) w1
           in if \<not> sent then Some (False, cl_applyDataTimeout r, w2)
              else case recvfrom w2 of
                  None \<Rightarrow> None
                | Some (RecvTimeout, w3) \<Rightarrow>
                    (let (ab2, w4) = isAbortRequested (abortInstalled r) w3
                     in if ab2 then Some (False, cl_applyDataTimeout r, w4)
                        else cl_handshake_loop n synBuffer r w4)
                | Some (RecvError e, w3) \<Rightarrow>
                    (let (ab2, w4) = isAbortRequested (abortInstalled r) w3
                     in Some (False, cl_applyDataTimeout r, w4))
                | Some (Received bs from, w3) \<Rightarrow>
                    (if \<not> sameEndpoint from (peerAddr r) then cl_handshake_loop n synBuffer r w3
                     else case decodeValidatedDatagram bs of
                         None \<Rightarrow> cl_handshake_loop n synBuffer r w3
                       | Some h \<Rightarrow>
                           if has_flag h FLAG_ACK \<and> \<not> has_flag h FLAG_DATA \<and>
                              payload_len h = 0 \<and> ack_num h = seq_num cl_syn_header
                           then Some (True, cl_applyDataTimeout r, w3)
                           else if has_flag h FLAG_DATA
                           then Some (True, cl_applyDataTimeout
                                  (r\<lparr>pendingDatagram := bs, pendingFrom := from\<rparr>), w3)
                           else cl_handshake_loop n synBuffer r w3))"

definition signalClientReady ::
  "sockaddr_in \<Rightarrow> cl_receiver \<Rightarrow> world \<Rightarrow> (bool \<times> cl_receiver \<times> world) option" where
  "signalClientReady serverDataAddress r w =
     (if \<not> udpSocketOk r then Some (False, r, w)
      else let (ab, w1) = isAbortRequested (abortInstalled r) w
        in if ab then Some (False, r, w1)
           else let r1 = r\<lparr>peerAddr := serverDataAddress, peerKnown := True\<rparr>;
                    (optOk, w2) = syscall w1
             in if \<not> optOk then Some (False, r1, w2)
                else cl_handshake_loop HANDSHAKE_MAX_RETRIES (seal_control cl_syn_header)
                       (r1\<lparr>rcvTimeout := HANDSHAKE_TIMEOUT_MS\<rparr>) w2)"

section \<open>Acknowledgements\<close>

definition cl_response_header :: "u32 \<Rightarrow> byte \<Rightarrow> RdtHeader" where
  "cl_response_header sequence f =
     zero_header\<lparr>ack_num := sequence, flags := f, window_size := of_nat RDT_RECEIVE_WINDOW\<rparr>"

definition sendControlResponse :: "u32 \<Rightarrow> byte \<Rightarrow> sockaddr_in \<Rightarrow> world \<Rightarrow> bool \<times> world" where
  "sendControlResponse sequence f clientAddress w =
     sendto (seal_control (cl_response_header sequence f)) clientAddress w"

definition cl_sendAck :: "u32 \<Rightarrow> sockaddr_in \<Rightarrow> world \<Rightarrow> bool \<times> world" where
  "cl_sendAck sequence clientAddress w = sendControlResponse sequence FLAG_ACK clientAddress w"

definition cl_sendNak :: "u32 \<Rightarrow> sockaddr_in \<Rightarrow> world \<Rightarrow> bool \<times> world" where
  "cl_sendNak sequence clientAddress w = sendControlResponse sequence FLAG_NAK clientAddress w"

definition confirmReceive :: "u32 \<Rightarrow> bool \<Rightarrow> cl_receiver \<Rightarrow> world \<Rightarrow> bool \<times> cl_receiver \<times> world" where
  "confirmReceive sequence accepted r w =
     (if \<not> udpSocketOk r \<or> \<not> peerKnown r then (False, r, w)
      else if \<not> accepted
      then let r1 = (if finalAcknowledgementPending r \<and> pendingFinalSequence r = sequence
                     then r\<lparr>finalAcknowledgementPending := False\<rparr> else r)
           in (False, r1, snd (cl_sendNak sequence (peerAddr r1) w))
      else if \<not> finalAcknowledgementPending r \<or> pendingFinalSequence r \<noteq> sequence
      then (True, r, w)
      else let r1 = r\<lparr>finalAcknowledgementPending := False\<rparr>;
               (sent, w1) = cl_sendAck sequence (peerAddr r1) w
        in (sent, r1, w1))"

section \<open>Receiving\<close>

text \<open>The tail of the loop, for a packet inside the window that was acknowledged or set pending.\<close>

definition cl_accept ::
  "RdtHeader \<Rightarrow> bytes \<Rightarrow> bool \<Rightarrow> cl_receiver \<Rightarrow> world \<Rightarrow> cl_receiver round" where
  "cl_accept h data isFinal r w =
     (if seq_num h > expected_seq r
      then Again (if outOfOrderBuffer r (seq_num h) = None
                  then r\<lparr>outOfOrderBuffer := (outOfOrderBuffer r)(seq_num h \<mapsto> (data, isFinal))\<rparr>
                  else r) w
      else Stop (Some (expected_seq r, data, isFinal))
             (r\<lparr>expected_seq := expected_seq r + 1\<rparr>) w)"

text \<open>A DATA packet of the peer.\<close>

definition cl_handle_data :: "RdtHeader \<Rightarrow> cl_receiver handler" where
  "cl_handle_data h receiveBuffer senderAddress r w =
     (if seq_num h < expected_seq r
      then (if finalAcknowledgementPending r \<and> seq_num h = pendingFinalSequence r
            then Again r w
            else let (sent, w1) = cl_sendAck (seq_num h) senderAddress w
              in if \<not> sent then Stop None r w1 else Again r w1)
      else if unat (seq_num h) \<ge> unat (expected_seq r) + RDT_RECEIVE_WINDOW
      then Again r w
      else let data = datagram_payload h receiveBuffer;
               isFinal = has_flag h FLAG_FIN
        in if isFinal
           then (if finalAcknowledgementPending r \<and> pendingFinalSequence r \<noteq> seq_num h
                 then Again r w
                 else cl_accept h data isFinal
                        (r\<lparr>finalAcknowledgementPending := True,
                           pendingFinalSequence := seq_num h\<rparr>) w)
           else let (sent, w1) = cl_sendAck (seq_num h) senderAddress w
             in if \<not> sent then Stop None r w1
                else cl_accept h data isFinal r w1)"

definition cl_handle_datagram :: "cl_receiver handler" where
  "cl_handle_datagram receiveBuffer senderAddress r w =
     (case decodeValidatedDatagram receiveBuffer of
        None \<Rightarrow> Again r w
      | Some h \<Rightarrow>
          if \<not> has_flag h FLAG_DATA then Again r w
          else if expectedPeerIpSet r \<and> sin_addr senderAddress \<noteq> expectedPeerIp r then Again r w
          else if peerKnown r \<and> \<not> sameEndpoint senderAddress (peerAddr r) then Again r w
          else cl_handle_data h receiveBuffer senderAddress (learn_peer senderAddress r) w)"

lemma cl_sendAck_inbox [world_simps]:
  "inbox (snd (cl_sendAck n a w)) = inbox w"
  by (simp add: cl_sendAck_def sendControlResponse_def world_simps)

lemma cl_handle_Again_frame:
  "cl_handle_datagram bs a r w = Again r' w' \<Longrightarrow>
   inbox w' = inbox w \<and> pendingDatagram r' = pendingDatagram r"
  using cl_sendAck_inbox [of "seq_num (the (decodeValidatedDatagram bs))" a w]
  by (auto simp: cl_handle_datagram_def cl_handle_data_def cl_accept_def Let_def
      split: option.splits if_splits prod.splits)

function cl_receive_loop ::
  "nat \<Rightarrow> cl_receiver \<Rightarrow> world \<Rightarrow> (chunk option \<times> cl_receiver \<times> world) option" where
  "cl_receive_loop idleDeadline r w =
     (case receive_round cl_handle_datagram idleDeadline r w of
        Waiting \<Rightarrow> None
      | Stop c r' w' \<Rightarrow> Some (c, r', w')
      | Again r' w' \<Rightarrow> cl_receive_loop idleDeadline r' w')"
  by pat_completeness auto
termination
  by (relation "measure (\<lambda>(d, r, w). receive_measure r w)")
    (auto dest!: receive_round_less [OF _ cl_handle_Again_frame])

declare cl_receive_loop.simps [simp del]

definition cl_receiveNext :: "cl_receiver \<Rightarrow> world \<Rightarrow> (chunk option \<times> cl_receiver \<times> world) option" where
  "cl_receiveNext = receive_next DATA_IDLE_TIMEOUT_MS cl_receive_loop"

definition cl_receiver_sendChunk :: "u32 \<Rightarrow> bytes \<Rightarrow> bool \<Rightarrow> cl_receiver \<Rightarrow> bool \<times> cl_receiver" where
  "cl_receiver_sendChunk seqNum data isFinal r = (False, r)"

section \<open>The outcomes of one datagram\<close>

abbreviation cl_ack :: "u32 \<Rightarrow> bytes" where
  "cl_ack n \<equiv> seal_control (cl_response_header n FLAG_ACK)"

abbreviation cl_nak :: "u32 \<Rightarrow> bytes" where
  "cl_nak n \<equiv> seal_control (cl_response_header n FLAG_NAK)"

lemma cl_sendAck_outbox:
  "cl_sendAck s a w = (sent, w') \<Longrightarrow> outbox w' = outbox w @ (if sent then [(cl_ack s, a)] else [])"
  using outbox_sendto [of "cl_ack s" a w] by (simp add: cl_sendAck_def sendControlResponse_def)

lemma cl_sendAck_frame:
  "cl_sendAck s a w = (sent, w') \<Longrightarrow> inbox w' = inbox w \<and> aborts w' = aborts w"
  using sendto_frame [of "cl_ack s" a w] by (simp add: cl_sendAck_def sendControlResponse_def)

lemma cl_sendAck_ok:
  "sendOk w = [] \<Longrightarrow> cl_sendAck s a w = (True, w\<lparr>outbox := outbox w @ [(cl_ack s, a)]\<rparr>)"
  by (simp add: cl_sendAck_def sendControlResponse_def sendto_def)

definition mark_final :: "RdtHeader \<Rightarrow> cl_receiver \<Rightarrow> cl_receiver" where
  "mark_final h r =
     (if has_flag h FLAG_FIN
      then r\<lparr>finalAcknowledgementPending := True, pendingFinalSequence := seq_num h\<rparr> else r)"

lemma mark_final_frame [simp]:
  "outOfOrderBuffer (mark_final h r) = outOfOrderBuffer r"
  "expected_seq (mark_final h r) = expected_seq r"
  "pendingDatagram (mark_final h r) = pendingDatagram r"
  "pendingFrom (mark_final h r) = pendingFrom r"
  "peerKnown (mark_final h r) = peerKnown r"
  "peerAddr (mark_final h r) = peerAddr r"
  "abortInstalled (mark_final h r) = abortInstalled r"
  by (simp_all add: mark_final_def)

lemma mark_final_invariants [simp]:
  "buffer_in_window lo (mark_final h r) \<longleftrightarrow> buffer_in_window lo r"
  "stream_inv f (mark_final h r) evs \<longleftrightarrow> stream_inv f r evs"
  "holds (mark_final h r) s \<longleftrightarrow> holds r s"
  by (simp_all add: buffer_in_window_def stream_inv_def buffer_stream_def holds_def)

text \<open>
  What one datagram may do. In the last case the packet is in the window, its acknowledgement
  went out (or is pending, for a last packet), and it is handed on or buffered.
\<close>

lemma cl_handle_cases:
  obtains
    (ignored) "cl_handle_datagram bs a r w = Again r w"
  | (kept) "cl_handle_datagram bs a r w = Again (learn_peer a r) w" "peerKnown r \<longrightarrow> a = peerAddr r"
  | (failed) s w1 where "cl_handle_datagram bs a r w = Stop None (learn_peer a r) w1"
      "peerKnown r \<longrightarrow> a = peerAddr r" "cl_sendAck s a w = (False, w1)"
  | (duplicate) h w1 where "cl_handle_datagram bs a r w = Again (learn_peer a r) w1"
      "decodeValidatedDatagram bs = Some h" "has_flag h FLAG_DATA"
      "peerKnown r \<longrightarrow> a = peerAddr r" "cl_sendAck (seq_num h) a w = (True, w1)"
      "unat (seq_num h) < unat (expected_seq r)"
      "\<not> (finalAcknowledgementPending r \<and> seq_num h = pendingFinalSequence r)"
  | (accepted) h w1 where
      "cl_handle_datagram bs a r w =
         cl_accept h (datagram_payload h bs) (has_flag h FLAG_FIN) (mark_final h (learn_peer a r)) w1"
      "decodeValidatedDatagram bs = Some h" "has_flag h FLAG_DATA"
      "peerKnown r \<longrightarrow> a = peerAddr r"
      "unat (expected_seq r) \<le> unat (seq_num h)"
      "unat (seq_num h) < unat (expected_seq r) + RDT_RECEIVE_WINDOW"
      "if has_flag h FLAG_FIN
       then w1 = w \<and> \<not> (finalAcknowledgementPending r \<and> pendingFinalSequence r \<noteq> seq_num h)
       else cl_sendAck (seq_num h) a w = (True, w1)"
proof (cases "\<exists>h. decodeValidatedDatagram bs = Some h \<and> has_flag h FLAG_DATA \<and>
    \<not> (expectedPeerIpSet r \<and> sin_addr a \<noteq> expectedPeerIp r) \<and> \<not> (peerKnown r \<and> a \<noteq> peerAddr r)")
  case False
  then have "cl_handle_datagram bs a r w = Again r w"
    by (auto simp: cl_handle_datagram_def split: option.splits)
  with ignored show thesis .
next
  case True
  then obtain h where h: "decodeValidatedDatagram bs = Some h" "has_flag h FLAG_DATA"
      "\<not> (expectedPeerIpSet r \<and> sin_addr a \<noteq> expectedPeerIp r)" "\<not> (peerKnown r \<and> a \<noteq> peerAddr r)"
    by blast
  then have peer: "peerKnown r \<longrightarrow> a = peerAddr r" by blast
  obtain sent w1 where ack: "cl_sendAck (seq_num h) a w = (sent, w1)" by fastforce
  have fields: "finalAcknowledgementPending (learn_peer a r) = finalAcknowledgementPending r"
    "pendingFinalSequence (learn_peer a r) = pendingFinalSequence r" by (simp_all add: learn_peer_def)
  have eq: "cl_handle_datagram bs a r w = cl_handle_data h bs a (learn_peer a r) w"
    using h by (auto simp: cl_handle_datagram_def)
  consider (old) "seq_num h < expected_seq r"
    | (far) "\<not> seq_num h < expected_seq r" "unat (expected_seq r) + RDT_RECEIVE_WINDOW \<le> unat (seq_num h)"
    | (within) "\<not> seq_num h < expected_seq r" "\<not> unat (expected_seq r) + RDT_RECEIVE_WINDOW \<le> unat (seq_num h)"
    by blast
  then show thesis
  proof cases
    case old
    then show ?thesis
      using h peer ack fields kept failed [of w1 "seq_num h"] duplicate [of w1 h]
      by (cases sent; cases "finalAcknowledgementPending r \<and> seq_num h = pendingFinalSequence r")
        (simp_all add: eq cl_handle_data_def word_less_nat_alt)
  next
    case far
    with h peer kept show ?thesis by (simp add: eq cl_handle_data_def)
  next
    case within
    then show ?thesis
      using h peer ack fields kept failed [of w1 "seq_num h"] accepted [of h w] accepted [of h w1]
      by (cases "has_flag h FLAG_FIN"; cases sent;
          cases "finalAcknowledgementPending r \<and> pendingFinalSequence r \<noteq> seq_num h")
        (simp_all add: eq cl_handle_data_def mark_final_def word_less_nat_alt)
  qed
qed

text \<open>The two ways an accepted packet goes.\<close>

lemma cl_accept_cases:
  assumes "unat (expected_seq r) \<le> unat (seq_num h)"
  obtains
    (buffered) "cl_accept h data fin r w =
        Again (r\<lparr>outOfOrderBuffer := (outOfOrderBuffer r)(seq_num h \<mapsto> (data, fin))\<rparr>) w"
      "outOfOrderBuffer r (seq_num h) = None" "unat (expected_seq r) < unat (seq_num h)"
  | (known) "cl_accept h data fin r w = Again r w" "outOfOrderBuffer r (seq_num h) \<noteq> None"
      "unat (expected_seq r) < unat (seq_num h)"
  | (delivered) "cl_accept h data fin r w = Stop (Some (seq_num h, data, fin))
        (r\<lparr>expected_seq := expected_seq r + 1\<rparr>) w" "seq_num h = expected_seq r"
proof (cases "seq_num h = expected_seq r")
  case True
  with delivered show thesis by (simp add: cl_accept_def)
next
  case False
  then have "unat (expected_seq r) < unat (seq_num h)"
    using assms by (simp add: word_unat_eq_iff)
  moreover from this have "expected_seq r < seq_num h" by (simp add: word_less_nat_alt)
  ultimately show thesis using buffered known
    by (cases "outOfOrderBuffer r (seq_num h) = None") (simp_all add: cl_accept_def)
qed

section \<open>The client's receiver keeps the contract\<close>

lemma cl_handle_inbox:
  "case cl_handle_datagram bs a r w of Waiting \<Rightarrow> False
     | Again r' w' \<Rightarrow> inbox w' = inbox w \<and> pendingDatagram r' = pendingDatagram r \<and>
         expected_seq r' = expected_seq r
     | Stop c r' w' \<Rightarrow> inbox w' = inbox w"
proof (cases rule: cl_handle_cases [of bs a r w])
  case (accepted h w1)
  have le: "unat (expected_seq (mark_final h (learn_peer a r))) \<le> unat (seq_num h)"
    using accepted(5) by simp
  have "inbox w1 = inbox w" using accepted(7) cl_sendAck_frame by (auto split: if_splits)
  with accepted(1,5) show ?thesis
    by (cases rule: cl_accept_cases [OF le, of "datagram_payload h bs" "has_flag h FLAG_FIN" w1]) simp_all
qed (auto dest: cl_sendAck_frame)

lemma cl_handle_window:
  assumes "buffer_in_window 1 r"
  shows "case cl_handle_datagram bs a r w of Waiting \<Rightarrow> False
     | Again r' w' \<Rightarrow> buffer_in_window 1 r'
     | Stop c r' w' \<Rightarrow> buffer_in_window 0 r'"
proof (cases rule: cl_handle_cases [of bs a r w])
  case (accepted h w1)
  have le: "unat (expected_seq (mark_final h (learn_peer a r))) \<le> unat (seq_num h)"
    using accepted(5) by simp
  from accepted(1,5,6) assms show ?thesis
    using buffer_in_window_advance [of "mark_final h (learn_peer a r)"]
      buffer_in_window_insert [of "mark_final h (learn_peer a r)"]
    by (cases rule: cl_accept_cases [OF le, of "datagram_payload h bs" "has_flag h FLAG_FIN" w1]) simp_all
qed (use assms buffer_in_window_mono in auto)

lemma cl_handle_stream:
  assumes "stream_inv f r evs" and "(peerKnown r \<longrightarrow> a = peerAddr r) \<longrightarrow> carries_stream f bs"
  shows "case cl_handle_datagram bs a r w of Waiting \<Rightarrow> False
     | Again r' w' \<Rightarrow> stream_inv f r' evs
     | Stop c r' w' \<Rightarrow> stream_inv f r' evs \<and> delivered f (expected_seq r) c (expected_seq r')"
proof (cases rule: cl_handle_cases [of bs a r w])
  case (accepted h w1)
  have le: "unat (expected_seq (mark_final h (learn_peer a r))) \<le> unat (seq_num h)"
    using accepted(5) by simp
  from accepted(2-4) assms have "stream_inv f (mark_final h (learn_peer a r)) evs"
    and "f (unat (seq_num h)) = Some (datagram_payload h bs, has_flag h FLAG_FIN)"
    using stream_inv_learn [of f r evs a] by (simp_all add: carries_stream_def)
  with accepted(1,5) show ?thesis
    using stream_inv_buffer [of f "mark_final h (learn_peer a r)"]
    by (cases rule: cl_accept_cases [OF le, of "datagram_payload h bs" "has_flag h FLAG_FIN" w1]) (simp_all add: delivered_def)
qed (use assms stream_inv_learn [of f r evs a] in \<open>simp_all add: delivered_def\<close>)

lemma cl_ack_sound:
  assumes "cl_sendAck s a w = (sent, w')" and "sent \<longrightarrow> holds r' s" and "\<forall>s. holds r s \<longrightarrow> holds r' s"
  shows "acks_sound cl_ack r w r' w'"
  using assms cl_sendAck_outbox [OF assms(1)] by (auto simp: acks_sound_def acks_held_def)

lemma cl_accepted_acks:
  assumes "holds r' (seq_num h)" and "\<forall>s. holds r s \<longrightarrow> holds r' s"
    and "if fin then w1 = w \<and> Q else cl_sendAck (seq_num h) a w = (True, w1)"
  shows "acks_sound cl_ack r w r' w1"
  using assms cl_ack_sound [of "seq_num h" a w True w1 r' r] by (cases fin) (auto intro: acks_sound_refl)

lemma cl_handle_acks:
  assumes "unat (expected_seq r) < 2 ^ 32 - 1"
  shows "case cl_handle_datagram bs a r w of Waiting \<Rightarrow> False
     | Again r' w' \<Rightarrow> acks_sound cl_ack r w r' w'
     | Stop c r' w' \<Rightarrow> acks_sound cl_ack r w r' w'"
proof (cases rule: cl_handle_cases [of bs a r w])
  case (duplicate h w1)
  then have "holds r (seq_num h)" by (simp add: holds_def)
  with cl_ack_sound [OF duplicate(5), of "learn_peer a r" r] duplicate(1) show ?thesis by simp
next
  case (failed s w1)
  with cl_ack_sound [OF failed(3), of "learn_peer a r" r] show ?thesis by simp
next
  case (accepted h w1)
  let ?r = "mark_final h (learn_peer a r)"
  note snd = cl_accepted_acks [OF _ _ accepted(7)]
  have le: "unat (expected_seq ?r) \<le> unat (seq_num h)" using accepted(5) by simp
  show ?thesis
  proof (cases rule: cl_accept_cases [OF le, of "datagram_payload h bs" "has_flag h FLAG_FIN" w1])
    case 1
    show ?thesis unfolding accepted(1) 1(1) by (auto intro!: snd simp: holds_def)
  next
    case 2
    then show ?thesis unfolding accepted(1) 2(1) by (auto intro!: snd simp: holds_def)
  next
    case 3
    have "holds (?r\<lparr>expected_seq := expected_seq ?r + 1\<rparr>) s"
      if "holds r s \<or> s = seq_num h" for s
      using that assms holds_advance [of ?r s] 3(2) by auto
    then show ?thesis unfolding accepted(1) 3(1) by (auto intro!: snd)
  qed
qed (auto intro: acks_sound_refl)

interpretation cl_recv: receive_routine cl_handle_datagram cl_receive_loop DATA_IDLE_TIMEOUT_MS cl_ack
proof
  fix bs a w d evs and r r' :: cl_receiver and w' :: world
  fix f :: "nat \<Rightarrow> (bytes \<times> bool) option"
  show "cl_receive_loop d r w =
      (case receive_round cl_handle_datagram d r w of
         Waiting \<Rightarrow> None | Stop c r' w' \<Rightarrow> Some (c, r', w') | Again r' w' \<Rightarrow> cl_receive_loop d r' w')"
    for d w and r :: cl_receiver by (rule cl_receive_loop.simps)
  assume again: "cl_handle_datagram bs a r w = Again r' w'"
  show "inbox w' = inbox w \<and> pendingDatagram r' = pendingDatagram r" "expected_seq r' = expected_seq r"
    using cl_handle_inbox [where bs = bs and a = a and r = r and w = w] again by simp_all
  show "buffer_in_window 1 r'" if "buffer_in_window 1 r"
    using cl_handle_window [OF that, where bs = bs and a = a and w = w] again by simp
  show "stream_inv f r' evs" if "stream_inv f r evs"
      "(peerKnown r \<longrightarrow> a = peerAddr r) \<longrightarrow> carries_stream f bs"
    using cl_handle_stream [OF that, where w = w] again by simp
  show "acks_sound cl_ack r w r' w'" if "unat (expected_seq r) < 2 ^ 32 - 1"
    using cl_handle_acks [OF that, where bs = bs and a = a and w = w] again by simp
next
  fix bs a w c evs and r r' :: cl_receiver and w' :: world
  fix f :: "nat \<Rightarrow> (bytes \<times> bool) option"
  assume stop: "cl_handle_datagram bs a r w = Stop c r' w'"
  show "inbox w' = inbox w" using cl_handle_inbox [where bs = bs and a = a and r = r and w = w] stop by simp
  show "buffer_in_window 0 r'" if "buffer_in_window 1 r"
    using cl_handle_window [OF that, where bs = bs and a = a and w = w] stop by simp
  show "stream_inv f r' evs \<and> delivered f (expected_seq r) c (expected_seq r')" if "stream_inv f r evs"
      "(peerKnown r \<longrightarrow> a = peerAddr r) \<longrightarrow> carries_stream f bs"
    using cl_handle_stream [OF that, where w = w] stop by simp
  show "acks_sound cl_ack r w r' w'" if "unat (expected_seq r) < 2 ^ 32 - 1"
    using cl_handle_acks [OF that, where bs = bs and a = a and w = w] stop by simp
qed

section \<open>The acknowledgement of the last packet\<close>

lemma cl_ack_inject: "cl_ack s = cl_ack n \<longleftrightarrow> s = n"
  by (auto dest!: seal_control_inject simp: cl_response_header_def zero_header_def)

text \<open>Number \<open>n\<close> is the last chunk of the stream, and the only one marked so.\<close>

definition last_chunk :: "(nat \<Rightarrow> (bytes \<times> bool) option) \<Rightarrow> u32 \<Rightarrow> bool" where
  "last_chunk f n \<longleftrightarrow> (\<exists>d. f (unat n) = Some (d, True)) \<and> (\<forall>m d. f m = Some (d, True) \<longrightarrow> m = unat n)"

text \<open>While the receiver holds the last packet, its acknowledgement is pending.\<close>

definition final_guard :: "u32 \<Rightarrow> cl_receiver \<Rightarrow> bool" where
  "final_guard n r \<longleftrightarrow>
     (holds r n \<longrightarrow> finalAcknowledgementPending r) \<and>
     (finalAcknowledgementPending r \<longrightarrow> pendingFinalSequence r = n)"

text \<open>No acknowledgement of \<open>n\<close> was sent between two states.\<close>

definition not_acked :: "u32 \<Rightarrow> world \<Rightarrow> world \<Rightarrow> bool" where
  "not_acked n w w' \<longleftrightarrow> (\<exists>new. outbox w' = outbox w @ new \<and> (\<forall>p \<in> set new. fst p \<noteq> cl_ack n))"

lemma not_acked_refl: "outbox w' = outbox w \<Longrightarrow> not_acked n w w'"
  by (simp add: not_acked_def)

lemma not_acked_trans: "not_acked n w w1 \<Longrightarrow> not_acked n w1 w2 \<Longrightarrow> not_acked n w w2"
  by (auto simp: not_acked_def)

lemma not_acked_other: "cl_sendAck s a w = (sent, w') \<Longrightarrow> s \<noteq> n \<Longrightarrow> not_acked n w w'"
  using cl_sendAck_outbox [of s a w sent w'] by (auto simp: not_acked_def cl_ack_inject)

lemma final_guard_learn [simp]: "final_guard n (learn_peer a r) \<longleftrightarrow> final_guard n r"
  by (simp add: final_guard_def) (simp add: learn_peer_def)

text \<open>An accepted packet: if it is the last one its acknowledgement becomes pending.\<close>

lemma final_guard_accept:
  assumes "final_guard n r" and "has_flag h FLAG_FIN \<longleftrightarrow> seq_num h = n"
    and "holds r' n \<Longrightarrow> holds r n \<or> n = seq_num h"
    and "finalAcknowledgementPending r' = finalAcknowledgementPending (mark_final h r)"
    and "pendingFinalSequence r' = pendingFinalSequence (mark_final h r)"
  shows "final_guard n r'"
  using assms by (auto simp: final_guard_def mark_final_def)

lemma cl_handle_final:
  assumes inv: "stream_inv f r evs" "(peerKnown r \<longrightarrow> a = peerAddr r) \<longrightarrow> carries_stream f bs"
    and last: "last_chunk f n" and guard: "final_guard n r" and small: "unat (expected_seq r) < 2 ^ 32 - 1"
  shows "case cl_handle_datagram bs a r w of Waiting \<Rightarrow> False
     | Again r' w' \<Rightarrow> final_guard n r' \<and> not_acked n w w'
     | Stop c r' w' \<Rightarrow> final_guard n r' \<and> not_acked n w w'"
proof (cases rule: cl_handle_cases [of bs a r w])
  case (failed s w1)
  with guard cl_sendAck_outbox [OF failed(3)] show ?thesis by (simp add: not_acked_refl)
next
  case (duplicate h w1)
  have "seq_num h \<noteq> n"
    using duplicate(6,7) guard by (auto simp: final_guard_def holds_def)
  with duplicate(1,5) guard not_acked_other show ?thesis by simp
next
  case (accepted h w1)
  let ?r = "mark_final h (learn_peer a r)"
  have "f (unat (seq_num h)) = Some (datagram_payload h bs, has_flag h FLAG_FIN)"
    using accepted(2-4) inv(2) by (simp add: carries_stream_def)
  then have fin: "has_flag h FLAG_FIN \<longleftrightarrow> seq_num h = n"
    using last by (auto simp: last_chunk_def word_unat_eq_iff)
  have ack: "not_acked n w w1"
    using accepted(7) fin not_acked_other [of "seq_num h" a w True w1 n] by (auto simp: not_acked_refl split: if_splits)
  have le: "unat (expected_seq ?r) \<le> unat (seq_num h)" using accepted(5) by simp
  have learnt: "final_guard n (learn_peer a r)" using guard by simp
  note g = final_guard_accept [OF learnt fin]
  show ?thesis
  proof (cases rule: cl_accept_cases [OF le, of "datagram_payload h bs" "has_flag h FLAG_FIN" w1])
    case 1
    have "final_guard n (?r\<lparr>outOfOrderBuffer := (outOfOrderBuffer ?r)
        (seq_num h \<mapsto> (datagram_payload h bs, has_flag h FLAG_FIN))\<rparr>)"
      by (rule g) (simp_all add: holds_def split: if_splits)
    with ack show ?thesis unfolding accepted(1) 1(1) by simp
  next
    case 2
    have "final_guard n ?r" by (rule g) simp_all
    with ack show ?thesis unfolding accepted(1) 2(1) by simp
  next
    case 3
    have "final_guard n (?r\<lparr>expected_seq := expected_seq ?r + 1\<rparr>)"
      using small 3(2)
      by (intro g) (auto simp: holds_def unat_u32_plus1 less_Suc_eq word_unat_eq_iff)
    with ack show ?thesis unfolding accepted(1) 3(1) by simp
  qed
qed (use guard in \<open>auto intro: not_acked_refl\<close>)

lemma cl_round_final:
  assumes "stream_inv f r (inbox w)" "last_chunk f n" "final_guard n r" "unat (expected_seq r) < 2 ^ 32 - 1"
  shows "receive_round cl_handle_datagram d r w = Again r' w' \<Longrightarrow> final_guard n r' \<and> not_acked n w w'"
    and "receive_round cl_handle_datagram d r w = Stop c r' w' \<Longrightarrow> final_guard n r' \<and> not_acked n w w'"
proof -
  have out: "case cl_handle_datagram bs a r1 w1 of Waiting \<Rightarrow> False
     | Again r' w' \<Rightarrow> final_guard n r' \<and> not_acked n w w'
     | Stop c r' w' \<Rightarrow> final_guard n r' \<and> not_acked n w w'"
    if got: "input_ok r w (Got bs a r1 w1)" for bs a r1 w1
  proof -
    have r1: "finalAcknowledgementPending r1 = finalAcknowledgementPending r"
      "pendingFinalSequence r1 = pendingFinalSequence r" "outbox w1 = outbox w"
      using got by (auto simp: input_ok_def)
    then have "final_guard n r1"
      using assms(3) input_ok_state [OF got] by (simp add: final_guard_def holds_def)
    with cl_handle_final [OF input_ok_stream(1,2) [OF got assms(1)] assms(2), where w = w1] assms(4)
      input_ok_state(2) [OF got] r1(3)
    show ?thesis by (cases "cl_handle_datagram bs a r1 w1") (simp_all add: not_acked_def)
  qed
  show "final_guard n r' \<and> not_acked n w w'" if "receive_round cl_handle_datagram d r w = Again r' w'"
    using that
  proof (cases rule: receive_round_AgainE)
    case (handled bs a r1 w1)
    with out [OF handled(1)] show ?thesis by simp
  qed (use assms(3) in \<open>auto simp: input_ok_def not_acked_refl\<close>)
  show "final_guard n r' \<and> not_acked n w w'" if "receive_round cl_handle_datagram d r w = Stop c r' w'"
    using that
  proof (cases rule: receive_round_StopE)
    case (handled bs a r1 w1)
    with out [OF handled(1)] show ?thesis by simp
  qed (use assms(3) in \<open>auto simp: input_ok_def not_acked_refl\<close>)
qed

lemma cl_receive_loop_final:
  assumes "cl_receive_loop d r w = Some (res, r', w')" and "stream_inv f r (inbox w)"
    and last: "last_chunk f n" and "final_guard n r" and small: "unat (expected_seq r) < 2 ^ 32 - 1"
  shows "final_guard n r' \<and> not_acked n w w'"
proof (rule cl_recv.loop_rule [OF assms(1), where P = "\<lambda>r1 w1. stream_inv f r1 (inbox w1) \<and>
      expected_seq r1 = expected_seq r \<and> final_guard n r1 \<and> not_acked n w w1"])
  fix r1 w1 r2 w2
  assume P: "stream_inv f r1 (inbox w1) \<and> expected_seq r1 = expected_seq r \<and> final_guard n r1 \<and>
      not_acked n w w1"
    and R: "receive_round cl_handle_datagram d r1 w1 = Again r2 w2"
  have "stream_inv f r2 (inbox w2)" using cl_recv.round_Again_stream [OF R] P by simp
  moreover have "final_guard n r2 \<and> not_acked n w1 w2"
    using cl_round_final(1) [OF _ last _ _ R] P small by simp
  ultimately show "stream_inv f r2 (inbox w2) \<and> expected_seq r2 = expected_seq r \<and>
      final_guard n r2 \<and> not_acked n w w2"
    using P cl_recv.round_Again_expected [OF R] not_acked_trans by metis
next
  fix r1 w1 c r2 w2
  assume P: "stream_inv f r1 (inbox w1) \<and> expected_seq r1 = expected_seq r \<and> final_guard n r1 \<and>
      not_acked n w w1"
    and R: "receive_round cl_handle_datagram d r1 w1 = Stop c r2 w2"
  have "final_guard n r2 \<and> not_acked n w1 w2"
    using cl_round_final(2) [OF _ last _ _ R] P small by simp
  with P show "final_guard n r2 \<and> not_acked n w w2" using not_acked_trans by metis
qed (use assms in \<open>simp add: not_acked_refl\<close>)

lemma cl_receiveNext_final:
  assumes "cl_receiveNext r w = Some (res, r', w')" and "stream_inv f r (inbox w)"
    and "last_chunk f n" and "final_guard n r" and "unat (expected_seq r) < 2 ^ 32 - 1"
  shows "final_guard n r' \<and> not_acked n w w'"
  using assms(1) [unfolded cl_receiveNext_def]
proof (cases rule: receive_next_cases)
  case (looped d w2)
  with cl_receive_loop_final [of d r w2 res r' w' f n] assms show ?thesis
    by (simp add: not_acked_def)
next
  case (buffered d fin)
  then have "holds r' n \<longrightarrow> holds r n"
    using assms(5) word_unat_eq_iff [of n "expected_seq r"]
    by (cases "n = expected_seq r") (auto simp: holds_def unat_u32_plus1 less_Suc_eq)
  with buffered assms(4) show ?thesis by (auto simp: final_guard_def not_acked_refl)
qed (use assms(4) in \<open>simp add: not_acked_refl\<close>)

section \<open>Properties\<close>

text \<open>
  C28: the client's receiver delivers in order and exactly once, and its reorder buffer stays inside
  the window of ten packets. As long as the peer's datagrams carry one stream, a call that returns a
  chunk returns the chunk of the stream whose number was expected; the hypotheses hold again for
  the next call.
\<close>

theorem cl_receiveNext_correct:
  assumes "cl_receiveNext r w = Some (res, r', w')" and "stream_inv f r (inbox w)"
    and "buffer_in_window 0 r"
  shows "stream_inv f r' (inbox w') \<and> buffer_in_window 0 r' \<and>
    delivered f (expected_seq r) res (expected_seq r') \<and>
    card (dom (outOfOrderBuffer r')) \<le> RDT_RECEIVE_WINDOW"
  using cl_recv.next_stream [of r w res r' w' f] cl_recv.next_window [of r w res r' w']
    buffer_in_window_card [of r'] assms
  by (simp add: cl_receiveNext_def)

text \<open>
  C29: the acknowledgement of the last packet is withheld. While the client receives a stream with
  last chunk \<open>n\<close>, no call of \<^verbatim>\<open>receiveNext\<close> sends the ACK of \<open>n\<close>, however often the packet arrives;
  it stays pending for \<^verbatim>\<open>confirmReceive\<close>.
\<close>

theorem cl_final_ack_withheld:
  assumes "cl_receiveNext r w = Some (res, r', w')" and "stream_inv f r (inbox w)"
    and "last_chunk f n" and "final_guard n r" and "unat (expected_seq r) < 2 ^ 32 - 1"
  shows "final_guard n r' \<and>
    (\<exists>new. outbox w' = outbox w @ new \<and>
      (\<forall>p \<in> set new. fst p \<noteq> seal_control (cl_response_header n FLAG_ACK)))"
  using cl_receiveNext_final [OF assms] by (simp add: not_acked_def)

text \<open>
  C21: \<^verbatim>\<open>confirmReceive\<close> is where the sender learns the fate of the file. On a receiver that holds the
  last packet, accepting sends exactly its ACK and reports whether it went out; rejecting sends
  exactly a NAK and fails.
\<close>

theorem confirmReceive_outcome:
  assumes "udpSocketOk r" and "peerKnown r" and "final_guard n r" and "holds r n" and "sendOk w = []"
  shows "(let (ok, r', w') = confirmReceive n True r w
     in ok \<and> outbox w' = outbox w @ [(seal_control (cl_response_header n FLAG_ACK), peerAddr r)] \<and>
        \<not> finalAcknowledgementPending r') \<and>
    (let (ok, r', w') = confirmReceive n False r w
     in \<not> ok \<and> outbox w' = outbox w @ [(seal_control (cl_response_header n FLAG_NAK), peerAddr r)] \<and>
        \<not> finalAcknowledgementPending r')"
  using assms
  by (simp add: confirmReceive_def final_guard_def cl_sendAck_def cl_sendNak_def
      sendControlResponse_def sendto_def)

section \<open>Instances\<close>

definition cl_sample_receiver :: cl_receiver where
  "cl_sample_receiver = (cl_fresh_receiver True)\<lparr>peerAddr := sample_peer, peerKnown := True\<rparr>"

definition cl_sample_after :: cl_receiver where
  "cl_sample_after = cl_sample_receiver\<lparr>expected_seq := 1, finalAcknowledgementPending := True,
     pendingFinalSequence := 0\<rparr>"

text \<open>Any receiver at the start of a transfer takes the sample packet.\<close>

definition cl_at_start :: "cl_receiver \<Rightarrow> bool" where
  "cl_at_start r \<longleftrightarrow> udpSocketOk r \<and> (peerKnown r \<longrightarrow> peerAddr r = sample_peer) \<and> expected_seq r = 0 \<and>
     outOfOrderBuffer r = Map.empty \<and> pendingDatagram r = [] \<and> \<not> finalAcknowledgementPending r \<and>
     (expectedPeerIpSet r \<longrightarrow> expectedPeerIp r = sin_addr sample_peer)"

lemma cl_sample_takes:
  assumes "cl_at_start r" "aborts w = []" "inbox w = Received (sample_packet win) sample_peer # rest" "ticks w = []"
  shows "cl_receiveNext r w = Some (Some (0, [65], True), (learn_peer sample_peer r)\<lparr>expected_seq := 1,
     finalAcknowledgementPending := True, pendingFinalSequence := 0\<rparr>, w\<lparr>inbox := rest\<rparr>)"
proof -
  have "receive_round cl_handle_datagram d r w = Stop (Some (0, [65], True)) ((learn_peer sample_peer r)\<lparr>expected_seq := 1,
     finalAcknowledgementPending := True, pendingFinalSequence := 0\<rparr>) (w\<lparr>inbox := rest\<rparr>)" for d
    using receive_round_Received [OF assms(3) _ assms(2), of r cl_handle_datagram d] assms(1)
    by (auto simp: cl_at_start_def sample_length HEADER_SIZE_def MAX_PAYLOAD_def cl_handle_datagram_def cl_handle_data_def
        cl_accept_def sample_decode sample_header sample_payload learn_peer_def RDT_RECEIVE_WINDOW_def)
  with assms show ?thesis
    by (simp add: cl_receiveNext_def receive_next_def isAbortRequested_none steady_now_def cl_receive_loop.simps cl_at_start_def)
qed

lemma cl_sample_receiveNext:
  "cl_receiveNext cl_sample_receiver (idle_world [Received (sample_packet 4) sample_peer]) =
   Some (Some (0, [65], True), cl_sample_after, idle_world [])"
  using cl_sample_takes [of cl_sample_receiver "idle_world [Received (sample_packet 4) sample_peer]" 4 "[]"]
  by (simp add: cl_at_start_def cl_sample_receiver_def cl_fresh_receiver_def idle_world_def learn_peer_def cl_sample_after_def)

lemma cl_sample_invariants:
  "stream_inv sample_stream cl_sample_receiver (inbox (idle_world [Received (sample_packet 4) sample_peer]))"
  "buffer_in_window 0 cl_sample_receiver" "final_guard 0 cl_sample_receiver"
  "last_chunk sample_stream 0" "unat (expected_seq cl_sample_receiver) < 2 ^ 32 - 1"
  by (simp_all add: stream_inv_def buffer_stream_def cl_sample_receiver_def cl_fresh_receiver_def
      idle_world_def sample_carries buffer_in_window_def final_guard_def holds_def last_chunk_def
      sample_stream_def)

theorem cl_receiveNext_correct_witness:
  "delivered sample_stream 0 (Some (0, [65], True)) 1 \<and> buffer_in_window 0 cl_sample_after"
  using cl_receiveNext_correct [OF cl_sample_receiveNext cl_sample_invariants(1,2)]
  by (simp add: cl_sample_receiver_def cl_fresh_receiver_def cl_sample_after_def)

theorem cl_final_ack_withheld_witness:
  "final_guard 0 cl_sample_after \<and> outbox (idle_world []) = []"
  using cl_final_ack_withheld [OF cl_sample_receiveNext cl_sample_invariants(1,4,3,5)]
  by (simp add: idle_world_def)

theorem confirmReceive_outcome_witness:
  "let (ok, r', w') = confirmReceive 0 True cl_sample_after (idle_world [])
   in ok \<and> outbox w' = [(seal_control (cl_response_header 0 FLAG_ACK), sample_peer)]"
proof -
  have "udpSocketOk cl_sample_after" "peerKnown cl_sample_after" "final_guard 0 cl_sample_after"
    "holds cl_sample_after 0" "sendOk (idle_world []) = []"
    by (simp_all add: cl_sample_after_def cl_sample_receiver_def cl_fresh_receiver_def
        final_guard_def holds_def idle_world_def)
  from confirmReceive_outcome [OF this] show ?thesis
    by (simp add: idle_world_def cl_sample_after_def cl_sample_receiver_def split: prod.splits)
qed

end
