(* ===== verification/Data_Channel_Receive.thy ===== *)
theory Data_Channel_Receive
  imports Data_Channel_Send Server_Receiver Client_Receiver
begin

text \<open>
  Receiving a file over the data channel, from \<^verbatim>\<open>DataChannelSession::receiveFile\<close> of both sides. The loop is
  a function of the transport's operations and of the writer's; a locale states what it needs of
  them, with both sides as interpretations.
\<close>

section \<open>The loop\<close>

text \<open>How the loop ends; \<open>Complete n\<close> when chunk \<open>n\<close> was stored and is the final one.\<close>

datatype receive_end = Aborted | Lost | Refused | Complete u32

text \<open>
  \<open>reject\<close> is what the client does with the packet in hand before it gives up
  (\<^verbatim>\<open>confirmReceive(sequence, false)\<close>); the server does nothing.
\<close>

definition receive_file_round ::
  "('r \<Rightarrow> world \<Rightarrow> (chunk option \<times> 'r \<times> world) option) \<Rightarrow>
   (u32 \<Rightarrow> bytes \<Rightarrow> 'w \<Rightarrow> fsys \<Rightarrow> bool \<times> 'w \<times> fsys) \<Rightarrow> (u32 \<Rightarrow> 'r \<Rightarrow> world \<Rightarrow> 'r \<times> world) \<Rightarrow>
   TransferMode \<Rightarrow> bool \<Rightarrow> AsciiTranslator \<Rightarrow> 'w \<Rightarrow> fsys \<Rightarrow> 'r \<Rightarrow> world \<Rightarrow>
   ((receive_end \<times> 'w \<times> fsys \<times> 'r \<times> world) + (AsciiTranslator \<times> 'w \<times> fsys \<times> 'r \<times> world)) option" where
  "receive_file_round receiveNext appendChunk reject mode installed translator wr F r w =
     (let (ab, w1) = isAbortRequested installed w
      in if ab then Some (Inl (Aborted, wr, F, r, w1))
         else case receiveNext r w1 of
             None \<Rightarrow> None
           | Some (None, r2, w2) \<Rightarrow> Some (Inl (Lost, wr, F, r2, w2))
           | Some (Some (sequence, data, isFinal), r2, w2) \<Rightarrow>
               (let (ab2, w3) = isAbortRequested installed w2
                in if ab2 then (case reject sequence r2 w3 of (r3, w4) \<Rightarrow> Some (Inl (Aborted, wr, F, r3, w4)))
                   else let (decoded, t) = (if mode = ASCII then ascii_decode data translator
                                            else (data, translator));
                            (stored, wr2, F2) = appendChunk sequence decoded wr F
                     in if \<not> stored
                        then (case reject sequence r2 w3 of (r3, w4) \<Rightarrow> Some (Inl (Refused, wr2, F2, r3, w4)))
                        else if isFinal then Some (Inl (Complete sequence, wr2, F2, r2, w3))
                        else Some (Inr (t, wr2, F2, r2, w3))))"

partial_function (option) receive_file_loop ::
  "('r \<Rightarrow> world \<Rightarrow> (chunk option \<times> 'r \<times> world) option) \<Rightarrow>
   (u32 \<Rightarrow> bytes \<Rightarrow> 'w \<Rightarrow> fsys \<Rightarrow> bool \<times> 'w \<times> fsys) \<Rightarrow> (u32 \<Rightarrow> 'r \<Rightarrow> world \<Rightarrow> 'r \<times> world) \<Rightarrow>
   TransferMode \<Rightarrow> bool \<Rightarrow> AsciiTranslator \<Rightarrow> 'w \<Rightarrow> fsys \<Rightarrow> 'r \<Rightarrow> world \<Rightarrow>
   (receive_end \<times> 'w \<times> fsys \<times> 'r \<times> world) option" where
  "receive_file_loop receiveNext appendChunk reject mode installed translator wr F r w =
     (case receive_file_round receiveNext appendChunk reject mode installed translator wr F r w of
        None \<Rightarrow> None
      | Some (Inl res) \<Rightarrow> Some res
      | Some (Inr (t, wr2, F2, r2, w2)) \<Rightarrow>
          receive_file_loop receiveNext appendChunk reject mode installed t wr2 F2 r2 w2)"

text \<open>The rule of the loop: an invariant of the rounds gives the claim where it ends.\<close>

lemma receive_file_loop_rule:
  assumes "receive_file_loop rn ap rj mode b t wr F r w = Some res" "I t wr F r w"
    and "\<And>t wr F r w t2 wr2 F2 r2 w2. I t wr F r w \<Longrightarrow>
      receive_file_round rn ap rj mode b t wr F r w = Some (Inr (t2, wr2, F2, r2, w2)) \<Longrightarrow> I t2 wr2 F2 r2 w2"
    and "\<And>t wr F r w. I t wr F r w \<Longrightarrow>
      receive_file_round rn ap rj mode b t wr F r w = Some (Inl res) \<Longrightarrow> Q"
  shows Q
proof -
  have "rn' = rn \<Longrightarrow> ap' = ap \<Longrightarrow> rj' = rj \<Longrightarrow> mode' = mode \<Longrightarrow> b' = b \<Longrightarrow> res' = res \<Longrightarrow> I t wr F r w \<Longrightarrow> Q"
    if "receive_file_loop rn' ap' rj' mode' b' t wr F r w = Some res'" for rn' ap' rj' mode' b' t wr F r w res'
    using that
  proof (induction rule: receive_file_loop.raw_induct [rotated, consumes 1, case_names step])
    case (step loop rn' ap' rj' mode' b' t wr F r w res')
    from step.prems(1-6) step.hyps obtain x
      where x: "receive_file_round rn ap rj mode b t wr F r w = Some x" by (auto split: option.splits)
    show ?case
    proof (cases x)
      case (Inl y)
      with step.prems(1-6) step.hyps x have "y = res" by simp
      with assms(4) [OF step.prems(7)] x Inl show ?thesis by simp
    next
      case (Inr y)
      obtain t2 wr2 F2 r2 w2 where y: "y = (t2, wr2, F2, r2, w2)" by (cases y) auto
      have "loop rn' ap' rj' mode' b' t2 wr2 F2 r2 w2 = Some res'"
        using step.prems(1-6) step.hyps x Inr y by simp
      from step.IH [OF this step.prems(1-6)] assms(3) [OF step.prems(7)] x Inr y show ?thesis by simp
    qed
  qed
  from this [OF assms(1) refl refl refl refl refl refl assms(2)] show ?thesis .
qed

lemma receive_file_roundE:
  assumes "receive_file_round rn ap rj mode b t wr F r w = Some x"
  obtains (early) w1 where "outbox w1 = outbox w" "inbox w1 = inbox w" "x = Inl (Aborted, wr, F, r, w1)"
  | (lost) w1 r2 w2 where "outbox w1 = outbox w" "inbox w1 = inbox w" "rn r w1 = Some (None, r2, w2)"
      "x = Inl (Lost, wr, F, r2, w2)"
  | (late) w1 n d fin r2 w2 w3 r3 w4 where "outbox w1 = outbox w" "inbox w1 = inbox w"
      "rn r w1 = Some (Some (n, d, fin), r2, w2)" "outbox w3 = outbox w2" "inbox w3 = inbox w2"
      "rj n r2 w3 = (r3, w4)" "x = Inl (Aborted, wr, F, r3, w4)"
  | (refused) w1 n d d' fin r2 w2 w3 wr2 F2 r3 w4 where "outbox w1 = outbox w" "inbox w1 = inbox w"
      "rn r w1 = Some (Some (n, d, fin), r2, w2)" "outbox w3 = outbox w2" "inbox w3 = inbox w2"
      "ap n d' wr F = (False, wr2, F2)" "rj n r2 w3 = (r3, w4)" "x = Inl (Refused, wr2, F2, r3, w4)"
  | (stored) w1 n d fin r2 w2 w3 d' t2 wr2 F2 where "outbox w1 = outbox w" "inbox w1 = inbox w"
      "rn r w1 = Some (Some (n, d, fin), r2, w2)" "outbox w3 = outbox w2" "inbox w3 = inbox w2"
      "(d', t2) = (if mode = ASCII then ascii_decode d t else (d, t))"
      "ap n d' wr F = (True, wr2, F2)"
      "x = (if fin then Inl (Complete n, wr2, F2, r2, w3) else Inr (t2, wr2, F2, r2, w3))"
proof -
  obtain ab w1 where ab: "isAbortRequested b w = (ab, w1)" by fastforce
  have w1: "outbox w1 = outbox w" "inbox w1 = inbox w" using isAbortRequested_frame [of b w] ab by simp_all
  show thesis
  proof (cases ab)
    case True
    show thesis by (rule early [OF w1]) (use True ab assms in \<open>simp add: receive_file_round_def\<close>)
  next
    case go: False
    obtain res r2 w2 where rn: "rn r w1 = Some (res, r2, w2)"
      using assms ab go by (auto simp: receive_file_round_def split: option.splits)
    show thesis
    proof (cases res)
      case None
      show thesis
        by (rule lost [OF w1]) (use None rn go ab assms in \<open>auto simp: receive_file_round_def\<close>)
    next
      case (Some c)
      obtain n d fin where c: "c = (n, d, fin)" by (cases c) auto
      have rn2: "rn r w1 = Some (Some (n, d, fin), r2, w2)" using rn Some c by simp
      obtain ab2 w3 where ab2: "isAbortRequested b w2 = (ab2, w3)" by fastforce
      have w3: "outbox w3 = outbox w2" "inbox w3 = inbox w2" using isAbortRequested_frame [of b w2] ab2 by simp_all
      obtain r3 w4 where rj: "rj n r2 w3 = (r3, w4)" by fastforce
      obtain d' t2 where dt: "(if mode = ASCII then ascii_decode d t else (d, t)) = (d', t2)" by fastforce
      obtain ok wr2 F2 where ap: "ap n d' wr F = (ok, wr2, F2)" using prod_cases3 by blast
      have eq: "receive_file_round rn ap rj mode b t wr F r w =
          Some (if ab2 then Inl (Aborted, wr, F, r3, w4) else if \<not> ok then Inl (Refused, wr2, F2, r3, w4)
                else if fin then Inl (Complete n, wr2, F2, r2, w3) else Inr (t2, wr2, F2, r2, w3))"
        unfolding receive_file_round_def ab prod.case Let_def rn2 option.case ab2 rj dt ap using go by simp
      consider "ab2" | "\<not> ab2" "\<not> ok" | "\<not> ab2" "ok" by blast
      then show thesis
      proof cases
        case 1
        show thesis by (rule late [OF w1 rn2 w3 rj]) (use 1 eq assms in simp)
      next
        case 2
        show thesis by (rule refused [OF w1 rn2 w3 _ rj]) (use 2 ap eq assms in simp_all)
      next
        case 3
        show thesis by (rule stored [OF w1 rn2 w3 dt [symmetric]]) (use 3 ap eq assms in simp_all)
      qed
    qed
  qed
qed

section \<open>receiveFile of the server\<close>

definition sv_receiveFile ::
  "(path \<Rightarrow> path option) \<Rightarrow> bool \<Rightarrow> path \<Rightarrow> TransferMode \<Rightarrow> receiver \<Rightarrow> world \<Rightarrow> fsys \<Rightarrow>
   (bool \<times> receiver \<times> world \<times> fsys) option" where
  "sv_receiveFile absolute installed destPath mode r w F =
     (let (wr, F1) = sv_writer_new absolute destPath F
      in if \<not> valid wr then Some (False, r, w, snd (writer_abort wr F1))
         else case receive_file_loop sv_receiveNext sv_appendChunk (\<lambda>n r w. (r, w)) mode installed
                     new_translator wr F1 r w of
             None \<Rightarrow> None
           | Some (Complete n, wr2, F2, r2, w2) \<Rightarrow>
               (let (ab, w3) = isAbortRequested installed w2;
                    (ok, wr3, F3) = (if ab then (False, wr2, F2) else sv_commit wr2 F2)
                in Some (ok, r2, w3, snd (writer_abort wr3 F3)))
           | Some (_, wr2, F2, r2, w2) \<Rightarrow> Some (False, r2, w2, snd (writer_abort wr2 F2)))"

section \<open>receiveFile of the client\<close>

text \<open>The result carries the text of \<^verbatim>\<open>*failureReason\<close>, empty on success.\<close>

definition cl_reject :: "u32 \<Rightarrow> cl_receiver \<Rightarrow> world \<Rightarrow> cl_receiver \<times> world" where
  "cl_reject sequence r w = snd (confirmReceive sequence False r w)"

definition aborted_text :: string where "aborted_text = ''Download was aborted.''"
definition lost_text :: string where
  "lost_text = ''The data connection closed or timed out before the final packet.''"
definition unconfirmed_text :: string where
  "unconfirmed_text = ''The file was saved, but the final acknowledgement could not be sent.''"

definition cl_receiveFile ::
  "dest_probe \<Rightarrow> bool \<Rightarrow> path \<Rightarrow> TransferMode \<Rightarrow> cl_receiver \<Rightarrow> world \<Rightarrow> fsys \<Rightarrow>
   (bool \<times> string \<times> cl_receiver \<times> world \<times> fsys) option" where
  "cl_receiveFile os installed destination mode r w F =
     (let (wr, F1) = cl_writer_new os destination F
      in if \<not> valid wr then Some (False, failureReason wr, r, w, snd (cl_writer_abort wr F1))
         else case receive_file_loop cl_receiveNext cl_appendChunk cl_reject mode installed
                     new_translator wr F1 r w of
             None \<Rightarrow> None
           | Some (Aborted, wr2, F2, r2, w2) \<Rightarrow> Some (False, aborted_text, r2, w2, snd (cl_writer_abort wr2 F2))
           | Some (Lost, wr2, F2, r2, w2) \<Rightarrow> Some (False, lost_text, r2, w2, snd (cl_writer_abort wr2 F2))
           | Some (Refused, wr2, F2, r2, w2) \<Rightarrow>
               Some (False, failureReason wr2, r2, w2, snd (cl_writer_abort wr2 F2))
           | Some (Complete n, wr2, F2, r2, w2) \<Rightarrow>
               (let (ab, w3) = isAbortRequested installed w2;
                    (commitOk, wr3, F3) = (if ab then (False, wr2, F2) else cl_commit wr2 F2);
                    (confirmed, r3, w4) = confirmReceive n commitOk r2 w3;
                    F4 = snd (cl_writer_abort wr3 F3)
                in if \<not> commitOk
                   then let (ab2, w5) = isAbortRequested installed w4
                     in Some (False, (if ab2 then aborted_text else failureReason wr3), r3, w5, F4)
                   else if \<not> confirmed then Some (False, unconfirmed_text, r3, w4, F4)
                   else Some (True, [], r3, w4, F4)))"

section \<open>Where the loop stands\<close>

text \<open>Chunks \<open>0\<close> to \<open>k - 1\<close> of the content \<open>bs\<close> are decoded and stored.\<close>

definition receiving ::
  "TransferMode \<Rightarrow> bytes \<Rightarrow> nat \<Rightarrow> AsciiTranslator \<Rightarrow> 'a writer_scheme \<Rightarrow> fsys \<Rightarrow> u32 \<Rightarrow> bool" where
  "receiving mode bs k t wr F expected \<longleftrightarrow>
     expected = of_nat k \<and> (k = 0 \<or> MAX_PAYLOAD * k < length bs) \<and>
     writing wr F (wire_content mode (take (MAX_PAYLOAD * k) bs)) (of_nat k) \<and>
     decodeCarryCR t = (mode = ASCII \<and> snd (normalizeToCRLF False (take (MAX_PAYLOAD * k) bs)))"

lemma receiving_small:
  assumes "receiving mode bs k t wr F e" "fits bs"
  shows "unat e = k" "unat e < 2 ^ 32 - 1"
proof -
  have "k < 2 ^ 32 - 1" using assms by (auto simp: receiving_def fits_def MAX_PAYLOAD_def)
  with assms(1) show "unat e = k" "unat e < 2 ^ 32 - 1" by (simp_all add: receiving_def unat_of_nat_u32)
qed

text \<open>One more chunk decoded.\<close>

lemma decode_next:
  assumes "decodeCarryCR t = (mode = ASCII \<and> snd (normalizeToCRLF False pre))"
    "(d', t2) = (if mode = ASCII then ascii_decode d t else (d, t))"
  shows "wire_content mode (pre @ d) = wire_content mode pre @ d'"
    "decodeCarryCR t2 = (mode = ASCII \<and> snd (normalizeToCRLF False (pre @ d)))"
  using assms by (cases mode; simp add: wire_content_def normalize_append ascii_decode_def split_beta)+

section \<open>The contract of the loop\<close>

text \<open>
  \<open>link f r w r' w'\<close> is what a side guarantees between two states while it receives the stream \<open>f\<close>,
  \<open>over f r w r' w'\<close> what is left of it once it has rejected a packet.
\<close>

locale file_receiver = chunk_writer append commit abort
  for append :: "u32 \<Rightarrow> bytes \<Rightarrow> 'a writer_scheme \<Rightarrow> fsys \<Rightarrow> bool \<times> 'a writer_scheme \<times> fsys"
    and commit :: "'a writer_scheme \<Rightarrow> fsys \<Rightarrow> bool \<times> 'a writer_scheme \<times> fsys"
    and abort :: "'a writer_scheme \<Rightarrow> fsys \<Rightarrow> 'a writer_scheme \<times> fsys" +
  fixes receiveNext :: "'b receiver_scheme \<Rightarrow> world \<Rightarrow> (chunk option \<times> 'b receiver_scheme \<times> world) option"
    and reject :: "u32 \<Rightarrow> 'b receiver_scheme \<Rightarrow> world \<Rightarrow> 'b receiver_scheme \<times> world"
    and link over :: "(nat \<Rightarrow> (bytes \<times> bool) option) \<Rightarrow> 'b receiver_scheme \<Rightarrow> world \<Rightarrow> 'b receiver_scheme \<Rightarrow> world \<Rightarrow> bool"
  assumes next_delivers: "receiveNext r w = Some (res, r', w') \<Longrightarrow> stream_inv f r (inbox w) \<Longrightarrow>
      stream_inv f r' (inbox w') \<and> delivered f (expected_seq r) res (expected_seq r')"
    and link_quiet: "outbox w' = outbox w \<Longrightarrow> link f r w r w'"
    and link_trans: "link f r w r1 w1 \<Longrightarrow> link f r1 w1 r2 w2 \<Longrightarrow> link f r w r2 w2"
    and link_next: "receiveNext r w = Some (res, r', w') \<Longrightarrow> stream_inv f r (inbox w) \<Longrightarrow>
      unat (expected_seq r) < 2 ^ 32 - 1 \<Longrightarrow> link f r w r' w'"
    and link_over: "link f r w r' w' \<Longrightarrow> over f r w r' w'"
    and link_reject: "link f r w r1 w1 \<Longrightarrow> reject n r1 w1 = (r2, w2) \<Longrightarrow> over f r w r2 w2"
begin

lemma append_step:
  assumes "append n d wr1 F1 = (ok, wr2, F2)"
    "destinationPath wr1 = destinationPath wr \<and> temporaryPath wr1 = temporaryPath wr \<and>
      (committed wr1 \<longleftrightarrow> committed wr) \<and> same_except (temporaryPath wr) F F1"
  shows "destinationPath wr2 = destinationPath wr \<and> temporaryPath wr2 = temporaryPath wr \<and>
    (committed wr2 \<longleftrightarrow> committed wr) \<and> same_except (temporaryPath wr) F F2"
  using append_paths [OF assms(1)] assms(2) same_except_trans [of "temporaryPath wr" F F1 F2] by simp

text \<open>Without any assumption on the network: only the temporary file changes.\<close>

lemma loop_files:
  assumes "receive_file_loop receiveNext append reject mode b t wr F r w = Some (oc, wr', F', r', w')"
  shows "destinationPath wr' = destinationPath wr \<and> temporaryPath wr' = temporaryPath wr \<and>
    (committed wr' \<longleftrightarrow> committed wr) \<and> same_except (temporaryPath wr) F F'"
proof (rule receive_file_loop_rule [OF assms, where
      I = "\<lambda>t wr1 F1 r w. destinationPath wr1 = destinationPath wr \<and> temporaryPath wr1 = temporaryPath wr \<and>
        (committed wr1 \<longleftrightarrow> committed wr) \<and> same_except (temporaryPath wr) F F1"], goal_cases)
  case (2 t wr1 F1 r w t2 wr2 F2 r2 w2)
  from 2(2) show ?case
  proof (cases rule: receive_file_roundE)
    case (stored w1 n d fin r3 w3 w4 d' t3 wr3 F3)
    then have "wr2 = wr3" "F2 = F3" by (simp_all split: if_splits)
    with stored(7) show ?thesis using 2(1) append_step by metis
  qed simp_all
next
  case (3 t wr1 F1 r w)
  from 3(2) show ?case
  proof (cases rule: receive_file_roundE)
    case (stored w1 n d fin r3 w3 w4 d' t3 wr3 F3)
    then have "wr' = wr3" "F' = F3" by (simp_all split: if_splits)
    with stored(7) show ?thesis using 3(1) append_step by metis
  next
    case (refused w1 n d d' fin r2 w2 w3 wr2 F2 r3 w4)
    then have "wr' = wr2" "F' = F2" by simp_all
    with refused(6) show ?thesis using 3(1) append_step by metis
  qed (use 3(1) in simp_all)
qed simp

lemma store_chunk:
  assumes "receiving mode bs k t wr F e" "fits bs" "delivered (file_stream bs) e (Some (n, d, fin)) e'"
    "(d', t2) = (if mode = ASCII then ascii_decode d t else (d, t))" "append n d' wr F = (True, wr2, F2)"
  shows "e' = n + 1 \<and> file_stream bs (unat n) = Some (d, fin) \<and>
    (if fin then writing wr2 F2 (wire_content mode bs) (n + 1) else receiving mode bs (k + 1) t2 wr2 F2 e')"
proof -
  let ?pre = "take (MAX_PAYLOAD * k) bs"
  have n: "n = e" "e' = n + 1" and chunk: "file_stream bs k = Some (d, fin)" "unat n = k"
    using assms(3) receiving_small(1) [OF assms(1,2)] by (auto simp: delivered_def)
  then have d: "d = take MAX_PAYLOAD (drop (MAX_PAYLOAD * k) bs)" "fin \<longleftrightarrow> length bs \<le> MAX_PAYLOAD * (k + 1)"
    by (simp_all add: file_stream_def split: if_splits)
  have pre: "take (MAX_PAYLOAD * (k + 1)) bs = ?pre @ d"
    using d(1) take_add [of "MAX_PAYLOAD * k" MAX_PAYLOAD bs] by (simp add: add.commute)
  have r: "e = of_nat k" "writing wr F (wire_content mode ?pre) (of_nat k)"
    "decodeCarryCR t = (mode = ASCII \<and> snd (normalizeToCRLF False ?pre))"
    using assms(1) by (simp_all add: receiving_def)
  note dec = decode_next [OF r(3) assms(4)]
  have wr: "writing wr2 F2 (wire_content mode (?pre @ d)) (n + 1)"
    using append_writing [OF assms(5) r(2)] dec(1) r(1) n(1) by simp
  show ?thesis
  proof (cases fin)
    case True
    then have "?pre @ d = bs" using pre d(2) by simp
    with True wr n chunk show ?thesis by simp
  next
    case False
    then have "receiving mode bs (k + 1) t2 wr2 F2 e'"
      using wr dec(2) n r(1) d(2) pre by (simp add: receiving_def add.commute)
    with False n chunk show ?thesis by simp
  qed
qed

lemma link_received:
  assumes "link f r w r1 w1" "outbox v = outbox w1" "receiveNext r1 v = Some (res, r2, v2)"
    "stream_inv f r1 (inbox v)" "unat (expected_seq r1) < 2 ^ 32 - 1" "outbox v3 = outbox v2"
  shows "link f r w r2 v3"
  using assms link_trans [OF assms(1) link_trans [OF link_quiet link_trans [OF link_next link_quiet]]] by blast

lemma loop_stream:
  assumes "receive_file_loop receiveNext append reject mode b new_translator wr F r w = Some (oc, wr', F', r', w')"
    and "stream_inv (file_stream bs) r (inbox w)" "fits bs" "expected_seq r = 0" "writing wr F [] 0"
  shows "over (file_stream bs) r w r' w' \<and>
    (\<forall>n. oc = Complete n \<longrightarrow> link (file_stream bs) r w r' w' \<and> (\<exists>d. file_stream bs (unat n) = Some (d, True)) \<and> expected_seq r' = n + 1 \<and>
      unat n < 2 ^ 32 - 1 \<and> writing wr' F' (wire_content mode bs) (n + 1))"
proof (rule receive_file_loop_rule [OF assms(1), where
      I = "\<lambda>t wr1 F1 r1 w1. (\<exists>k. receiving mode bs k t wr1 F1 (expected_seq r1)) \<and>
        stream_inv (file_stream bs) r1 (inbox w1) \<and> link (file_stream bs) r w r1 w1"], goal_cases)
  case 1
  have "receiving mode bs 0 new_translator wr F (expected_seq r)"
    using assms(4,5) by (simp add: receiving_def new_translator_def wire_content_def split: TransferMode.splits)
  with assms(2) link_quiet show ?case by blast
next
  case (2 t wr1 F1 r1 w1 t2 wr2 F2 r2 w2)
  then obtain k where k: "receiving mode bs k t wr1 F1 (expected_seq r1)" by blast
  from 2(2) show ?case
  proof (cases rule: receive_file_roundE)
    case (stored v n d fin r3 v2 v3 d' t3 wr3 F3)
    have st: "stream_inv (file_stream bs) r1 (inbox v)" using stored(2) 2(1) by simp
    note nx = next_delivers [OF stored(3) st]
    note sc = store_chunk [OF k assms(3) conjunct2 [OF nx] stored(6,7)]
    have "link (file_stream bs) r w r3 v3"
      using link_received [OF _ stored(1,3) st _ stored(4)] receiving_small [OF k assms(3)] 2(1) by blast
    with stored nx sc show ?thesis by (cases fin) auto
  qed simp_all
next
  case (3 t wr1 F1 r1 w1)
  then obtain k where k: "receiving mode bs k t wr1 F1 (expected_seq r1)" by blast
  note small = receiving_small(2) [OF k assms(3)]
  from 3(2) show ?case
  proof (cases rule: receive_file_roundE)
    case (early v)
    then show ?thesis using 3(1) link_trans link_quiet link_over by blast
  next
    case (lost v r2 v2)
    have st: "stream_inv (file_stream bs) r1 (inbox v)" using lost(2) 3(1) by simp
    from link_received [OF _ lost(1,3) st small refl] 3(1) lost(4) show ?thesis using link_over by blast
  next
    case (late v n d fin r2 v2 v3 r3 v4)
    have st: "stream_inv (file_stream bs) r1 (inbox v)" using late(2) 3(1) by simp
    have "link (file_stream bs) r w r2 v3" using link_received [OF _ late(1,3) st small late(4)] 3(1) by blast
    with link_reject [OF _ late(6)] late(7) show ?thesis by blast
  next
    case (refused v n d d' fin r2 v2 v3 wr2 F2 r3 v4)
    have st: "stream_inv (file_stream bs) r1 (inbox v)" using refused(2) 3(1) by simp
    have "link (file_stream bs) r w r2 v3" using link_received [OF _ refused(1,3) st small refused(4)] 3(1) by blast
    with link_reject [OF _ refused(7)] refused(8) show ?thesis by blast
  next
    case (stored v n d fin r3 v2 v3 d' t3 wr3 F3)
    have st: "stream_inv (file_stream bs) r1 (inbox v)" using stored(2) 3(1) by simp
    note nx = next_delivers [OF stored(3) st]
    note sc = store_chunk [OF k assms(3) conjunct2 [OF nx] stored(6,7)]
    have lk: "link (file_stream bs) r w r3 v3" using link_received [OF _ stored(1,3) st small stored(4)] 3(1) by blast
    have "n = expected_seq r1" using nx by (simp add: delivered_def)
    with stored(8) lk link_over [OF lk] sc small show ?thesis by (cases fin) auto
  qed
qed

lemma loop_writing:
  assumes "receive_file_loop receiveNext append reject mode b t wr F r w = Some (Complete n, wr', F', r', w')"
    "writing wr F x m"
  shows "\<exists>x m. writing wr' F' x m"
proof (rule receive_file_loop_rule [OF assms(1), where I = "\<lambda>t wr F r w. \<exists>x m. writing wr F x m"], goal_cases)
  case (2 t wr1 F1 r1 w1 t2 wr2 F2 r2 w2)
  from 2(2) show ?case
  proof (cases rule: receive_file_roundE)
    case (stored v n d fin r3 v2 v3 d' t3 wr3 F3)
    then have "wr2 = wr3" "F2 = F3" by (simp_all split: if_splits)
    with 2(1) append_writing [OF stored(7)] show ?thesis by blast
  qed simp_all
next
  case (3 t wr1 F1 r1 w1)
  from 3(2) show ?case
  proof (cases rule: receive_file_roundE)
    case (stored v n' d fin r3 v2 v3 d' t3 wr3 F3)
    then have "wr' = wr3" "F' = F3" by (simp_all split: if_splits)
    with 3(1) append_writing [OF stored(7)] show ?thesis by blast
  qed simp_all
qed (use assms(2) in blast)

text \<open>
  The end of \<^verbatim>\<open>receiveFile\<close>: the commit if the loop completed and nobody aborted, then the destructor of
  the writer. The destination holds what was written, or is untouched; other files are untouched.
\<close>

lemma finish_files:
  assumes "receive_file_loop receiveNext append reject mode b t wr F r w = Some (oc, wr2, F2, r2, w2)"
    "writing wr F [] 0" "(case oc of Complete n \<Rightarrow> if ab then (False, wr2, F2) else commit wr2 F2
      | _ \<Rightarrow> (False, wr2, F2)) = (ok, wr3, F3)" "abort wr3 F3 = (wr4, F4)"
  shows "(p \<noteq> temporaryPath wr \<and> p \<noteq> destinationPath wr \<longrightarrow> files F4 p = files F p) \<and>
    files F4 (destinationPath wr) =
      (if ok then files F2 (temporaryPath wr2) else files F (destinationPath wr))"
proof -
  note lf = loop_files [OF assms(1)]
  have wr: "\<not> committed wr" "temporaryPath wr \<noteq> destinationPath wr" using assms(2) by (simp_all add: writing_def)
  have gone: ?thesis if "\<not> ok" "temporaryPath wr3 = temporaryPath wr" "\<not> committed wr3" "files F3 = files F2"
    using that abort_open [OF assms(4)] lf wr by (auto simp: same_except_def)
  show ?thesis
  proof (cases "\<exists>n. oc = Complete n \<and> \<not> ab")
    case False
    then have "ok = False" "wr3 = wr2" "F3 = F2" using assms(3) by (auto split: receive_end.splits)
    with gone lf wr show ?thesis by simp
  next
    case True
    then obtain n where n: "oc = Complete n" "\<not> ab" by blast
    obtain x m where x: "writing wr2 F2 x m" using loop_writing [OF assms(1) [unfolded n(1)] assms(2)] by blast
    have cm: "commit wr2 F2 = (ok, wr3, F3)" using assms(3) n by simp
    show ?thesis
    proof (cases ok)
      case False
      with commit_failed [of wr2 F2 wr3 F3, OF _ x] cm gone lf wr show ?thesis by simp
    next
      case True
      then have c: "committed wr3" "files F3 = (files F2)(temporaryPath wr2 := None, destinationPath wr2 \<mapsto> x)"
        using commit_ok [of wr2 F2 wr3 F3, OF _ x] cm by simp_all
      have "files F4 = files F3" using abort_committed [OF assms(4) c(1)] .
      with c(2) True lf wr x show ?thesis by (simp add: same_except_def writing_def)
    qed
  qed
qed

end

lemma file_stream_True:
  assumes "file_stream bs m = Some (d, True)"
  shows "(m = 0 \<or> MAX_PAYLOAD * m < length bs) \<and> length bs \<le> MAX_PAYLOAD * (m + 1)"
  using assms by (simp add: file_stream_def split: if_splits)

lemma file_stream_last:
  assumes "file_stream bs (unat n) = Some (d, True)"
  shows "last_chunk (file_stream bs) n"
proof -
  have "m = unat n" if "file_stream bs m = Some (d', True)" for m d'
    using file_stream_True [OF that] file_stream_True [OF assms] by (simp add: MAX_PAYLOAD_def) linarith
  with assms show ?thesis unfolding last_chunk_def by blast
qed

interpretation sv_file: file_receiver sv_appendChunk sv_commit writer_abort sv_receiveNext "\<lambda>n r w. (r, w)"
  "\<lambda>f. acks_sound sv_ack" "\<lambda>f. acks_sound sv_ack"
proof
  fix f :: "nat \<Rightarrow> (bytes \<times> bool) option" and r r' r1 r2 :: receiver and w w' w1 w2 res n
  show "stream_inv f r' (inbox w') \<and> delivered f (expected_seq r) res (expected_seq r')"
    if "sv_receiveNext r w = Some (res, r', w')" "stream_inv f r (inbox w)"
    using sv_recv.next_stream that by (simp add: sv_receiveNext_def)
  show "acks_sound sv_ack r w r' w'"
    if "sv_receiveNext r w = Some (res, r', w')" "unat (expected_seq r) < 2 ^ 32 - 1"
    using sv_recv.next_acks that by (simp add: sv_receiveNext_def)
  show "acks_sound sv_ack r w r w'" if "outbox w' = outbox w" using that by (simp add: acks_sound_refl)
  show "acks_sound sv_ack r w r2 w2" if "acks_sound sv_ack r w r1 w1" "acks_sound sv_ack r1 w1 r2 w2"
    using that by (rule acks_sound_trans)
qed auto

text \<open>Between two states of the client it sends only responses, and does not acknowledge the last packet.\<close>

definition responses :: "world \<Rightarrow> world \<Rightarrow> bool" where
  "responses w w' \<longleftrightarrow> (\<exists>new. outbox w' = outbox w @ new \<and>
     (\<forall>p \<in> set new. \<exists>s. fst p = seal_control (cl_response_header s FLAG_ACK) \<or>
        fst p = seal_control (cl_response_header s FLAG_NAK)))"

lemma responses_refl: "outbox w' = outbox w \<Longrightarrow> responses w w'"
  by (simp add: responses_def)

lemma responses_trans: "responses w w1 \<Longrightarrow> responses w1 w2 \<Longrightarrow> responses w w2"
  by (auto simp: responses_def)

lemma acks_sound_responses: "acks_sound cl_ack r w r' w' \<Longrightarrow> responses w w'"
  unfolding acks_sound_def acks_held_def responses_def by metis

lemma response_sent:
  assumes "sendto (seal_control (cl_response_header n f)) a w = (sent, w')" "f = FLAG_ACK \<or> f = FLAG_NAK"
  shows "responses w w'"
  using outbox_sendto [of "seal_control (cl_response_header n f)" a w] assms
  by (auto simp: responses_def split: if_splits)

lemma confirm_responses:
  assumes "confirmReceive n ok r w = (x, r', w')"
  shows "responses w w'"
proof -
  obtain s1 w1 where nak: "sendto (seal_control (cl_response_header n FLAG_NAK)) (peerAddr r) w = (s1, w1)" by fastforce
  obtain s2 w2 where ack: "sendto (seal_control (cl_response_header n FLAG_ACK)) (peerAddr r) w = (s2, w2)" by fastforce
  have "w' = w \<or> w' = w1 \<or> w' = w2" using assms nak ack
    by (auto simp: confirmReceive_def cl_sendNak_def cl_sendAck_def sendControlResponse_def Let_def split: if_splits)
  with response_sent [OF nak] response_sent [OF ack] responses_refl show ?thesis by blast
qed

definition cl_over :: "(nat \<Rightarrow> (bytes \<times> bool) option) \<Rightarrow> cl_receiver \<Rightarrow> world \<Rightarrow> cl_receiver \<Rightarrow> world \<Rightarrow> bool" where
  "cl_over f r w r' w' \<longleftrightarrow> responses w w' \<and> (\<forall>n. last_chunk f n \<and> final_guard n r \<longrightarrow> not_acked n w w')"

definition cl_link :: "(nat \<Rightarrow> (bytes \<times> bool) option) \<Rightarrow> cl_receiver \<Rightarrow> world \<Rightarrow> cl_receiver \<Rightarrow> world \<Rightarrow> bool" where
  "cl_link f r w r' w' \<longleftrightarrow> responses w w' \<and>
     (\<forall>n. last_chunk f n \<and> final_guard n r \<longrightarrow> final_guard n r' \<and> not_acked n w w')"

lemma cl_nak_not_ack: "seal_control (cl_response_header m FLAG_NAK) \<noteq> cl_ack n"
  by (auto dest!: seal_control_inject simp: cl_response_header_def zero_header_def flag_defs)

lemma cl_reject_not_acked:
  assumes "cl_reject m r w = (r', w')"
  shows "not_acked n w w'"
  using assms cl_nak_not_ack [of m n]
  by (auto simp: cl_reject_def confirmReceive_def cl_sendNak_def sendControlResponse_def Let_def not_acked_def
      outbox_sendto split: if_splits)

interpretation cl_file: file_receiver cl_appendChunk cl_commit cl_writer_abort cl_receiveNext cl_reject cl_link cl_over
proof
  fix f :: "nat \<Rightarrow> (bytes \<times> bool) option" and r r' r1 r2 :: cl_receiver and w w' w1 w2 res n
  show "stream_inv f r' (inbox w') \<and> delivered f (expected_seq r) res (expected_seq r')"
    if "cl_receiveNext r w = Some (res, r', w')" "stream_inv f r (inbox w)"
    using cl_recv.next_stream that by (simp add: cl_receiveNext_def)
  show "cl_link f r w r' w'"
    if "cl_receiveNext r w = Some (res, r', w')" "stream_inv f r (inbox w)" "unat (expected_seq r) < 2 ^ 32 - 1"
    using cl_receiveNext_final [OF that(1,2)] that(3)
      acks_sound_responses [OF cl_recv.next_acks [OF that(1) [unfolded cl_receiveNext_def] that(3)]]
    by (simp add: cl_link_def)
  show "cl_over f r w r2 w2" if "cl_link f r w r1 w1" "cl_reject n r1 w1 = (r2, w2)"
  proof -
    have "responses w1 w2" using that(2) confirm_responses [of n False r1 w1 _ r2 w2]
      by (cases "confirmReceive n False r1 w1") (simp add: cl_reject_def)
    with that cl_reject_not_acked [OF that(2)] not_acked_trans responses_trans show ?thesis
      unfolding cl_link_def cl_over_def by blast
  qed
  show "cl_link f r w r2 w2" if "cl_link f r w r1 w1" "cl_link f r1 w1 r2 w2"
    using that not_acked_trans responses_trans unfolding cl_link_def by blast
qed (auto simp: cl_link_def cl_over_def not_acked_refl responses_refl)

section \<open>Construction of the writers\<close>

text \<open>
  The names \<^verbatim>\<open>GetTempFileNameW\<close> hands out are new: none is empty, none is the destination.
\<close>

definition fresh_names :: "fsys \<Rightarrow> path \<Rightarrow> bool" where
  "fresh_names F dest \<longleftrightarrow> (\<forall>t \<in> set (tmpNames F). t \<noteq> [] \<and> t \<noteq> dest)"

lemma temp_file_files:
  assumes "GetTempFileName F = (Some t, Fa)" "fs_try Fa = (ok, Fb)"
  shows "t \<in> set (tmpNames F)" "\<forall>p. p \<in> set (tmpNames F) \<or> files (fs_remove t Fb) p = files F p"
    "\<forall>p. p \<in> set (tmpNames F) \<or> ((files Fb)(t \<mapsto> x)) p = files F p"
proof -
  note tf = GetTempFileName_files [OF assms(1)]
  show t: "t \<in> set (tmpNames F)" by (rule tf(1))
  have "files Fb = (files F)(t \<mapsto> [])" using tf(2) fs_try_eq [OF assms(2)] by simp
  with t fs_remove_files [of t Fb] show "\<forall>p. p \<in> set (tmpNames F) \<or> files (fs_remove t Fb) p = files F p"
    "\<forall>p. p \<in> set (tmpNames F) \<or> ((files Fb)(t \<mapsto> x)) p = files F p"
    by (auto simp: same_except_def)
qed

lemma sv_writer_new_outcome:
  assumes "sv_writer_new absolute path F = (wr, F1)" "absolute path = Some dest" "fresh_names F dest"
  shows "\<not> committed wr \<and> (\<forall>p. p \<in> set (tmpNames F) \<or> files F1 p = files F p) \<and>
    (if valid wr then writing wr F1 [] 0 \<and> destinationPath wr = dest \<and> temporaryPath wr \<in> set (tmpNames F)
     else temporaryPath wr = [])"
proof (cases "path = []")
  case True
  with assms(1) show ?thesis by (auto simp: sv_writer_new_def no_writer_def)
next
  case False
  obtain tmp Fa where g: "GetTempFileName F = (tmp, Fa)" by fastforce
  obtain ok Fb where b: "fs_try Fa = (ok, Fb)" by fastforce
  show ?thesis
  proof (cases tmp)
    case None
    with False assms(1,2) g GetTempFileName_None [of F Fa] show ?thesis by (auto simp: sv_writer_new_def no_writer_def)
  next
    case (Some t)
    note tf = temp_file_files [OF g [unfolded Some] b]
    have new: "t \<noteq> []" "t \<noteq> dest" using tf(1) assms(3) by (auto simp: fresh_names_def)
    show ?thesis
    proof (cases ok)
      case True
      then have "wr = (no_writer dest)\<lparr>temporaryPath := t, outOpen := True, valid := True\<rparr>"
        "F1 = Fb\<lparr>files := (files Fb)(t \<mapsto> [])\<rparr>"
        using False assms(1,2) g Some b by (auto simp: sv_writer_new_def)
      with tf(1) tf(3) [of "[]"] new show ?thesis by (simp add: no_writer_def writing_def)
    next
      case bad: False
      then have "wr = no_writer dest" "F1 = fs_remove t Fb"
        using False assms(1,2) g Some b by (auto simp: sv_writer_new_def)
      with tf(2) show ?thesis by (simp add: no_writer_def)
    qed
  qed
qed

lemma cl_writer_new_outcome:
  assumes "cl_writer_new os path F = (wr, F1)" "\<forall>dest. resolveDestination os path = Inr dest \<longrightarrow> fresh_names F dest"
  shows "\<not> committed wr \<and> (\<forall>p. p \<in> set (tmpNames F) \<or> files F1 p = files F p) \<and>
    (if valid wr then writing wr F1 [] 0 \<and> resolveDestination os path = Inr (destinationPath wr) \<and>
       temporaryPath wr \<in> set (tmpNames F) else temporaryPath wr = [])"
proof (cases "resolveDestination os path")
  case (Inl reason)
  with assms(1) show ?thesis by (auto simp: cl_writer_new_def cl_no_writer_def)
next
  case (Inr dest)
  obtain tmp Fa where g: "GetTempFileName F = (tmp, Fa)" by fastforce
  obtain ok Fb where b: "fs_try Fa = (ok, Fb)" by fastforce
  show ?thesis
  proof (cases tmp)
    case None
    with Inr assms(1) g GetTempFileName_None [of F Fa] show ?thesis by (auto simp: cl_writer_new_def cl_no_writer_def)
  next
    case (Some t)
    note tf = temp_file_files [OF g [unfolded Some] b]
    have new: "t \<noteq> []" "t \<noteq> dest" using tf(1) assms(2) Inr by (auto simp: fresh_names_def)
    show ?thesis
    proof (cases ok)
      case True
      then have "wr = (cl_no_writer dest [])\<lparr>temporaryPath := t, outOpen := True, valid := True\<rparr>"
        "F1 = Fb\<lparr>files := (files Fb)(t \<mapsto> [])\<rparr>"
        using Inr assms(1) g Some b by (auto simp: cl_writer_new_def)
      with tf(1) tf(3) [of "[]"] new Inr show ?thesis by (simp add: cl_no_writer_def writing_def)
    next
      case False
      then have "\<exists>x. wr = cl_no_writer dest x" "F1 = fs_remove t Fb"
        using Inr assms(1) g Some b by (auto simp: cl_writer_new_def)
      with tf(2) show ?thesis by (auto simp: cl_no_writer_def)
    qed
  qed
qed

section \<open>Properties\<close>

text \<open>How a run of the server's \<^verbatim>\<open>receiveFile\<close> ends, in the terms of the loop.\<close>

lemma sv_receiveFileE:
  assumes "sv_receiveFile absolute b path mode r w F = Some (ok, r', w', F')"
    "absolute path = Some dest" "fresh_names F dest"
  obtains (unopened) "\<not> ok" "r' = r" "w' = w" "\<forall>p. p \<in> set (tmpNames F) \<or> files F' p = files F p"
  | (ran) wr F1 oc wr2 F2 w2 ab wr3 F3 where "destinationPath wr = dest" "temporaryPath wr \<in> set (tmpNames F)"
      "\<forall>p. p \<in> set (tmpNames F) \<or> files F1 p = files F p" "writing wr F1 [] 0"
      "receive_file_loop sv_receiveNext sv_appendChunk (\<lambda>n r w. (r, w)) mode b new_translator wr F1 r w =
        Some (oc, wr2, F2, r', w2)"
      "(case oc of Complete n \<Rightarrow> if ab then (False, wr2, F2) else sv_commit wr2 F2
        | _ \<Rightarrow> (False, wr2, F2)) = (ok, wr3, F3)"
      "F' = snd (writer_abort wr3 F3)" "outbox w' = outbox w2"
proof -
  obtain wr F1 where new: "sv_writer_new absolute path F = (wr, F1)" by fastforce
  note wn = sv_writer_new_outcome [OF new assms(2,3)]
  show thesis
  proof (cases "valid wr")
    case False
    then have "writer_abort wr F1 = (wr\<lparr>outOpen := False, valid := False\<rparr>, F1)"
      using wn by (simp add: writer_abort_def)
    with False assms(1) new have "ok = False" "r' = r" "w' = w" "F' = F1" by (simp_all add: sv_receiveFile_def)
    with wn unopened show thesis by simp
  next
    case True
    obtain oc wr2 F2 r2 w2 where lp: "receive_file_loop sv_receiveNext sv_appendChunk (\<lambda>n r w. (r, w)) mode b
        new_translator wr F1 r w = Some (oc, wr2, F2, r2, w2)"
      using assms(1) new True by (auto simp: sv_receiveFile_def split: option.splits)
    obtain ab w3 where ab: "isAbortRequested b w2 = (ab, w3)" by fastforce
    have w3: "outbox w3 = outbox w2" using isAbortRequested_frame(2) [of b w2] ab by simp
    obtain okc wr3 F3 where c: "(case oc of Complete n \<Rightarrow> if ab then (False, wr2, F2) else sv_commit wr2 F2
        | _ \<Rightarrow> (False, wr2, F2)) = (okc, wr3, F3)" using prod_cases3 by blast
    have "ok = okc \<and> r' = r2 \<and> (w' = w2 \<or> w' = w3) \<and> F' = snd (writer_abort wr3 F3)"
      using assms(1) new True lp ab c by (cases oc) (auto simp: sv_receiveFile_def)
    with wn True lp c w3 ran show thesis by auto
  qed
qed

lemma sv_receiveFile_frame:
  assumes "sv_receiveFile absolute b path mode r w F = Some (ok, r', w', F')"
    and "absolute path = Some dest" "fresh_names F dest"
  shows "(\<forall>p. p \<in> set (tmpNames F) \<or> p = dest \<or> files F' p = files F p) \<and>
    (ok \<or> files F' dest = files F dest)"
  using assms
proof (cases rule: sv_receiveFileE)
  case (ran wr F1 oc wr2 F2 w2 ab wr3 F3)
  have dest: "dest \<notin> set (tmpNames F)" using assms(3) by (auto simp: fresh_names_def)
  obtain wr4 where "writer_abort wr3 F3 = (wr4, F')" using ran(7) by (cases "writer_abort wr3 F3") simp
  note ff = sv_file.finish_files [OF ran(5,4,6) this]
  show ?thesis using ff ran(1-3) dest by (metis (no_types))
qed (use assms(3) in \<open>auto simp: fresh_names_def\<close>)

text \<open>
  C34: an upload replaces the destination whole or not at all. Whatever the network, the client and
  the file system do, a run of the server's \<^verbatim>\<open>receiveFile\<close> that fails leaves the destination as it was,
  and no run changes any other file, up to the names of temporary files.
\<close>

theorem sv_receiveFile_atomic:
  assumes "sv_receiveFile absolute b path mode r w F = Some (ok, r', w', F')"
    and "absolute path = Some dest" "fresh_names F dest"
  shows "(\<forall>p. p \<in> set (tmpNames F) \<or> p = dest \<or> files F' p = files F p) \<and>
    (ok \<or> files F' dest = files F dest)"
  by (rule sv_receiveFile_frame [OF assms])

lemma sv_receiveFile_outcome:
  assumes "sv_receiveFile absolute b path mode r w F = Some (ok, r', w', F')"
    and "absolute path = Some dest" "fresh_names F dest"
    and "stream_inv (file_stream bs) r (inbox w)" "fits bs" "expected_seq r = 0"
  shows "(ok \<longrightarrow> files F' dest = Some (wire_content mode bs)) \<and>
    (\<exists>new. outbox w' = outbox w @ new \<and>
      (\<forall>p \<in> set new. \<exists>s. fst p = seal_control (sv_ack_header s) \<and> holds r' s))"
  using assms(1-3)
proof (cases rule: sv_receiveFileE)
  case (ran wr F1 oc wr2 F2 w2 ab wr3 F3)
  obtain wr4 where wr4: "writer_abort wr3 F3 = (wr4, F')" using ran(7) by (cases "writer_abort wr3 F3") simp
  note ff = sv_file.finish_files [OF ran(5,4,6) wr4, of dest]
  note ls = sv_file.loop_stream [OF ran(5) assms(4-6) ran(4)]
  have "files F' dest = Some (wire_content mode bs)" if ok: "ok"
  proof -
    obtain n where "oc = Complete n" using ok ran(6) by (cases oc) auto
    with ls have "files F2 (temporaryPath wr2) = Some (wire_content mode bs)" by (simp add: writing_def)
    with ff ok ran(1) show ?thesis by simp
  qed
  with ls ran(8) show ?thesis by (simp add: acks_sound_def acks_held_def)
qed simp

text \<open>
  An upload that succeeds is the file that was sent. If what the peer sends is the stream of a
  content \<open>bs\<close> (any part of it, any number of times, in any order, mixed with anything from other
  endpoints and with damaged datagrams), the server's \<^verbatim>\<open>receiveFile\<close> returns true only with the
  destination holding \<open>bs\<close>, with line ends translated in ASCII mode; and every datagram it sent is the
  acknowledgement of a chunk it has.
\<close>

theorem sv_receiveFile_correct:
  assumes "sv_receiveFile absolute b path mode r w F = Some (ok, r', w', F')"
    and "absolute path = Some dest" "fresh_names F dest"
    and "stream_inv (file_stream bs) r (inbox w)" "fits bs" "expected_seq r = 0"
  shows "(ok \<longrightarrow> files F' dest = Some (wire_content mode bs)) \<and>
    (\<exists>new. outbox w' = outbox w @ new \<and>
      (\<forall>p \<in> set new. \<exists>s. fst p = seal_control (sv_ack_header s) \<and> holds r' s))"
  using sv_receiveFile_outcome [OF assms] .

text \<open>How a run of the client's \<^verbatim>\<open>receiveFile\<close> ends.\<close>

lemma cl_receiveFileE:
  assumes "cl_receiveFile os b path mode r w F = Some (ok, reason, r', w', F')"
    "\<forall>dest. resolveDestination os path = Inr dest \<longrightarrow> fresh_names F dest"
  obtains (unopened) "\<not> ok" "r' = r" "w' = w" "\<forall>p. p \<in> set (tmpNames F) \<or> files F' p = files F p"
  | (ran) wr F1 oc wr2 F2 r2 w2 ab saved wr3 F3 where
      "resolveDestination os path = Inr (destinationPath wr)" "temporaryPath wr \<in> set (tmpNames F)"
      "\<forall>p. p \<in> set (tmpNames F) \<or> files F1 p = files F p" "writing wr F1 [] 0"
      "receive_file_loop cl_receiveNext cl_appendChunk cl_reject mode b new_translator wr F1 r w =
        Some (oc, wr2, F2, r2, w2)"
      "(case oc of Complete n \<Rightarrow> if ab then (False, wr2, F2) else cl_commit wr2 F2
        | _ \<Rightarrow> (False, wr2, F2)) = (saved, wr3, F3)"
      "F' = snd (cl_writer_abort wr3 F3)"
      "case oc of Complete n \<Rightarrow> (\<exists>w3 confirmed w4. outbox w3 = outbox w2 \<and>
          confirmReceive n saved r2 w3 = (confirmed, r', w4) \<and> outbox w' = outbox w4 \<and>
          (ok \<longleftrightarrow> saved \<and> confirmed) \<and> (saved \<and> \<not> confirmed \<longrightarrow> reason = unconfirmed_text))
        | _ \<Rightarrow> \<not> ok \<and> w' = w2 \<and> r' = r2"
proof -
  obtain wr F1 where new: "cl_writer_new os path F = (wr, F1)" by fastforce
  note wn = cl_writer_new_outcome [OF new assms(2)]
  show thesis
  proof (cases "valid wr")
    case False
    then have "cl_writer_abort wr F1 = (wr\<lparr>outOpen := False, valid := False\<rparr>, F1)"
      using wn by (simp add: cl_writer_abort_def)
    with False assms(1) new have "ok = False" "r' = r" "w' = w" "F' = F1" by (simp_all add: cl_receiveFile_def)
    with wn unopened show thesis by simp
  next
    case True
    obtain oc wr2 F2 r2 w2 where lp: "receive_file_loop cl_receiveNext cl_appendChunk cl_reject mode b
        new_translator wr F1 r w = Some (oc, wr2, F2, r2, w2)"
      using assms(1) new True by (auto simp: cl_receiveFile_def split: option.splits)
    obtain ab w3 where ab: "isAbortRequested b w2 = (ab, w3)" by fastforce
    have w3: "outbox w3 = outbox w2" using isAbortRequested_frame(2) [of b w2] ab by simp
    obtain saved wr3 F3 where c: "(case oc of Complete n \<Rightarrow> if ab then (False, wr2, F2) else cl_commit wr2 F2
        | _ \<Rightarrow> (False, wr2, F2)) = (saved, wr3, F3)" using prod_cases3 by blast
    have res: "F' = snd (cl_writer_abort wr3 F3) \<and> (case oc of Complete n \<Rightarrow> (\<exists>w3 confirmed w4. outbox w3 = outbox w2 \<and>
          confirmReceive n saved r2 w3 = (confirmed, r', w4) \<and> outbox w' = outbox w4 \<and>
          (ok \<longleftrightarrow> saved \<and> confirmed) \<and> (saved \<and> \<not> confirmed \<longrightarrow> reason = unconfirmed_text))
        | _ \<Rightarrow> \<not> ok \<and> w' = w2 \<and> r' = r2)"
    proof (cases oc)
      case (Complete n)
      obtain confirmed r3 w4 where cf: "confirmReceive n saved r2 w3 = (confirmed, r3, w4)" using prod_cases3 by blast
      obtain ab2 w5 where ab2: "isAbortRequested b w4 = (ab2, w5)" by fastforce
      have w5: "outbox w5 = outbox w4" using isAbortRequested_frame(2) [of b w4] ab2 by simp
      have c': "(if ab then (False, wr2, F2) else cl_commit wr2 F2) = (saved, wr3, F3)" using c Complete by simp
      have run: "(ok, reason, r', w', F') =
          (if \<not> saved then (False, if ab2 then aborted_text else failureReason wr3, r3, w5, snd (cl_writer_abort wr3 F3))
           else if \<not> confirmed then (False, unconfirmed_text, r3, w4, snd (cl_writer_abort wr3 F3))
           else (True, [], r3, w4, snd (cl_writer_abort wr3 F3)))"
        using assms(1) new True lp unfolding cl_receiveFile_def Complete
        by (simp only: prod.case Let_def option.case receive_end.case ab c' cf ab2) (simp split: if_splits)
      have "r' = r3" "F' = snd (cl_writer_abort wr3 F3)" "outbox w' = outbox w4" "ok \<longleftrightarrow> saved \<and> confirmed"
        "saved \<and> \<not> confirmed \<longrightarrow> reason = unconfirmed_text"
        using run w5 by (simp_all split: if_splits)
      with Complete cf w3 show ?thesis by auto
    qed (use assms(1) new True lp c in \<open>simp_all add: cl_receiveFile_def\<close>)
    show thesis by (rule ran [OF _ _ _ _ lp c]) (use wn True res in simp_all)
  qed
qed

text \<open>
  C35: a download replaces the destination whole or not at all, and the client tells which. Whatever
  the network and the file system do, a failing \<^verbatim>\<open>receiveFile\<close> of the client has left the destination as
  it was, unless the reason it gives is that the file was saved but the final acknowledgement could
  not be sent; and no run changes any other file, up to the names of temporary files.
\<close>

theorem cl_receiveFile_atomic:
  assumes "cl_receiveFile os b path mode r w F = Some (ok, reason, r', w', F')"
    and "resolveDestination os path = Inr dest" "fresh_names F dest"
  shows "(\<forall>p. p \<in> set (tmpNames F) \<or> p = dest \<or> files F' p = files F p) \<and>
    (ok \<or> reason = unconfirmed_text \<or> files F' dest = files F dest)"
proof -
  have fr: "\<forall>dest. resolveDestination os path = Inr dest \<longrightarrow> fresh_names F dest" using assms(2,3) by simp
  have dest: "dest \<notin> set (tmpNames F)" using assms(3) by (auto simp: fresh_names_def)
  from assms(1) fr show ?thesis
  proof (cases rule: cl_receiveFileE)
    case (ran wr F1 oc wr2 F2 r2 w2 ab saved wr3 F3)
    have d: "destinationPath wr = dest" using ran(1) assms(2) by simp
    obtain wr4 where "cl_writer_abort wr3 F3 = (wr4, F')" using ran(7) by (cases "cl_writer_abort wr3 F3") simp
    note ff = cl_file.finish_files [OF ran(5,4,6) this]
    have "ok \<or> reason = unconfirmed_text \<or> \<not> saved" using ran(6,8) by (cases oc) auto
    then show ?thesis using ff ran(2,3) d dest by (metis (no_types))
  qed (use dest in auto)
qed

text \<open>The confirmation of the last packet, for a receiver that holds it.\<close>

lemma confirm_final:
  assumes "confirmReceive n ok r w = (sent, r', w')" "finalAcknowledgementPending r" "pendingFinalSequence r = n"
  shows "if ok then sent \<longrightarrow> (\<exists>new. outbox w' = outbox w @ new \<and> cl_ack n \<in> fst ` set new) else not_acked n w w'"
proof (cases ok)
  case True
  with assms show ?thesis
    by (auto simp: confirmReceive_def Let_def dest!: cl_sendAck_outbox split: if_splits prod.splits)
next
  case False
  then have "cl_reject n r w = (r', w')" using assms(1) by (simp add: cl_reject_def)
  with False cl_reject_not_acked show ?thesis by simp
qed

lemma cl_receiveFile_whole:
  assumes "cl_receiveFile os b path mode r w F = Some (ok, reason, r', w', F')"
    and "resolveDestination os path = Inr dest" "fresh_names F dest"
    and "stream_inv (file_stream bs) r (inbox w)" "fits bs" "expected_seq r = 0"
  shows "files F' dest = files F dest \<or> files F' dest = Some (wire_content mode bs)"
proof -
  have fr: "\<forall>dest. resolveDestination os path = Inr dest \<longrightarrow> fresh_names F dest" using assms(2,3) by simp
  have dest: "dest \<notin> set (tmpNames F)" using assms(3) by (auto simp: fresh_names_def)
  from assms(1) fr show ?thesis
  proof (cases rule: cl_receiveFileE)
    case (ran wr F1 oc wr2 F2 r2 w2 ab saved wr3 F3)
    have d: "destinationPath wr = dest" using ran(1) assms(2) by simp
    obtain wr4 where "cl_writer_abort wr3 F3 = (wr4, F')" using ran(7) by (cases "cl_writer_abort wr3 F3") simp
    note ff = cl_file.finish_files [OF ran(5,4,6) this]
    note ls = cl_file.loop_stream [OF ran(5) assms(4-6) ran(4)]
    show ?thesis
    proof (cases saved)
      case True
      then obtain m where "oc = Complete m" using ran(6) by (cases oc) auto
      with ls have "files F2 (temporaryPath wr2) = Some (wire_content mode bs)" by (simp add: writing_def)
      with ff True d show ?thesis by simp
    next
      case False
      with ff ran(2,3) d dest show ?thesis by (metis (no_types))
    qed
  qed (use dest in auto)
qed


lemma cl_receiveFile_outcome:
  assumes "cl_receiveFile os b path mode r w F = Some (ok, reason, r', w', F')"
    and "resolveDestination os path = Inr dest" "fresh_names F dest"
    and "stream_inv (file_stream bs) r (inbox w)" "fits bs" "expected_seq r = 0"
    and "outOfOrderBuffer r = Map.empty" "\<not> finalAcknowledgementPending r"
    and "last_chunk (file_stream bs) n"
  shows "\<exists>new. outbox w' = outbox w @ new \<and>
    (\<forall>p \<in> set new. \<exists>s. fst p = seal_control (cl_response_header s FLAG_ACK) \<or>
        fst p = seal_control (cl_response_header s FLAG_NAK)) \<and>
    (ok \<longrightarrow> cl_ack n \<in> fst ` set new) \<and>
    (ok \<or> cl_ack n \<in> fst ` set new \<longrightarrow> files F' dest = Some (wire_content mode bs))"
proof -
  have fr: "\<forall>dest. resolveDestination os path = Inr dest \<longrightarrow> fresh_names F dest" using assms(2,3) by simp
  have guard: "final_guard n r" using assms(6-8) by (simp add: final_guard_def holds_def)
  from assms(1) fr show ?thesis
  proof (cases rule: cl_receiveFileE)
    case (ran wr F1 oc wr2 F2 r2 w2 ab saved wr3 F3)
    have d: "destinationPath wr = dest" using ran(1) assms(2) by simp
    obtain wr4 where "cl_writer_abort wr3 F3 = (wr4, F')" using ran(7) by (cases "cl_writer_abort wr3 F3") simp
    note ff = cl_file.finish_files [OF ran(5,4,6) this, of dest]
    note ls = cl_file.loop_stream [OF ran(5) assms(4-6) ran(4)]
    have na: "not_acked n w w2" "responses w w2" using ls guard assms(9) by (simp_all add: cl_over_def)
    have failed: ?thesis if "\<not> ok" "not_acked n w w'" "responses w w'"
      using that unfolding not_acked_def responses_def by fastforce
    show ?thesis
    proof (cases "\<exists>m. oc = Complete m")
      case False
      then have "\<not> ok" "w' = w2" using ran(8) by (cases oc; simp)+
      with na failed show ?thesis by simp
    next
      case True
      then obtain m where m: "oc = Complete m" by blast
      have fin: "expected_seq r2 = m + 1" "unat m < 2 ^ 32 - 1" "\<exists>d. file_stream bs (unat m) = Some (d, True)"
        "files F2 (temporaryPath wr2) = Some (wire_content mode bs)" "cl_link (file_stream bs) r w r2 w2"
        using ls m by (auto simp: writing_def)
      have "unat m = unat n" using fin(3) assms(9) by (auto simp: last_chunk_def)
      then have mn: "m = n" by (simp add: word_unat_eq_iff)
      have "final_guard n r2" "holds r2 n"
        using fin guard assms(9) mn by (simp_all add: cl_link_def holds_def unat_u32_plus1)
      then have pend: "finalAcknowledgementPending r2" "pendingFinalSequence r2 = n" by (simp_all add: final_guard_def)
      obtain w3 confirmed w4 where cf: "outbox w3 = outbox w2" "confirmReceive n saved r2 w3 = (confirmed, r', w4)"
        "outbox w' = outbox w4" "ok \<longleftrightarrow> saved \<and> confirmed"
        using ran(8) m mn by auto
      note fin2 = confirm_final [OF cf(2) pend]
      have "responses w3 w4" using confirm_responses [OF cf(2)] .
      then have rs: "responses w w'" using na(2) cf(1,3) by (auto simp: responses_def)
      show ?thesis
      proof (cases saved)
        case True
        have "files F' dest = Some (wire_content mode bs)" using ff True d fin(4) by simp
        moreover obtain new where new: "outbox w' = outbox w @ new"
          "\<forall>p \<in> set new. \<exists>s. fst p = seal_control (cl_response_header s FLAG_ACK) \<or>
            fst p = seal_control (cl_response_header s FLAG_NAK)" using rs by (auto simp: responses_def)
        moreover have "cl_ack n \<in> fst ` set new" if "ok"
          using that new(1) cf fin2 na(1) by (auto simp: not_acked_def)
        ultimately show ?thesis by blast
      next
        case False
        with fin2 na(1) cf(1,3) have "not_acked n w w'" by (auto simp: not_acked_def)
        with False cf(4) rs failed show ?thesis by blast
      qed
    qed
  qed simp
qed

text \<open>
  A download that succeeds is the file that was sent, and the server is told so only then. If what
  the peer sends is the stream of a content \<open>bs\<close>, then the client's \<^verbatim>\<open>receiveFile\<close> returns true only with
  the destination holding \<open>bs\<close> (line ends translated in ASCII mode) and with the acknowledgement of the
  final packet sent; and in no run is that acknowledgement sent without the file being in place. The
  client sends nothing but positive and negative acknowledgements.
\<close>

theorem cl_receiveFile_correct:
  assumes "cl_receiveFile os b path mode r w F = Some (ok, reason, r', w', F')"
    and "resolveDestination os path = Inr dest" "fresh_names F dest"
    and "stream_inv (file_stream bs) r (inbox w)" "fits bs" "expected_seq r = 0"
    and "outOfOrderBuffer r = Map.empty" "\<not> finalAcknowledgementPending r"
    and "last_chunk (file_stream bs) n"
  shows "\<exists>new. outbox w' = outbox w @ new \<and>
    (\<forall>p \<in> set new. \<exists>s. fst p = seal_control (cl_response_header s FLAG_ACK) \<or>
        fst p = seal_control (cl_response_header s FLAG_NAK)) \<and>
    (ok \<longrightarrow> seal_control (cl_response_header n FLAG_ACK) \<in> fst ` set new) \<and>
    (ok \<or> seal_control (cl_response_header n FLAG_ACK) \<in> fst ` set new \<longrightarrow>
      files F' dest = Some (wire_content mode bs))"
  using cl_receiveFile_outcome [OF assms] .

section \<open>Instances\<close>

text \<open>The one-byte file arrives as one packet.\<close>

definition sample_probe :: dest_probe where
  "sample_probe = \<lparr>absoluteResult = Inl ''d'', parentEmpty = False, parentExists = Inl True,
     parentIsDirectory = Inl True, destExists = Inl False, destIsDirectory = Inl False,
     destAttributes = Inl False, destReplaceable = None\<rparr>"

lemma sample_writing: "fresh_names sample_disk ''d''" "file_stream [65] (unat (0 :: u32)) = Some ([65], True)" "fits [65]"
  "resolveDestination sample_probe ''d'' = Inr ''d''"
  by (simp_all add: fresh_names_def file_stream_def MAX_PAYLOAD_def fits_def resolveDestination_def sample_probe_def)

definition sample_arrival :: "u16 \<Rightarrow> world" where
  "sample_arrival win = idle_world [Received (sample_packet win) sample_peer]"

lemma sv_sample_receives:
  assumes "sv_at_start r" "aborts w = []" "inbox w = Received (sample_packet win) sample_peer # rest" "ticks w = []" "sendOk w = []"
    and "absolute p = Some d" "fsOk F = []" "tmpNames F = t # ts" "t \<noteq> d" "p \<noteq> []"
  shows "\<exists>r' w' F'. sv_receiveFile absolute b p Binary r w F = Some (True, r', w', F') \<and>
     outbox w' = outbox w @ [(sv_ack 0, sample_peer)] \<and> aborts w' = [] \<and> files F' = (files F)(t := None, d \<mapsto> [65]) \<and>
     fsOk F' = [] \<and> tmpNames F' = ts"
proof -
  let ?wr = "(no_writer d)\<lparr>temporaryPath := t, outOpen := True, valid := True\<rparr>"
  let ?F = "F\<lparr>tmpNames := ts, files := (files F)(t \<mapsto> [])\<rparr>"
  let ?F2 = "?F\<lparr>files := (files ?F)(t \<mapsto> [65])\<rparr>"
  let ?w = "w\<lparr>inbox := rest, outbox := outbox w @ [(sv_ack 0, sample_peer)]\<rparr>"
  have new: "sv_writer_new absolute p F = (?wr, ?F)"
    using assms(6-8,10) by (simp add: sv_writer_new_def GetTempFileName_def fs_try_def)
  have "sv_appendChunk 0 [65] ?wr ?F = (True, ?wr\<lparr>nextExpectedSequence := 1\<rparr>, ?F2)"
    using assms(7) by (simp add: sv_appendChunk_def no_writer_def stream_write_def fs_try_def)
  then have lp: "receive_file_loop sv_receiveNext sv_appendChunk (\<lambda>n r w. (r, w)) Binary b new_translator ?wr ?F r w =
      Some (Complete 0, ?wr\<lparr>nextExpectedSequence := 1\<rparr>, ?F2, (learn_peer sample_peer r)\<lparr>expected_seq := 1\<rparr>, ?w)"
    using sv_sample_takes [OF assms(1-5)] assms(2)
    by (simp add: receive_file_loop.simps receive_file_round_def isAbortRequested_none)
  have "\<exists>wr. sv_commit (?wr\<lparr>nextExpectedSequence := 1\<rparr>) ?F2 =
      (True, wr, ?F2\<lparr>files := ((files ?F2)(t := None))(d \<mapsto> [65])\<rparr>) \<and> temporaryPath wr = []"
    using assms(7,9) by (simp add: sv_commit_def no_writer_def fs_try_def MoveFile_def)
  then obtain wr3 where c: "sv_commit (?wr\<lparr>nextExpectedSequence := 1\<rparr>) ?F2 =
      (True, wr3, ?F2\<lparr>files := ((files ?F2)(t := None))(d \<mapsto> [65])\<rparr>)" "temporaryPath wr3 = []" by blast
  have ab: "snd (writer_abort wr3 F3) = F3" for F3 using c(2) by (simp add: writer_abort_def Let_def)
  from new lp c(1) ab assms(2,7) show ?thesis
    by (simp add: sv_receiveFile_def isAbortRequested_none no_writer_def)
qed

lemma sv_sample_receiveFile:
  "\<exists>r' w' F'. sv_receiveFile Some False ''d'' Binary sample_receiver (sample_arrival 1) sample_disk =
     Some (True, r', w', F') \<and> outbox w' = [(sv_ack 0, sample_peer)]"
  using sv_sample_receives [of sample_receiver "sample_arrival 1" 1 "[]" Some "''d''" "''d''" sample_disk "''t''" "[''u'']" False]
  by (auto simp: sv_at_start_def sample_receiver_def fresh_receiver_def sample_arrival_def idle_world_def)

theorem sv_receiveFile_atomic_witness:
  "\<exists>r' w' F'. sv_receiveFile Some False ''d'' Binary sample_receiver (sample_arrival 1) sample_disk =
     Some (True, r', w', F') \<and> files F' ''a'' = Some [65]"
proof -
  obtain r' w' F' where run: "sv_receiveFile Some False ''d'' Binary sample_receiver (sample_arrival 1) sample_disk =
     Some (True, r', w', F')" using sv_sample_receiveFile by blast
  have "''a'' \<in> set (tmpNames sample_disk) \<or> ''a'' = ''d'' \<or> files F' ''a'' = files sample_disk ''a''"
    using sv_receiveFile_atomic [OF run refl sample_writing(1)] by blast
  with run show ?thesis by simp
qed

theorem sv_receiveFile_correct_witness:
  "\<exists>r' w' F'. sv_receiveFile Some False ''d'' Binary sample_receiver (sample_arrival 1) sample_disk =
     Some (True, r', w', F') \<and> files F' ''d'' = Some [65]"
proof -
  obtain r' w' F' where run: "sv_receiveFile Some False ''d'' Binary sample_receiver (sample_arrival 1) sample_disk =
     Some (True, r', w', F')" using sv_sample_receiveFile by blast
  have "stream_inv (file_stream [65]) sample_receiver (inbox (sample_arrival 1))" "expected_seq sample_receiver = 0"
    using sample_stream_inv by (simp_all add: sample_file_stream sample_arrival_def sample_receiver_def fresh_receiver_def)
  from sv_receiveFile_correct [OF run refl sample_writing(1) this(1) sample_writing(3) this(2)] run show ?thesis
    by (auto simp: wire_content_def)
qed

lemma cl_sample_receives:
  assumes "cl_at_start r" "aborts w = []" "inbox w = Received (sample_packet win) sample_peer # rest" "ticks w = []" "sendOk w = []"
    and "resolveDestination os p = Inr d" "fsOk F = []" "tmpNames F = t # ts" "t \<noteq> d" "t \<noteq> []"
  shows "\<exists>r' w' F'. cl_receiveFile os b p Binary r w F = Some (True, [], r', w', F') \<and>
     outbox w' = outbox w @ [(cl_ack 0, sample_peer)] \<and> aborts w' = []"
proof -
  let ?wr = "(cl_no_writer d [])\<lparr>temporaryPath := t, outOpen := True, valid := True\<rparr>"
  let ?F = "F\<lparr>tmpNames := ts, files := (files F)(t \<mapsto> [])\<rparr>"
  let ?F2 = "?F\<lparr>files := (files ?F)(t \<mapsto> [65])\<rparr>"
  let ?r = "(learn_peer sample_peer r)\<lparr>expected_seq := 1, finalAcknowledgementPending := True, pendingFinalSequence := 0\<rparr>"
  let ?w = "w\<lparr>inbox := rest\<rparr>"
  have new: "cl_writer_new os p F = (?wr, ?F)"
    using assms(6-8) by (simp add: cl_writer_new_def GetTempFileName_def fs_try_def)
  have "cl_appendChunk 0 [65] ?wr ?F = (True, ?wr\<lparr>nextExpectedSequence := 1\<rparr>, ?F2)"
    using assms(7) by (simp add: cl_appendChunk_def cl_no_writer_def stream_write_def fs_try_def)
  then have lp: "receive_file_loop cl_receiveNext cl_appendChunk cl_reject Binary b new_translator ?wr ?F r w =
      Some (Complete 0, ?wr\<lparr>nextExpectedSequence := 1\<rparr>, ?F2, ?r, ?w)"
    using cl_sample_takes [OF assms(1-4)] assms(2)
    by (simp add: receive_file_loop.simps receive_file_round_def isAbortRequested_none)
  have "\<exists>wr F'. cl_commit (?wr\<lparr>nextExpectedSequence := 1\<rparr>) ?F2 = (True, wr, F')"
    using assms(7) by (simp add: cl_commit_def cl_no_writer_def fs_try_def MoveFile_def)
  then obtain wr3 F3 where cm: "cl_commit (?wr\<lparr>nextExpectedSequence := 1\<rparr>) ?F2 = (True, wr3, F3)" by blast
  have "\<exists>r3 w4. confirmReceive 0 True ?r ?w = (True, r3, w4) \<and> outbox w4 = outbox w @ [(cl_ack 0, sample_peer)] \<and> aborts w4 = []"
    using assms(1,2,5) by (auto simp: confirmReceive_def cl_at_start_def learn_peer_def cl_sendAck_def sendControlResponse_def sendto_def)
  then obtain r3 w4 where "confirmReceive 0 True ?r ?w = (True, r3, w4)"
    "outbox w4 = outbox w @ [(cl_ack 0, sample_peer)]" "aborts w4 = []" by blast
  with new lp cm assms(2) show ?thesis by (simp add: cl_receiveFile_def isAbortRequested_none cl_no_writer_def)
qed

lemma cl_sample_receiveFile:
  "\<exists>r' w' F'. cl_receiveFile sample_probe False ''d'' Binary cl_sample_receiver (sample_arrival 4) sample_disk =
     Some (True, [], r', w', F') \<and> outbox w' = [(cl_ack 0, sample_peer)]"
  using cl_sample_receives [OF _ _ _ _ _ sample_writing(4), of cl_sample_receiver "sample_arrival 4" 4 "[]" sample_disk "''t''" "[''u'']" False]
  by (auto simp: cl_at_start_def cl_sample_receiver_def cl_fresh_receiver_def sample_arrival_def idle_world_def)

theorem cl_receiveFile_atomic_witness:
  "\<exists>r' w' F'. cl_receiveFile sample_probe False ''d'' Binary cl_sample_receiver (sample_arrival 4) sample_disk =
     Some (True, [], r', w', F') \<and> files F' ''a'' = Some [65]"
proof -
  obtain r' w' F' where run: "cl_receiveFile sample_probe False ''d'' Binary cl_sample_receiver (sample_arrival 4)
     sample_disk = Some (True, [], r', w', F')" using cl_sample_receiveFile by blast
  have "''a'' \<in> set (tmpNames sample_disk) \<or> ''a'' = ''d'' \<or> files F' ''a'' = files sample_disk ''a''"
    using cl_receiveFile_atomic [OF run sample_writing(4,1)] by blast
  with run show ?thesis by simp
qed

theorem cl_receiveFile_correct_witness:
  "\<exists>r' w' F'. cl_receiveFile sample_probe False ''d'' Binary cl_sample_receiver (sample_arrival 4) sample_disk =
     Some (True, [], r', w', F') \<and> files F' ''d'' = Some [65] \<and>
     seal_control (cl_response_header 0 FLAG_ACK) \<in> fst ` set (outbox w')"
proof -
  obtain r' w' F' where run: "cl_receiveFile sample_probe False ''d'' Binary cl_sample_receiver (sample_arrival 4)
     sample_disk = Some (True, [], r', w', F')" using cl_sample_receiveFile by blast
  have r: "stream_inv (file_stream [65]) cl_sample_receiver (inbox (sample_arrival 4))" "expected_seq cl_sample_receiver = 0"
    "outOfOrderBuffer cl_sample_receiver = Map.empty" "\<not> finalAcknowledgementPending cl_sample_receiver"
    "last_chunk (file_stream [65]) 0"
    using cl_sample_invariants(1,4)
    by (simp_all add: sample_file_stream sample_arrival_def cl_sample_receiver_def cl_fresh_receiver_def)
  from cl_receiveFile_correct [OF run sample_writing(4,1) r(1) sample_writing(3) r(2-5)] run show ?thesis
    by (auto simp: wire_content_def)
qed

end
