(* ===== verification/Data_Link.thy ===== *)
theory Data_Link
  imports Data_Channel_Receive
begin

text \<open>
  The data connection between the two programs: the network, the handshakes that open a transfer, and
  the stream of a file as it reaches a receiver.
\<close>

section \<open>The network\<close>

text \<open>
  The network between a side that sent the datagrams \<open>sent\<close> and the events \<open>evs\<close> at the other side: it
  may lose, repeat, reorder and damage datagrams and may bring anything from other endpoints, but a
  datagram from \<open>peer\<close> that passes the checksum is one of those sent.
\<close>

definition network_delivers :: "(bytes \<times> sockaddr_in) list \<Rightarrow> sockaddr_in \<Rightarrow> recv_result list \<Rightarrow> bool" where
  "network_delivers sent peer evs \<longleftrightarrow>
     (\<forall>bs. Received bs peer \<in> set evs \<longrightarrow> decodeValidatedDatagram bs \<noteq> None \<longrightarrow> bs \<in> fst ` set sent)"

definition sent_between :: "world \<Rightarrow> world \<Rightarrow> (bytes \<times> sockaddr_in) list" where
  "sent_between w w' = drop (length (outbox w)) (outbox w')"

lemma sent_between_append: "outbox w' = outbox w @ new \<Longrightarrow> sent_between w w' = new"
  by (simp add: sent_between_def)

text \<open>A receiver at the start of a transfer whose peer is known.\<close>

definition receiver_ready :: "sockaddr_in \<Rightarrow> 'a receiver_scheme \<Rightarrow> bool" where
  "receiver_ready peer r \<longleftrightarrow> peerKnown r \<and> peerAddr r = peer \<and> expected_seq r = 0 \<and> outOfOrderBuffer r = Map.empty"

definition arrivals :: "'a receiver_scheme \<Rightarrow> world \<Rightarrow> recv_result list" where
  "arrivals r w = Received (pendingDatagram r) (pendingFrom r) # inbox w"

lemma network_stream:
  assumes "sends_stream f dest ws ws'" "network_delivers (sent_between ws ws') peer (arrivals r w)"
    "receiver_ready peer r"
  shows "stream_inv f r (inbox w)"
proof -
  obtain new where new: "outbox ws' = outbox ws @ new" "\<forall>p \<in> set new. carries_stream f (fst p)"
    using assms(1) by (auto simp: sends_stream_def)
  have "carries_stream f bs" if "Received bs peer \<in> set (arrivals r w)" for bs
  proof (cases "decodeValidatedDatagram bs")
    case None
    then show ?thesis by (simp add: carries_stream_def)
  next
    case (Some h)
    with assms(2) that new sent_between_append [OF new(1)] show ?thesis by (auto simp: network_delivers_def)
  qed
  with assms(3) show ?thesis
    by (auto simp: stream_inv_def receiver_ready_def buffer_stream_def arrivals_def)
qed

text \<open>What decodes as an acknowledgement of \<open>n\<close>, among the responses of the two sides.\<close>

lemma sv_ack_decode:
  assumes "decodeValidatedDatagram (seal_control (sv_ack_header s)) = Some h"
  shows "ack_num h = s"
  using assms by (auto simp: decode_seal_control sv_ack_header_def zero_header_def)

section \<open>Parts of a run that only exchange control datagrams\<close>

text \<open>Between two worlds, inputs were consumed and only datagrams of a kind sent.\<close>

definition exchanged :: "(bytes \<Rightarrow> bool) \<Rightarrow> world \<Rightarrow> world \<Rightarrow> bool" where
  "exchanged P w w' \<longleftrightarrow>
     set (inbox w') \<subseteq> set (inbox w) \<and> (\<exists>new. outbox w' = outbox w @ new \<and> (\<forall>p \<in> set new. P (fst p)))"

lemma exchanged_quiet: "set (inbox w') \<subseteq> set (inbox w) \<Longrightarrow> outbox w' = outbox w \<Longrightarrow> exchanged P w w'"
  by (simp add: exchanged_def)

lemma exchanged_trans: "exchanged P w w1 \<Longrightarrow> exchanged P w1 w2 \<Longrightarrow> exchanged P w w2"
  by (fastforce simp: exchanged_def)

lemma exchanged_abort: "isAbortRequested b w = (ab, w') \<Longrightarrow> exchanged P w w'"
  using isAbortRequested_frame [of b w] by (simp add: exchanged_def)

lemma exchanged_abort_snd: "exchanged P w (snd (isAbortRequested b w))"
  by (rule exchanged_abort [where ab = "fst (isAbortRequested b w)"]) simp

lemma exchanged_recv: "recvfrom w = Some (r, w') \<Longrightarrow> exchanged P w w'"
  by (auto simp: exchanged_def dest: recvfrom_SomeD)

lemma exchanged_send: "sendto bs a w = (ok, w') \<Longrightarrow> P bs \<Longrightarrow> exchanged P w w'"
  using sendto_frame(1) [of bs a w] outbox_sendto [of bs a w] by (simp add: exchanged_def)

lemma exchanged_inbox: "exchanged P w w' \<Longrightarrow> e \<in> set (inbox w') \<Longrightarrow> e \<in> set (inbox w)"
  by (auto simp: exchanged_def)

text \<open>An event of a script that brings a valid datagram with a flag.\<close>

definition heard :: "byte \<Rightarrow> sockaddr_in \<Rightarrow> recv_result list \<Rightarrow> bool" where
  "heard f a evs \<longleftrightarrow> (\<exists>bs h. Received bs a \<in> set evs \<and> decodeValidatedDatagram bs = Some h \<and> has_flag h f)"

lemma heard_mono: "heard f a evs \<Longrightarrow> set evs \<subseteq> set evs' \<Longrightarrow> heard f a evs'"
  by (auto simp: heard_def)

lemma heard_later: "heard f a (inbox w') \<Longrightarrow> exchanged P w w' \<Longrightarrow> heard f a (inbox w)"
  by (auto simp: heard_def exchanged_def)

lemma sv_clientReady_loop_outcome:
  "sv_clientReady_loop n s w = Some (ready, s', w') \<Longrightarrow>
   exchanged (\<lambda>bs. \<exists>k. bs = seal_control (sv_ready_ack_header k)) w w' \<and>
   (\<exists>a. s' = s\<lparr>destAddr := a\<rparr> \<and> (ready \<longrightarrow> heard FLAG_SYN a (inbox w)))"
  (is "_ \<Longrightarrow> ?goal s w")
proof (induction n arbitrary: w)
  case 0
  then show ?case by (auto simp: exchanged_quiet intro: exI [of _ "destAddr s"])
next
  case (Suc n)
  let ?P = "\<lambda>bs. \<exists>k. bs = seal_control (sv_ready_ack_header k)"
  have later: "?goal s w" if "sv_clientReady_loop n s v = Some (ready, s', w')" "exchanged ?P w v" for v
  proof -
    note e = that(2)
    from Suc.IH [OF that(1)] obtain a where "exchanged ?P v w'" "s' = s\<lparr>destAddr := a\<rparr>" "ready \<longrightarrow> heard FLAG_SYN a (inbox v)"
      by blast
    with e show ?thesis by (auto intro: exchanged_trans exI [of _ a] elim: heard_later)
  qed
  have stop: "?goal s w" if "\<not> ready" "s' = s" "exchanged ?P w w'"
    using that by (auto intro: exI [of _ "destAddr s"])
  obtain ab w1 where ab: "isAbortRequested (ss_abortInstalled s) w = (ab, w1)" by fastforce
  note e1 = exchanged_abort [OF ab, of ?P]
  show ?case
  proof (cases "ab \<or> recvfrom w1 = None")
    case True
    with Suc.prems ab e1 stop show ?thesis by (auto split: if_splits)
  next
    case False
    then obtain e w2 where r: "recvfrom w1 = Some (e, w2)" and nab: "\<not> ab" by auto
    note e2 = exchanged_trans [OF e1 exchanged_recv [OF r]]
    show ?thesis
    proof (cases e)
      case RecvTimeout
      obtain ab2 w3 where ab2: "isAbortRequested (ss_abortInstalled s) w2 = (ab2, w3)" by fastforce
      with Suc.prems ab nab r RecvTimeout later stop exchanged_trans [OF e2 exchanged_abort [OF ab2]]
      show ?thesis by (auto split: if_splits)
    next
      case (RecvError k)
      then have "\<not> ready" "s' = s" "w' = snd (isAbortRequested (ss_abortInstalled s) w2)" using Suc.prems ab nab r by auto
      with stop exchanged_trans [OF e2 exchanged_abort_snd] show ?thesis by blast
    next
      case (Received bs a)
      show ?thesis
      proof (cases "\<exists>h. decodeValidatedDatagram bs = Some h \<and> has_flag h FLAG_SYN \<and> \<not> has_flag h FLAG_DATA \<and> payload_len h = 0")
        case True
        then obtain h where h: "decodeValidatedDatagram bs = Some h" "has_flag h FLAG_SYN" "\<not> has_flag h FLAG_DATA"
          "payload_len h = 0" by blast
        obtain sent w3 where sd: "sendto (seal_control (sv_ready_ack_header (seq_num h))) a w2 = (sent, w3)" by fastforce
        have "s' = s\<lparr>destAddr := a\<rparr>" "w' = w3" using Suc.prems ab nab r Received h sd by (auto simp: Let_def)
        moreover have "heard FLAG_SYN a (inbox w)"
          using recvfrom_Received(1) [of w1 bs a w2] r Received h e1 by (auto simp: heard_def exchanged_def)
        moreover have "exchanged ?P w2 w3" by (rule exchanged_send [OF sd]) blast
        ultimately show ?thesis using exchanged_trans [OF e2] by blast
      next
        case False
        then have "sv_clientReady_loop n s w2 = Some (ready, s', w')"
          using Suc.prems ab nab r Received by (auto split: option.splits if_splits)
        then show ?thesis using later e2 by blast
      qed
    qed
  qed
qed

lemma waitForClientReady_outcome:
  assumes "waitForClientReady s w = Some (ready, s', w')"
  shows "exchanged (\<lambda>bs. \<exists>k. bs = seal_control (sv_ready_ack_header k)) w w' \<and>
    (\<exists>a t. s' = s\<lparr>destAddr := a, ss_rcvTimeout := t\<rparr> \<and> (ready \<longrightarrow> heard FLAG_SYN a (inbox w)))"
proof -
  obtain ab w1 where ab: "isAbortRequested (ss_abortInstalled s) w = (ab, w1)" by fastforce
  note e1 = exchanged_abort [OF ab, of "\<lambda>bs. \<exists>k. bs = seal_control (sv_ready_ack_header k)"]
  show ?thesis
  proof (cases ab)
    case True
    with assms ab e1 show ?thesis
      by (auto simp: waitForClientReady_def intro!: exI [of _ "destAddr s"] exI [of _ "ss_rcvTimeout s"])
  next
    case False
    let ?s = "s\<lparr>ss_rcvTimeout := int HANDSHAKE_TIMEOUT_MS\<rparr>"
    have "sv_clientReady_loop HANDSHAKE_MAX_RETRIES ?s w1 = Some (ready, s', w')"
      using assms ab False by (simp add: waitForClientReady_def)
    from sv_clientReady_loop_outcome [OF this]
    obtain a where "exchanged (\<lambda>bs. \<exists>k. bs = seal_control (sv_ready_ack_header k)) w1 w'"
      "s' = ?s\<lparr>destAddr := a\<rparr>" "ready \<longrightarrow> heard FLAG_SYN a (inbox w1)" by blast
    with e1 show ?thesis
      by (auto intro!: exI [of _ a] exI [of _ "int HANDSHAKE_TIMEOUT_MS"] elim: exchanged_trans heard_later)
  qed
qed

lemma cl_serverReady_loop_outcome:
  "cl_serverReady_loop n ip s w = Some (ready, s', w') \<Longrightarrow>
   exchanged (\<lambda>bs. \<exists>k. bs = seal_control (cl_ready_ack_header k)) w w' \<and>
   (\<exists>a t. s' = s\<lparr>cs_destAddr := a, cs_rcvTimeout := t\<rparr> \<and> (ready \<longrightarrow> sin_addr a = ip \<and> heard FLAG_SYN a (inbox w)))"
  (is "_ \<Longrightarrow> ?goal s w")
proof (induction n arbitrary: w)
  case 0
  then show ?case by (auto simp: exchanged_quiet intro!: exI [of _ "cs_destAddr s"] exI [of _ "cs_rcvTimeout s"])
next
  case (Suc n)
  let ?P = "\<lambda>bs. \<exists>k. bs = seal_control (cl_ready_ack_header k)"
  have later: "?goal s w" if "cl_serverReady_loop n ip s v = Some (ready, s', w')" "exchanged ?P w v" for v
  proof -
    note e = that(2)
    from Suc.IH [OF that(1)] obtain a t where "exchanged ?P v w'" "s' = s\<lparr>cs_destAddr := a, cs_rcvTimeout := t\<rparr>"
      "ready \<longrightarrow> sin_addr a = ip \<and> heard FLAG_SYN a (inbox v)" by blast
    with e show ?thesis by (auto intro: exchanged_trans exI [of _ a] exI [of _ t] elim: heard_later)
  qed
  have stop: "?goal s w" if "\<not> ready" "s' = s" "exchanged ?P w w'"
    using that by (auto intro!: exI [of _ "cs_destAddr s"] exI [of _ "cs_rcvTimeout s"])
  obtain ab w1 where ab: "isAbortRequested (cs_abortInstalled s) w = (ab, w1)" by fastforce
  note e1 = exchanged_abort [OF ab, of ?P]
  show ?case
  proof (cases "ab \<or> recvfrom w1 = None")
    case True
    with Suc.prems ab e1 stop show ?thesis by (auto split: if_splits)
  next
    case False
    then obtain e w2 where r: "recvfrom w1 = Some (e, w2)" and nab: "\<not> ab" by auto
    note e2 = exchanged_trans [OF e1 exchanged_recv [OF r]]
    show ?thesis
    proof (cases e)
      case RecvTimeout
      obtain ab2 w3 where ab2: "isAbortRequested (cs_abortInstalled s) w2 = (ab2, w3)" by fastforce
      with Suc.prems ab nab r RecvTimeout later stop exchanged_trans [OF e2 exchanged_abort [OF ab2]]
      show ?thesis by (auto split: if_splits)
    next
      case (RecvError k)
      then have "\<not> ready" "s' = s" "w' = snd (isAbortRequested (cs_abortInstalled s) w2)" using Suc.prems ab nab r by auto
      with stop exchanged_trans [OF e2 exchanged_abort_snd] show ?thesis by blast
    next
      case (Received bs a)
      let ?h = "if sin_addr a = ip then decodeValidatedDatagram bs else None"
      show ?thesis
      proof (cases "\<exists>h. ?h = Some h \<and> has_flag h FLAG_SYN \<and> \<not> has_flag h FLAG_DATA \<and> payload_len h = 0")
        case True
        then obtain h where h: "?h = Some h" "has_flag h FLAG_SYN" "\<not> has_flag h FLAG_DATA" "payload_len h = 0" by blast
        then have ip: "sin_addr a = ip" "decodeValidatedDatagram bs = Some h" by (auto split: if_splits)
        obtain sent w3 where sd: "sendto (seal_control (cl_ready_ack_header (seq_num h))) a w2 = (sent, w3)" by fastforce
        have "s' = s\<lparr>cs_destAddr := a, cs_rcvTimeout := cs_timeoutMs s\<rparr>" "w' = w3"
          using Suc.prems ab nab r Received h ip sd by (auto simp: Let_def)
        moreover have "heard FLAG_SYN a (inbox w)"
          using recvfrom_Received(1) [of w1 bs a w2] r Received h ip e1 by (auto simp: heard_def exchanged_def)
        moreover have "exchanged ?P w2 w3" by (rule exchanged_send [OF sd]) blast
        ultimately show ?thesis using exchanged_trans [OF e2] ip by blast
      next
        case False
        then have "cl_serverReady_loop n ip s w2 = Some (ready, s', w')"
          using Suc.prems ab nab r Received by (auto split: option.splits if_splits)
        then show ?thesis using later e2 by blast
      qed
    qed
  qed
qed

lemma waitForServerReady_outcome:
  assumes "waitForServerReady ip s w = Some (ready, s', w')"
  shows "exchanged (\<lambda>bs. \<exists>k. bs = seal_control (cl_ready_ack_header k)) w w' \<and>
    (ready \<longrightarrow> sin_addr (cs_destAddr s') = ip \<and> heard FLAG_SYN (cs_destAddr s') (inbox w))"
proof -
  obtain ab w1 where ab: "isAbortRequested (cs_abortInstalled s) w = (ab, w1)" by fastforce
  note e1 = exchanged_abort [OF ab, of "\<lambda>bs. \<exists>k. bs = seal_control (cl_ready_ack_header k)"]
  let ?s = "s\<lparr>cs_rcvTimeout := HANDSHAKE_TIMEOUT_MS\<rparr>"
  show ?thesis
  proof (cases "cs_socketOk s \<and> \<not> ab")
    case False
    with assms ab e1 show ?thesis by (auto simp: waitForServerReady_def exchanged_quiet split: if_splits)
  next
    case True
    then have "cl_serverReady_loop HANDSHAKE_MAX_RETRIES ip ?s w1 = Some (ready, s', w')"
      using assms ab by (simp add: waitForServerReady_def)
    from cl_serverReady_loop_outcome [OF this]
    obtain a t where "exchanged (\<lambda>bs. \<exists>k. bs = seal_control (cl_ready_ack_header k)) w1 w'"
      "s' = ?s\<lparr>cs_destAddr := a, cs_rcvTimeout := t\<rparr>" "ready \<longrightarrow> sin_addr a = ip \<and> heard FLAG_SYN a (inbox w1)" by blast
    with e1 show ?thesis by (auto elim: exchanged_trans heard_later)
  qed
qed


text \<open>What a receiver is after it has announced itself: it may have set a datagram of the peer aside.\<close>

definition announced :: "'a receiver_scheme \<Rightarrow> world \<Rightarrow> 'a receiver_scheme \<Rightarrow> bool" where
  "announced r w r' \<longleftrightarrow>
     (\<exists>p a t. r' = r\<lparr>pendingDatagram := p, pendingFrom := a, rcvTimeout := t\<rparr> \<and>
        (p = pendingDatagram r \<and> a = pendingFrom r \<or> a = peerAddr r \<and> Received p a \<in> set (inbox w)))"

lemma announced_timeout: "announced r w (r\<lparr>rcvTimeout := t\<rparr>)"
  unfolding announced_def by (intro exI [of _ "pendingDatagram r"] exI [of _ "pendingFrom r"] exI [of _ t]) simp

lemma announced_refl: "announced r w r"
  using announced_timeout [of r w "rcvTimeout r"] by simp

lemma announced_later: "announced r v r' \<Longrightarrow> exchanged P w v \<Longrightarrow> announced r w r'"
  unfolding announced_def exchanged_def by blast

lemma cl_applyDataTimeout_shape: "\<exists>t. cl_applyDataTimeout r = r\<lparr>rcvTimeout := t\<rparr>"
proof (cases "udpSocketOk r")
  case False
  then show ?thesis by (intro exI [of _ "rcvTimeout r"]) (simp add: cl_applyDataTimeout_def)
qed (auto simp: cl_applyDataTimeout_def)

lemma sv_applyDataTimeout_shape: "\<exists>t. sv_applyDataTimeout r = r\<lparr>rcvTimeout := t\<rparr>"
proof (cases "udpSocketOk r")
  case False
  then show ?thesis by (intro exI [of _ "rcvTimeout r"]) (simp add: sv_applyDataTimeout_def)
qed (auto simp: sv_applyDataTimeout_def)

lemma announced_aside:
  assumes "Received bs (peerAddr r) \<in> set (inbox w)"
  shows "announced r w (r\<lparr>pendingDatagram := bs, pendingFrom := peerAddr r, rcvTimeout := t\<rparr>)"
  unfolding announced_def using assms by (intro exI [of _ bs] exI [of _ "peerAddr r"] exI [of _ t]) simp

lemma cl_announced: "announced r w (cl_applyDataTimeout r)"
  using cl_applyDataTimeout_shape [of r] announced_timeout by metis

lemma cl_announced_aside:
  "Received bs (peerAddr r) \<in> set (inbox w) \<Longrightarrow>
   announced r w (cl_applyDataTimeout (r\<lparr>pendingDatagram := bs, pendingFrom := peerAddr r\<rparr>))"
  using cl_applyDataTimeout_shape [of "r\<lparr>pendingDatagram := bs, pendingFrom := peerAddr r\<rparr>"] announced_aside by metis

lemma sv_announced: "announced r w (sv_applyDataTimeout r)"
  using sv_applyDataTimeout_shape [of r] announced_timeout by metis

lemma sv_announced_aside:
  "Received bs (peerAddr r) \<in> set (inbox w) \<Longrightarrow>
   announced r w (sv_applyDataTimeout (r\<lparr>pendingDatagram := bs, pendingFrom := peerAddr r\<rparr>))"
  using sv_applyDataTimeout_shape [of "r\<lparr>pendingDatagram := bs, pendingFrom := peerAddr r\<rparr>"] announced_aside by metis

lemma cl_handshake_loop_outcome:
  "cl_handshake_loop n syn r w = Some (ready, r', w') \<Longrightarrow> exchanged (\<lambda>bs. bs = syn) w w' \<and> announced r w r'"
  (is "_ \<Longrightarrow> ?goal r w")
proof (induction n arbitrary: w)
  case 0
  then show ?case by (auto simp: exchanged_quiet cl_announced)
next
  case (Suc n)
  let ?P = "\<lambda>bs. bs = syn"
  have later: "?goal r w" if "cl_handshake_loop n syn r v = Some (ready, r', w')" "exchanged ?P w v" for v
    using Suc.IH [OF that(1)] that(2) exchanged_trans announced_later by blast
  obtain ab w1 where ab: "isAbortRequested (abortInstalled r) w = (ab, w1)" by fastforce
  obtain sent w2 where sd: "sendto syn (peerAddr r) w1 = (sent, w2)" by fastforce
  note e1 = exchanged_abort [OF ab, of ?P]
  note e2 = exchanged_trans [OF e1 exchanged_send [OF sd, of ?P, OF refl]]
  show ?case
  proof (cases "ab \<or> \<not> sent \<or> recvfrom w2 = None")
    case True
    with Suc.prems ab sd e1 e2 show ?thesis by (auto simp: cl_announced split: if_splits)
  next
    case False
    then obtain e w3 where r: "recvfrom w2 = Some (e, w3)" and go: "\<not> ab" "sent" by auto
    note e3 = exchanged_trans [OF e2 exchanged_recv [OF r]]
    show ?thesis
    proof (cases e)
      case RecvTimeout
      obtain ab2 w4 where ab2: "isAbortRequested (abortInstalled r) w3 = (ab2, w4)" by fastforce
      with Suc.prems ab go sd r RecvTimeout later exchanged_trans [OF e3 exchanged_abort [OF ab2]]
      show ?thesis by (auto simp: cl_announced split: if_splits)
    next
      case (RecvError k)
      obtain ab2 w4 where ab2: "isAbortRequested (abortInstalled r) w3 = (ab2, w4)" by fastforce
      with Suc.prems ab go sd r RecvError exchanged_trans [OF e3 exchanged_abort [OF ab2]]
      show ?thesis by (auto simp: cl_announced)
    next
      case (Received bs a)
      show ?thesis
      proof (cases "cl_handshake_loop n syn r w3 = Some (ready, r', w')")
        case True
        then show ?thesis using later e3 by blast
      next
        case False
        have mem: "Received bs a \<in> set (inbox w)"
          using recvfrom_Received(1) [of w2 bs a w3] r Received e2 by (auto simp: exchanged_def)
        have "a = peerAddr r" "w' = w3" "r' = cl_applyDataTimeout r \<or>
            r' = cl_applyDataTimeout (r\<lparr>pendingDatagram := bs, pendingFrom := a\<rparr>)"
          using Suc.prems ab go sd r Received False by (auto split: option.splits if_splits)
        with mem e3 show ?thesis by (auto simp: cl_announced intro: cl_announced_aside)
      qed
    qed
  qed
qed

lemma signalClientReady_outcome:
  assumes "signalClientReady a r w = Some (ready, r', w')"
  shows "exchanged (\<lambda>bs. bs = seal_control cl_syn_header) w w' \<and>
    (ready \<longrightarrow> announced (r\<lparr>peerAddr := a, peerKnown := True\<rparr>) w r')"
proof -
  obtain ab w1 where ab: "isAbortRequested (abortInstalled r) w = (ab, w1)" by fastforce
  obtain opt w2 where opt: "syscall w1 = (opt, w2)" by fastforce
  let ?P = "\<lambda>bs. bs = seal_control cl_syn_header" and ?r = "r\<lparr>peerAddr := a, peerKnown := True\<rparr>"
  note e1 = exchanged_abort [OF ab, of ?P]
  have e2: "exchanged ?P w w2"
    using exchanged_trans [OF e1, of w2] syscall_frame [of w1] opt by (simp add: exchanged_quiet)
  show ?thesis
  proof (cases "udpSocketOk r \<and> \<not> ab \<and> opt")
    case False
    with assms ab opt e1 e2 show ?thesis by (auto simp: signalClientReady_def Let_def exchanged_quiet split: if_splits)
  next
    case True
    let ?r1 = "?r\<lparr>rcvTimeout := HANDSHAKE_TIMEOUT_MS\<rparr>"
    have "cl_handshake_loop HANDSHAKE_MAX_RETRIES (seal_control cl_syn_header) ?r1 w2 = Some (ready, r', w')"
      using assms ab opt True by (simp add: signalClientReady_def)
    from cl_handshake_loop_outcome [OF this] have h: "exchanged ?P w2 w'" "announced ?r1 w2 r'" by blast+
    have "announced ?r w2 r'" using h(2) by (auto simp: announced_def)
    with h(1) e2 show ?thesis by (blast intro: exchanged_trans announced_later)
  qed
qed

lemma sv_handshake_loop_outcome:
  "sv_handshake_loop n syn r w = Some (ready, r', w') \<Longrightarrow> exchanged (\<lambda>bs. bs = syn) w w' \<and> announced r w r'"
  (is "_ \<Longrightarrow> ?goal r w")
proof (induction n arbitrary: w)
  case 0
  then show ?case by (auto simp: exchanged_quiet sv_announced)
next
  case (Suc n)
  let ?P = "\<lambda>bs. bs = syn"
  have later: "?goal r w" if "sv_handshake_loop n syn r v = Some (ready, r', w')" "exchanged ?P w v" for v
    using Suc.IH [OF that(1)] that(2) exchanged_trans announced_later by blast
  obtain ab w1 where ab: "isAbortRequested (abortInstalled r) w = (ab, w1)" by fastforce
  obtain sent w2 where sd: "sendto syn (peerAddr r) w1 = (sent, w2)" by fastforce
  note e1 = exchanged_abort [OF ab, of ?P]
  note e2 = exchanged_trans [OF e1 exchanged_send [OF sd, of ?P, OF refl]]
  show ?case
  proof (cases "ab \<or> \<not> sent \<or> recvfrom w2 = None")
    case True
    with Suc.prems ab sd e1 e2 show ?thesis by (auto simp: sv_announced announced_refl split: if_splits)
  next
    case False
    then obtain e w3 where r: "recvfrom w2 = Some (e, w3)" and go: "\<not> ab" "sent" by auto
    note e3 = exchanged_trans [OF e2 exchanged_recv [OF r]]
    show ?thesis
    proof (cases e)
      case RecvTimeout
      obtain ab2 w4 where ab2: "isAbortRequested (abortInstalled r) w3 = (ab2, w4)" by fastforce
      with Suc.prems ab go sd r RecvTimeout later exchanged_trans [OF e3 exchanged_abort [OF ab2]]
      show ?thesis by (auto simp: sv_announced announced_refl split: if_splits)
    next
      case (RecvError k)
      obtain ab2 w4 where ab2: "isAbortRequested (abortInstalled r) w3 = (ab2, w4)" by fastforce
      with Suc.prems ab go sd r RecvError exchanged_trans [OF e3 exchanged_abort [OF ab2]]
      show ?thesis by (auto simp: sv_announced announced_refl)
    next
      case (Received bs a)
      show ?thesis
      proof (cases "sv_handshake_loop n syn r w3 = Some (ready, r', w')")
        case True
        then show ?thesis using later e3 by blast
      next
        case False
        have mem: "Received bs a \<in> set (inbox w)"
          using recvfrom_Received(1) [of w2 bs a w3] r Received e2 by (auto simp: exchanged_def)
        have "a = peerAddr r" "w' = w3" "r' = sv_applyDataTimeout r \<or>
            r' = sv_applyDataTimeout (r\<lparr>pendingDatagram := bs, pendingFrom := a\<rparr>)"
          using Suc.prems ab go sd r Received False by (auto split: option.splits if_splits)
        with mem e3 show ?thesis by (auto simp: sv_announced intro: sv_announced_aside)
      qed
    qed
  qed
qed

lemma sv_initiateActiveHandshake_outcome:
  assumes "sv_initiateActiveHandshake a r w = Some (ready, r', w')"
  shows "exchanged (\<lambda>bs. bs = seal_control sv_syn_header) w w' \<and>
    (ready \<longrightarrow> announced (r\<lparr>peerAddr := a, peerKnown := True\<rparr>) w r')"
proof -
  obtain ab w1 where ab: "isAbortRequested (abortInstalled r) w = (ab, w1)" by fastforce
  let ?P = "\<lambda>bs. bs = seal_control sv_syn_header" and ?r = "r\<lparr>peerAddr := a, peerKnown := True\<rparr>"
  note e1 = exchanged_abort [OF ab, of ?P]
  show ?thesis
  proof (cases "udpSocketOk r \<and> \<not> ab")
    case False
    with assms ab e1 show ?thesis by (auto simp: sv_initiateActiveHandshake_def exchanged_quiet split: if_splits)
  next
    case True
    let ?r1 = "?r\<lparr>rcvTimeout := HANDSHAKE_TIMEOUT_MS\<rparr>"
    have "sv_handshake_loop HANDSHAKE_MAX_RETRIES (seal_control sv_syn_header) ?r1 w1 = Some (ready, r', w')"
      using assms ab True by (simp add: sv_initiateActiveHandshake_def)
    from sv_handshake_loop_outcome [OF this] have h: "exchanged ?P w1 w'" "announced ?r1 w1 r'" by blast+
    have "announced ?r w1 r'" using h(2) by (auto simp: announced_def)
    with h(1) e1 show ?thesis by (blast intro: exchanged_trans announced_later)
  qed
qed


section \<open>What reaches a receiver\<close>

lemma delivers_carried:
  assumes "network_delivers sent peer evs" "\<forall>p \<in> set sent. carries_stream f (fst p)" "Received bs peer \<in> set evs"
  shows "carries_stream f bs"
proof (cases "decodeValidatedDatagram bs")
  case None
  then show ?thesis by (simp add: carries_stream_def)
next
  case (Some h)
  with assms show ?thesis by (auto simp: network_delivers_def)
qed

text \<open>A peer that is learned is the one that is expected.\<close>

definition learned :: "byte \<Rightarrow> sockaddr_in \<Rightarrow> recv_result list \<Rightarrow> bool" where
  "learned f peer evs \<longleftrightarrow> (\<forall>a. heard f a evs \<longrightarrow> a = peer)"

lemma announced_stream:
  assumes "network_delivers sent peer (inbox w)" "\<forall>p \<in> set sent. carries_stream f (fst p)"
    "announced r0 w r" "peerKnown r0" "peerAddr r0 = peer" "outOfOrderBuffer r0 = Map.empty" "pendingDatagram r0 = []"
    "set evs \<subseteq> set (inbox w)"
  shows "stream_inv f r evs"
proof -
  have c: "carries_stream f bs" if "Received bs peer \<in> set (inbox w)" for bs
    using delivers_carried [OF assms(1,2) that] .
  obtain p a t where r: "r = r0\<lparr>pendingDatagram := p, pendingFrom := a, rcvTimeout := t\<rparr>"
    "p = [] \<or> a = peer \<and> Received p a \<in> set (inbox w)" using assms(3,5,7) by (auto simp: announced_def)
  show ?thesis using r assms(4-6,8) c by (auto simp: stream_inv_def buffer_stream_def)
qed

lemma learned_stream:
  assumes "network_delivers sent peer (inbox w)" "\<forall>p \<in> set sent. carries_stream f (fst p)" "learned FLAG_DATA peer (inbox w)"
    "outOfOrderBuffer r = Map.empty" "pendingDatagram r = []" "set evs \<subseteq> set (inbox w)"
  shows "stream_inv f r evs"
proof -
  have "carries_stream f bs" if "Received bs a \<in> set (inbox w)" for bs a
  proof (cases "\<exists>h. decodeValidatedDatagram bs = Some h \<and> has_flag h FLAG_DATA")
    case True
    then have "a = peer" using assms(3) that by (auto simp: learned_def heard_def)
    then show ?thesis using delivers_carried [OF assms(1,2)] that by simp
  next
    case False
    then show ?thesis by (auto simp: carries_stream_def)
  qed
  with assms(4-6) show ?thesis by (auto simp: stream_inv_def buffer_stream_def)
qed

lemma control_carries:
  "\<not> has_flag h FLAG_DATA \<Longrightarrow> payload_len h = 0 \<Longrightarrow> checksum h = 0 \<Longrightarrow> carries_stream f (seal_control h)"
  by (simp add: carries_stream_def decode_seal_control has_flag_def)

lemma handshake_carries:
  "carries_stream f (seal_control (sv_ready_ack_header k))" "carries_stream f (seal_control (cl_ready_ack_header k))"
  "carries_stream f (seal_control sv_syn_header)" "carries_stream f (seal_control cl_syn_header)"
  by (rule control_carries; simp add: sv_ready_ack_header_def cl_ready_ack_header_def sv_syn_header_def cl_syn_header_def
      zero_header_def has_flag_def flag_defs)+

lemma exchanged_sent: "exchanged P w w' \<Longrightarrow> \<forall>p \<in> set (sent_between w w'). P (fst p)"
  by (auto simp: exchanged_def sent_between_append)

lemma exchanged_weaken: "exchanged P w w' \<Longrightarrow> (\<And>bs. P bs \<Longrightarrow> Q bs) \<Longrightarrow> exchanged Q w w'"
  unfolding exchanged_def by blast

lemma wire_content_idem: "wire_content mode (wire_content mode bs) = wire_content mode bs"
  by (cases mode) (simp_all add: wire_content_def crlf_idem)

lemma file_stream_last_exists:
  assumes "fits bs"
  shows "last_chunk (file_stream bs) (of_nat (chunk_count bs - 1))" "file_stream bs (chunk_count bs - 1) \<noteq> None"
proof -
  have d: "(chunk_count bs - 1 = 0 \<or> MAX_PAYLOAD * (chunk_count bs - 1) < length bs) \<and>
      length bs \<le> MAX_PAYLOAD * (chunk_count bs - 1 + 1)"
    by (auto simp: chunk_count_def MAX_PAYLOAD_def max_def)
  then show "file_stream bs (chunk_count bs - 1) \<noteq> None" by (simp add: file_stream_def)
  have "unat (of_nat (chunk_count bs - 1) :: u32) = chunk_count bs - 1"
    using d fits_number [OF assms, of "chunk_count bs - 1"] by auto
  with d show "last_chunk (file_stream bs) (of_nat (chunk_count bs - 1))"
    by (intro file_stream_last [where d = "take MAX_PAYLOAD (drop (MAX_PAYLOAD * (chunk_count bs - 1)) bs)"])
      (simp add: file_stream_def)
qed

lemma cl_ack_decode:
  assumes "decodeValidatedDatagram bs = Some h" "has_flag h FLAG_ACK"
    "bs = seal_control cl_syn_header \<or> (\<exists>s. bs = cl_ack s \<or> bs = cl_nak s)"
  shows "bs = cl_ack (ack_num h)"
  using assms
  by (auto simp: decode_seal_control cl_response_header_def cl_syn_header_def zero_header_def has_flag_def flag_defs)

end
