(* ===== verification/Text_Format.thy ===== *)
theory Text_Format
  imports Prelude
begin

text \<open>
  What the programs use of the text facilities of C and C++: classes of characters in the C locale,
  \<^verbatim>\<open>std::to_string\<close> and \<^verbatim>\<open>%d\<close>, the extraction of words from a stream, \<^verbatim>\<open>std::getline\<close> and the
  six-number format of \<^verbatim>\<open>sscanf_s\<close>. A \<^verbatim>\<open>char\<close> of the source is a \<^verbatim>\<open>char\<close> of HOL.
\<close>

section \<open>Characters\<close>

definition is_space :: "char \<Rightarrow> bool" where
  "is_space c \<longleftrightarrow> c \<in> {CHR '' '', CHR 0x09, CHR 0x0A, CHR 0x0B, CHR 0x0C, CHR 0x0D}"

definition is_digit :: "char \<Rightarrow> bool" where
  "is_digit c \<longleftrightarrow> 48 \<le> (of_char c :: nat) \<and> (of_char c :: nat) \<le> 57"

definition is_xdigit :: "char \<Rightarrow> bool" where
  "is_xdigit c \<longleftrightarrow> is_digit c \<or> 65 \<le> (of_char c :: nat) \<and> (of_char c :: nat) \<le> 70 \<or>
     97 \<le> (of_char c :: nat) \<and> (of_char c :: nat) \<le> 102"

definition digit_value :: "char \<Rightarrow> nat" where
  "digit_value c = of_char c - 48"

text \<open>\<^verbatim>\<open>std::toupper\<close> on every character.\<close>

definition to_upper :: "char \<Rightarrow> char" where
  "to_upper c = (if 97 \<le> (of_char c :: nat) \<and> (of_char c :: nat) \<le> 122 then char_of ((of_char c :: nat) - 32) else c)"

definition upper_string :: "string \<Rightarrow> string" where
  "upper_string s = map to_upper s"

lemma to_upper_idem [simp]: "to_upper (to_upper c) = to_upper c"
  by (auto simp: to_upper_def of_char_of)

lemma upper_string_idem [simp]: "upper_string (upper_string s) = upper_string s"
  by (simp add: upper_string_def)

lemma is_space_to_upper: "is_space (to_upper c) \<longleftrightarrow> is_space c"
proof (cases "97 \<le> (of_char c :: nat) \<and> (of_char c :: nat) \<le> 122")
  case True
  then have "(of_char c :: nat) - 32 < 256" by linarith
  with True have "of_char (to_upper c) = (of_char c :: nat) - 32" by (simp add: to_upper_def of_char_of)
  then have n: "65 \<le> (of_char (to_upper c) :: nat)" using True by linarith
  have s: "(of_char d :: nat) \<le> 32" if "is_space d" for d using that by (auto simp: is_space_def of_char_Char)
  from s [of c] s [of "to_upper c"] n True show ?thesis by auto
qed (auto simp: to_upper_def)

section \<open>Numbers as text\<close>

fun to_string :: "nat \<Rightarrow> string" where
  "to_string n = (if n < 10 then [char_of (48 + n)] else to_string (n div 10) @ [char_of (48 + n mod 10)])"

declare to_string.simps [simp del]

text \<open>The value of a list of digits, read from the left.\<close>

definition digits_value :: "string \<Rightarrow> nat" where
  "digits_value ds = foldl (\<lambda>v c. 10 * v + digit_value c) 0 ds"

lemma digit_char: "d < 10 \<Longrightarrow> is_digit (char_of (48 + d))" "d < 10 \<Longrightarrow> digit_value (char_of (48 + d)) = d"
  by (simp_all add: is_digit_def digit_value_def of_char_of)

lemma to_string_digits: "list_all is_digit (to_string n)"
proof (induction n rule: to_string.induct)
  case (1 n)
  then show ?case using digit_char [of n] digit_char [of "n mod 10"] by (simp add: to_string.simps [of n])
qed

lemma to_string_nonempty [simp]: "to_string n \<noteq> []"
  by (simp add: to_string.simps [of n])

lemma to_string_value [simp]: "digits_value (to_string n) = n"
proof (induction n rule: to_string.induct)
  case (1 n)
  show ?case
  proof (cases "n < 10")
    case True
    then show ?thesis using digit_char(2) [of n] by (simp add: to_string.simps [of n] digits_value_def)
  next
    case False
    with 1 digit_char(2) [of "n mod 10"] show ?thesis
      by (simp add: to_string.simps [of n] digits_value_def)
  qed
qed

lemma to_string_inject: "to_string m = to_string n \<longleftrightarrow> m = n"
  using to_string_value by metis

lemma is_digit_not_space: "is_digit c \<Longrightarrow> \<not> is_space c"
  by (auto simp: is_digit_def is_space_def of_char_Char)

section \<open>Words of a stream\<close>

text \<open>\<^verbatim>\<open>while (input >> token)\<close>: skip white space, then take up to the next white space.\<close>

function split_words :: "string \<Rightarrow> string list" where
  "split_words s =
     (case dropWhile is_space s of
        [] \<Rightarrow> []
      | c # cs \<Rightarrow> (c # takeWhile (\<lambda>x. \<not> is_space x) cs) # split_words (dropWhile (\<lambda>x. \<not> is_space x) cs))"
  by pat_completeness auto
termination
proof (relation "measure length")
  fix s c and cs :: string
  assume "dropWhile is_space s = c # cs"
  then have "length cs < length s" using length_dropWhile_le [of is_space s] by simp
  moreover have "length (dropWhile (\<lambda>x. \<not> is_space x) cs) \<le> length cs" by (rule length_dropWhile_le)
  ultimately show "(dropWhile (\<lambda>x. \<not> is_space x) cs, s) \<in> measure length" by simp
qed simp

declare split_words.simps [simp del]

definition is_word :: "string \<Rightarrow> bool" where
  "is_word t \<longleftrightarrow> t \<noteq> [] \<and> list_all (\<lambda>c. \<not> is_space c) t"

lemma list_all_takeWhile: "list_all P (takeWhile P xs)"
  by (induction xs) simp_all

lemma split_words_word: "t \<in> set (split_words s) \<Longrightarrow> is_word t"
proof (induction s rule: split_words.induct)
  case (1 s)
  show ?case
  proof (cases "dropWhile is_space s")
    case Nil
    with "1.prems" show ?thesis by (simp add: split_words.simps [of s])
  next
    case (Cons c cs)
    then have "\<not> is_space c" by (simp add: dropWhile_eq_Cons_conv)
    then have "is_word (c # takeWhile (\<lambda>x. \<not> is_space x) cs)"
      by (simp add: is_word_def list_all_takeWhile)
    moreover have "split_words s = (c # takeWhile (\<lambda>x. \<not> is_space x) cs) # split_words (dropWhile (\<lambda>x. \<not> is_space x) cs)"
      by (simp add: split_words.simps [of s] Cons)
    ultimately show ?thesis using "1.IH" [OF Cons] "1.prems" by auto
  qed
qed

lemma split_words_step:
  assumes "is_word t" "rest = [] \<or> is_space (hd rest)"
  shows "split_words (t @ rest) = t # split_words rest"
proof -
  obtain c cs where t: "t = c # cs" "\<not> is_space c" "list_all (\<lambda>c. \<not> is_space c) cs"
    using assms(1) by (cases t) (auto simp: is_word_def)
  have "takeWhile (\<lambda>x. \<not> is_space x) (cs @ rest) = cs" "dropWhile (\<lambda>x. \<not> is_space x) (cs @ rest) = rest"
    using t(3) assms(2) by (cases rest; simp add: list_all_iff takeWhile_append dropWhile_append)+
  with t show ?thesis by (simp add: split_words.simps [of "c # cs @ rest"])
qed

lemma split_words_space: "is_space c \<Longrightarrow> split_words (c # s) = split_words s"
  by (simp add: split_words.simps [of "c # s"] split_words.simps [of s])

lemma split_words_Nil [simp]: "split_words [] = []"
  by (simp add: split_words.simps)

text \<open>Words joined by single blanks.\<close>

fun join_words :: "string list \<Rightarrow> string" where
  "join_words [] = []"
| "join_words [t] = t"
| "join_words (t # ts) = t @ '' '' @ join_words ts"

lemma split_join: "list_all is_word ts \<Longrightarrow> split_words (join_words ts) = ts"
proof (induction ts rule: join_words.induct)
  case (2 t)
  then show ?case using split_words_step [of t "[]"] by simp
next
  case (3 t u ts)
  then show ?case
    using split_words_step [of t "'' '' @ join_words (u # ts)"] split_words_space [of "CHR '' ''"]
    by (simp add: is_space_def)
qed simp

section \<open>Six numbers\<close>

text \<open>
  \<^verbatim>\<open>%d\<close>: white space, an optional sign, at least one digit. What the library stores for a number
  outside the range of \<^verbatim>\<open>int\<close> is not specified by the language; \<open>wide\<close> stands for it.
\<close>

definition scan_int :: "(int \<Rightarrow> int) \<Rightarrow> string \<Rightarrow> (int \<times> string) option" where
  "scan_int wide s =
     (let s1 = dropWhile is_space s;
          (neg, s2) = (case s1 of
                         [] \<Rightarrow> (False, [])
                       | c # cs \<Rightarrow> if c = CHR ''-'' then (True, cs) else if c = CHR ''+'' then (False, cs)
                                   else (False, s1));
          ds = takeWhile is_digit s2
      in if ds = [] then None
         else let v = (if neg then - int (digits_value ds) else int (digits_value ds))
           in Some (if - (2 ^ 31) \<le> v \<and> v < 2 ^ 31 then v else wide v, dropWhile is_digit s2))"

text \<open>\<^verbatim>\<open>"%d,%d,%d,%d,%d,%d%n"\<close>: the numbers and what is left of the text.\<close>

fun scan_ints :: "(int \<Rightarrow> int) \<Rightarrow> nat \<Rightarrow> string \<Rightarrow> (int list \<times> string) option" where
  "scan_ints wide 0 s = None"
| "scan_ints wide (Suc 0) s =
     (case scan_int wide s of None \<Rightarrow> None | Some (v, rest) \<Rightarrow> Some ([v], rest))"
| "scan_ints wide (Suc n) s =
     (case scan_int wide s of
        None \<Rightarrow> None
      | Some (v, rest) \<Rightarrow>
          (case rest of
             [] \<Rightarrow> None
           | c # cs \<Rightarrow>
               if c \<noteq> CHR '','' then None
               else case scan_ints wide n cs of None \<Rightarrow> None | Some (vs, r) \<Rightarrow> Some (v # vs, r)))"

text \<open>Numbers joined by commas, as \<^verbatim>\<open>sprintf_s\<close> prints them.\<close>

fun print_ints :: "char \<Rightarrow> nat list \<Rightarrow> string" where
  "print_ints sep [] = []"
| "print_ints sep [v] = to_string v"
| "print_ints sep (v # vs) = to_string v @ [sep] @ print_ints sep vs"

lemma scan_int_print:
  assumes "v < 2 ^ 31" "rest = [] \<or> \<not> is_digit (hd rest)"
  shows "scan_int wide (to_string v @ rest) = Some (int v, rest)"
proof -
  obtain c cs where c: "to_string v = c # cs" by (cases "to_string v") auto
  then have dig: "is_digit c" using to_string_digits [of v] by simp
  then have "\<not> is_space c" "c \<noteq> CHR ''-''" "c \<noteq> CHR ''+''"
    using is_digit_not_space by (auto simp: is_digit_def of_char_Char)
  moreover have "takeWhile is_digit (to_string v @ rest) = to_string v" "dropWhile is_digit (to_string v @ rest) = rest"
    using to_string_digits [of v] assms(2)
    by (cases rest; simp add: list_all_iff takeWhile_append dropWhile_append)+
  ultimately show ?thesis using assms(1) to_string_value [of v] c by (simp add: scan_int_def)
qed

lemma scan_ints_print:
  assumes "vs \<noteq> []" "list_all (\<lambda>v. v < 2 ^ 31) vs"
  shows "scan_ints wide (length vs) (print_ints (CHR '','') vs) = Some (map int vs, [])"
  using assms
proof (induction vs rule: induct_list012)
  case (2 v)
  then show ?case using scan_int_print [of v "[]" wide] by simp
next
  case (3 v u vs)
  have "\<not> is_digit (CHR '','')" by (simp add: is_digit_def of_char_Char)
  then have "scan_int wide (to_string v @ CHR '','' # print_ints (CHR '','') (u # vs)) =
      Some (int v, CHR '','' # print_ints (CHR '','') (u # vs))"
    using 3(4) scan_int_print [of v "CHR '','' # print_ints (CHR '','') (u # vs)" wide] by simp
  with 3 show ?case by simp
qed simp

end
