(* ===== verification/Endpoint_Format.thy ===== *)
theory Endpoint_Format
  imports Text_Format Net_World
begin

unbundle bit_operations_syntax

text \<open>
  How endpoints travel over the control connection and how data ports are opened:
  \<^verbatim>\<open>ActiveModeHandler.cpp\<close> and \<^verbatim>\<open>PassiveModeHandler.cpp\<close> of the server, \<^verbatim>\<open>ActiveModeClient.cpp\<close> and
  \<^verbatim>\<open>PassiveModeClient.cpp\<close> of the client. Addresses and ports are kept in host order throughout, so
  the conversions of the source (\<^verbatim>\<open>htons\<close>, \<^verbatim>\<open>ntohl\<close>) are left out on both sides.
\<close>

section \<open>Formatting\<close>

definition octets :: "u32 \<Rightarrow> u16 \<Rightarrow> nat list" where
  "octets ipv4Address port =
     [unat (drop_bit 24 ipv4Address AND 0xFF), unat (drop_bit 16 ipv4Address AND 0xFF),
      unat (drop_bit 8 ipv4Address AND 0xFF), unat (ipv4Address AND 0xFF),
      unat (drop_bit 8 port AND 0xFF), unat (port AND 0xFF)]"

definition formatPasvReply :: "u32 \<Rightarrow> u16 \<Rightarrow> string" where
  "formatPasvReply ipv4Address port = print_ints (CHR '','') (octets ipv4Address port)"

definition formatPortCommand :: "u32 \<Rightarrow> u16 \<Rightarrow> string" where
  "formatPortCommand ipv4Address port = print_ints (CHR '','') (octets ipv4Address port)"

section \<open>Parsing\<close>

definition inRange :: "int \<Rightarrow> bool" where
  "inRange v \<longleftrightarrow> 0 \<le> v \<and> v \<le> 255"

text \<open>
  \<open>inet_pton\<close> is the address conversion of the socket library: \<open>None\<close> for text that is no IPv4
  address.
\<close>

definition endpoint_of :: "(string \<Rightarrow> u32 option) \<Rightarrow> int list \<Rightarrow> sockaddr_in option" where
  "endpoint_of inet_pton vs =
     (case vs of
        [h1, h2, h3, h4, p1, p2] \<Rightarrow>
          (case inet_pton (print_ints (CHR ''.'') [nat h1, nat h2, nat h3, nat h4]) of
             None \<Rightarrow> None
           | Some ip \<Rightarrow> Some \<lparr>sin_family = AF_INET, sin_port = of_int (p1 * 256 + p2), sin_addr = ip\<rparr>)
      | _ \<Rightarrow> None)"

definition sv_parsePortCommand :: "(int \<Rightarrow> int) \<Rightarrow> (string \<Rightarrow> u32 option) \<Rightarrow> string \<Rightarrow> sockaddr_in option" where
  "sv_parsePortCommand wide inet_pton arg =
     (case scan_ints wide 6 arg of
        None \<Rightarrow> None
      | Some (vs, rest) \<Rightarrow>
          if rest \<noteq> [] then None
          else if \<not> list_all inRange vs then None
          else if vs ! 4 = 0 \<and> vs ! 5 = 0 then None
          else endpoint_of inet_pton vs)"

definition cl_parsePortCommand :: "(int \<Rightarrow> int) \<Rightarrow> (string \<Rightarrow> u32 option) \<Rightarrow> string \<Rightarrow> sockaddr_in option" where
  "cl_parsePortCommand wide inet_pton argument =
     (case scan_ints wide 6 argument of
        None \<Rightarrow> None
      | Some (vs, rest) \<Rightarrow>
          if rest \<noteq> [] then None
          else if \<not> list_all inRange vs \<or> vs ! 4 = 0 \<and> vs ! 5 = 0 then None
          else endpoint_of inet_pton vs)"

text \<open>
  \<^verbatim>\<open>replyLine.find('(')\<close> and the first \<^verbatim>\<open>)\<close> after it; the text between.
\<close>

definition parenthesised :: "string \<Rightarrow> string option" where
  "parenthesised replyLine =
     (case dropWhile (\<lambda>c. c \<noteq> CHR ''('') replyLine of
        [] \<Rightarrow> None
      | _ # rest \<Rightarrow>
          if CHR '')'' \<in> set rest then Some (takeWhile (\<lambda>c. c \<noteq> CHR '')'') rest) else None)"

definition parsePasvReply :: "(int \<Rightarrow> int) \<Rightarrow> (string \<Rightarrow> u32 option) \<Rightarrow> string \<Rightarrow> sockaddr_in option" where
  "parsePasvReply wide inet_pton replyLine =
     (case parenthesised replyLine of
        None \<Rightarrow> None
      | Some inner \<Rightarrow>
          (case scan_ints wide 6 inner of
             None \<Rightarrow> None
           | Some (vs, rest) \<Rightarrow>
               if rest \<noteq> [] then None
               else if \<not> list_all inRange vs then None
               else endpoint_of inet_pton vs))"

section \<open>Opening data ports\<close>

text \<open>
  The functions that open sockets, with the answers of the system scripted as in the transports.
  \<open>boundPort\<close> is the port \<^verbatim>\<open>getsockname\<close> reports. The result is the port, or \<open>None\<close> with every socket
  closed again.
\<close>

definition openPassiveDataPort :: "u16 \<Rightarrow> world \<Rightarrow> u16 option \<times> world" where
  "openPassiveDataPort boundPort w =
     (let (created, w1) = syscall w
      in if \<not> created then (None, w1)
         else let (bound, w2) = syscall w1
           in if \<not> bound then (None, w2)
              else let (named, w3) = syscall w2
                in if \<not> named then (None, w3) else (Some boundPort, w3))"

definition openActiveDataConnection :: "world \<Rightarrow> bool \<times> world" where
  "openActiveDataConnection w =
     (let (created, w1) = syscall w
      in if \<not> created then (False, w1) else syscall w1)"

definition getLocalIPv4ForServer ::
  "(string \<Rightarrow> u32 option) \<Rightarrow> u32 \<Rightarrow> string \<Rightarrow> world \<Rightarrow> u32 option \<times> world" where
  "getLocalIPv4ForServer inet_pton localIp serverIp w =
     (let (created, w1) = syscall w
      in if \<not> created then (None, w1)
         else case inet_pton serverIp of
             None \<Rightarrow> (None, w1)
           | Some _ \<Rightarrow>
               (let (connected, w2) = syscall w1
                in if \<not> connected then (None, w2)
                   else let (named, w3) = syscall w2
                     in if \<not> named then (None, w3) else (Some localIp, w3)))"

definition openActiveListenPort :: "u16 \<Rightarrow> world \<Rightarrow> u16 option \<times> world" where
  "openActiveListenPort boundPort w =
     (let (created, w1) = syscall w
      in if \<not> created then (None, w1)
         else let (bound, w2) = syscall w1
           in if \<not> bound then (None, w2)
              else let (named, w3) = syscall w2
                in if \<not> named then (None, w3) else (Some boundPort, w3))"

definition openActiveListenPort_at :: "sockaddr_in \<Rightarrow> world \<Rightarrow> bool \<times> world" where
  "openActiveListenPort_at localAddress w =
     (if sin_family localAddress \<noteq> AF_INET \<or> sin_port localAddress = 0 then (False, w)
      else let (created, w1) = syscall w
        in if \<not> created then (False, w1) else syscall w1)"

definition connectToPassiveDataPort :: "sockaddr_in \<Rightarrow> world \<Rightarrow> bool \<times> world" where
  "connectToPassiveDataPort serverAddr w = syscall w"

section \<open>Properties\<close>

text \<open>The text form of an IPv4 address that \<^verbatim>\<open>inet_pton\<close> is documented to accept.\<close>

definition dotted :: "u32 \<Rightarrow> string" where
  "dotted ip = print_ints (CHR ''.'') (take 4 (octets ip 0))"

definition inet_pton_accepts :: "(string \<Rightarrow> u32 option) \<Rightarrow> bool" where
  "inet_pton_accepts f \<longleftrightarrow> (\<forall>ip. f (dotted ip) = Some ip)"

lemma octets_small: "list_all (\<lambda>v. v < 256) (octets ip port)"
proof -
  have w: "unat (x AND 0xFF :: u32) < 256" for x
    using word_and_le1 [of x "0xFF"] by (simp add: word_le_nat_alt)
  have v: "unat (x AND 0xFF :: u16) < 256" for x
    using word_and_le1 [of x "0xFF"] by (simp add: word_le_nat_alt)
  show ?thesis using w v by (simp add: octets_def)
qed

lemma octets_port: "256 * (octets ip port ! 4) + octets ip port ! 5 = unat port"
proof -
  have "unat (port AND 0xFF) = unat port mod 256"
  proof -
    have "port AND 0xFF = take_bit 8 port" by (simp add: take_bit_eq_mask mask_eq_exp_minus_1)
    then show ?thesis by (simp add: unsigned_take_bit_eq take_bit_nat_def)
  qed
  moreover have "unat (drop_bit 8 port AND 0xFF) = unat port div 256"
  proof -
    have "drop_bit 8 port AND 0xFF = take_bit 8 (drop_bit 8 port)" by (simp add: take_bit_eq_mask mask_eq_exp_minus_1)
    moreover have "unat port div 256 < 256" using unat_u16_less [of port] by linarith
    ultimately show ?thesis by (simp add: unsigned_take_bit_eq take_bit_nat_def unat_drop_bit_eq drop_bit_nat_def)
  qed
  ultimately show ?thesis by (simp add: octets_def)
qed

lemma octets_shape: "\<exists>h1 h2 h3 h4 p1 p2. octets ip port = [h1, h2, h3, h4, p1, p2]"
  by (simp add: octets_def)

text \<open>What both sides make of the six numbers the other side prints.\<close>

lemma scan_octets: "scan_ints wide 6 (print_ints (CHR '','') (octets ip port)) = Some (map int (octets ip port), [])"
proof -
  have "list_all (\<lambda>v. v < 2 ^ 31) (octets ip port)" using octets_small [of ip port] by (auto simp: list_all_iff)
  from scan_ints_print [OF _ this, of wide] show ?thesis by (simp add: octets_def numeral_eq_Suc)
qed

lemma endpoint_of_octets:
  assumes "inet_pton_accepts f"
  shows "endpoint_of f (map int (octets ip port)) = Some \<lparr>sin_family = AF_INET, sin_port = port, sin_addr = ip\<rparr>"
proof -
  have "f (print_ints (CHR ''.'') (take 4 (octets ip port))) = Some ip"
    using assms by (simp add: inet_pton_accepts_def dotted_def octets_def)
  moreover have "(of_int (int (octets ip port ! 4) * 256 + int (octets ip port ! 5)) :: u16) = port"
  proof -
    have "int (octets ip port ! 4) * 256 + int (octets ip port ! 5) = int (unat port)"
      using octets_port [of ip port] by linarith
    then show ?thesis by simp
  qed
  ultimately show ?thesis by (simp add: endpoint_of_def octets_def)
qed

lemma print_ints_chars: "set (print_ints (CHR '','') vs) \<subseteq> {c. is_digit c} \<union> {CHR '',''}"
proof -
  have dig: "set (to_string n) \<subseteq> {c. is_digit c}" for n using to_string_digits [of n] by (auto simp: list_all_iff)
  show ?thesis using dig by (induction vs rule: induct_list012) auto
qed

lemma no_paren: "CHR '')'' \<notin> set (print_ints (CHR '','') vs)" "CHR ''('' \<notin> set (print_ints (CHR '','') vs)"
proof -
  have "\<not> is_digit (CHR '')'')" "\<not> is_digit (CHR ''('')" by (simp_all add: is_digit_def of_char_Char)
  with print_ints_chars show "CHR '')'' \<notin> set (print_ints (CHR '','') vs)" "CHR ''('' \<notin> set (print_ints (CHR '','') vs)"
    by blast+
qed

lemma parenthesised_inner:
  assumes "CHR ''('' \<notin> set pre" "CHR '')'' \<notin> set inner"
  shows "parenthesised (pre @ CHR ''('' # inner @ CHR '')'' # post) = Some inner"
  using assms by (simp add: parenthesised_def dropWhile_append3 takeWhile_append2 dropWhile_append takeWhile_append)

lemma octets_range: "list_all inRange (map int (octets ip port))"
  using octets_small [of ip port] by (auto simp: list_all_iff inRange_def)

lemma octets_zero: "map int (octets ip port) ! 4 = 0 \<and> map int (octets ip port) ! 5 = 0 \<longleftrightarrow> port = 0"
proof -
  let ?vs = "map int (octets ip port)"
  have "octets ip port ! 4 = 0 \<and> octets ip port ! 5 = 0 \<longleftrightarrow> unat port = 0"
    using octets_port [of ip port] by arith
  moreover have "?vs ! 4 = int (octets ip port ! 4)" "?vs ! 5 = int (octets ip port ! 5)" by (simp_all add: octets_def)
  ultimately show ?thesis by (simp add: unat_eq_0)
qed

lemma parse_formatPasv:
  assumes "inet_pton_accepts inet_pton" "CHR ''('' \<notin> set pre"
  shows "parsePasvReply wide inet_pton (pre @ ''('' @ formatPasvReply ip port @ '').'') =
      Some \<lparr>sin_family = AF_INET, sin_port = port, sin_addr = ip\<rparr>"
proof -
  have "parenthesised (pre @ ''('' @ formatPasvReply ip port @ '').'') = Some (formatPasvReply ip port)"
    using parenthesised_inner [OF assms(2) no_paren(1), of "octets ip port" "''.''"] by (simp add: formatPasvReply_def)
  then show ?thesis
    using octets_range scan_octets [of wide ip port] endpoint_of_octets [OF assms(1), of ip port]
    by (simp add: parsePasvReply_def formatPasvReply_def)
qed

lemma parse_formatPort:
  assumes "inet_pton_accepts inet_pton"
  shows "sv_parsePortCommand wide inet_pton (formatPortCommand ip port) =
      (if port = 0 then None else Some \<lparr>sin_family = AF_INET, sin_port = port, sin_addr = ip\<rparr>)"
  using octets_range octets_zero [of ip port] scan_octets [of wide ip port] endpoint_of_octets [OF assms, of ip port]
  by (simp add: sv_parsePortCommand_def formatPortCommand_def)

text \<open>
  Endpoints survive the control connection. The client reads from the reply to PASV exactly the
  address and port the server announced, whatever port the system chose, and the server reads from
  the client's PORT command exactly the client's address and port, except that it refuses port 0.
\<close>

theorem endpoint_roundtrip:
  assumes "inet_pton_accepts inet_pton" "CHR ''('' \<notin> set pre"
  shows "parsePasvReply wide inet_pton (pre @ ''('' @ formatPasvReply ip port @ '').'') =
      Some \<lparr>sin_family = AF_INET, sin_port = port, sin_addr = ip\<rparr> \<and>
    sv_parsePortCommand wide inet_pton (formatPortCommand ip port) =
      (if port = 0 then None else Some \<lparr>sin_family = AF_INET, sin_port = port, sin_addr = ip\<rparr>)"
  using parse_formatPasv [OF assms] parse_formatPort [OF assms(1)] by blast

text \<open>
  The two programs agree on what a PORT argument is. The parsers of server and client accept the
  same texts with the same result; what they accept is an IPv4 endpoint with a port other than 0.
\<close>

lemma scan_ints_length: "scan_ints wide n s = Some (vs, rest) \<Longrightarrow> length vs = n"
  by (induction wide n s arbitrary: vs rest rule: scan_ints.induct)
    (auto split: option.splits list.splits if_splits)

lemma length_six: "length vs = 6 \<Longrightarrow> \<exists>a b c d e f. vs = [a, b, c, d, e, f]"
  by (auto simp: numeral_eq_Suc length_Suc_conv)

lemma endpoint_port:
  assumes "endpoint_of inet_pton vs = Some a" "list_all inRange vs" "\<not> (vs ! 4 = 0 \<and> vs ! 5 = 0)" "length vs = 6"
  shows "sin_family a = AF_INET \<and> sin_port a \<noteq> 0"
proof -
  obtain h1 h2 h3 h4 p1 p2 where vs: "vs = [h1, h2, h3, h4, p1, p2]" using length_six [OF assms(4)] by blast
  then have r: "0 \<le> p1" "p1 \<le> 255" "0 \<le> p2" "p2 \<le> 255" "p1 \<noteq> 0 \<or> p2 \<noteq> 0"
    using assms(2,3) by (auto simp: inRange_def)
  have p: "uint (of_int (p1 * 256 + p2) :: u16) = p1 * 256 + p2"
    by (subst uint_word_of_int) (use r in \<open>simp add: take_bit_int_eq_self\<close>)
  have "p1 * 256 + p2 \<noteq> 0" using r by arith
  then have "(of_int (p1 * 256 + p2) :: u16) \<noteq> 0" using p by (metis unsigned_0)
  with assms(1) vs show ?thesis by (auto simp: endpoint_of_def split: option.splits)
qed

theorem port_parsers_agree:
  "sv_parsePortCommand wide inet_pton arg = cl_parsePortCommand wide inet_pton arg \<and>
   (case sv_parsePortCommand wide inet_pton arg of
      None \<Rightarrow> True
    | Some a \<Rightarrow> sin_family a = AF_INET \<and> sin_port a \<noteq> 0)"
proof -
  have "sv_parsePortCommand wide inet_pton arg = cl_parsePortCommand wide inet_pton arg"
    by (auto simp: sv_parsePortCommand_def cl_parsePortCommand_def split: option.splits)
  moreover have "sin_family a = AF_INET \<and> sin_port a \<noteq> 0" if a: "sv_parsePortCommand wide inet_pton arg = Some a" for a
  proof -
    obtain vs where vs: "scan_ints wide 6 arg = Some (vs, [])" "list_all inRange vs"
      "\<not> (vs ! 4 = 0 \<and> vs ! 5 = 0)" "endpoint_of inet_pton vs = Some a"
      using a by (auto simp: sv_parsePortCommand_def split: option.splits if_splits)
    from endpoint_port [OF vs(4,2,3) scan_ints_length [OF vs(1)]] show ?thesis .
  qed
  ultimately show ?thesis by (simp split: option.splits)
qed

section \<open>Instances\<close>

text \<open>An address conversion: read four numbers, print them and compare.\<close>

definition sample_inet_pton :: "string \<Rightarrow> u32 option" where
  "sample_inet_pton s =
     (case scan_ints (\<lambda>v. v) 4 (map (\<lambda>c. if c = CHR ''.'' then CHR '','' else c) s) of
        Some ([a, b, c, d], []) \<Rightarrow> Some (of_int (((a * 256 + b) * 256 + c) * 256 + d))
      | _ \<Rightarrow> None)"

lemma commas: "map (\<lambda>c. if c = CHR ''.'' then CHR '','' else c) (print_ints (CHR ''.'') vs) = print_ints (CHR '','') vs"
proof -
  have dig: "map (\<lambda>c. if c = CHR ''.'' then CHR '','' else c) (to_string n) = to_string n" for n
    using to_string_digits [of n] by (intro map_idI) (auto simp: list_all_iff is_digit_def of_char_Char)
  then show ?thesis by (induction vs rule: induct_list012) simp_all
qed

lemma octet_value: "unat (drop_bit n ip AND 0xFF :: u32) = unat ip div 2 ^ n mod 256"
proof -
  have "drop_bit n ip AND 0xFF = take_bit 8 (drop_bit n ip)" by (simp add: take_bit_eq_mask mask_eq_exp_minus_1)
  then show ?thesis by (simp add: unsigned_take_bit_eq take_bit_nat_def unat_drop_bit_eq drop_bit_nat_def)
qed

lemma sample_inet_pton_accepts: "inet_pton_accepts sample_inet_pton"
  unfolding inet_pton_accepts_def
proof
  fix ip :: u32
  let ?h = "take 4 (octets ip 0)"
  obtain a b c d where h: "?h = [a, b, c, d]" "a = unat ip div 2 ^ 24 mod 256" "b = unat ip div 2 ^ 16 mod 256"
    "c = unat ip div 2 ^ 8 mod 256" "d = unat ip mod 256"
    using octet_value [of 24 ip] octet_value [of 16 ip] octet_value [of 8 ip] octet_value [of 0 ip]
    by (simp add: octets_def)
  have "list_all (\<lambda>v. v < 2 ^ 31) [a, b, c, d]"
    using h(2-5) by (auto intro: order.strict_trans [of _ 256])
  then have "scan_ints (\<lambda>v. v) (length [a, b, c, d]) (print_ints (CHR '','') [a, b, c, d]) = Some (map int [a, b, c, d], [])"
    by (intro scan_ints_print) simp_all
  moreover have "length [a, b, c, d] = 4" by simp
  ultimately have scan: "scan_ints (\<lambda>v. v) 4 (print_ints (CHR '','') [a, b, c, d]) = Some (map int [a, b, c, d], [])"
    by (simp only:)
  have "((a * 256 + b) * 256 + c) * 256 + d = unat ip"
  proof -
    have "unat ip div 16777216 < 256" using unat_u32_less [of ip] by linarith
    moreover have "unat ip div 256 div 256 = unat ip div 65536" "unat ip div 65536 div 256 = unat ip div 16777216"
      by (simp_all flip: div_mult2_eq)
    ultimately show ?thesis
      using div_mult_mod_eq [of "unat ip" 256] div_mult_mod_eq [of "unat ip div 256" 256]
        div_mult_mod_eq [of "unat ip div 65536" 256]
      unfolding h(2-5) by simp
  qed
  then have "int (((a * 256 + b) * 256 + c) * 256 + d) = int (unat ip)" by (rule arg_cong)
  then have "((int a * 256 + int b) * 256 + int c) * 256 + int d = int (unat ip)"
    by (simp only: of_nat_add of_nat_mult of_nat_numeral)
  then have "of_int (((int a * 256 + int b) * 256 + int c) * 256 + int d) = ip" by (simp only: of_nat_unat word_of_int_uint)
  then show "sample_inet_pton (dotted ip) = Some ip"
    unfolding sample_inet_pton_def dotted_def h(1) commas scan by (simp del: of_int_add of_int_mult)
qed

theorem endpoint_roundtrip_witness:
  "parsePasvReply (\<lambda>v. v) sample_inet_pton (''227 Entering Passive Mode ('' @ formatPasvReply 0x0A000001 2000 @ '').'') =
     Some \<lparr>sin_family = AF_INET, sin_port = 2000, sin_addr = 0x0A000001\<rparr>"
  using endpoint_roundtrip [OF sample_inet_pton_accepts, of "''227 Entering Passive Mode ''" "\<lambda>v. v" "0x0A000001" 2000]
  by simp

end
