(* ===== verification/Command_Parser.thy ===== *)
theory Command_Parser
  imports Text_Format
begin

text \<open>
  \<^verbatim>\<open>CommandParser.cpp\<close> of the server: trimming a line and splitting it into the command and its
  arguments.
\<close>

record ParsedCommand =
  rawCommand :: string
  cmdType :: string
  cmdArgs :: "string list"

text \<open>The characters \<^verbatim>\<open>trim\<close> removes.\<close>

definition trim_space :: "char \<Rightarrow> bool" where
  "trim_space c \<longleftrightarrow> c \<in> {CHR '' '', CHR 0x09, CHR 0x0D, CHR 0x0A}"

definition trim :: "string \<Rightarrow> string" where
  "trim str = rev (dropWhile trim_space (rev (dropWhile trim_space str)))"

definition parseCommand :: "string \<Rightarrow> ParsedCommand" where
  "parseCommand command =
     (let trimmedCmd = trim command
      in if trimmedCmd = [] then \<lparr>rawCommand = [], cmdType = [], cmdArgs = []\<rparr>
         else case split_words trimmedCmd of
             [] \<Rightarrow> \<lparr>rawCommand = trimmedCmd, cmdType = [], cmdArgs = []\<rparr>
           | t # ts \<Rightarrow> \<lparr>rawCommand = trimmedCmd, cmdType = upper_string t, cmdArgs = ts\<rparr>)"

section \<open>Properties\<close>

lemma trim_space_is_space: "trim_space c \<Longrightarrow> is_space c"
  by (auto simp: trim_space_def is_space_def)

lemma trim_pad:
  assumes "s = [] \<or> \<not> trim_space (hd s) \<and> \<not> trim_space (last s)" "list_all trim_space pre" "list_all trim_space post"
  shows "trim (pre @ s @ post) = s"
proof -
  have pre: "dropWhile trim_space (pre @ x) = dropWhile trim_space x" for x
    using assms(2) by (intro dropWhile_append2) (auto simp: list_all_iff)
  have post: "dropWhile trim_space (rev post @ x) = dropWhile trim_space x" for x
    using assms(3) by (intro dropWhile_append2) (auto simp: list_all_iff)
  show ?thesis
  proof (cases "s = []")
    case True
    have "dropWhile trim_space post = []" using assms(3) by (simp add: list_all_iff)
    with True pre show ?thesis unfolding trim_def by (auto dest: set_dropWhileD)
  next
    case False
    then have "dropWhile trim_space (s @ post) = s @ post" using assms(1) by (cases s) simp_all
    moreover have "dropWhile trim_space (rev s) = rev s" using False assms(1) by (cases s rule: rev_cases) simp_all
    ultimately have "dropWhile trim_space (s @ post) = s @ post" "dropWhile trim_space (rev s) = rev s" by blast+
    then show ?thesis using pre post by (simp add: trim_def)
  qed
qed

lemma join_words_ends:
  assumes "list_all is_word ts" "ts \<noteq> []"
  shows "join_words ts \<noteq> [] \<and> \<not> is_space (hd (join_words ts)) \<and> \<not> is_space (last (join_words ts))"
  using assms
proof (induction ts rule: join_words.induct)
  case (2 t)
  then show ?case using hd_in_set [of t] last_in_set [of t] by (auto simp: is_word_def list_all_iff)
next
  case (3 t u ts)
  then show ?case by (cases t) (auto simp: is_word_def)
qed simp

lemma split_words_type: "split_words s = t # ts \<Longrightarrow> is_word t \<and> list_all is_word ts"
  using split_words_word [of _ s] by (simp add: list_all_iff)

lemma parse_words:
  assumes "list_all is_word (verb # args)" "list_all trim_space pre" "list_all trim_space post"
  shows "parseCommand (pre @ join_words (verb # args) @ post) =
      \<lparr>rawCommand = join_words (verb # args), cmdType = upper_string verb, cmdArgs = args\<rparr>"
proof -
  have ends: "join_words (verb # args) \<noteq> []" "\<not> trim_space (hd (join_words (verb # args)))"
    "\<not> trim_space (last (join_words (verb # args)))"
    using join_words_ends [OF assms(1)] trim_space_is_space by blast+
  then have "trim (pre @ join_words (verb # args) @ post) = join_words (verb # args)"
    using assms(2,3) by (intro trim_pad) simp_all
  then show ?thesis using ends(1) split_join [OF assms(1)] by (simp add: parseCommand_def)
qed

text \<open>
  Parsing inverts the way a command is written. A verb and arguments (each without white space)
  joined by blanks, with any blanks, tabs and line ends around them, parse to the verb in upper case
  and exactly those arguments; and in what is parsed from any line, the verb is in upper case and no
  argument is empty or contains white space.
\<close>

theorem parseCommand_roundtrip:
  assumes "list_all is_word (verb # args)" "list_all trim_space pre" "list_all trim_space post"
  shows "parseCommand (pre @ join_words (verb # args) @ post) =
      \<lparr>rawCommand = join_words (verb # args), cmdType = upper_string verb, cmdArgs = args\<rparr> \<and>
    upper_string (cmdType (parseCommand line)) = cmdType (parseCommand line) \<and>
    list_all is_word (cmdArgs (parseCommand line))"
  using parse_words [OF assms] split_words_type [of "trim line"]
  by (auto simp: parseCommand_def [of line] Let_def upper_string_def split: list.splits)

theorem parseCommand_roundtrip_witness:
  "parseCommand ('' '' @ join_words [''retr'', ''a.txt''] @ [CHR 0x0D]) =
     \<lparr>rawCommand = ''retr a.txt'', cmdType = ''RETR'', cmdArgs = [''a.txt'']\<rparr>"
proof -
  have "upper_string ''retr'' = ''RETR''" by code_simp
  then show ?thesis
    using parseCommand_roundtrip [of "''retr''" "[''a.txt'']" "'' ''" "[CHR 0x0D]" "[]"]
    by (simp add: is_word_def is_space_def trim_space_def)
qed

end
