(* ===== verification/Path_Resolver.thy ===== *)
theory Path_Resolver
  imports Text_Format
begin

text \<open>
  \<^verbatim>\<open>PathResolver.cpp\<close> of the server, with the operations of \<^verbatim>\<open>std::filesystem::path\<close> it uses. A path is its
  root name (a drive or a host), whether it has a root directory, and its components. What
  \<^verbatim>\<open>weakly_canonical\<close> answers depends on the disk (links, the spelling of names): it is the parameter
  \<open>canon\<close>, with \<open>None\<close> for an error.
\<close>

section \<open>Paths\<close>

record fspath =
  rootName :: string
  rootDir :: bool
  pathComps :: "string list"

definition is_sep :: "char \<Rightarrow> bool" where
  "is_sep c \<longleftrightarrow> c = CHR ''/'' \<or> c = CHR 0x5C"

definition is_letter :: "char \<Rightarrow> bool" where
  "is_letter c \<longleftrightarrow> 65 \<le> (of_char c :: nat) \<and> (of_char c :: nat) \<le> 90 \<or>
     97 \<le> (of_char c :: nat) \<and> (of_char c :: nat) \<le> 122"

text \<open>The root name of a Windows path: a drive (two characters) or a host after two separators.\<close>

definition root_name_length :: "string \<Rightarrow> nat" where
  "root_name_length s =
     (case s of
        a # b # rest \<Rightarrow>
          if is_letter a \<and> b = CHR '':'' then 2
          else if is_sep a \<and> is_sep b \<and> rest \<noteq> [] \<and> \<not> is_sep (hd rest)
          then 2 + length (takeWhile (\<lambda>c. \<not> is_sep c) rest)
          else 0
      | _ \<Rightarrow> 0)"

fun split_seps :: "string \<Rightarrow> string \<Rightarrow> string list" where
  "split_seps cur [] = (if cur = [] then [] else [cur])"
| "split_seps cur (c # cs) =
     (if is_sep c then (if cur = [] then split_seps [] cs else cur # split_seps [] cs)
      else split_seps (cur @ [c]) cs)"

text \<open>A separator at the end leaves an empty last component.\<close>

definition path_of_string :: "string \<Rightarrow> fspath" where
  "path_of_string s =
     (let n = root_name_length s; rest = drop n s; cs = split_seps [] rest
      in \<lparr>rootName = take n s, rootDir = (rest \<noteq> [] \<and> is_sep (hd rest)),
          pathComps = cs @ (if cs \<noteq> [] \<and> is_sep (last rest) then [[]] else [])\<rparr>)"

text \<open>
  \<^verbatim>\<open>operator/\<close>: an absolute operand, or one on another drive, replaces the path; an empty operand adds a
  separator.
\<close>

definition path_join :: "fspath \<Rightarrow> fspath \<Rightarrow> fspath" where
  "path_join p q =
     (if rootName q \<noteq> [] \<and> rootDir q \<or> rootName q \<noteq> [] \<and> rootName q \<noteq> rootName p then q
      else if rootDir q then \<lparr>rootName = rootName p, rootDir = True, pathComps = pathComps q\<rparr>
      else let cs = (if pathComps p \<noteq> [] \<and> last (pathComps p) = [] then butlast (pathComps p) else pathComps p)
        in p\<lparr>pathComps := cs @ (if pathComps q = [] \<and> cs \<noteq> [] then [[]] else pathComps q)\<rparr>)"

text \<open>The elements an iteration over a path visits.\<close>

definition path_elems :: "fspath \<Rightarrow> string list" where
  "path_elems p = (if rootName p = [] then [] else [rootName p]) @ (if rootDir p then [[CHR 0x5C]] else []) @ pathComps p"

fun join_with :: "char \<Rightarrow> string list \<Rightarrow> string" where
  "join_with sep [] = []"
| "join_with sep [c] = c"
| "join_with sep (c # cs) = c @ [sep] @ join_with sep cs"

definition path_text :: "char \<Rightarrow> fspath \<Rightarrow> string" where
  "path_text sep p = rootName p @ (if rootDir p then [sep] else []) @ join_with sep (pathComps p)"

text \<open>The native form, by which the disk knows a file, and the generic one.\<close>

abbreviation native :: "fspath \<Rightarrow> string" where
  "native p \<equiv> path_text (CHR 0x5C) p"

abbreviation generic_string :: "fspath \<Rightarrow> string" where
  "generic_string p \<equiv> path_text (CHR ''/'') p"

definition filename :: "fspath \<Rightarrow> string" where
  "filename p = (if pathComps p = [] then [] else last (pathComps p))"

section \<open>Resolving\<close>

text \<open>\<^verbatim>\<open>std::mismatch\<close> reaches the end of the first range: it is a prefix of the second.\<close>

fun starts_with :: "string list \<Rightarrow> string list \<Rightarrow> bool" where
  "starts_with [] ys = True"
| "starts_with (x # xs) [] = False"
| "starts_with (x # xs) (y # ys) = (x = y \<and> starts_with xs ys)"

definition resolve :: "(fspath \<Rightarrow> fspath option) \<Rightarrow> fspath \<Rightarrow> fspath \<Rightarrow> string \<Rightarrow> fspath option" where
  "resolve canon serverRoot currentDir userInput =
     (case canon (path_join currentDir (path_of_string userInput)) of
        None \<Rightarrow> None
      | Some resolved \<Rightarrow> if starts_with (path_elems serverRoot) (path_elems resolved) then Some resolved else None)"

text \<open>Inside the root.\<close>

definition inside :: "fspath \<Rightarrow> fspath \<Rightarrow> bool" where
  "inside root p \<longleftrightarrow> starts_with (path_elems root) (path_elems p)"

section \<open>Normal form\<close>

text \<open>
  On a disk without links, the canonical form of an absolute path is its lexical normal form: the
  components without \<^verbatim>\<open>.\<close> and without an empty last one, with each \<^verbatim>\<open>..\<close> taking back the one before it, and \<^verbatim>\<open>..\<close> at the root dropped.
\<close>

fun normal_comps :: "string list \<Rightarrow> string list \<Rightarrow> string list" where
  "normal_comps acc [] = rev acc"
| "normal_comps acc (c # cs) =
     (if c = ''.'' \<or> c = [] then normal_comps acc cs
      else if c = ''..'' then normal_comps (tl acc) cs
      else normal_comps (c # acc) cs)"

definition lexically_normal :: "fspath \<Rightarrow> fspath" where
  "lexically_normal p = p\<lparr>pathComps := normal_comps [] (pathComps p)\<rparr>"

section \<open>Lemmas\<close>

lemma starts_with_iff: "starts_with xs ys \<longleftrightarrow> (\<exists>zs. ys = xs @ zs)"
proof (induction xs ys rule: starts_with.induct)
  case (3 x xs y ys)
  then show ?case by auto
qed auto

lemma inside_refl [simp]: "inside root root"
  by (simp add: inside_def starts_with_iff)

lemma resolve_inside: "resolve canon root cur input = Some p \<Longrightarrow> inside root p"
  by (auto simp: resolve_def inside_def split: option.splits if_splits)

text \<open>A root with a name and a root directory, as \<^verbatim>\<open>absolute\<close> makes it.\<close>

definition absolute_path :: "fspath \<Rightarrow> bool" where
  "absolute_path p \<longleftrightarrow> rootName p \<noteq> [] \<and> rootDir p"

lemma inside_absolute:
  assumes "absolute_path root" "absolute_path p"
  shows "inside root p \<longleftrightarrow> rootName p = rootName root \<and> (\<exists>rest. pathComps p = pathComps root @ rest)"
  using assms by (auto simp: inside_def starts_with_iff path_elems_def absolute_path_def)

text \<open>Names as a client writes them: not empty, without separators and without a colon.\<close>

definition plain_name :: "string \<Rightarrow> bool" where
  "plain_name c \<longleftrightarrow> c \<noteq> [] \<and> list_all (\<lambda>x. \<not> is_sep x \<and> x \<noteq> CHR '':'') c"

lemma split_seps_plain: "list_all (\<lambda>x. \<not> is_sep x) c \<Longrightarrow> split_seps cur (c @ rest) = split_seps (cur @ c) rest"
  by (induction c arbitrary: cur) auto

lemma split_seps_join:
  assumes "list_all plain_name cs"
  shows "split_seps [] (join_with (CHR ''/'') cs) = cs"
  using assms
proof (induction cs rule: induct_list012)
  case (2 c)
  then show ?case using split_seps_plain [of c "[]" "[]"] by (auto simp: plain_name_def list_all_iff)
next
  case (3 c d cs)
  have "list_all (\<lambda>x. \<not> is_sep x) c" "c \<noteq> []" using 3(3) by (auto simp: plain_name_def list_all_iff)
  with 3 show ?case
    using split_seps_plain [of c "[]" "[CHR ''/''] @ join_with (CHR ''/'') (d # cs)"] by (simp add: is_sep_def)
qed simp

lemma join_with_ends:
  assumes "list_all plain_name cs" "cs \<noteq> []"
  shows "join_with (CHR ''/'') cs \<noteq> [] \<and> \<not> is_sep (hd (join_with (CHR ''/'') cs)) \<and> \<not> is_sep (last (join_with (CHR ''/'') cs))"
  using assms
proof (induction cs rule: induct_list012)
  case (2 c)
  then show ?case using hd_in_set [of c] last_in_set [of c] by (auto simp: plain_name_def list_all_iff)
next
  case (3 c d cs)
  then show ?case by (cases c) (auto simp: plain_name_def)
qed simp

lemma path_of_names:
  assumes "list_all plain_name cs" "cs \<noteq> []"
  shows "path_of_string (join_with (CHR ''/'') cs) = \<lparr>rootName = [], rootDir = False, pathComps = cs\<rparr>"
proof -
  let ?s = "join_with (CHR ''/'') cs"
  note ends = join_with_ends [OF assms]
  have "CHR '':'' \<notin> set ?s" using assms(1)
    by (induction cs rule: induct_list012) (auto simp: plain_name_def list_all_iff)
  then have "root_name_length ?s = 0"
    using ends by (auto simp: root_name_length_def dest: sym split: list.split)
  with ends split_seps_join [OF assms(1)] show ?thesis by (simp add: path_of_string_def Let_def)
qed

lemma path_of_rooted_names:
  assumes "list_all plain_name cs"
  shows "path_of_string (CHR ''/'' # join_with (CHR ''/'') cs) = \<lparr>rootName = [], rootDir = True, pathComps = cs\<rparr>"
proof (cases "cs = []")
  case True
  then show ?thesis by (simp add: path_of_string_def root_name_length_def is_sep_def)
next
  case False
  let ?s = "join_with (CHR ''/'') cs"
  note ends = join_with_ends [OF assms False]
  then have "root_name_length (CHR ''/'' # ?s) = 0"
    by (auto simp: root_name_length_def is_letter_def dest: sym split: list.split)
  moreover have "split_seps [] (CHR ''/'' # ?s) = cs" using split_seps_join [OF assms] by (simp add: is_sep_def)
  ultimately show ?thesis using ends False by (simp add: path_of_string_def Let_def is_sep_def)
qed

text \<open>
  The walk a relative path describes, from the components of the current directory: \<^verbatim>\<open>..\<close> goes up, \<^verbatim>\<open>.\<close>
  stays, a name goes down.
\<close>

definition walk :: "string list \<Rightarrow> string list \<Rightarrow> string list" where
  "walk start names =
     foldl (\<lambda>at c. if c = ''.'' then at else if c = ''..'' then butlast at else at @ [c]) start names"

lemma normal_comps_walk: "[] \<notin> set names \<Longrightarrow> normal_comps acc names = walk (rev acc) names"
proof (induction acc names rule: normal_comps.induct)
  case (2 acc c cs)
  have c: "c \<noteq> []" and cs: "[] \<notin> set cs" using 2(4) by auto
  consider "c = ''.''" | "c \<noteq> ''.''" "c = ''..''" | "c \<noteq> ''.''" "c \<noteq> ''..''" by blast
  then show ?case
  proof cases
    case 1
    with 2(1) cs show ?thesis by (simp add: walk_def)
  next
    case 2
    with "2.IH"(2) cs c show ?thesis by (simp add: walk_def)
  next
    case 3
    with "2.IH"(3) cs c show ?thesis by (simp add: walk_def)
  qed
qed (simp add: walk_def)

lemma normal_comps_append: "normal_comps acc (xs @ ys) = normal_comps (rev (normal_comps acc xs)) ys"
  by (induction acc xs rule: normal_comps.induct) simp_all

lemma normal_comps_names:
  "list_all (\<lambda>c. plain_name c \<and> c \<noteq> ''.'' \<and> c \<noteq> ''..'') cs \<Longrightarrow> normal_comps acc cs = rev acc @ cs"
proof (induction cs arbitrary: acc)
  case (Cons c cs)
  then have "normal_comps acc (c # cs) = normal_comps (c # acc) cs" by (simp add: plain_name_def)
  with Cons show ?case by simp
qed simp

text \<open>A directory of the server: absolute, with ordinary names.\<close>

definition good_dir :: "fspath \<Rightarrow> bool" where
  "good_dir p \<longleftrightarrow> absolute_path p \<and> list_all (\<lambda>c. plain_name c \<and> c \<noteq> ''.'' \<and> c \<noteq> ''..'') (pathComps p)"

lemma resolve_walk_outcome:
  assumes "good_dir cur" "absolute_path root" "rootName cur = rootName root" "names \<noteq> []" "list_all plain_name names"
  shows "resolve (Some \<circ> lexically_normal) root cur (join_with (CHR ''/'') names) =
    (let there = walk (pathComps cur) names
     in if \<exists>rest. there = pathComps root @ rest then Some (cur\<lparr>pathComps := there\<rparr>) else None)"
proof -
  have cur: "list_all (\<lambda>c. plain_name c \<and> c \<noteq> ''.'' \<and> c \<noteq> ''..'') (pathComps cur)" "absolute_path cur"
    using assms(1) by (simp_all add: good_dir_def)
  have nolast: "\<not> (pathComps cur \<noteq> [] \<and> last (pathComps cur) = [])"
  proof -
    have "\<forall>c \<in> set (pathComps cur). c \<noteq> []" using cur(1) by (simp add: list_all_iff plain_name_def)
    then show ?thesis using last_in_set by metis
  qed
  have "[] \<notin> set names" using assms(5) by (auto simp: list_all_iff plain_name_def)
  then have "normal_comps [] (pathComps cur @ names) = walk (pathComps cur) names"
    using normal_comps_append [of "[]" "pathComps cur" names] normal_comps_names [OF cur(1), of "[]"]
      normal_comps_walk [of names "rev (pathComps cur)"] by simp
  then have "lexically_normal (path_join cur (path_of_string (join_with (CHR ''/'') names))) =
      cur\<lparr>pathComps := walk (pathComps cur) names\<rparr>"
    using path_of_names [OF assms(5,4)] nolast assms(4) by (auto simp: path_join_def lexically_normal_def Let_def)
  moreover have "inside root (cur\<lparr>pathComps := walk (pathComps cur) names\<rparr>) \<longleftrightarrow>
      (\<exists>rest. walk (pathComps cur) names = pathComps root @ rest)"
    using inside_absolute [OF assms(2), of "cur\<lparr>pathComps := walk (pathComps cur) names\<rparr>"] cur(2) assms(3)
    by (simp add: absolute_path_def)
  ultimately show ?thesis by (simp add: resolve_def inside_def Let_def)
qed

text \<open>A single name from a directory inside the root.\<close>

lemma resolve_name:
  assumes "good_dir cur" "absolute_path root" "rootName cur = rootName root" "pathComps cur = pathComps root @ down"
    "plain_name c" "c \<noteq> ''.''" "c \<noteq> ''..''"
  shows "resolve (Some \<circ> lexically_normal) root cur c = Some (cur\<lparr>pathComps := pathComps cur @ [c]\<rparr>)"
  using resolve_walk_outcome [OF assms(1-3), of "[c]"] assms(4-) by (simp add: walk_def)

text \<open>
  C36: a client cannot leave the root by a relative path, and goes where it says. On a disk without
  links, resolving names separated by slashes from a directory inside the root is the walk those names
  describe; it is accepted exactly if the walk ends inside the root.
\<close>

theorem resolve_walk:
  assumes "good_dir cur" "absolute_path root" "rootName cur = rootName root" "names \<noteq> []" "list_all plain_name names"
  shows "resolve (Some \<circ> lexically_normal) root cur (join_with (CHR ''/'') names) =
    (let there = walk (pathComps cur) names
     in if \<exists>rest. there = pathComps root @ rest then Some (cur\<lparr>pathComps := there\<rparr>) else None)"
  using resolve_walk_outcome [OF assms] .

definition sample_root :: fspath where
  "sample_root = \<lparr>rootName = ''C:'', rootDir = True, pathComps = [''srv'']\<rparr>"

theorem resolve_walk_witness:
  "resolve (Some \<circ> lexically_normal) sample_root sample_root ''a/../..'' = None \<and>
   resolve (Some \<circ> lexically_normal) sample_root sample_root ''a/./b'' =
     Some (sample_root\<lparr>pathComps := [''srv'', ''a'', ''b'']\<rparr>)"
proof -
  have g: "good_dir sample_root" "absolute_path sample_root"
    by (simp_all add: good_dir_def absolute_path_def sample_root_def plain_name_def is_sep_def)
  have n: "list_all plain_name [''a'', ''..'', ''..'']" "list_all plain_name [''a'', ''.'', ''b'']"
    by (simp_all add: plain_name_def is_sep_def)
  show ?thesis
    using resolve_walk [OF g refl _ n(1)] resolve_walk [OF g refl _ n(2)]
    by (simp add: walk_def sample_root_def)
qed

end
