(* ===== verification/Directory_Service.thy ===== *)
theory Directory_Service
  imports Path_Resolver File_Io
begin

unbundle bit_operations_syntax

text \<open>
  \<^verbatim>\<open>DirectoryService.cpp\<close> of the server: the directory commands over the disk. Every query and every
  change may fail; where the source uses the form of a call that throws, the exception is not caught
  anywhere and the program ends (\<open>Terminates\<close>).
\<close>

section \<open>The disk\<close>

datatype file_type = TypeNone | NotFound | Regular | Directory | Symlink | Block | Character | Fifo | Socket | Unknown

text \<open>
  The regular files are those of the file system of the transfers. Beside them there are directories
  and special files, each with permissions and the time of its last change. \<open>universe\<close> lists every path
  that can exist, in the order in which a directory is enumerated.
\<close>

record store =
  disk :: fsys
  directories :: "path \<Rightarrow> bool"
  special :: "path \<Rightarrow> file_type option"
  permissions :: "path \<Rightarrow> u32"
  lastChange :: "path \<Rightarrow> nat"
  universe :: "fspath list"

definition st_try :: "store \<Rightarrow> bool \<times> store" where
  "st_try st = (case fs_try (disk st) of (ok, F) \<Rightarrow> (ok, st\<lparr>disk := F\<rparr>))"

definition type_of :: "store \<Rightarrow> path \<Rightarrow> file_type" where
  "type_of st q =
     (if directories st q then Directory
      else if files (disk st) q \<noteq> None then Regular
      else case special st q of None \<Rightarrow> NotFound | Some t \<Rightarrow> t)"

definition present :: "store \<Rightarrow> path \<Rightarrow> bool" where
  "present st q \<longleftrightarrow> type_of st q \<noteq> NotFound"

text \<open>\<^verbatim>\<open>path::parent_path\<close> and the entries of a directory.\<close>

definition parent_path :: "fspath \<Rightarrow> fspath" where
  "parent_path p = p\<lparr>pathComps := butlast (pathComps p)\<rparr>"

definition entries :: "store \<Rightarrow> fspath \<Rightarrow> fspath list" where
  "entries st d = filter (\<lambda>p. pathComps p \<noteq> [] \<and> parent_path p = d \<and> present st (native p)) (universe st)"

text \<open>The results of a call: a value, or an exception that nothing catches.\<close>

datatype 'a outcome = Returns 'a | Terminates

text \<open>
  Queries. \<open>query_throw\<close> is the throwing form, \<open>query_ec\<close> the one with an error code: the answer and
  whether the error code is set, in which case the answer is false.
\<close>

definition query_throw :: "bool \<Rightarrow> store \<Rightarrow> (bool \<times> store) outcome" where
  "query_throw answer st = (case st_try st of (ok, st1) \<Rightarrow> if ok then Returns (answer, st1) else Terminates)"

definition query_ec :: "bool \<Rightarrow> store \<Rightarrow> bool \<times> bool \<times> store" where
  "query_ec answer st = (case st_try st of (ok, st1) \<Rightarrow> (ok \<and> answer, \<not> ok, st1))"

subsection \<open>Changes\<close>

text \<open>\<^verbatim>\<open>fs::remove\<close>: a file, or a directory without entries. \<open>True\<close> when it removed something without an error.\<close>

definition st_remove :: "fspath \<Rightarrow> store \<Rightarrow> bool \<times> store" where
  "st_remove p st =
     (case st_try st of
        (False, st1) \<Rightarrow> (False, st1)
      | (True, st1) \<Rightarrow>
          (case type_of st1 (native p) of
             NotFound \<Rightarrow> (False, st1)
           | Directory \<Rightarrow>
               if entries st1 p \<noteq> [] then (False, st1)
               else (True, st1\<lparr>directories := (directories st1)(native p := False)\<rparr>)
           | Regular \<Rightarrow> (True, st1\<lparr>disk := (disk st1)\<lparr>files := (files (disk st1))(native p := None)\<rparr>\<rparr>)
           | _ \<Rightarrow> (True, st1\<lparr>special := (special st1)(native p := None)\<rparr>)))"

text \<open>
  \<^verbatim>\<open>fs::create_directories\<close>: every missing directory on the way, from the top. The first result is
  whether the last one was created, the second whether there was an error.
\<close>

fun create_path :: "fspath \<Rightarrow> string list \<Rightarrow> store \<Rightarrow> bool \<times> bool \<times> store" where
  "create_path at [] st = (False, False, st)"
| "create_path at (c # cs) st =
     (let p = at\<lparr>pathComps := pathComps at @ [c]\<rparr>
      in case type_of st (native p) of
          Directory \<Rightarrow> create_path p cs st
        | NotFound \<Rightarrow>
            (case st_try st of
               (False, st1) \<Rightarrow> (False, True, st1)
             | (True, st1) \<Rightarrow>
                 (let st2 = st1\<lparr>directories := (directories st1)(native p := True)\<rparr>
                  in if cs = [] then (True, False, st2) else create_path p cs st2))
        | _ \<Rightarrow> (False, True, st))"

definition create_directories :: "fspath \<Rightarrow> store \<Rightarrow> bool \<times> bool \<times> store" where
  "create_directories p st = create_path (p\<lparr>pathComps := []\<rparr>) (pathComps p) st"

text \<open>
  \<^verbatim>\<open>fs::rename\<close>, which is \<^verbatim>\<open>MoveFileExW\<close> with replacement: a file replaces a file; a directory moves with
  everything below it, to a place where there is nothing and which is not below itself.
\<close>

definition below :: "path \<Rightarrow> path \<Rightarrow> bool" where
  "below d q \<longleftrightarrow> take (length d + 1) q = d @ [CHR 0x5C]"

definition moved :: "path \<Rightarrow> path \<Rightarrow> 'a \<Rightarrow> (path \<Rightarrow> 'a) \<Rightarrow> path \<Rightarrow> 'a" where
  "moved src dst gone f q =
     (if q = dst \<or> below dst q then f (src @ drop (length dst) q)
      else if q = src \<or> below src q then gone else f q)"

definition st_rename :: "fspath \<Rightarrow> fspath \<Rightarrow> store \<Rightarrow> bool \<times> store" where
  "st_rename src dst st =
     (case st_try st of
        (False, st1) \<Rightarrow> (False, st1)
      | (True, st1) \<Rightarrow>
          (let s = native src; d = native dst
           in if \<not> directories st1 (native (parent_path dst)) then (False, st1)
              else if s = d then (present st1 s, st1)
              else case type_of st1 s of
                NotFound \<Rightarrow> (False, st1)
              | Directory \<Rightarrow>
                  if present st1 d \<or> below s d then (False, st1)
                  else (True, st1\<lparr>disk := (disk st1)\<lparr>files := moved s d None (files (disk st1))\<rparr>,
                    directories := moved s d False (directories st1),
                    special := moved s d None (special st1)\<rparr>)
              | Regular \<Rightarrow>
                  if directories st1 d then (False, st1)
                  else (True, st1\<lparr>disk := (disk st1)\<lparr>files := (files (disk st1))(s := None, d := files (disk st1) s)\<rparr>,
                    special := (special st1)(d := None)\<rparr>)
              | _ \<Rightarrow>
                  if present st1 d then (False, st1)
                  else (True, st1\<lparr>special := (special st1)(s := None, d := special st1 s)\<rparr>)))"

section \<open>The service\<close>

text \<open>What the operations read: the root and what \<^verbatim>\<open>weakly_canonical\<close> answers on the disk as it is now.\<close>

record places =
  canonical :: "fspath \<Rightarrow> fspath option"
  serverRoot :: fspath

abbreviation resolve_in :: "places \<Rightarrow> fspath \<Rightarrow> string \<Rightarrow> fspath option" where
  "resolve_in E cur input \<equiv> resolve (canonical E) (serverRoot E) cur input"

record Result =
  rOk :: bool
  rCode :: nat
  rMessage :: string

definition res_ok :: "nat \<Rightarrow> string \<Rightarrow> Result" where "res_ok c m = \<lparr>rOk = True, rCode = c, rMessage = m\<rparr>"
definition res_no :: "nat \<Rightarrow> string \<Rightarrow> Result" where "res_no c m = \<lparr>rOk = False, rCode = c, rMessage = m\<rparr>"

abbreviation ActionCompleted :: nat where "ActionCompleted \<equiv> 250"
abbreviation PathnameCreated :: nat where "PathnameCreated \<equiv> 257"
abbreviation PendingRNTO :: nat where "PendingRNTO \<equiv> 350"
abbreviation ActionNotTaken :: nat where "ActionNotTaken \<equiv> 550"

text \<open>
  \<^verbatim>\<open>lexically_relative\<close> for paths with the same root, and \<^verbatim>\<open>fs::relative\<close>, which throws when a path has no
  canonical form. An empty path is the answer for different roots.
\<close>

fun drop_common :: "string list \<Rightarrow> string list \<Rightarrow> string list \<times> string list" where
  "drop_common (x # xs) (y # ys) = (if x = y then drop_common xs ys else (x # xs, y # ys))"
| "drop_common xs ys = (xs, ys)"

definition up_count :: "string list \<Rightarrow> int" where
  "up_count cs = (\<Sum>c\<leftarrow>cs. if c = ''..'' then - 1 else if c = [] \<or> c = ''.'' then 0 else 1)"

definition rel_path :: "string list \<Rightarrow> fspath" where
  "rel_path cs = \<lparr>rootName = [], rootDir = False, pathComps = cs\<rparr>"

definition lexically_relative :: "fspath \<Rightarrow> fspath \<Rightarrow> fspath" where
  "lexically_relative p base =
     (if rootName p \<noteq> rootName base \<or> rootDir p \<noteq> rootDir base then rel_path []
      else case drop_common (pathComps p) (pathComps base) of
          (as, bs) \<Rightarrow>
            if as = [] \<and> bs = [] then rel_path [''.'']
            else let n = up_count bs
              in if n < 0 then rel_path []
                 else if n = 0 \<and> (as = [] \<or> hd as = []) then rel_path [''.'']
                 else rel_path (replicate (nat n) ''..'' @ as))"

definition fs_relative :: "places \<Rightarrow> fspath \<Rightarrow> fspath \<Rightarrow> fspath outcome" where
  "fs_relative E p base =
     (case (canonical E p, canonical E base) of
        (Some p', Some b') \<Rightarrow> Returns (lexically_relative p' b')
      | _ \<Rightarrow> Terminates)"

definition quoted :: "string \<Rightarrow> string" where
  "quoted s = [CHR 0x22] @ s @ [CHR 0x22]"

definition printWorkingDir :: "places \<Rightarrow> fspath \<Rightarrow> Result outcome" where
  "printWorkingDir E currentDir =
     (case fs_relative E currentDir (serverRoot E) of
        Terminates \<Rightarrow> Terminates
      | Returns rel \<Rightarrow>
          (let display = ''/'' @ generic_string rel;
               display1 = (if display = ''/.'' then ''/'' else display)
           in Returns (res_ok PathnameCreated (quoted display1 @ '' is the current directory.''))))"

text \<open>The current directory is passed in and out.\<close>

definition changeDir :: "places \<Rightarrow> fspath \<Rightarrow> string \<Rightarrow> store \<Rightarrow> (Result \<times> fspath \<times> store) outcome" where
  "changeDir E currentDir target st =
     (case resolve_in E currentDir target of
        None \<Rightarrow> Returns (res_no ActionNotTaken ''Path outside server root.'', currentDir, st)
      | Some resolved \<Rightarrow>
          (case query_throw (present st (native resolved)) st of
             Terminates \<Rightarrow> Terminates
           | Returns (False, st1) \<Rightarrow> Returns (res_no ActionNotTaken ''Not a directory.'', currentDir, st1)
           | Returns (True, st1) \<Rightarrow>
               (case query_throw (directories st1 (native resolved)) st1 of
                  Terminates \<Rightarrow> Terminates
                | Returns (False, st2) \<Rightarrow> Returns (res_no ActionNotTaken ''Not a directory.'', currentDir, st2)
                | Returns (True, st2) \<Rightarrow>
                    Returns (res_ok ActionCompleted (''Directory changed to '' @ filename resolved), resolved, st2))))"

definition changeToParent :: "places \<Rightarrow> fspath \<Rightarrow> Result \<times> fspath" where
  "changeToParent E currentDir =
     (case resolve_in E currentDir ''..'' of
        None \<Rightarrow> (res_no ActionNotTaken ''Already at server root.'', currentDir)
      | Some resolved \<Rightarrow> (res_ok ActionCompleted (''Directory changed to '' @ filename resolved), resolved))"

definition makeDir :: "places \<Rightarrow> fspath \<Rightarrow> string \<Rightarrow> store \<Rightarrow> (Result \<times> store) outcome" where
  "makeDir E currentDir name st =
     (case resolve_in E currentDir name of
        None \<Rightarrow> Returns (res_no ActionNotTaken ''Path outside server root.'', st)
      | Some resolved \<Rightarrow>
          (case query_throw (present st (native resolved)) st of
             Terminates \<Rightarrow> Terminates
           | Returns (True, st1) \<Rightarrow> Returns (res_no ActionNotTaken ''Already exists.'', st1)
           | Returns (False, st1) \<Rightarrow>
               (case create_directories resolved st1 of
                  (created, ec, st2) \<Rightarrow>
                    if \<not> created \<or> ec then Returns (res_no ActionNotTaken ''Could not create directory.'', st2)
                    else Returns (res_ok PathnameCreated (quoted (filename resolved) @ '' created''), st2))))"

definition removeDir :: "places \<Rightarrow> fspath \<Rightarrow> string \<Rightarrow> store \<Rightarrow> (Result \<times> store) outcome" where
  "removeDir E currentDir name st =
     (case resolve_in E currentDir name of
        None \<Rightarrow> Returns (res_no ActionNotTaken ''Path outside server root.'', st)
      | Some resolved \<Rightarrow>
          (case query_throw (present st (native resolved)) st of
             Terminates \<Rightarrow> Terminates
           | Returns (False, st1) \<Rightarrow> Returns (res_no ActionNotTaken ''Not a directory'', st1)
           | Returns (True, st1) \<Rightarrow>
               (case query_throw (directories st1 (native resolved)) st1 of
                  Terminates \<Rightarrow> Terminates
                | Returns (False, st2) \<Rightarrow> Returns (res_no ActionNotTaken ''Not a directory'', st2)
                | Returns (True, st2) \<Rightarrow>
                    if resolved = serverRoot E then Returns (res_no ActionNotTaken ''Cannot remove server root'', st2)
                    else (case st_remove resolved st2 of
                            (False, st3) \<Rightarrow> Returns (res_no ActionNotTaken ''Directory not empty or in use'', st3)
                          | (True, st3) \<Rightarrow> Returns (res_ok ActionCompleted ''Directory removed'', st3)))))"

subsection \<open>Listings and metadata\<close>

definition type_char :: "file_type \<Rightarrow> char" where
  "type_char t =
     (case t of Directory \<Rightarrow> CHR ''d'' | Regular \<Rightarrow> CHR ''-'' | Symlink \<Rightarrow> CHR ''l'' | Block \<Rightarrow> CHR ''b''
      | Character \<Rightarrow> CHR ''c'' | Fifo \<Rightarrow> CHR ''p'' | Socket \<Rightarrow> CHR ''s'' | _ \<Rightarrow> CHR ''-'')"

definition perm_char :: "u32 \<Rightarrow> u32 \<Rightarrow> char \<Rightarrow> char" where
  "perm_char p bits c = (if p AND bits \<noteq> 0 then c else CHR ''-'')"

definition getFormatPermissions :: "fspath \<Rightarrow> store \<Rightarrow> string \<times> store" where
  "getFormatPermissions p st =
     (case st_try st of
        (False, st1) \<Rightarrow> (''d---------'', st1)
      | (True, st1) \<Rightarrow>
          (let b = permissions st1 (native p)
           in (type_char (type_of st1 (native p)) #
               [perm_char b 0x100 (CHR ''r''), perm_char b 0x80 (CHR ''w''), perm_char b 0x40 (CHR ''x''),
                perm_char b 0x20 (CHR ''r''), perm_char b 0x10 (CHR ''w''), perm_char b 0x8 (CHR ''x''),
                perm_char b 0x4 (CHR ''r''), perm_char b 0x2 (CHR ''w''), perm_char b 0x1 (CHR ''x'')], st1)))"

text \<open>\<^verbatim>\<open>fs::file_size\<close> with an error code: all ones on an error.\<close>

definition fs_file_size :: "fspath \<Rightarrow> store \<Rightarrow> 64 word \<times> bool \<times> store" where
  "fs_file_size p st =
     (case st_try st of
        (False, st1) \<Rightarrow> (- 1, True, st1)
      | (True, st1) \<Rightarrow>
          (case files (disk st1) (native p) of
             None \<Rightarrow> (- 1, True, st1)
           | Some bs \<Rightarrow> (of_nat (length bs), False, st1)))"

record DirEntryInfo =
  formatPermissions :: string
  entryName :: string
  entryIsDirectory :: bool
  entrySize :: "64 word"

text \<open>\<^verbatim>\<open>appendEntry\<close>: \<open>None\<close> where it returns false.\<close>

definition append_entry :: "fspath \<Rightarrow> store \<Rightarrow> DirEntryInfo option \<times> store" where
  "append_entry p st =
     (case getFormatPermissions p st of
        (perms, st1) \<Rightarrow>
          (case query_ec (directories st1 (native p)) st1 of
             (isDir, ec, st2) \<Rightarrow>
               if ec then (None, st2)
               else case (if isDir then (0, False, st2) else fs_file_size p st2) of
                   (sz, ec2, st3) \<Rightarrow>
                     if ec2 then (None, st3)
                     else (Some \<lparr>formatPermissions = perms, entryName = filename p,
                                 entryIsDirectory = isDir, entrySize = sz\<rparr>, st3)))"

text \<open>
  The loop over the entries: going to the next one throws when it fails. \<open>None\<close> inside is the return
  of false.
\<close>

fun list_loop :: "fspath list \<Rightarrow> DirEntryInfo list \<Rightarrow> store \<Rightarrow> (DirEntryInfo list option \<times> store) outcome" where
  "list_loop [] acc st = Returns (Some acc, st)"
| "list_loop (p # ps) acc st =
     (case append_entry p st of
        (None, st1) \<Rightarrow> Returns (None, st1)
      | (Some info, st1) \<Rightarrow>
          (case st_try st1 of
             (False, st2) \<Rightarrow> Terminates
           | (True, st2) \<Rightarrow> list_loop ps (acc @ [info]) st2))"

definition listDir ::
  "places \<Rightarrow> fspath \<Rightarrow> string \<Rightarrow> store \<Rightarrow> (DirEntryInfo list option \<times> store) outcome" where
  "listDir E currentDir target st =
     (case resolve_in E currentDir target of
        None \<Rightarrow> Returns (None, st)
      | Some resolved \<Rightarrow>
          (case query_ec (present st (native resolved)) st of
             (there, ec, st1) \<Rightarrow>
               if \<not> there \<or> ec then Returns (None, st1)
               else case query_ec (directories st1 (native resolved)) st1 of
                   (isDir, ec2, st2) \<Rightarrow>
                     if \<not> isDir
                     then if ec2 then Returns (None, st2)
                          else (case append_entry resolved st2 of
                                  (info, st3) \<Rightarrow> Returns (map_option (\<lambda>i. [i]) info, st3))
                     else case st_try st2 of
                         (False, st3) \<Rightarrow> Returns (None, st3)
                       | (True, st3) \<Rightarrow> list_loop (entries st3 resolved) [] st3))"

record PathMetadata =
  metaIsDirectory :: bool
  metaSize :: "64 word"
  lastModified :: nat

text \<open>
  Each call with the error code clears it when it succeeds: after the existence test only the error of
  \<^verbatim>\<open>last_write_time\<close> counts.
\<close>

definition getMetadata :: "places \<Rightarrow> fspath \<Rightarrow> string \<Rightarrow> store \<Rightarrow> PathMetadata option \<times> store" where
  "getMetadata E currentDir target st =
     (case resolve_in E currentDir target of
        None \<Rightarrow> (None, st)
      | Some resolved \<Rightarrow>
          (case query_ec (present st (native resolved)) st of
             (there, ec, st1) \<Rightarrow>
               if \<not> there \<or> ec then (None, st1)
               else case query_ec (directories st1 (native resolved)) st1 of
                   (isDir, ec2, st2) \<Rightarrow>
                     (case (if isDir then (0, False, st2) else fs_file_size resolved st2) of
                        (sz, ec3, st3) \<Rightarrow>
                          (case st_try st3 of
                             (False, st4) \<Rightarrow> (None, st4)
                           | (True, st4) \<Rightarrow>
                               (Some \<lparr>metaIsDirectory = isDir, metaSize = sz,
                                      lastModified = lastChange st4 (native resolved)\<rparr>, st4)))))"

definition empty_path :: fspath where "empty_path = rel_path []"

definition deleteFile :: "places \<Rightarrow> fspath \<Rightarrow> string \<Rightarrow> store \<Rightarrow> Result \<times> store" where
  "deleteFile E currentDir name st =
     (case getMetadata E currentDir name st of
        (None, st1) \<Rightarrow> (res_no ActionNotTaken ''File not found'', st1)
      | (Some meta, st1) \<Rightarrow>
          if metaIsDirectory meta then (res_no ActionNotTaken ''Cannot DELE a directory; use RMD'', st1)
          else let resolved = (case resolve_in E currentDir name of None \<Rightarrow> empty_path | Some p \<Rightarrow> p)
            in case st_remove resolved st1 of
                (False, st2) \<Rightarrow> (res_no ActionNotTaken ''Could not delete file'', st2)
              | (True, st2) \<Rightarrow> (res_ok ActionCompleted ''File deleted'', st2))"

text \<open>The pending source is passed in and out.\<close>

definition renameFrom :: "places \<Rightarrow> fspath \<Rightarrow> string \<Rightarrow> fspath \<Rightarrow> store \<Rightarrow> Result \<times> fspath \<times> store" where
  "renameFrom E currentDir oldName pendingSource st =
     (case getMetadata E currentDir oldName st of
        (None, st1) \<Rightarrow> (res_no ActionNotTaken ''File not found'', pendingSource, st1)
      | (Some meta, st1) \<Rightarrow>
          (res_ok PendingRNTO ''Requested file action pending further information (RNTO)'',
           (case resolve_in E currentDir oldName of None \<Rightarrow> pendingSource | Some p \<Rightarrow> p), st1))"

definition renameTo :: "places \<Rightarrow> fspath \<Rightarrow> fspath \<Rightarrow> string \<Rightarrow> store \<Rightarrow> Result \<times> store" where
  "renameTo E currentDir pendingSource newName st =
     (case resolve_in E currentDir newName of
        None \<Rightarrow> (res_no ActionNotTaken ''Destination path outside server root'', st)
      | Some dest \<Rightarrow>
          (case st_rename pendingSource dest st of
             (False, st1) \<Rightarrow> (res_no ActionNotTaken ''Rename failed.'', st1)
           | (True, st1) \<Rightarrow> (res_ok ActionCompleted ''Rename successful'', st1)))"

section \<open>Confinement\<close>

text \<open>
  A path of the disk is under the root if it is the root or goes on below it. A change is confined if it
  is only under the root and uses no temporary name.
\<close>

definition under_root :: "fspath \<Rightarrow> path \<Rightarrow> bool" where
  "under_root r q \<longleftrightarrow> q = native r \<or> below (native r) q"

definition confined :: "fspath \<Rightarrow> store \<Rightarrow> store \<Rightarrow> bool" where
  "confined r st st' \<longleftrightarrow> tmpNames (disk st') = tmpNames (disk st) \<and>
     (\<forall>q. \<not> under_root r q \<longrightarrow> files (disk st') q = files (disk st) q \<and>
        directories st' q = directories st q \<and> special st' q = special st q)"

text \<open>
  What the operations rely on: the root is an absolute path with a name, canonical paths are absolute,
  and the directories above the root exist.
\<close>

definition good_places :: "places \<Rightarrow> bool" where
  "good_places E \<longleftrightarrow> absolute_path (serverRoot E) \<and> pathComps (serverRoot E) \<noteq> [] \<and>
     (\<forall>p q. canonical E p = Some q \<longrightarrow> absolute_path q)"

definition root_reachable :: "fspath \<Rightarrow> store \<Rightarrow> bool" where
  "root_reachable r st \<longleftrightarrow>
     (\<forall>k. 0 < k \<longrightarrow> k < length (pathComps r) \<longrightarrow> directories st (native (r\<lparr>pathComps := take k (pathComps r)\<rparr>)))"

lemma join_with_append: "xs \<noteq> [] \<Longrightarrow> ys \<noteq> [] \<Longrightarrow> join_with sep (xs @ ys) = join_with sep xs @ [sep] @ join_with sep ys"
proof (induction xs rule: induct_list012)
  case (2 x)
  then show ?case by (cases ys) simp_all
qed simp_all

lemma inside_under:
  assumes "absolute_path r" "pathComps r \<noteq> []" "absolute_path p" "inside r p"
  shows "under_root r (native p)"
proof -
  obtain rest where p: "rootName p = rootName r" "pathComps p = pathComps r @ rest"
    using inside_absolute [OF assms(1,3)] assms(4) by blast
  have n: "native r = rootName r @ [CHR 0x5C] @ join_with (CHR 0x5C) (pathComps r)"
    "native p = rootName r @ [CHR 0x5C] @ join_with (CHR 0x5C) (pathComps r @ rest)"
    using assms(1,3) p by (simp_all add: path_text_def absolute_path_def)
  show ?thesis
  proof (cases "rest = []")
    case False
    have "native p = native r @ [CHR 0x5C] @ join_with (CHR 0x5C) rest"
      using n join_with_append [OF assms(2) False, of "CHR 0x5C"] by simp
    then show ?thesis by (simp add: under_root_def below_def)
  qed (use n in \<open>simp add: under_root_def\<close>)
qed

lemma resolve_under:
  assumes "good_places E" "resolve_in E cur input = Some p"
  shows "under_root (serverRoot E) (native p)" "absolute_path p" "inside (serverRoot E) p"
proof -
  show i: "inside (serverRoot E) p" using assms(2) by (rule resolve_inside)
  show a: "absolute_path p" using assms by (auto simp: good_places_def resolve_def split: option.splits if_splits)
  show "under_root (serverRoot E) (native p)" using assms(1) i a by (auto simp: good_places_def intro: inside_under)
qed

lemma below_trans: "below r q \<Longrightarrow> below q t \<Longrightarrow> below r t"
proof -
  assume "below r q" "below q t"
  then obtain x y where "q = (r @ [CHR 0x5C]) @ x" "t = (q @ [CHR 0x5C]) @ y"
    using append_take_drop_id [of "length r + 1" q] append_take_drop_id [of "length q + 1" t]
    unfolding below_def by metis
  then show ?thesis by (simp add: below_def)
qed

lemma under_below: "under_root r q \<Longrightarrow> below q t \<Longrightarrow> under_root r t"
  using below_trans by (auto simp: under_root_def)

lemma confined_refl [simp]: "confined r st st"
  by (simp add: confined_def)

lemma confined_trans: "confined r a b \<Longrightarrow> confined r b c \<Longrightarrow> confined r a c"
  by (simp add: confined_def)

lemma st_try_same: "st_try st = (b, st1) \<Longrightarrow>
    files (disk st1) = files (disk st) \<and> directories st1 = directories st \<and> special st1 = special st \<and>
    permissions st1 = permissions st \<and> lastChange st1 = lastChange st \<and> universe st1 = universe st \<and>
    tmpNames (disk st1) = tmpNames (disk st)"
  using fs_try_eq [of "disk st"] by (auto simp: st_try_def split: prod.splits)

lemma st_try_confined [simp]: "st_try st = (b, st1) \<Longrightarrow> confined r st st1"
  by (simp add: confined_def st_try_same)

lemma query_throw_confined: "query_throw a st = Returns (b, st1) \<Longrightarrow> confined r st st1"
  by (auto simp: query_throw_def split: prod.splits if_splits)

lemma query_ec_confined: "query_ec a st = (b, e, st1) \<Longrightarrow> confined r st st1"
  by (auto simp: query_ec_def split: prod.splits)

lemma fs_file_size_confined: "fs_file_size p st = (n, e, st1) \<Longrightarrow> confined r st st1"
  by (auto simp: fs_file_size_def split: prod.splits bool.splits option.splits)

lemma st_remove_confined: "under_root r (native p) \<Longrightarrow> st_remove p st = (b, st1) \<Longrightarrow> confined r st st1"
  using st_try_same [of st]
  by (auto simp: st_remove_def confined_def split: prod.splits bool.splits file_type.splits if_splits)

lemma moved_outside: "under_root r src \<Longrightarrow> under_root r dst \<Longrightarrow> \<not> under_root r q \<Longrightarrow> moved src dst g f q = f q"
  using under_below by (auto simp: moved_def)

lemma st_rename_confined:
  assumes "under_root r (native src)" "under_root r (native dst)" "st_rename src dst st = (b, st1)"
  shows "confined r st st1"
proof -
  obtain ok0 st0 where t: "st_try st = (ok0, st0)" by fastforce
  note same = st_try_same [OF t]
  have "confined r st0 st1"
    using assms t
    by (auto simp: st_rename_def Let_def confined_def moved_outside [OF assms(1,2)] split: bool.splits file_type.splits if_splits)
  with t show ?thesis using confined_trans st_try_confined by blast
qed

text \<open>Creating the directories on the way down to a path below the root.\<close>

lemma create_path_confined:
  assumes "\<forall>ds es. cs = ds @ es \<longrightarrow> ds \<noteq> [] \<longrightarrow>
      under_root r (native (at\<lparr>pathComps := pathComps at @ ds\<rparr>)) \<or>
      directories st (native (at\<lparr>pathComps := pathComps at @ ds\<rparr>))"
    "create_path at cs st = (a, e, st')"
  shows "confined r st st'"
  using assms
proof (induction cs arbitrary: at st)
  case (Cons c cs)
  let ?p = "at\<lparr>pathComps := pathComps at @ [c]\<rparr>"
  have here: "under_root r (native ?p) \<or> directories st (native ?p)" 
    using Cons.prems(1) [rule_format, of "[c]" cs] by simp
  have rest: "\<forall>ds es. cs = ds @ es \<longrightarrow> ds \<noteq> [] \<longrightarrow>
      under_root r (native (?p\<lparr>pathComps := pathComps ?p @ ds\<rparr>)) \<or>
      directories st (native (?p\<lparr>pathComps := pathComps ?p @ ds\<rparr>))"
  proof (intro allI impI)
    fix ds es :: "string list"
    assume "cs = ds @ es" "ds \<noteq> []"
    then show "under_root r (native (?p\<lparr>pathComps := pathComps ?p @ ds\<rparr>)) \<or>
      directories st (native (?p\<lparr>pathComps := pathComps ?p @ ds\<rparr>))"
      using Cons.prems(1) [rule_format, of "c # ds" es] by simp
  qed
  show ?case
  proof (cases "type_of st (native ?p) = Directory")
    case True
    with Cons.IH [OF rest] Cons.prems(2) show ?thesis by (simp add: Let_def)
  next
    case notdir: False
    show ?thesis
    proof (cases "type_of st (native ?p) = NotFound")
      case True
      obtain good st1 where t: "st_try st = (good, st1)" by fastforce
      have u: "under_root r (native ?p)" using here notdir by (auto simp: type_of_def)
      let ?st2 = "st1\<lparr>directories := (directories st1)(native ?p := True)\<rparr>"
      have c2: "confined r st ?st2" using u st_try_same [OF t] by (auto simp: confined_def)
      show ?thesis
      proof (cases good)
        case False
        with True Cons.prems(2) t show ?thesis by (simp add: Let_def)
      next
        case good: True
        show ?thesis
        proof (cases "cs = []")
          case True
          with \<open>type_of st (native ?p) = NotFound\<close> good Cons.prems(2) t c2 show ?thesis by (simp add: Let_def)
        next
          case False
          then have "create_path ?p cs ?st2 = (a, e, st')"
            using \<open>type_of st (native ?p) = NotFound\<close> good Cons.prems(2) t by (simp add: Let_def)
          moreover have "directories ?st2 q" if "directories st q" for q using that st_try_same [OF t] by simp
          ultimately have "confined r ?st2 st'" using rest by (intro Cons.IH [of ?p ?st2]) blast+
          with c2 show ?thesis by (rule confined_trans)
        qed
      qed
    next
      case False
      with notdir Cons.prems(2) show ?thesis by (auto simp: Let_def split: file_type.splits)
    qed
  qed
qed simp

lemma create_directories_confined:
  assumes "absolute_path r" "pathComps r \<noteq> []" "absolute_path p" "inside r p" "root_reachable r st"
    "create_directories p st = (a, e, st')"
  shows "confined r st st'"
proof (rule create_path_confined)
  obtain rest where p: "rootName p = rootName r" "pathComps p = pathComps r @ rest"
    using inside_absolute [OF assms(1,3)] assms(4) by blast
  let ?at = "p\<lparr>pathComps := []\<rparr>"
  show "create_path ?at (pathComps p) st = (a, e, st')" using assms(6) by (simp add: create_directories_def)
  show "\<forall>ds es. pathComps p = ds @ es \<longrightarrow> ds \<noteq> [] \<longrightarrow>
      under_root r (native (?at\<lparr>pathComps := pathComps ?at @ ds\<rparr>)) \<or>
      directories st (native (?at\<lparr>pathComps := pathComps ?at @ ds\<rparr>))"
  proof (intro allI impI)
    fix ds es :: "string list"
    assume d: "pathComps p = ds @ es" "ds \<noteq> []"
    have n: "native (?at\<lparr>pathComps := pathComps ?at @ ds\<rparr>) = native (r\<lparr>pathComps := ds\<rparr>)"
      using p(1) assms(1,3) by (simp add: path_text_def absolute_path_def)
    show "under_root r (native (?at\<lparr>pathComps := pathComps ?at @ ds\<rparr>)) \<or>
      directories st (native (?at\<lparr>pathComps := pathComps ?at @ ds\<rparr>))"
    proof (cases "length ds < length (pathComps r)")
      case True
      then have "ds = take (length ds) (pathComps r)" using arg_cong [OF d(1), of "take (length ds)"] p(2) by simp
      then show ?thesis using assms(5) True d(2) unfolding n root_reachable_def by (metis length_greater_0_conv)
    next
      case False
      then have "pathComps r = take (length (pathComps r)) ds"
        using arg_cong [OF d(1), of "take (length (pathComps r))"] p(2) by simp
      then have "\<exists>more. ds = pathComps r @ more" by (metis append_take_drop_id)
      then have "inside r (r\<lparr>pathComps := ds\<rparr>)" "absolute_path (r\<lparr>pathComps := ds\<rparr>)"
        using assms(1) inside_absolute [OF assms(1), of "r\<lparr>pathComps := ds\<rparr>"] by (auto simp: absolute_path_def)
      then show ?thesis unfolding n using inside_under [OF assms(1,2)] by blast
    qed
  qed
qed

lemma root_reachable_confined:
  assumes "confined r st st'" "root_reachable r st"
  shows "root_reachable r st'"
  unfolding root_reachable_def
proof (intro allI impI)
  fix k
  assume k: "0 < k" "k < length (pathComps r)"
  let ?a = "native (r\<lparr>pathComps := take k (pathComps r)\<rparr>)"
  have "take k (pathComps r) \<noteq> []" "drop k (pathComps r) \<noteq> []" using k by auto
  from join_with_append [OF this, of "CHR 0x5C"] have "length ?a < length (native r)"
    by (simp add: path_text_def)
  moreover have "length (native r) < length q" if "below (native r) q" for q
    using arg_cong [OF that [unfolded below_def], of length] by simp
  ultimately have "\<not> under_root r ?a" by (fastforce simp: under_root_def)
  with assms k show "directories st' ?a" by (simp add: confined_def root_reachable_def)
qed

subsection \<open>Every operation is confined\<close>

lemma changeDir_confined:
  "changeDir E cur target st = Returns (res, cur', st') \<Longrightarrow> confined (serverRoot E) st st'"
  by (auto simp: changeDir_def split: option.splits outcome.splits bool.splits
      dest!: query_throw_confined [where r = "serverRoot E"]) (simp_all add: confined_def)

lemma makeDir_confined:
  assumes "good_places E" "root_reachable (serverRoot E) st" "makeDir E cur name st = Returns (res, st')"
  shows "confined (serverRoot E) st st'"
proof (cases "resolve_in E cur name")
  case (Some p)
  note under = resolve_under [OF assms(1) Some]
  obtain there st1 where q: "query_throw (present st (native p)) st = Returns (there, st1)"
    using assms(3) Some by (cases "query_throw (present st (native p)) st") (auto simp: makeDir_def)
  note c1 = query_throw_confined [OF q, of "serverRoot E"]
  obtain a e st2 where c: "create_directories p st1 = (a, e, st2)" by (metis prod_cases3)
  have "confined (serverRoot E) st1 st2"
    using create_directories_confined [OF _ _ under(2,3) root_reachable_confined [OF c1 assms(2)] c] assms(1)
    by (simp add: good_places_def)
  then have c2: "confined (serverRoot E) st st2" using c1 confined_trans by blast
  show ?thesis using assms(3) Some q c c1 c2 by (cases there) (auto simp: makeDir_def split: if_splits)
qed (use assms(3) in \<open>simp add: makeDir_def\<close>)

lemma removeDir_confined:
  assumes "good_places E" "removeDir E cur name st = Returns (res, st')"
  shows "confined (serverRoot E) st st'"
proof (cases "resolve_in E cur name")
  case (Some p)
  note under = resolve_under(1) [OF assms(1) Some]
  obtain there st1 where q: "query_throw (present st (native p)) st = Returns (there, st1)"
    using assms(2) Some by (cases "query_throw (present st (native p)) st") (auto simp: removeDir_def)
  note c1 = query_throw_confined [OF q, of "serverRoot E"]
  show ?thesis
  proof (cases there)
    case True
    then obtain isDir st2 where q2: "query_throw (directories st1 (native p)) st1 = Returns (isDir, st2)"
      using assms(2) Some q by (cases "query_throw (directories st1 (native p)) st1") (auto simp: removeDir_def)
    have c2: "confined (serverRoot E) st st2" using c1 query_throw_confined [OF q2] confined_trans by blast
    obtain gone st3 where rm: "st_remove p st2 = (gone, st3)" by fastforce
    then have "confined (serverRoot E) st st3" using c2 st_remove_confined [OF under rm] confined_trans by blast
    with c2 show ?thesis using assms(2) Some q q2 True rm
      by (cases isDir; cases gone) (auto simp: removeDir_def split: if_splits)
  qed (use assms(2) Some q c1 in \<open>auto simp: removeDir_def\<close>)
qed (use assms(2) in \<open>simp add: removeDir_def\<close>)

lemma append_entry_confined: "append_entry p st = (info, st') \<Longrightarrow> confined r st st'"
proof -
  assume h: "append_entry p st = (info, st')"
  obtain perms st1 where g: "getFormatPermissions p st = (perms, st1)" by fastforce
  have c1: "confined r st st1"
    using g by (auto simp: getFormatPermissions_def Let_def split: prod.splits bool.splits)
  obtain isDir ec st2 where q: "query_ec (directories st1 (native p)) st1 = (isDir, ec, st2)" by (metis prod_cases3)
  have c2: "confined r st st2" using c1 query_ec_confined [OF q] confined_trans by blast
  obtain n e st3 where z: "fs_file_size p st2 = (n, e, st3)" by (metis prod_cases3)
  have c3: "confined r st st3" using c2 fs_file_size_confined [OF z] confined_trans by blast
  show ?thesis using h g q z c2 c3 by (auto simp: append_entry_def split: if_splits)
qed

lemma list_loop_confined: "list_loop ps acc st = Returns (infos, st') \<Longrightarrow> confined r st st'"
proof (induction ps arbitrary: acc st)
  case (Cons p ps)
  obtain info st1 where a: "append_entry p st = (info, st1)" by fastforce
  note c1 = append_entry_confined [OF a, of r]
  show ?case
  proof (cases info)
    case None
    with Cons.prems a c1 show ?thesis by simp
  next
    case (Some i)
    obtain good st2 where t: "st_try st1 = (good, st2)" by fastforce
    with Some Cons.prems a have "list_loop ps (acc @ [i]) st2 = Returns (infos, st')" by (cases good) simp_all
    from Cons.IH [OF this] c1 st_try_confined [OF t, of r] show ?thesis using confined_trans by blast
  qed
qed simp

lemma listDir_confined:
  assumes "listDir E cur target st = Returns (infos, st')"
  shows "confined (serverRoot E) st st'"
proof (cases "resolve_in E cur target")
  case (Some p)
  obtain there ec st1 where q: "query_ec (present st (native p)) st = (there, ec, st1)" by (metis prod_cases3)
  note c1 = query_ec_confined [OF q, of "serverRoot E"]
  obtain isDir ec2 st2 where q2: "query_ec (directories st1 (native p)) st1 = (isDir, ec2, st2)" by (metis prod_cases3)
  have c2: "confined (serverRoot E) st st2" using c1 query_ec_confined [OF q2] confined_trans by blast
  obtain info st3 where a: "append_entry p st2 = (info, st3)" by fastforce
  have c3: "confined (serverRoot E) st st3" using c2 append_entry_confined [OF a] confined_trans by blast
  obtain good st4 where t: "st_try st2 = (good, st4)" by fastforce
  have c4: "confined (serverRoot E) st st4" using c2 st_try_confined [OF t] confined_trans by blast
  have "confined (serverRoot E) st st'" if "list_loop (entries st4 p) [] st4 = Returns (infos, st')"
    using c4 list_loop_confined [OF that] confined_trans by blast
  with assms Some q q2 a t c1 c2 c3 c4 show ?thesis
    by (cases good) (auto simp: listDir_def split: if_splits)
qed (use assms in \<open>simp add: listDir_def\<close>)

lemma getMetadata_confined:
  assumes "getMetadata E cur target st = (meta, st')"
  shows "confined r st st'"
proof (cases "resolve_in E cur target")
  case (Some p)
  obtain there ec st1 where q: "query_ec (present st (native p)) st = (there, ec, st1)" by (metis prod_cases3)
  note c1 = query_ec_confined [OF q, of r]
  obtain isDir ec2 st2 where q2: "query_ec (directories st1 (native p)) st1 = (isDir, ec2, st2)" by (metis prod_cases3)
  have c2: "confined r st st2" using c1 query_ec_confined [OF q2] confined_trans by blast
  obtain n e st3 where z: "(if isDir then (0, False, st2) else fs_file_size p st2) = (n, e, st3)" by (metis prod_cases3)
  have "confined r st2 st3" using z fs_file_size_confined [of p st2] by (cases isDir) auto
  then have c3: "confined r st st3" using c2 confined_trans by blast
  obtain good st4 where t: "st_try st3 = (good, st4)" by fastforce
  have c4: "confined r st st4" using c3 st_try_confined [OF t] confined_trans by blast
  from assms Some q q2 z t c1 c4 show ?thesis
    by (cases good) (auto simp: getMetadata_def split: if_splits)
qed (use assms in \<open>simp add: getMetadata_def\<close>)

lemma getMetadata_resolved: "getMetadata E cur target st = (Some meta, st') \<Longrightarrow> \<exists>p. resolve_in E cur target = Some p"
  by (auto simp: getMetadata_def split: option.splits)

lemma deleteFile_confined:
  assumes "good_places E" "deleteFile E cur name st = (res, st')"
  shows "confined (serverRoot E) st st'"
proof -
  obtain meta st1 where g: "getMetadata E cur name st = (meta, st1)" by fastforce
  note c1 = getMetadata_confined [OF g, of "serverRoot E"]
  show ?thesis
  proof (cases meta)
    case None
    with assms(2) g c1 show ?thesis by (simp add: deleteFile_def)
  next
    case (Some m)
    then obtain p where p: "resolve_in E cur name = Some p" using g getMetadata_resolved by blast
    obtain gone st2 where rm: "st_remove p st1 = (gone, st2)" by fastforce
    then have "confined (serverRoot E) st st2"
      using c1 st_remove_confined [OF resolve_under(1) [OF assms(1) p] rm] confined_trans by blast
    with c1 assms(2) g Some p rm show ?thesis
      by (cases gone) (auto simp: deleteFile_def Let_def split: if_splits)
  qed
qed

lemma renameFrom_confined:
  assumes "good_places E" "renameFrom E cur name pend st = (res, pend', st')"
  shows "confined (serverRoot E) st st'" "rOk res \<Longrightarrow> under_root (serverRoot E) (native pend')"
proof -
  obtain meta st1 where g: "getMetadata E cur name st = (meta, st1)" by fastforce
  have st': "st' = st1" using assms(2) g by (auto simp: renameFrom_def split: option.splits)
  then show "confined (serverRoot E) st st'" using getMetadata_confined [OF g] by simp
  assume "rOk res"
  then obtain m where m: "meta = Some m" using assms(2) g by (cases meta) (auto simp: renameFrom_def res_no_def)
  then obtain p where p: "resolve_in E cur name = Some p" using g getMetadata_resolved by blast
  then have "pend' = p" using assms(2) g m by (simp add: renameFrom_def)
  then show "under_root (serverRoot E) (native pend')" using resolve_under(1) [OF assms(1) p] by simp
qed

lemma renameTo_confined:
  assumes "good_places E" "under_root (serverRoot E) (native pend)" "renameTo E cur pend name st = (res, st')"
  shows "confined (serverRoot E) st st'"
proof (cases "resolve_in E cur name")
  case (Some p)
  obtain b st1 where m: "st_rename pend p st = (b, st1)" by fastforce
  have "confined (serverRoot E) st st1"
    by (rule st_rename_confined [OF assms(2) resolve_under(1) [OF assms(1) Some] m])
  with assms(3) Some m show ?thesis by (cases b) (auto simp: renameTo_def)
qed (use assms(3) in \<open>simp add: renameTo_def\<close>)

text \<open>The current directory stays inside the root.\<close>

lemma changeDir_inside:
  "inside (serverRoot E) cur \<Longrightarrow> changeDir E cur target st = Returns (res, cur', st') \<Longrightarrow> inside (serverRoot E) cur'"
  by (auto simp: changeDir_def dest!: resolve_inside split: option.splits outcome.splits bool.splits)

lemma changeToParent_inside:
  "inside (serverRoot E) cur \<Longrightarrow> changeToParent E cur = (res, cur') \<Longrightarrow> inside (serverRoot E) cur'"
  by (auto simp: changeToParent_def dest!: resolve_inside split: option.splits)

section \<open>Where PWD says the client is\<close>

lemma drop_common_prefix: "drop_common (xs @ ys) xs = (ys, [])"
proof (induction xs)
  case Nil
  then show ?case by (cases ys) simp_all
qed simp

lemma join_with_not_dot: "list_all (\<lambda>c. plain_name c \<and> c \<noteq> ''.'' \<and> c \<noteq> ''..'') cs \<Longrightarrow> join_with (CHR ''/'') cs \<noteq> ''.''"
proof (induction cs rule: induct_list012)
  case (3 a b cs)
  then have "a \<noteq> []" by (simp add: plain_name_def)
  then show ?case by (cases a) auto
qed simp_all

lemma normal_good: "good_dir p \<Longrightarrow> lexically_normal p = p"
  using normal_comps_names [of "pathComps p" "[]"] by (simp add: good_dir_def lexically_normal_def)

text \<open>
  C39: on a disk without links, PWD prints the names that lead from the root to the current directory,
  after a slash. That text is no path for CWD: given back to the server it is resolved from the top of
  the drive, and refused unless the names of the root follow there.
\<close>

theorem pwd_position:
  assumes "canonical E = Some \<circ> lexically_normal" "good_dir (serverRoot E)" "good_dir cur"
    "rootName cur = rootName (serverRoot E)" "pathComps cur = pathComps (serverRoot E) @ rest"
  shows "printWorkingDir E cur =
      Returns (res_ok 257 (quoted (''/'' @ join_with (CHR ''/'') rest) @ '' is the current directory.'')) \<and>
    resolve_in E cur (''/'' @ join_with (CHR ''/'') rest) =
      (if \<exists>more. rest = pathComps (serverRoot E) @ more then Some (cur\<lparr>pathComps := rest\<rparr>) else None)"
proof -
  let ?r = "serverRoot E"
  have abs: "rootDir cur" "rootDir ?r" "rootName cur \<noteq> []" "rootName ?r \<noteq> []"
    using assms(2,3) by (simp_all add: good_dir_def absolute_path_def)
  have rest: "list_all (\<lambda>c. plain_name c \<and> c \<noteq> ''.'' \<and> c \<noteq> ''..'') rest"
    using assms(3,5) by (simp add: good_dir_def)
  then have hd: "rest \<noteq> [] \<Longrightarrow> hd rest \<noteq> []" by (cases rest) (simp_all add: plain_name_def)
  have "lexically_relative cur ?r = rel_path (if rest = [] then [''.''] else rest)"
    using assms(4,5) abs hd by (auto simp: lexically_relative_def drop_common_prefix up_count_def)
  then have "fs_relative E cur ?r = Returns (rel_path (if rest = [] then [''.''] else rest))"
    using assms(1) normal_good [OF assms(2)] normal_good [OF assms(3)] by (simp add: fs_relative_def)
  then have pwd: "printWorkingDir E cur =
      Returns (res_ok 257 (quoted (''/'' @ join_with (CHR ''/'') rest) @ '' is the current directory.''))"
    using join_with_not_dot [OF rest] by (auto simp: printWorkingDir_def Let_def rel_path_def path_text_def)
  have names: "list_all plain_name rest" using rest by (simp add: list_all_iff)
  have "path_of_string (''/'' @ join_with (CHR ''/'') rest) = \<lparr>rootName = [], rootDir = True, pathComps = rest\<rparr>"
    using path_of_rooted_names [OF names] by simp
  then have "canonical E (path_join cur (path_of_string (''/'' @ join_with (CHR ''/'') rest))) = Some (cur\<lparr>pathComps := rest\<rparr>)"
    using assms(1) abs normal_comps_names [OF rest, of "[]"]
    by (simp add: path_join_def lexically_normal_def)
  moreover have "inside ?r (cur\<lparr>pathComps := rest\<rparr>) \<longleftrightarrow> (\<exists>more. rest = pathComps ?r @ more)"
    using inside_absolute [of ?r "cur\<lparr>pathComps := rest\<rparr>"] abs assms(4) by (simp add: absolute_path_def)
  ultimately have "resolve_in E cur (''/'' @ join_with (CHR ''/'') rest) =
      (if \<exists>more. rest = pathComps ?r @ more then Some (cur\<lparr>pathComps := rest\<rparr>) else None)"
    by (simp add: resolve_def inside_def)
  with pwd show ?thesis by blast
qed

definition sample_places :: places where
  "sample_places = \<lparr>canonical = Some \<circ> lexically_normal, serverRoot = sample_root\<rparr>"

theorem pwd_position_witness:
  "printWorkingDir sample_places (sample_root\<lparr>pathComps := [''srv'', ''a'']\<rparr>) =
     Returns (res_ok 257 (quoted ''/a'' @ '' is the current directory.'')) \<and>
   resolve_in sample_places (sample_root\<lparr>pathComps := [''srv'', ''a'']\<rparr>) ''/a'' = None"
  using pwd_position [of sample_places "sample_root\<lparr>pathComps := [''srv'', ''a'']\<rparr>" "[''a'']"]
  by (simp add: sample_places_def sample_root_def good_dir_def absolute_path_def plain_name_def is_sep_def)

end
