(* ===== verification/Transfer_Files.thy ===== *)
theory Transfer_Files
  imports Directory_Service Data_Channel_Send
begin

text \<open>
  What the transfers of \<^verbatim>\<open>CommandDispatcher.cpp\<close> do with files beside receiving them: appending to a file
  by way of a temporary one, reserving a unique name, and the text that reports a transfer, with the
  client's reading of it.
\<close>

section \<open>Appending\<close>

definition on_disk :: "(fsys \<Rightarrow> 'a \<times> fsys) \<Rightarrow> store \<Rightarrow> 'a \<times> store" where
  "on_disk f st = (case f (disk st) of (x, F) \<Rightarrow> (x, st\<lparr>disk := F\<rparr>))"

definition createSiblingTemporaryPath :: "fspath \<Rightarrow> store \<Rightarrow> path option \<times> store" where
  "createSiblingTemporaryPath destination st =
     (if parent_path destination = empty_path then (None, st) else on_disk GetTempFileName st)"

text \<open>
  \<^verbatim>\<open>output << input.rdbuf()\<close> sets the fail bit of the output when it copies no character: an empty input
  counts as an error. A write of the copy may fail too.
\<close>

definition copy_into :: "path \<Rightarrow> path \<Rightarrow> fsys \<Rightarrow> bool \<times> fsys" where
  "copy_into combined src F =
     (case fs_try F of
        (False, F1) \<Rightarrow> (False, F1)
      | (True, F1) \<Rightarrow>
          (case files F1 src of
             None \<Rightarrow> (False, F1)
           | Some bs \<Rightarrow> if bs = [] then (False, F1) else stream_write combined bs F1))"

text \<open>
  From the incoming part on: copy, flush, close, digest, move. \<open>hash\<close> is \<open>None\<close> where the caller wants no
  digest. The result is the digest (empty if none is wanted), or \<open>None\<close> where the source returns false.
\<close>

definition append_rest ::
  "(bytes \<Rightarrow> string) option \<Rightarrow> path \<Rightarrow> path \<Rightarrow> path \<Rightarrow> fsys \<Rightarrow> string option \<times> fsys" where
  "append_rest hash destination incoming combined F =
     (case copy_into combined incoming F of
        (False, F1) \<Rightarrow> (None, F1)
      | (True, F1) \<Rightarrow>
          (case fs_try F1 of
             (False, F2) \<Rightarrow> (None, F2)
           | (True, F2) \<Rightarrow>
               (case fs_try F2 of
                  (False, F3) \<Rightarrow> (None, F3)
                | (True, F3) \<Rightarrow>
                    (let digest = (case (hash, files F3 combined) of (Some h, Some bs) \<Rightarrow> h bs | _ \<Rightarrow> [])
                     in if hash \<noteq> None \<and> digest = [] then (None, F3)
                        else case MoveFile combined destination F3 of
                            (False, F4) \<Rightarrow> (None, F4)
                          | (True, F4) \<Rightarrow> (Some digest, F4)))))"

definition append_body ::
  "(bytes \<Rightarrow> string) option \<Rightarrow> fspath \<Rightarrow> path \<Rightarrow> path \<Rightarrow> store \<Rightarrow> string option \<times> store" where
  "append_body hash destination incoming combined st =
     (case st_try st of
        (False, st1) \<Rightarrow> (None, st1)
      | (True, st1) \<Rightarrow>
          (let st2 = st1\<lparr>disk := (disk st1)\<lparr>files := (files (disk st1))(combined \<mapsto> [])\<rparr>\<rparr>
           in case query_ec (present st2 (native destination)) st2 of
               (there, ec, st3) \<Rightarrow>
                 if there
                 then (case query_ec (type_of st3 (native destination) = Regular) st3 of
                         (regular, ec2, st4) \<Rightarrow>
                           if ec \<or> \<not> regular then (None, st4)
                           else (case on_disk (copy_into combined (native destination)) st4 of
                                   (False, st5) \<Rightarrow> (None, st5)
                                 | (True, st5) \<Rightarrow>
                                     on_disk (append_rest hash (native destination) incoming combined) st5))
                 else if ec then (None, st3)
                 else on_disk (append_rest hash (native destination) incoming combined) st3))"

text \<open>Whatever way the function ends without success, the temporary file is removed.\<close>

definition appendAtomically ::
  "(bytes \<Rightarrow> string) option \<Rightarrow> fspath \<Rightarrow> path \<Rightarrow> store \<Rightarrow> string option \<times> store" where
  "appendAtomically hash destination incoming st =
     (case createSiblingTemporaryPath destination st of
        (None, st1) \<Rightarrow> (None, st1)
      | (Some combined, st1) \<Rightarrow>
          (case append_body hash destination incoming combined st1 of
             (None, st2) \<Rightarrow> (None, st2\<lparr>disk := fs_remove combined (disk st2)\<rparr>)
           | (Some digest, st2) \<Rightarrow> (Some digest, st2)))"

subsection \<open>All or nothing\<close>

lemma copy_into_files:
  assumes "copy_into t src F = (b, F')" "t \<noteq> src"
  shows "same_except t F F'"
    "b \<Longrightarrow> files F t = Some old \<Longrightarrow> \<exists>bs. files F src = Some bs \<and> bs \<noteq> [] \<and> files F' t = Some (old @ bs)"
proof -
  obtain b1 F1 where t: "fs_try F = (b1, F1)" by fastforce
  note same = fs_try_eq [OF t]
  have "same_except t F F' \<and> (b \<longrightarrow> files F t = Some old \<longrightarrow>
      (\<exists>bs. files F src = Some bs \<and> bs \<noteq> [] \<and> files F' t = Some (old @ bs)))"
  proof (cases "b1 \<and> (\<exists>bs. files F src = Some bs \<and> bs \<noteq> [])")
    case True
    then obtain bs where bs: "files F src = Some bs" "bs \<noteq> []" by blast
    with True assms t same have w: "stream_write t bs F1 = (b, F')" by (simp add: copy_into_def)
    show ?thesis using stream_write_files [OF w] same bs by (auto simp: same_except_def)
  next
    case False
    with assms t same have "b = False" "files F' = files F"
      by (auto simp: copy_into_def split: bool.splits option.splits if_splits)
    then show ?thesis by (simp add: same_except_def)
  qed
  then show "same_except t F F'"
    "b \<Longrightarrow> files F t = Some old \<Longrightarrow> \<exists>bs. files F src = Some bs \<and> bs \<noteq> [] \<and> files F' t = Some (old @ bs)" by simp_all
qed

lemma MoveFile_replaces:
  assumes "MoveFile s d F = (b, F')"
  shows "\<not> b \<Longrightarrow> files F' = files F"
    "b \<Longrightarrow> \<exists>bs. files F s = Some bs \<and> files F' = ((files F)(s := None))(d \<mapsto> bs)"
proof -
  obtain b1 F1 where t: "fs_try F = (b1, F1)" by fastforce
  show "\<not> b \<Longrightarrow> files F' = files F"
    "b \<Longrightarrow> \<exists>bs. files F s = Some bs \<and> files F' = ((files F)(s := None))(d \<mapsto> bs)"
    using assms t fs_try_eq [OF t] by (auto simp: MoveFile_def split: bool.splits option.splits)
qed

lemma append_rest_files:
  assumes "append_rest hash d inc t F = (res, F')" "t \<noteq> inc" "t \<noteq> d" "files F t = Some old"
  shows "res = None \<Longrightarrow> same_except t F F'"
    "res = Some g \<Longrightarrow> \<exists>bs. files F inc = Some bs \<and> bs \<noteq> [] \<and> files F' = (files F)(t := None, d \<mapsto> old @ bs) \<and>
       g = (case hash of None \<Rightarrow> [] | Some h \<Rightarrow> h (old @ bs))"
proof -
  obtain b1 F1 where c: "copy_into t inc F = (b1, F1)" by fastforce
  note cf = copy_into_files [OF c assms(2)]
  obtain b2 F2 where t2: "fs_try F1 = (b2, F2)" by fastforce
  obtain b3 F3 where t3: "fs_try F2 = (b3, F3)" by fastforce
  have same: "files F3 = files F1" "files F2 = files F1" using fs_try_eq [OF t2] fs_try_eq [OF t3] by simp_all
  obtain b4 F4 where m: "MoveFile t d F3 = (b4, F4)" by fastforce
  note mf = MoveFile_replaces [OF m]
  have ends: "res = None \<and> (F' = F1 \<or> F' = F2 \<or> F' = F3 \<or> F' = F4 \<and> \<not> b4) \<or>
      b1 \<and> b4 \<and> F' = F4 \<and> res = Some (case (hash, files F3 t) of (Some h, Some bs) \<Rightarrow> h bs | _ \<Rightarrow> [])"
    using assms(1) c t2 t3 m
    by (cases b1; cases b2; cases b3; cases b4) (auto simp: append_rest_def Let_def split: if_splits)
  show "res = None \<Longrightarrow> same_except t F F'"
    using ends cf(1) same mf(1) by (auto simp: same_except_def)
  assume "res = Some g"
  with ends have ok: "b1" "b4" "F' = F4" "g = (case (hash, files F3 t) of (Some h, Some bs) \<Rightarrow> h bs | _ \<Rightarrow> [])" by auto
  obtain bs where bs: "files F inc = Some bs" "bs \<noteq> []" "files F1 t = Some (old @ bs)" using cf(2) [OF ok(1) assms(4)] by blast
  have "files F1 q = files F q" if "q \<noteq> t" for q using cf(1) that by (simp add: same_except_def)
  then have "files F4 = (files F)(t := None, d \<mapsto> old @ bs)"
    using mf(2) [OF ok(2)] same bs(3) by (auto simp: fun_eq_iff)
  with bs ok same show "\<exists>bs. files F inc = Some bs \<and> bs \<noteq> [] \<and> files F' = (files F)(t := None, d \<mapsto> old @ bs) \<and>
       g = (case hash of None \<Rightarrow> [] | Some h \<Rightarrow> h (old @ bs))" by (auto split: option.splits)
qed

lemma on_disk_eq: "on_disk f st = (x, st') \<longleftrightarrow> f (disk st) = (x, disk st') \<and> st' = st\<lparr>disk := disk st'\<rparr>"
  by (cases "f (disk st)") (auto simp: on_disk_def)

lemma query_ec_same: "query_ec a st = (b, e, st1) \<Longrightarrow>
    files (disk st1) = files (disk st) \<and> directories st1 = directories st \<and> special st1 = special st \<and>
    (b \<longrightarrow> a) \<and> (\<not> e \<longrightarrow> b = a)"
  using st_try_same [of st] by (auto simp: query_ec_def split: prod.splits)

text \<open>The parts of the disk other than regular files.\<close>

definition same_tree :: "store \<Rightarrow> store \<Rightarrow> bool" where
  "same_tree st st' \<longleftrightarrow> directories st' = directories st \<and> special st' = special st"

text \<open>
  The outcome of an append with the temporary file \<open>t\<close>: on failure no other file changed, on success the
  destination has its old content followed by what came in.
\<close>

definition old_content :: "store \<Rightarrow> fspath \<Rightarrow> bytes" where
  "old_content st d = (case files (disk st) (native d) of None \<Rightarrow> [] | Some old \<Rightarrow> old)"

definition appended ::
  "(bytes \<Rightarrow> string) option \<Rightarrow> fspath \<Rightarrow> path \<Rightarrow> path \<Rightarrow> store \<Rightarrow> string option \<Rightarrow> store \<Rightarrow> bool" where
  "appended hash d inc t st res st' \<longleftrightarrow>
     same_tree st st' \<and>
     (case res of
        None \<Rightarrow> same_except t (disk st) (disk st')
      | Some g \<Rightarrow> (\<exists>bs. files (disk st) inc = Some bs \<and> bs \<noteq> [] \<and>
          files (disk st') = (files (disk st))(t := None, native d \<mapsto> old_content st d @ bs) \<and>
          g = (case hash of None \<Rightarrow> [] | Some h \<Rightarrow> h (old_content st d @ bs))))"

lemma on_disk_tree: "on_disk f st = (x, st') \<Longrightarrow> same_tree st st'"
  by (auto simp: on_disk_def same_tree_def split: prod.splits)

lemma appended_rest:
  assumes "on_disk (append_rest hash (native d) inc t) st1 = (res, st')" "same_tree st st1"
    "same_except t (disk st) (disk st1)" "files (disk st1) t = Some (old_content st d)" "t \<noteq> inc" "t \<noteq> native d"
  shows "appended hash d inc t st res st'"
proof -
  have "append_rest hash (native d) inc t (disk st1) = (res, disk st')" using assms(1) by (simp add: on_disk_eq)
  note ar = append_rest_files [OF this assms(5,6,4)]
  have F: "files (disk st1) q = files (disk st) q" if "q \<noteq> t" for q using that assms(3) by (simp add: same_except_def)
  have tree: "same_tree st st'" using assms(2) on_disk_tree [OF assms(1)] by (simp add: same_tree_def)
  show ?thesis
  proof (cases res)
    case None
    with ar(1) F tree show ?thesis by (simp add: appended_def same_except_def)
  next
    case (Some g)
    have "(files (disk st1))(t := None) = (files (disk st))(t := None)" using F by (auto simp: fun_eq_iff)
    with ar(2) [OF Some] Some F assms(5) tree show ?thesis by (auto simp: appended_def)
  qed
qed

text \<open>Copying the old content into the empty temporary file.\<close>

lemma copied_old:
  assumes "on_disk (copy_into t (native d)) st4 = (True, st5)" "files (disk st4) = (files (disk st))(t \<mapsto> [])"
    "same_tree st st4" "t \<noteq> native d"
  shows "same_tree st st5" "same_except t (disk st) (disk st5)" "files (disk st5) t = Some (old_content st d)"
proof -
  have "copy_into t (native d) (disk st4) = (True, disk st5)" using assms(1) by (simp add: on_disk_eq)
  note cf = copy_into_files [OF this assms(4)]
  show "same_tree st st5" using on_disk_tree [OF assms(1)] assms(3) by (simp add: same_tree_def)
  show "same_except t (disk st) (disk st5)" using cf(1) assms(2) by (simp add: same_except_def)
  obtain bs where "files (disk st4) (native d) = Some bs" "files (disk st5) t = Some ([] @ bs)"
    using cf(2) [of "[]"] assms(2) by auto
  then show "files (disk st5) t = Some (old_content st d)" using assms(2,4) by (simp add: old_content_def)
qed

lemma append_body_appended:
  assumes "append_body hash d inc t st = (res, st')" "t \<noteq> inc" "t \<noteq> native d"
  shows "appended hash d inc t st res st'"
proof -
  obtain b1 st1 where t1: "st_try st = (b1, st1)" by fastforce
  note s1 = st_try_same [OF t1]
  let ?st2 = "st1\<lparr>disk := (disk st1)\<lparr>files := (files (disk st1))(t \<mapsto> [])\<rparr>\<rparr>"
  obtain there ec st3 where q3: "query_ec (present ?st2 (native d)) ?st2 = (there, ec, st3)" by (metis prod_cases3)
  have f3: "files (disk st3) = (files (disk st))(t \<mapsto> [])" "same_tree st st3" "\<not> ec \<Longrightarrow> there = present ?st2 (native d)"
    using s1 query_ec_same [OF q3] by (simp_all add: same_tree_def)
  obtain reg ec2 st4 where q4: "query_ec (type_of st3 (native d) = Regular) st3 = (reg, ec2, st4)" by (metis prod_cases3)
  have f4: "files (disk st4) = (files (disk st))(t \<mapsto> [])" "same_tree st st4"
    using query_ec_same [OF q4] f3 by (simp_all add: same_tree_def)
  obtain b5 st5 where c5: "on_disk (copy_into t (native d)) st4 = (b5, st5)" by fastforce
  have f5: "same_tree st st5" "same_except t (disk st) (disk st5)"
    using on_disk_tree [OF c5] f4 copy_into_files(1) [of t "native d" "disk st4" b5 "disk st5"] c5 assms(3)
    by (simp_all add: same_tree_def same_except_def on_disk_eq)
  obtain r6 st6 where a6: "on_disk (append_rest hash (native d) inc t) st5 = (r6, st6)" by fastforce
  obtain r7 st7 where a7: "on_disk (append_rest hash (native d) inc t) st3 = (r7, st7)" by fastforce
  have fail: "appended hash d inc t st None x" if "x \<in> {st1, st3, st4, st5}" for x
    using that s1 f3 f4 f5 by (auto simp: appended_def same_tree_def same_except_def)
  have old: "appended hash d inc t st r6 st6" if b5: "b5"
    using appended_rest [OF a6 _ _ _ assms(2,3)] copied_old [OF _ f4 assms(3), of st5] c5 b5 by simp
  have new: "appended hash d inc t st r7 st7" if "\<not> there" "\<not> ec"
  proof -
    have "files (disk st) (native d) = None" using f3(3) that s1 assms(3)
      by (auto simp: present_def type_of_def split: if_splits option.splits)
    then show ?thesis using appended_rest [OF a7 f3(2) _ _ assms(2,3)] f3(1) by (simp add: old_content_def same_except_def)
  qed
  have "append_body hash d inc t st =
      (if \<not> b1 then (None, st1)
       else if there then if ec \<or> \<not> reg then (None, st4) else if b5 then (r6, st6) else (None, st5)
       else if ec then (None, st3) else (r7, st7))"
    unfolding append_body_def by (simp add: t1 q3 q4 c5 a6 a7 Let_def split: bool.split)
  with assms(1) fail old new show ?thesis by (auto split: if_splits)
qed

lemma old_content_temp: "files (disk st1) = (files (disk st))(t \<mapsto> []) \<Longrightarrow> t \<noteq> native d \<Longrightarrow> old_content st1 d = old_content st d"
  by (simp add: old_content_def)

lemma appendAtomically_outcome:
  assumes "appendAtomically hash dest incoming st = (res, st')"
    "\<forall>t \<in> set (tmpNames (disk st)). t \<noteq> incoming \<and> t \<noteq> native dest"
  shows "same_tree st st' \<and>
    (case res of
       None \<Rightarrow> \<forall>q. q \<notin> set (tmpNames (disk st)) \<longrightarrow> files (disk st') q = files (disk st) q
     | Some g \<Rightarrow> \<exists>bs. files (disk st) incoming = Some bs \<and>
         (\<forall>q. q \<notin> set (tmpNames (disk st)) \<longrightarrow>
            files (disk st') q = (if q = native dest then Some (old_content st dest @ bs) else files (disk st) q)) \<and>
         g = (case hash of None \<Rightarrow> [] | Some h \<Rightarrow> h (old_content st dest @ bs)))"
proof -
  obtain tmp st1 where c: "createSiblingTemporaryPath dest st = (tmp, st1)" by fastforce
  have tree1: "same_tree st st1"
    using c on_disk_tree [of GetTempFileName st tmp st1] by (auto simp: createSiblingTemporaryPath_def same_tree_def split: if_splits)
  show ?thesis
  proof (cases tmp)
    case None
    then have "files (disk st1) = files (disk st)"
      using c GetTempFileName_None [of "disk st" "disk st1"]
      by (auto simp: createSiblingTemporaryPath_def on_disk_eq split: if_splits)
    with None c assms(1) tree1 show ?thesis by (auto simp: appendAtomically_def)
  next
    case (Some t)
    then have g: "GetTempFileName (disk st) = (Some t, disk st1)"
      using c by (auto simp: createSiblingTemporaryPath_def on_disk_eq split: if_splits)
    note tf = GetTempFileName_files [OF g]
    have t: "t \<noteq> incoming" "t \<noteq> native dest" using tf(1) assms(2) by auto
    obtain r2 st2 where b: "append_body hash dest incoming t st1 = (r2, st2)" by fastforce
    note ap = append_body_appended [OF b t]
    have old: "old_content st1 dest = old_content st dest" using old_content_temp tf(2) t(2) .
    show ?thesis
    proof (cases r2)
      case None
      then have "res = None" "st' = st2\<lparr>disk := fs_remove t (disk st2)\<rparr>"
        using assms(1) c Some b by (simp_all add: appendAtomically_def)
      moreover have "same_except t (disk st2) (fs_remove t (disk st2))" by (rule fs_remove_files)
      ultimately show ?thesis using ap None tf tree1 by (auto simp: appended_def same_tree_def same_except_def)
    next
      case (Some g)
      then have "res = Some g" "st' = st2" using assms(1) c \<open>tmp = Some t\<close> b by (simp_all add: appendAtomically_def)
      with ap [unfolded appended_def old] Some tf tree1 t show ?thesis by (auto simp: same_tree_def)
    qed
  qed
qed

text \<open>
  C22: APPE appends all or nothing. If the name of the temporary file is new, \<^verbatim>\<open>appendAtomically\<close> either
  fails and leaves every file but temporary ones as it was, or succeeds, and then the destination is its
  old content followed by the whole incoming content, the digest it reports is the one of the new
  content, and no other file changed.
\<close>

theorem appendAtomically_atomic:
  assumes "appendAtomically hash dest incoming st = (res, st')"
    "\<forall>t \<in> set (tmpNames (disk st)). t \<noteq> incoming \<and> t \<noteq> native dest"
  shows "same_tree st st' \<and>
    (case res of
       None \<Rightarrow> \<forall>q. q \<notin> set (tmpNames (disk st)) \<longrightarrow> files (disk st') q = files (disk st) q
     | Some g \<Rightarrow> \<exists>bs. files (disk st) incoming = Some bs \<and>
         (\<forall>q. q \<notin> set (tmpNames (disk st)) \<longrightarrow>
            files (disk st') q = (if q = native dest then Some (old_content st dest @ bs) else files (disk st) q)) \<and>
         g = (case hash of None \<Rightarrow> [] | Some h \<Rightarrow> h (old_content st dest @ bs)))"
  using appendAtomically_outcome [OF assms] .

subsection \<open>When the disk does not fail\<close>

lemma fs_try_calm: "fsOk F = [] \<Longrightarrow> fs_try F = (True, F)"
  by (simp add: fs_try_def)

lemma copy_into_calm:
  "fsOk F = [] \<Longrightarrow> files F src = Some bs \<Longrightarrow> files F t = Some old \<Longrightarrow>
   copy_into t src F = (if bs = [] then (False, F) else (True, F\<lparr>files := (files F)(t \<mapsto> old @ bs)\<rparr>))"
  by (simp add: copy_into_def stream_write_def fs_try_calm)

lemma append_rest_calm:
  assumes "fsOk F = []" "files F t = Some old" "t \<noteq> inc"
  shows "fst (append_rest hash d inc t F) \<noteq> None \<longleftrightarrow>
    (\<exists>bs. files F inc = Some bs \<and> bs \<noteq> [] \<and> (\<forall>h. hash = Some h \<longrightarrow> h (old @ bs) \<noteq> []))"
proof (cases "files F inc")
  case None
  with assms(1) show ?thesis by (simp add: append_rest_def copy_into_def fs_try_calm)
next
  case (Some bs)
  show ?thesis
  proof (cases "bs = []")
    case False
    then show ?thesis using copy_into_calm [OF assms(1) Some assms(2)] assms(1) Some
      by (cases hash) (simp_all add: append_rest_def fs_try_calm MoveFile_def Let_def)
  qed (use copy_into_calm [OF assms(1) Some assms(2)] Some in \<open>simp add: append_rest_def\<close>)
qed

lemma append_body_calm:
  assumes "fsOk (disk st) = []" "t \<noteq> inc" "t \<noteq> native d" "inc \<noteq> native d"
  shows "fst (append_body hash d inc t st) \<noteq> None \<longleftrightarrow>
    (type_of st (native d) = NotFound \<or> type_of st (native d) = Regular \<and> (\<exists>old. files (disk st) (native d) = Some old \<and> old \<noteq> [])) \<and>
    (\<exists>bs. files (disk st) inc = Some bs \<and> bs \<noteq> [] \<and> (\<forall>h. hash = Some h \<longrightarrow> h (old_content st d @ bs) \<noteq> []))"
proof -
  define F where "F = (disk st)\<lparr>files := (files (disk st))(t \<mapsto> [])\<rparr>"
  have F: "fsOk F = []" "files F t = Some []" "files F inc = files (disk st) inc" "files F (native d) = files (disk st) (native d)"
    using assms by (simp_all add: F_def)
  have ty: "type_of (st\<lparr>disk := F\<rparr>) (native d) = type_of st (native d)" using F(4) by (simp add: type_of_def)
  have body: "append_body hash d inc t st =
      (if type_of st (native d) = NotFound then on_disk (append_rest hash (native d) inc t) (st\<lparr>disk := F\<rparr>)
       else if type_of st (native d) \<noteq> Regular then (None, st\<lparr>disk := F\<rparr>)
       else case on_disk (copy_into t (native d)) (st\<lparr>disk := F\<rparr>) of
          (False, st5) \<Rightarrow> (None, st5)
        | (True, st5) \<Rightarrow> on_disk (append_rest hash (native d) inc t) st5)"
    using assms(1) ty F(1)
    by (auto simp: append_body_def st_try_def fs_try_calm query_ec_def present_def Let_def simp flip: F_def)
  consider "type_of st (native d) = NotFound" | old where "type_of st (native d) = Regular" "files (disk st) (native d) = Some old"
    | "type_of st (native d) = Regular" "files (disk st) (native d) = None"
    | "type_of st (native d) \<noteq> NotFound" "type_of st (native d) \<noteq> Regular"
    by (cases "files (disk st) (native d)") blast+
  then show ?thesis
  proof cases
    case 1
    then have "old_content st d = []" by (auto simp: old_content_def type_of_def split: if_splits option.splits)
    with 1 body append_rest_calm [OF F(1,2) assms(2), of hash "native d"] F(3) show ?thesis
      by (simp add: on_disk_def split: prod.splits)
  next
    case 2
    let ?F2 = "F\<lparr>files := (files F)(t \<mapsto> old)\<rparr>"
    have c: "copy_into t (native d) F = (if old = [] then (False, F) else (True, ?F2))"
      using copy_into_calm [OF F(1) _ F(2), of "native d" old] F(4) 2(2) by simp
    have "fst (append_rest hash (native d) inc t ?F2) \<noteq> None \<longleftrightarrow>
        (\<exists>bs. files F inc = Some bs \<and> bs \<noteq> [] \<and> (\<forall>h. hash = Some h \<longrightarrow> h (old @ bs) \<noteq> []))"
      using append_rest_calm [of ?F2 t old inc hash "native d"] F(1) assms(2) by simp
    with 2 body c F(3) show ?thesis
      by (cases "old = []") (simp_all add: on_disk_def old_content_def split: prod.splits)
  next
    case 3
    then have "copy_into t (native d) F = (False, F)" using F(1,4) by (simp add: copy_into_def fs_try_calm)
    with 3 body show ?thesis by (simp add: on_disk_def)
  qed (simp add: body)
qed

text \<open>
  C37: when APPE can work. On a disk on which nothing fails, \<^verbatim>\<open>appendAtomically\<close> succeeds exactly if the
  destination is absent or a regular file that is not empty, and the incoming file is not empty (and has
  a digest, if one is wanted): appending to an empty file fails, and so does appending nothing.
\<close>

theorem appendAtomically_calm:
  assumes "fsOk (disk st) = []" "tmpNames (disk st) = t # ts" "t \<noteq> incoming" "t \<noteq> native dest" "incoming \<noteq> native dest"
    "parent_path dest \<noteq> empty_path"
  shows "fst (appendAtomically hash dest incoming st) \<noteq> None \<longleftrightarrow>
    (type_of st (native dest) = NotFound \<or> type_of st (native dest) = Regular \<and> (\<exists>old. files (disk st) (native dest) = Some old \<and> old \<noteq> [])) \<and>
    (\<exists>bs. files (disk st) incoming = Some bs \<and> bs \<noteq> [] \<and>
      (\<forall>h. hash = Some h \<longrightarrow> h (old_content st dest @ bs) \<noteq> []))"
proof -
  let ?st1 = "st\<lparr>disk := (disk st)\<lparr>tmpNames := ts, files := (files (disk st))(t \<mapsto> [])\<rparr>\<rparr>"
  have "createSiblingTemporaryPath dest st = (Some t, ?st1)"
    using assms by (simp add: createSiblingTemporaryPath_def on_disk_def GetTempFileName_def fs_try_calm)
  then have "fst (appendAtomically hash dest incoming st) = fst (append_body hash dest incoming t ?st1)"
    by (simp add: appendAtomically_def split: prod.splits option.splits)
  then show ?thesis
    using append_body_calm [of ?st1 t incoming dest hash] assms by (simp add: type_of_def old_content_def)
qed

definition sample_path :: "string \<Rightarrow> fspath" where
  "sample_path n = sample_root\<lparr>pathComps := [''srv'', n]\<rparr>"

lemma sample_path_native [simp]: "native (sample_path m) = native (sample_path n) \<longleftrightarrow> m = n"
  by (simp add: sample_path_def path_text_def)

definition sample_store :: "bytes \<Rightarrow> store" where
  "sample_store old = \<lparr>disk = \<lparr>files = [native (sample_path ''log'') \<mapsto> old, native (sample_path ''in'') \<mapsto> [3]], fsOk = [],
       tmpNames = [native (sample_path ''hfa'')], lastError = ([], [])\<rparr>,
     directories = (\<lambda>q. q = native sample_root), special = (\<lambda>q. None), permissions = (\<lambda>q. 0x1B6),
     lastChange = (\<lambda>q. 0), universe = [sample_path ''in'', sample_path ''log'']\<rparr>"

lemma sample_native_root [simp]: "native (sample_path n) \<noteq> native sample_root" "native sample_root \<noteq> native (sample_path n)"
  by (simp_all add: sample_path_def path_text_def sample_root_def)

lemmas sample_append = appendAtomically_def createSiblingTemporaryPath_def append_body_def append_rest_def
  copy_into_def on_disk_def GetTempFileName_def st_try_def query_ec_def fs_try_def stream_write_def MoveFile_def
  fs_remove_def present_def type_of_def

theorem appendAtomically_atomic_witness:
  "\<exists>st'. appendAtomically None (sample_path ''log'') (native (sample_path ''in'')) (sample_store [1, 2]) = (Some [], st') \<and>
     files (disk st') (native (sample_path ''log'')) = Some [1, 2, 3]"
proof -
  obtain res st' where run: "appendAtomically None (sample_path ''log'') (native (sample_path ''in'')) (sample_store [1, 2]) =
      (res, st')" by fastforce
  have "parent_path (sample_path ''log'') \<noteq> empty_path"
    by (simp add: parent_path_def sample_path_def empty_path_def rel_path_def sample_root_def)
  then have res: "res = Some []"
    using run by (simp add: sample_append sample_store_def)
  have "\<forall>t \<in> set (tmpNames (disk (sample_store [1, 2]))).
      t \<noteq> native (sample_path ''in'') \<and> t \<noteq> native (sample_path ''log'')"
    by (simp add: sample_store_def)
  from appendAtomically_atomic [OF run this] res run show ?thesis
    by (auto simp: sample_store_def old_content_def)
qed

theorem appendAtomically_calm_witness:
  "fst (appendAtomically None (sample_path ''log'') (native (sample_path ''in'')) (sample_store [])) = None \<and>
   fst (appendAtomically None (sample_path ''log'') (native (sample_path ''in'')) (sample_store [1])) \<noteq> None"
proof -
  have p: "parent_path (sample_path ''log'') \<noteq> empty_path"
    by (simp add: parent_path_def sample_path_def empty_path_def rel_path_def sample_root_def)
  show ?thesis
    using appendAtomically_calm [of "sample_store []" "native (sample_path ''hfa'')" "[]" "native (sample_path ''in'')"
        "sample_path ''log''" None]
      appendAtomically_calm [of "sample_store [1]" "native (sample_path ''hfa'')" "[]" "native (sample_path ''in'')"
        "sample_path ''log''" None] p
    by (simp add: sample_store_def type_of_def)
qed

end
