(* ===== verification/Control_Channel.thy ===== *)
theory Control_Channel
  imports Text_Format
begin

text \<open>
  The control connection: the replies of the server (\<^verbatim>\<open>server/src/control/Session.cpp\<close>) and the
  client's side of them (\<^verbatim>\<open>client/src/control/Session.cpp\<close>). One end of the TCP connection has what it
  handed to the network, the results of its next calls of \<^verbatim>\<open>send\<close>, the pieces the next calls of
  \<^verbatim>\<open>recv\<close> find, and whether the connection is shut down.
\<close>

section \<open>The connection\<close>

datatype send_result = Sent nat | SendInterrupted | SendFailed

record tcp =
  toPeer :: string
  sendResults :: "send_result list"
  fromPeer :: "string list"
  shut :: bool

abbreviation LF :: char where "LF \<equiv> CHR 0x0A"
abbreviation CR :: char where "CR \<equiv> CHR 0x0D"
abbreviation CRLF :: string where "CRLF \<equiv> [CR, LF]"

text \<open>
  \<^verbatim>\<open>sendAll\<close>: \<^verbatim>\<open>send\<close> may take only a part. The server goes on after an interruption; both stop at an
  error and at a result of 0. When the script of results has ended, \<^verbatim>\<open>send\<close> takes everything. The
  result is whether all was sent, what was sent, and the results left over.
\<close>

fun send_loop_sv :: "send_result list \<Rightarrow> string \<Rightarrow> bool \<times> string \<times> send_result list" where
  "send_loop_sv rs [] = (True, [], rs)"
| "send_loop_sv [] (b # bs) = (True, b # bs, [])"
| "send_loop_sv (Sent n # rs) (b # bs) =
     (if n = 0 then (False, [], rs)
      else case send_loop_sv rs (drop n (b # bs)) of
          (ok, sent, rs') \<Rightarrow> (ok, take n (b # bs) @ sent, rs'))"
| "send_loop_sv (SendInterrupted # rs) (b # bs) = send_loop_sv rs (b # bs)"
| "send_loop_sv (SendFailed # rs) (b # bs) = (False, [], rs)"

fun send_loop_cl :: "send_result list \<Rightarrow> string \<Rightarrow> bool \<times> string \<times> send_result list" where
  "send_loop_cl rs [] = (True, [], rs)"
| "send_loop_cl [] (b # bs) = (True, b # bs, [])"
| "send_loop_cl (Sent n # rs) (b # bs) =
     (if n = 0 then (False, [], rs)
      else case send_loop_cl rs (drop n (b # bs)) of
          (ok, sent, rs') \<Rightarrow> (ok, take n (b # bs) @ sent, rs'))"
| "send_loop_cl (SendInterrupted # rs) (b # bs) = (False, [], rs)"
| "send_loop_cl (SendFailed # rs) (b # bs) = (False, [], rs)"

text \<open>A connection that is shut down takes nothing.\<close>

definition over_tcp ::
  "(send_result list \<Rightarrow> string \<Rightarrow> bool \<times> string \<times> send_result list) \<Rightarrow> string \<Rightarrow> tcp \<Rightarrow> bool \<times> tcp" where
  "over_tcp loop bytes c =
     (if shut c \<and> bytes \<noteq> [] then (False, c)
      else case loop (sendResults c) bytes of
          (ok, sent, rs) \<Rightarrow> (ok, c\<lparr>toPeer := toPeer c @ sent, sendResults := rs\<rparr>))"

definition sv_sendAll :: "string \<Rightarrow> tcp \<Rightarrow> bool \<times> tcp" where
  "sv_sendAll = over_tcp send_loop_sv"

definition cl_sendAll :: "string \<Rightarrow> tcp \<Rightarrow> bool \<times> tcp" where
  "cl_sendAll = over_tcp send_loop_cl"

definition sendCommand :: "string \<Rightarrow> tcp \<Rightarrow> bool \<times> tcp" where
  "sendCommand command c = cl_sendAll (command @ CRLF) c"

text \<open>
  \<^verbatim>\<open>recv\<close> into a buffer of \<open>n\<close> bytes: a longer piece stays in part. \<open>None\<close> is a result of 0 or an error: an
  empty piece, the end of the script, a connection that is shut down.
\<close>

definition tcp_recv :: "nat \<Rightarrow> tcp \<Rightarrow> string option \<times> tcp" where
  "tcp_recv n c =
     (case fromPeer c of
        [] \<Rightarrow> (None, c)
      | piece # rest \<Rightarrow>
          if piece = [] \<or> shut c then (None, c\<lparr>fromPeer := rest\<rparr>)
          else if n < length piece then (Some (take n piece), c\<lparr>fromPeer := drop n piece # rest\<rparr>)
          else (Some piece, c\<lparr>fromPeer := rest\<rparr>))"

section \<open>Replies\<close>

definition stopFailedControlSocket :: "tcp \<Rightarrow> tcp" where
  "stopFailedControlSocket c = c\<lparr>shut := True\<rparr>"

definition replyWithCode :: "nat \<Rightarrow> string \<Rightarrow> tcp \<Rightarrow> tcp" where
  "replyWithCode replyCode message c =
     (case sv_sendAll (to_string replyCode @ '' '' @ message @ CRLF) c of
        (ok, c1) \<Rightarrow> if \<not> ok then stopFailedControlSocket c1 else c1)"

text \<open>\<^verbatim>\<open>std::getline(ss, line, '\n')\<close> until it fails; a newline at the end starts no further line.\<close>

function getlines :: "string \<Rightarrow> string list" where
  "getlines s = (if s = [] then []
     else takeWhile (\<lambda>c. c \<noteq> LF) s # getlines (tl (dropWhile (\<lambda>c. c \<noteq> LF) s)))"
  by pat_completeness auto
termination
proof (relation "measure length")
  fix s :: string
  assume "s \<noteq> []"
  then have "0 < length s" by simp
  moreover have "length (dropWhile (\<lambda>c. c \<noteq> LF) s) \<le> length s" by (rule length_dropWhile_le)
  ultimately have "length (tl (dropWhile (\<lambda>c. c \<noteq> LF) s)) < length s" by (simp only: length_tl)
  then show "(tl (dropWhile (\<lambda>c. c \<noteq> LF) s), s) \<in> measure length" by simp
qed simp

declare getlines.simps [simp del]

definition strip_cr :: "string \<Rightarrow> string" where
  "strip_cr line = (if line \<noteq> [] \<and> last line = CR then butlast line else line)"

definition reply_lines :: "string \<Rightarrow> string list" where
  "reply_lines message = (let lines = map strip_cr (getlines message) in if lines = [] then [[]] else lines)"

text \<open>The loop over all lines but the last; \<open>False\<close> is its early return.\<close>

fun send_lines :: "nat \<Rightarrow> string list \<Rightarrow> tcp \<Rightarrow> bool \<times> tcp" where
  "send_lines code [] c = (True, c)"
| "send_lines code (l # ls) c =
     (case sv_sendAll (to_string code @ ''-'' @ l @ CRLF) c of
        (ok, c1) \<Rightarrow> if \<not> ok then (False, stopFailedControlSocket c1) else send_lines code ls c1)"

definition multilineReplyWithCode :: "nat \<Rightarrow> string \<Rightarrow> tcp \<Rightarrow> tcp" where
  "multilineReplyWithCode replyCode message c =
     (let lines = reply_lines message
      in case send_lines replyCode (butlast lines) c of
          (False, c1) \<Rightarrow> c1
        | (True, c1) \<Rightarrow> replyWithCode replyCode (last lines) c1)"

section \<open>Reading a reply\<close>

record Reply =
  rcode :: nat
  rline :: string
  rlines :: "string list"

definition no_reply :: Reply where "no_reply = \<lparr>rcode = 0, rline = [], rlines = []\<rparr>"

text \<open>\<^verbatim>\<open>find('\n')\<close>, the line before it and what follows.\<close>

definition cut_line :: "string \<Rightarrow> (string \<times> string) option" where
  "cut_line buf = (if LF \<in> set buf
     then Some (takeWhile (\<lambda>c. c \<noteq> LF) buf, tl (dropWhile (\<lambda>c. c \<noteq> LF) buf)) else None)"

text \<open>One line: a syntax error (\<open>None\<close>), or whether it ends the reply, whether the reply has several lines, and the reply so far.\<close>

definition take_line :: "string \<Rightarrow> bool \<Rightarrow> Reply \<Rightarrow> (bool \<times> bool \<times> Reply) option" where
  "take_line raw multiline reply =
     (let line = strip_cr raw; reply1 = reply\<lparr>rline := line\<rparr>
      in if rcode reply1 = 0
         then if length line < 3 \<or> \<not> list_all is_digit (take 3 line) then None
              else let m = (length line > 3 \<and> line ! 3 = CHR ''-'')
                in Some (\<not> m, m \<or> multiline,
                         reply1\<lparr>rcode := digits_value (take 3 line), rlines := rlines reply1 @ [line]\<rparr>)
         else Some (multiline \<and> length line > 3 \<and> take 3 line = to_string (rcode reply1) \<and> line ! 3 = CHR '' '',
                    multiline, reply1\<lparr>rlines := rlines reply1 @ [line]\<rparr>))"

lemma cut_line_less: "cut_line buf = Some (l, rest) \<Longrightarrow> length rest < length buf"
proof -
  assume "cut_line buf = Some (l, rest)"
  then have r: "rest = tl (dropWhile (\<lambda>c. c \<noteq> LF) buf)" "LF \<in> set buf" by (auto simp: cut_line_def split: if_splits)
  moreover have "length (dropWhile (\<lambda>c. c \<noteq> LF) buf) \<le> length buf" by (rule length_dropWhile_le)
  moreover have "0 < length buf" using r(2) by (cases buf) simp_all
  ultimately show ?thesis by (simp only: length_tl)
qed

definition tcp_pending :: "tcp \<Rightarrow> nat" where
  "tcp_pending c = length (concat (fromPeer c)) + length (fromPeer c)"

lemma tcp_recv_less: "tcp_recv n c = (Some piece, c') \<Longrightarrow> 0 < n \<Longrightarrow> length piece + tcp_pending c' \<le> tcp_pending c \<and> piece \<noteq> []
    \<and> piece @ concat (fromPeer c') = concat (fromPeer c)"
  by (auto simp: tcp_recv_def tcp_pending_def split: list.splits if_splits)

function read_reply :: "string \<Rightarrow> bool \<Rightarrow> Reply \<Rightarrow> tcp \<Rightarrow> bool \<times> Reply \<times> string \<times> tcp" where
  "read_reply buf multiline reply c =
     (case cut_line buf of
        Some (raw, rest) \<Rightarrow>
          (case take_line raw multiline reply of
             None \<Rightarrow> (False, reply\<lparr>rline := strip_cr raw\<rparr>, rest, c)
           | Some (complete, m, reply1) \<Rightarrow>
               if complete then (True, reply1, rest, c) else read_reply rest m reply1 c)
      | None \<Rightarrow>
          (case tcp_recv 512 c of
             (None, c1) \<Rightarrow> (False, reply, buf, c1)
           | (Some piece, c1) \<Rightarrow> read_reply (buf @ piece) multiline reply c1))"
  by pat_completeness auto
termination
proof (relation "measures [\<lambda>(buf, m, r, c). length buf + tcp_pending c, \<lambda>(buf, m, r, c). tcp_pending c]", goal_cases)
  case (2 buf multiline reply c q c1 piece)
  have "length piece + tcp_pending c1 \<le> tcp_pending c" "piece \<noteq> []" using tcp_recv_less [of 512 c piece c1] 2 by auto
  then show ?case by (cases piece) auto
next
  case 3
  then show ?case using cut_line_less by fastforce
qed simp

declare read_reply.simps [simp del]

text \<open>\<^verbatim>\<open>readReply\<close>, with the buffer of the client's state.\<close>

definition readReply :: "string \<Rightarrow> tcp \<Rightarrow> bool \<times> Reply \<times> string \<times> tcp" where
  "readReply replyBuffer c = read_reply replyBuffer False no_reply c"

section \<open>Lemmas\<close>

lemma send_loop_sv_all: "send_loop_sv rs bs = (True, sent, rs') \<Longrightarrow> sent = bs"
  by (induction rs bs arbitrary: sent rule: send_loop_sv.induct)
    (auto split: if_splits prod.splits)

lemma sv_sendAll_sent: "sv_sendAll bs c = (True, c') \<Longrightarrow> toPeer c' = toPeer c @ bs"
  using send_loop_sv_all by (auto simp: sv_sendAll_def over_tcp_def split: if_splits prod.splits)

lemma sv_sendAll_frame: "sv_sendAll bs c = (ok, c') \<Longrightarrow> shut c' = shut c \<and> fromPeer c' = fromPeer c"
  by (auto simp: sv_sendAll_def over_tcp_def split: if_splits prod.splits)

text \<open>The text of a reply of several lines.\<close>

fun reply_text :: "nat \<Rightarrow> string list \<Rightarrow> string" where
  "reply_text code [] = []"
| "reply_text code [l] = to_string code @ '' '' @ l @ CRLF"
| "reply_text code (l # ls) = to_string code @ ''-'' @ l @ CRLF @ reply_text code ls"

lemma replyWithCode_sent:
  "\<not> shut (replyWithCode code msg c) \<Longrightarrow> toPeer (replyWithCode code msg c) = toPeer c @ reply_text code [msg]"
proof -
  assume "\<not> shut (replyWithCode code msg c)"
  moreover obtain ok c1 where s: "sv_sendAll (to_string code @ '' '' @ msg @ CRLF) c = (ok, c1)" by fastforce
  ultimately have ok and "replyWithCode code msg c = c1"
    by (cases ok; simp add: replyWithCode_def stopFailedControlSocket_def)+
  with s sv_sendAll_sent show ?thesis by simp
qed

lemma send_lines_sent:
  "send_lines code ls c = (True, c') \<Longrightarrow> toPeer c' @ reply_text code [l] = toPeer c @ reply_text code (ls @ [l])"
proof (induction ls arbitrary: c)
  case (Cons k ks)
  obtain c1 where c1: "sv_sendAll (to_string code @ ''-'' @ k @ CRLF) c = (True, c1)" "send_lines code ks c1 = (True, c')"
    using Cons.prems by (auto split: prod.splits if_splits)
  have "reply_text code ((k # ks) @ [l]) = to_string code @ ''-'' @ k @ CRLF @ reply_text code (ks @ [l])"
    by (cases ks) simp_all
  with sv_sendAll_sent [OF c1(1)] Cons.IH [OF c1(2)] show ?case by simp
qed simp

lemma send_lines_shut: "send_lines code ls c = (False, c') \<Longrightarrow> shut c'"
  by (induction ls arbitrary: c) (auto simp: stopFailedControlSocket_def split: prod.splits if_splits)

lemma reply_lines_nonempty [simp]: "reply_lines msg \<noteq> []"
  by (simp add: reply_lines_def Let_def)

lemma multilineReplyWithCode_sent:
  assumes "\<not> shut (multilineReplyWithCode code msg c)"
  shows "toPeer (multilineReplyWithCode code msg c) = toPeer c @ reply_text code (reply_lines msg)"
proof -
  obtain ok c1 where s: "send_lines code (butlast (reply_lines msg)) c = (ok, c1)" by fastforce
  have ok: "ok" using assms s send_lines_shut by (cases ok) (auto simp: multilineReplyWithCode_def Let_def)
  then have m: "multilineReplyWithCode code msg c = replyWithCode code (last (reply_lines msg)) c1"
    using s by (simp add: multilineReplyWithCode_def Let_def)
  have "toPeer c1 @ reply_text code [last (reply_lines msg)] = toPeer c @ reply_text code (reply_lines msg)"
    using send_lines_sent [of code "butlast (reply_lines msg)" c c1 "last (reply_lines msg)"] s ok by simp
  with m assms replyWithCode_sent [of code "last (reply_lines msg)" c1] show ?thesis by simp
qed

text \<open>No line of a reply has a line feed.\<close>

lemma getlines_no_LF: "l \<in> set (getlines s) \<Longrightarrow> LF \<notin> set l"
proof (induction s rule: getlines.induct)
  case (1 s)
  show ?case
  proof (cases "s = []")
    case True
    with "1.prems" show ?thesis by (simp add: getlines.simps)
  next
    case False
    have "LF \<notin> set (takeWhile (\<lambda>c. c \<noteq> LF) s)" using set_takeWhileD by fastforce
    with 1 False show ?thesis by (auto simp: getlines.simps [of s])
  qed
qed

lemma strip_cr_subset: "set (strip_cr l) \<subseteq> set l"
  by (auto simp: strip_cr_def dest: in_set_butlastD)

lemma reply_lines_no_LF: "l \<in> set (reply_lines msg) \<Longrightarrow> LF \<notin> set l"
  using getlines_no_LF strip_cr_subset by (auto simp: reply_lines_def Let_def split: if_splits)

subsection \<open>Reading what was sent\<close>

text \<open>What an end of the connection has still to read: its buffer and the pieces under way, in any cut.\<close>

definition incoming :: "string \<Rightarrow> tcp \<Rightarrow> string \<Rightarrow> bool" where
  "incoming buf c s \<longleftrightarrow> buf @ concat (fromPeer c) = s \<and> [] \<notin> set (fromPeer c) \<and> \<not> shut c"

lemma cut_line_Some: "LF \<notin> set raw \<Longrightarrow> cut_line (raw @ LF # rest) = Some (raw, rest)"
  by (simp add: cut_line_def takeWhile_append dropWhile_append)

lemma incoming_recv:
  assumes "incoming buf c s" "fromPeer c \<noteq> []" "0 < n"
  obtains piece c1 where "tcp_recv n c = (Some piece, c1)" "incoming (buf @ piece) c1 s" "tcp_pending c1 < tcp_pending c"
proof -
  obtain p ps where f: "fromPeer c = p # ps" "p \<noteq> []" using assms by (cases "fromPeer c") (auto simp: incoming_def)
  have "\<exists>piece c1. tcp_recv n c = (Some piece, c1) \<and> piece @ concat (fromPeer c1) = concat (fromPeer c) \<and>
      piece \<noteq> [] \<and> [] \<notin> set (fromPeer c1) \<and> \<not> shut c1"
    using f assms by (auto simp: tcp_recv_def incoming_def)
  then obtain piece c1 where r: "tcp_recv n c = (Some piece, c1)" "piece @ concat (fromPeer c1) = concat (fromPeer c)"
    "piece \<noteq> []" "[] \<notin> set (fromPeer c1)" "\<not> shut c1" by blast
  have "length piece + tcp_pending c1 \<le> tcp_pending c" "0 < length piece" using tcp_recv_less [OF r(1)] assms(3) by auto
  then have "tcp_pending c1 < tcp_pending c" by linarith
  with r assms(1) that show ?thesis by (simp add: incoming_def)
qed

text \<open>The next line is taken whole, however it was cut.\<close>

lemma read_reply_line:
  assumes "incoming buf c (raw @ LF # rest)" "LF \<notin> set raw"
  shows "\<exists>buf' c'. incoming buf' c' rest \<and>
    read_reply buf m r c =
      (case take_line raw m r of
         None \<Rightarrow> (False, r\<lparr>rline := strip_cr raw\<rparr>, buf', c')
       | Some (complete, m', r') \<Rightarrow> if complete then (True, r', buf', c') else read_reply buf' m' r' c')"
  using assms(1)
proof (induction "tcp_pending c" arbitrary: buf c rule: less_induct)
  case less
  show ?case
  proof (cases "LF \<in> set buf")
    case True
    then obtain raw' buf' where b: "buf = raw' @ LF # buf'" "LF \<notin> set raw'" by (meson split_list_first)
    with less.prems have e: "raw' @ LF # (buf' @ concat (fromPeer c)) = raw @ LF # rest" by (simp add: incoming_def)
    then have "cut_line (raw' @ LF # (buf' @ concat (fromPeer c))) = cut_line (raw @ LF # rest)" by simp
    then have "raw' = raw" "buf' @ concat (fromPeer c) = rest"
      using b(2) assms(2) by (simp_all add: cut_line_Some)
    then have "incoming buf' c rest" "cut_line buf = Some (raw, buf')"
      using less.prems b by (simp_all add: incoming_def cut_line_Some)
    then show ?thesis by (intro exI [of _ buf'] exI [of _ c]) (simp add: read_reply.simps [of buf])
  next
    case False
    then have "fromPeer c \<noteq> []" using less.prems by (auto simp: incoming_def)
    then obtain piece c1 where p: "tcp_recv 512 c = (Some piece, c1)" "incoming (buf @ piece) c1 (raw @ LF # rest)"
      "tcp_pending c1 < tcp_pending c" by (rule incoming_recv [OF less.prems, where n = 512]) simp_all
    have "read_reply buf m r c = read_reply (buf @ piece) m r c1"
      using False p(1) by (simp add: read_reply.simps [of buf] cut_line_def)
    with less.hyps [OF p(3,2)] show ?thesis by simp
  qed
qed

text \<open>Reply codes have three digits.\<close>

definition reply_code :: "nat \<Rightarrow> bool" where
  "reply_code n \<longleftrightarrow> 100 \<le> n \<and> n < 1000"

lemma to_string_three:
  assumes "reply_code n"
  shows "length (to_string n) = 3"
proof -
  define a where "a = n div 10"
  define b where "b = a div 10"
  have "10 \<le> a" "a < 100" using assms less_mult_imp_div_less [of n 100 10] div_le_mono [of 100 n 10]
    by (simp_all add: reply_code_def a_def)
  moreover from this have "b < 10" using less_mult_imp_div_less [of a 10 10] by (simp add: b_def)
  moreover have "\<not> n < 10" using assms by (simp add: reply_code_def)
  moreover have "to_string n = to_string a @ [char_of (48 + n mod 10)]" if "\<not> n < 10"
    using that by (simp add: to_string.simps [of n] a_def)
  moreover have "to_string a = to_string b @ [char_of (48 + a mod 10)]" if "\<not> a < 10"
    using that by (simp add: to_string.simps [of a] b_def)
  moreover have "length (to_string b) = 1" if "b < 10" using that by (simp add: to_string.simps [of b])
  ultimately show ?thesis by simp
qed

lemma strip_cr_CR [simp]: "strip_cr (l @ [CR]) = l"
  by (simp add: strip_cr_def)

text \<open>The lines the client is to see.\<close>

definition shown :: "nat \<Rightarrow> string list \<Rightarrow> string list" where
  "shown code ls = map (\<lambda>l. to_string code @ ''-'' @ l) (butlast ls) @ [to_string code @ '' '' @ last ls]"

lemma shown_Cons: "ls \<noteq> [] \<Longrightarrow> shown code (l # ls) = (to_string code @ ''-'' @ l) # shown code ls"
  by (simp add: shown_def)

lemma reply_text_Cons: "ls \<noteq> [] \<Longrightarrow> reply_text code (l # ls) = (to_string code @ ''-'' @ l @ [CR]) @ LF # reply_text code ls"
  by (cases ls) simp_all

lemma no_LF_to_string: "LF \<notin> set (to_string n)"
  using to_string_digits [of n] by (auto simp: list_all_iff is_digit_def)

lemma code_head:
  assumes "reply_code code"
  shows "length (to_string code) = 3" "take 3 (to_string code @ s) = to_string code"
    "(to_string code @ x # s) ! 3 = x" "3 < length (to_string code @ x # s)"
  using to_string_three [OF assms] by (simp_all add: nth_append)

lemma take_line_code:
  assumes "reply_code code" "rcode r = 0 \<or> rcode r = code \<and> m"
  shows "take_line (to_string code @ x # l @ [CR]) m r =
     Some (if rcode r = 0 then x \<noteq> CHR ''-'' else x = CHR '' '', x = CHR ''-'' \<or> m,
       r\<lparr>rline := to_string code @ x # l, rcode := code, rlines := rlines r @ [to_string code @ x # l]\<rparr>)"
proof -
  have "strip_cr (to_string code @ x # l @ [CR]) = to_string code @ x # l"
    using strip_cr_CR [of "to_string code @ x # l"] by simp
  with assms(2) show ?thesis
    using code_head [OF assms(1)] to_string_digits [of code] assms(1)
    by (auto simp: take_line_def Let_def reply_code_def)
qed

lemma read_reply_text:
  assumes "reply_code code" "ls \<noteq> []" "\<forall>l \<in> set ls. LF \<notin> set l" "rcode r = 0 \<or> rcode r = code \<and> m"
    "incoming buf c (reply_text code ls @ rest)"
  shows "\<exists>buf' c'. incoming buf' c' rest \<and>
    read_reply buf m r c =
      (True, r\<lparr>rcode := code, rline := last (shown code ls), rlines := rlines r @ shown code ls\<rparr>, buf', c')"
  using assms(2-)
proof (induction ls arbitrary: m r buf c)
  case (Cons l ls)
  show ?case
  proof (cases "ls = []")
    case True
    let ?raw = "to_string code @ CHR '' '' # l @ [CR]"
    have "incoming buf c (?raw @ LF # rest)" "LF \<notin> set ?raw"
      using Cons.prems True no_LF_to_string [of code] by simp_all
    then obtain buf' c' where "incoming buf' c' rest" and
      "read_reply buf m r c = (case take_line ?raw m r of
         None \<Rightarrow> (False, r\<lparr>rline := strip_cr ?raw\<rparr>, buf', c')
       | Some (complete, m', r') \<Rightarrow> if complete then (True, r', buf', c') else read_reply buf' m' r' c')"
      using read_reply_line by blast
    moreover have "take_line ?raw m r = Some (True, m,
       r\<lparr>rline := to_string code @ '' '' @ l, rcode := code, rlines := rlines r @ [to_string code @ '' '' @ l]\<rparr>)"
      using take_line_code [OF assms(1) Cons.prems(3), of "CHR '' ''" l] by simp
    ultimately show ?thesis using True by (intro exI [of _ buf'] exI [of _ c']) (simp add: shown_def)
  next
    case False
    let ?raw = "to_string code @ CHR ''-'' # l @ [CR]"
    let ?r1 = "r\<lparr>rline := to_string code @ CHR ''-'' # l, rcode := code, rlines := rlines r @ [to_string code @ CHR ''-'' # l]\<rparr>"
    have "incoming buf c (?raw @ LF # (reply_text code ls @ rest))" "LF \<notin> set ?raw"
      using Cons.prems reply_text_Cons [OF False] no_LF_to_string [of code] by simp_all
    then obtain buf1 c1 where i1: "incoming buf1 c1 (reply_text code ls @ rest)" and
      "read_reply buf m r c = (case take_line ?raw m r of
         None \<Rightarrow> (False, r\<lparr>rline := strip_cr ?raw\<rparr>, buf1, c1)
       | Some (complete, m', r') \<Rightarrow> if complete then (True, r', buf1, c1) else read_reply buf1 m' r' c1)"
      using read_reply_line by blast
    moreover have "take_line ?raw m r = Some (False, True, ?r1)"
      using take_line_code [OF assms(1) Cons.prems(3), of "CHR ''-''" l] by simp
    ultimately have "read_reply buf m r c = read_reply buf1 True ?r1 c1" by simp
    moreover obtain buf' c' where "incoming buf' c' rest" "read_reply buf1 True ?r1 c1 =
      (True, ?r1\<lparr>rcode := code, rline := last (shown code ls), rlines := rlines ?r1 @ shown code ls\<rparr>, buf', c')"
      using Cons.IH [of ?r1 True buf1 c1] False Cons.prems(2) i1 by auto
    ultimately show ?thesis using False by (intro exI [of _ buf'] exI [of _ c']) (simp add: shown_def)
  qed
qed simp

text \<open>
  C19: what the server replies is what the client reads. When all of a reply of one or more lines was
  handed to the connection, the client reads exactly that reply, with its code and its lines, whatever
  the pieces in which the bytes arrive, and keeps what follows for the next reply.
\<close>

theorem reply_roundtrip:
  assumes "reply_code code"
    "out = replyWithCode code msg sv \<and> LF \<notin> set msg \<and> ls = [msg] \<or>
     out = multilineReplyWithCode code msg sv \<and> ls = reply_lines msg"
    "\<not> shut out" "incoming buf cl (drop (length (toPeer sv)) (toPeer out) @ rest)"
  shows "\<exists>buf' cl'. readReply buf cl =
      (True, \<lparr>rcode = code, rline = last (shown code ls), rlines = shown code ls\<rparr>, buf', cl') \<and>
    incoming buf' cl' rest"
proof -
  have "toPeer out = toPeer sv @ reply_text code ls" "ls \<noteq> []" "\<forall>l \<in> set ls. LF \<notin> set l"
    using assms(2,3) replyWithCode_sent [of code msg sv] multilineReplyWithCode_sent [of code msg sv] reply_lines_no_LF
    by (auto simp del: reply_text.simps dest: sym)
  with assms(4) read_reply_text [OF assms(1), of ls no_reply False buf cl rest] show ?thesis
    by (auto simp: readReply_def no_reply_def)
qed

definition sample_tcp :: "string list \<Rightarrow> tcp" where
  "sample_tcp pieces = \<lparr>toPeer = [], sendResults = [SendInterrupted, Sent 3], fromPeer = pieces, shut = False\<rparr>"

theorem reply_roundtrip_witness:
  "\<exists>buf' cl'. readReply ''25'' (sample_tcp [''0-a'' @ [CR], [LF] @ ''250 b'', CRLF @ ''22'']) =
      (True, \<lparr>rcode = 250, rline = ''250 b'', rlines = [''250-a'', ''250 b'']\<rparr>, buf', cl') \<and>
    incoming buf' cl' ''22''"
proof -
  have l: "reply_lines [CHR ''a'', LF, CHR ''b''] = [''a'', ''b'']"
    by (simp add: reply_lines_def getlines.simps strip_cr_def)
  have t: "to_string 250 = ''250''"
    by (simp add: to_string.simps char_of_def bit_iff_odd)
  have s: "\<not> shut (multilineReplyWithCode 250 [CHR ''a'', LF, CHR ''b''] (sample_tcp []))"
    by (simp add: multilineReplyWithCode_def Let_def l replyWithCode_def sv_sendAll_def over_tcp_def sample_tcp_def t)
  have "incoming ''25'' (sample_tcp [''0-a'' @ [CR], [LF] @ ''250 b'', CRLF @ ''22''])
    (drop (length (toPeer (sample_tcp []))) (toPeer (multilineReplyWithCode 250 [CHR ''a'', LF, CHR ''b''] (sample_tcp []))) @ ''22'')"
    by (simp add: multilineReplyWithCode_def Let_def l replyWithCode_def sv_sendAll_def over_tcp_def sample_tcp_def t incoming_def)
  from reply_roundtrip [OF _ _ s this, of 250 "[CHR ''a'', LF, CHR ''b'']" "[''a'', ''b'']"] show ?thesis
    by (simp add: reply_code_def l shown_def t)
qed

end
