(* ===== verification/Transfer_Report.thy ===== *)
theory Transfer_Report
  imports Transfer_Files Control_Channel
begin

text \<open>
  The unique names of STOU uploads and the text that reports a transfer, from \<^verbatim>\<open>CommandDispatcher.cpp\<close>,
  with the client's reading of the digest in it (\<^verbatim>\<open>extractHashField\<close> of its \<^verbatim>\<open>Session.cpp\<close>).
\<close>

section \<open>Unique names\<close>

text \<open>\<^verbatim>\<open>std::setw(4) << std::setfill('0')\<close>\<close>

definition pad4 :: "string \<Rightarrow> string" where
  "pad4 s = replicate (4 - length s) (CHR ''0'') @ s"

definition upload_name :: "64 word \<Rightarrow> string" where
  "upload_name num = ''upload_'' @ pad4 (to_string (unat num)) @ ''.bin''"

datatype create_result = Created | AlreadyExists | CreateError

text \<open>\<^verbatim>\<open>CreateFileW\<close> with \<^verbatim>\<open>CREATE_NEW\<close>.\<close>

definition create_new :: "fspath \<Rightarrow> store \<Rightarrow> create_result \<times> store" where
  "create_new p st =
     (case st_try st of
        (False, st1) \<Rightarrow> (CreateError, st1)
      | (True, st1) \<Rightarrow>
          if present st1 (native p) then (AlreadyExists, st1)
          else (Created, st1\<lparr>disk := (disk st1)\<lparr>files := (files (disk st1))(native p \<mapsto> [])\<rparr>\<rparr>))"

text \<open>The loop over the attempts; the counter of the program is passed in and out.\<close>

fun reserve_loop ::
  "nat \<Rightarrow> places \<Rightarrow> fspath \<Rightarrow> 64 word \<Rightarrow> store \<Rightarrow> (fspath \<times> string) option \<times> 64 word \<times> store" where
  "reserve_loop 0 E currentDir num st = (None, num, st)"
| "reserve_loop (Suc n) E currentDir num st =
     (case resolve_in E currentDir (upload_name num) of
        None \<Rightarrow> (None, num + 1, st)
      | Some candidate \<Rightarrow>
          (case create_new candidate st of
             (Created, st1) \<Rightarrow> (Some (candidate, upload_name num), num + 1, st1)
           | (AlreadyExists, st1) \<Rightarrow> reserve_loop n E currentDir (num + 1) st1
           | (CreateError, st1) \<Rightarrow> (None, num + 1, st1)))"

definition reserveUniqueUpload ::
  "places \<Rightarrow> fspath \<Rightarrow> 64 word \<Rightarrow> store \<Rightarrow> (fspath \<times> string) option \<times> 64 word \<times> store" where
  "reserveUniqueUpload E currentDir nextId st = reserve_loop 10000 E currentDir nextId st"

section \<open>The report\<close>

definition transferCompleteMessage :: "string \<Rightarrow> string \<Rightarrow> string \<Rightarrow> string" where
  "transferCompleteMessage hash uniqueFilename finalHash =
     ''Transfer complete.''
     @ (if uniqueFilename \<noteq> [] then '' Filename='' @ uniqueFilename else [])
     @ (if hash \<noteq> [] then '' SHA256='' @ hash else [])
     @ (if finalHash \<noteq> [] then '' FINAL_SHA256='' @ finalHash else [])"

definition has_prefix :: "string \<Rightarrow> string \<Rightarrow> bool" where
  "has_prefix pre t \<longleftrightarrow> take (length pre) t = pre"

definition extractHashField :: "string \<Rightarrow> string \<Rightarrow> string option" where
  "extractHashField replyLine field =
     (case filter (has_prefix (field @ ''='')) (split_words replyLine) of
        [] \<Rightarrow> None
      | token # _ \<Rightarrow>
          (let hash = drop (length (field @ ''='')) token
           in if length hash = 64 \<and> list_all is_xdigit hash then Some hash else None))"

section \<open>Properties\<close>

lemma digits_value_zeros: "digits_value (replicate k (CHR ''0'') @ s) = digits_value s"
  by (induction k) (simp_all add: digits_value_def digit_value_def)

lemma upload_name_inject: "upload_name a = upload_name b \<longleftrightarrow> a = b"
proof
  assume "upload_name a = upload_name b"
  then have "pad4 (to_string (unat a)) = pad4 (to_string (unat b))" by (simp add: upload_name_def)
  from arg_cong [OF this, of digits_value] have "unat a = unat b" by (simp add: pad4_def digits_value_zeros)
  then show "a = b" by (simp add: word_unat_eq_iff)
qed simp

lemma create_new_files:
  assumes "create_new p st = (r, st')"
  shows "same_tree st st'"
    "r = Created \<Longrightarrow> \<not> present st (native p) \<and> files (disk st') = (files (disk st))(native p \<mapsto> [])"
    "r \<noteq> Created \<Longrightarrow> files (disk st') = files (disk st)"
proof -
  obtain b st1 where t: "st_try st = (b, st1)" by fastforce
  note same = st_try_same [OF t]
  have pr: "present st1 (native p) = present st (native p)" using same by (simp add: present_def type_of_def)
  have run: "(r, st') = (if \<not> b then (CreateError, st1) else if present st (native p) then (AlreadyExists, st1)
      else (Created, st1\<lparr>disk := (disk st1)\<lparr>files := (files (disk st1))(native p \<mapsto> [])\<rparr>\<rparr>))"
    using assms t pr by (cases b) (simp_all add: create_new_def)
  show "same_tree st st'" using run same by (auto simp: same_tree_def split: if_splits)
  show "r = Created \<Longrightarrow> \<not> present st (native p) \<and> files (disk st') = (files (disk st))(native p \<mapsto> [])"
    using run same by (auto split: if_splits)
  show "r \<noteq> Created \<Longrightarrow> files (disk st') = files (disk st)" using run same by (auto split: if_splits)
qed

lemma reserve_loop_outcome:
  assumes "reserve_loop n E cur num st = (res, num', st')"
  shows "same_tree st st' \<and>
    (case res of
       None \<Rightarrow> files (disk st') = files (disk st)
     | Some (p, name) \<Rightarrow> \<not> present st (native p) \<and> files (disk st') = (files (disk st))(native p \<mapsto> []) \<and>
         resolve_in E cur name = Some p \<and> (\<exists>k < n. name = upload_name (num + of_nat k) \<and> num' = num + of_nat k + 1))"
  using assms
proof (induction n arbitrary: num st)
  case (Suc n)
  show ?case
  proof (cases "resolve_in E cur (upload_name num)")
    case None
    with Suc.prems show ?thesis by (auto simp: same_tree_def)
  next
    case (Some p)
    obtain r st1 where c: "create_new p st = (r, st1)" by fastforce
    note cf = create_new_files [OF c]
    show ?thesis
    proof (cases r)
      case Created
      with Some Suc.prems c cf show ?thesis by (auto intro!: exI [of _ 0])
    next
      case CreateError
      with Some Suc.prems c cf show ?thesis by auto
    next
      case AlreadyExists
      then have run: "reserve_loop n E cur (num + 1) st1 = (res, num', st')" using Some Suc.prems c by simp
      have same: "files (disk st1) = files (disk st)" "same_tree st st1" using cf AlreadyExists by simp_all
      then have pr: "present st1 q = present st q" for q by (simp add: present_def type_of_def same_tree_def)
      show ?thesis
      proof (cases res)
        case None
        with Suc.IH [OF run] same show ?thesis by (simp add: same_tree_def)
      next
        case (Some pn)
        obtain q name where pn: "pn = (q, name)" by fastforce
        with Suc.IH [OF run] Some same pr obtain k where k: "k < n" "name = upload_name (num + 1 + of_nat k)" "num' = num + 1 + of_nat k + 1"
          and rest: "same_tree st st'" "\<not> present st (native q)" "files (disk st') = (files (disk st))(native q \<mapsto> [])"
            "resolve_in E cur name = Some q"
          by (auto simp: same_tree_def)
        have "Suc k < Suc n" "name = upload_name (num + of_nat (Suc k))" "num' = num + of_nat (Suc k) + 1"
          using k by (simp_all add: algebra_simps)
        with rest Some pn show ?thesis by auto
      qed
    qed
  qed
qed (auto simp: same_tree_def)

text \<open>
  C38: STOU never overwrites. A reserved name is that of a path at which there was nothing, which
  resolves to inside the root, and at which there is an empty file now; nothing else changed. The counter
  has moved past the number in the name, and no other number has that name.
\<close>

theorem reserveUniqueUpload_fresh:
  assumes "reserveUniqueUpload E cur nextId st = (Some (p, name), nextId', st')"
  shows "\<not> present st (native p) \<and> inside (serverRoot E) p \<and>
    files (disk st') = (files (disk st))(native p \<mapsto> []) \<and> same_tree st st' \<and>
    (\<exists>k < 10000. nextId' = nextId + of_nat k + 1 \<and> (\<forall>num. upload_name num = name \<longleftrightarrow> num = nextId + of_nat k))"
  using reserve_loop_outcome [OF assms [unfolded reserveUniqueUpload_def]]
  by (auto simp: upload_name_inject intro: resolve_inside)

lemma reserve_loop_succeeds:
  assumes "fsOk (disk st) = []" "\<forall>num. resolve_in E cur (upload_name num) \<noteq> None"
    "k < n" "\<forall>p. resolve_in E cur (upload_name (num + of_nat k)) = Some p \<longrightarrow> \<not> present st (native p)"
  shows "\<exists>r num' st'. reserve_loop n E cur num st = (Some r, num', st')"
  using assms
proof (induction n arbitrary: num k)
  case (Suc n)
  obtain p where p: "resolve_in E cur (upload_name num) = Some p" using Suc.prems(2) by blast
  have t: "st_try st = (True, st)" using Suc.prems(1) by (simp add: st_try_def fs_try_calm)
  show ?case
  proof (cases "present st (native p)")
    case True
    then have "k \<noteq> 0" using Suc.prems(4) p by (auto intro: ccontr)
    then obtain j where j: "k = Suc j" by (cases k) auto
    have "\<forall>p. resolve_in E cur (upload_name (num + 1 + of_nat j)) = Some p \<longrightarrow> \<not> present st (native p)"
      using Suc.prems(4) j by (simp add: algebra_simps)
    from Suc.IH [OF Suc.prems(1,2) _ this] Suc.prems(3) j True p t show ?thesis by (simp add: create_new_def)
  next
    case False
    with p t show ?thesis by (simp add: create_new_def)
  qed
qed simp

lemma upload_name_plain: "plain_name (upload_name num)" "upload_name num \<noteq> ''.''" "upload_name num \<noteq> ''..''"
proof -
  have "list_all is_digit (pad4 (to_string (unat num)))"
    using to_string_digits [of "unat num"] by (auto simp: pad4_def list_all_iff is_digit_def)
  then have "list_all (\<lambda>x. \<not> is_sep x \<and> x \<noteq> CHR '':'') (pad4 (to_string (unat num)))"
    by (auto simp: list_all_iff is_digit_def is_sep_def)
  then show "plain_name (upload_name num)" "upload_name num \<noteq> ''.''" "upload_name num \<noteq> ''..''"
    by (simp_all add: plain_name_def upload_name_def is_sep_def)
qed

text \<open>
  STOU finds a name. On a disk without links on which nothing fails, from a directory inside the
  root, a name is reserved whenever one of the next 10000 names is free there.
\<close>

theorem reserveUniqueUpload_succeeds:
  assumes "canonical E = Some \<circ> lexically_normal" "good_dir cur" "absolute_path (serverRoot E)"
    "rootName cur = rootName (serverRoot E)" "pathComps cur = pathComps (serverRoot E) @ down"
    "fsOk (disk st) = []" "k < 10000"
    "\<not> present st (native (cur\<lparr>pathComps := pathComps cur @ [upload_name (nextId + of_nat k)]\<rparr>))"
  shows "\<exists>p name nextId' st'. reserveUniqueUpload E cur nextId st = (Some (p, name), nextId', st')"
proof -
  have "resolve_in E cur (upload_name num) = Some (cur\<lparr>pathComps := pathComps cur @ [upload_name num]\<rparr>)" for num
    using resolve_name [OF assms(2-5) upload_name_plain] assms(1) by simp
  then show ?thesis
    using reserve_loop_succeeds [of st E cur k 10000 nextId] assms(6-8) by (auto simp: reserveUniqueUpload_def)
qed

lemma sample_dir: "good_dir sample_root" "absolute_path sample_root" "pathComps sample_root = pathComps sample_root @ []"
  by (simp_all add: good_dir_def absolute_path_def sample_root_def plain_name_def is_sep_def)

lemma sample_absent: "n \<notin> {''log'', ''in''} \<Longrightarrow> \<not> present (sample_store old) (native (sample_path n))"
  by (simp add: present_def type_of_def sample_store_def)

lemma upload_name_absent: "\<not> present (sample_store old) (native (sample_path (upload_name num)))"
  by (rule sample_absent) (simp add: upload_name_def)

theorem reserveUniqueUpload_succeeds_witness:
  "\<exists>p name nextId' st'. reserveUniqueUpload sample_places sample_root 1 (sample_store [1]) = (Some (p, name), nextId', st')"
  using reserveUniqueUpload_succeeds [of sample_places sample_root "[]" "sample_store [1]" 0 1]
    sample_dir upload_name_absent [of "[1]" 1]
  by (simp add: sample_places_def sample_store_def sample_path_def sample_root_def)

theorem reserveUniqueUpload_fresh_witness:
  "\<exists>st'. reserveUniqueUpload sample_places sample_root 1 (sample_store [1]) =
      (Some (sample_path (upload_name 1), upload_name 1), 2, st') \<and>
    files (disk st') (native (sample_path (upload_name 1))) = Some []"
proof -
  have r: "resolve_in sample_places sample_root (upload_name 1) = Some (sample_path (upload_name 1))"
    using resolve_name [OF sample_dir(1,2) refl sample_dir(3) upload_name_plain [of 1]]
    by (simp add: sample_places_def sample_path_def sample_root_def)
  obtain st' where c: "create_new (sample_path (upload_name 1)) (sample_store [1]) = (Created, st')"
    using upload_name_absent [of "[1]" 1] by (simp add: create_new_def st_try_def fs_try_def sample_store_def)
  have "reserve_loop (Suc 9999) sample_places sample_root 1 (sample_store [1]) =
      (Some (sample_path (upload_name 1), upload_name 1), 1 + 1, st')"
    by (simp only: reserve_loop.simps r c option.case prod.case create_result.case)
  then have run: "reserveUniqueUpload sample_places sample_root 1 (sample_store [1]) =
      (Some (sample_path (upload_name 1), upload_name 1), 2, st')" by (simp add: reserveUniqueUpload_def)
  from reserveUniqueUpload_fresh [OF run] run show ?thesis by auto
qed

section \<open>The digest in the report\<close>

lemma join_words_snoc: "ts \<noteq> [] \<Longrightarrow> join_words (ts @ [t]) = join_words ts @ '' '' @ t"
proof (induction ts rule: induct_list012)
  case (3 a b ts)
  then show ?case by (cases ts) simp_all
qed simp_all

definition report_words :: "string \<Rightarrow> string \<Rightarrow> string \<Rightarrow> string list" where
  "report_words hash unique finalHash =
     [to_string 226, ''Transfer'', ''complete.'']
     @ (if unique \<noteq> [] then [''Filename='' @ unique] else [])
     @ (if hash \<noteq> [] then [''SHA256='' @ hash] else [])
     @ (if finalHash \<noteq> [] then [''FINAL_SHA256='' @ finalHash] else [])"

lemma report_join:
  "to_string 226 @ '' '' @ transferCompleteMessage hash unique finalHash = join_words (report_words hash unique finalHash)"
  by (simp add: transferCompleteMessage_def report_words_def)

text \<open>Texts without white space.\<close>

lemma xdigits_no_space: "list_all is_xdigit s \<Longrightarrow> list_all (\<lambda>c. \<not> is_space c) s"
  by (auto simp: list_all_iff is_xdigit_def is_digit_def is_space_def)

text \<open>
  The client finds the digest the server reports. In the line that reports a transfer, the client's
  \<^verbatim>\<open>extractHashField\<close> finds the digest of the content and, if there is one, the digest of the whole file
  after an append, each as the server wrote it, whether or not the line has the name of a unique upload.
\<close>

theorem transfer_report_roundtrip:
  assumes "length hash = 64" "list_all is_xdigit hash"
    "finalHash = [] \<or> length finalHash = 64 \<and> list_all is_xdigit finalHash"
    "list_all (\<lambda>c. \<not> is_space c) unique"
  shows "extractHashField (last (shown 226 [transferCompleteMessage hash unique finalHash])) ''SHA256'' = Some hash \<and>
    extractHashField (last (shown 226 [transferCompleteMessage hash unique finalHash])) ''FINAL_SHA256'' =
      (if finalHash = [] then None else Some finalHash)"
proof -
  have ne: "hash \<noteq> []" using assms(1) by auto
  have word: "is_word (a @ b)" if "is_word a" "list_all (\<lambda>c. \<not> is_space c) b" for a b using that by (simp add: is_word_def)
  have words: "is_word ''Transfer''" "is_word ''complete.''" "is_word ''Filename=''" "is_word ''SHA256=''" "is_word ''FINAL_SHA256=''"
    by (simp_all add: is_word_def is_space_def)
  have "is_word (to_string 226)" using to_string_digits [of 226] is_digit_not_space by (auto simp: is_word_def list_all_iff)
  moreover have "list_all is_xdigit finalHash" using assms(3) by auto
  ultimately have d: "list_all is_word (report_words hash unique finalHash)"
    using words word [OF words(3) assms(4)] word [OF words(4) xdigits_no_space [OF assms(2)]]
      word [OF words(5) xdigits_no_space [of finalHash]] by (simp add: report_words_def)
  then have w: "split_words (last (shown 226 [transferCompleteMessage hash unique finalHash])) = report_words hash unique finalHash"
    using report_join [of hash unique finalHash] split_join [OF d] by (simp add: shown_def)
  have h: "\<not> has_prefix pre (to_string 226)" if "hd pre \<in> {CHR ''S'', CHR ''F''}" "pre \<noteq> []" for pre
  proof
    assume "has_prefix pre (to_string 226)"
    then have "hd pre \<in> set (to_string 226)" using that(2) by (metis has_prefix_def hd_in_set in_set_takeD)
    with to_string_digits [of 226] that(1) show False by (auto simp: list_all_iff is_digit_def)
  qed
  show ?thesis
    using assms ne h [of "''SHA256=''"] h [of "''FINAL_SHA256=''"]
    by (simp add: extractHashField_def w) (auto simp: report_words_def has_prefix_def)
qed

theorem transfer_report_roundtrip_witness:
  "extractHashField (last (shown 226 [transferCompleteMessage (replicate 64 (CHR ''a'')) ''upload_0001.bin'' []])) ''SHA256'' =
     Some (replicate 64 (CHR ''a''))"
  using transfer_report_roundtrip [of "replicate 64 (CHR ''a'')" "[]" "''upload_0001.bin''"]
  by (simp add: is_xdigit_def is_space_def list_all_iff)

end
