(* ===== verification/Client_Session.thy ===== *)
theory Client_Session
  imports Data_Channel_Receive Endpoint_Format Command_Parser Transfer_Report
begin

text \<open>
  \<^verbatim>\<open>client/src/control/Session.cpp\<close>: the client program. Its state, the commands PORT and PASV, uploads and
  downloads with their worker threads, the commands it only forwards, and the loop over the lines the
  user types. The reading of replies is in Control_Channel, \<^verbatim>\<open>extractHashField\<close> in Transfer_Report.
\<close>

section \<open>The state\<close>

datatype DataMode = NoData | PassiveData | ActiveData

text \<open>
  What a worker thread has to do: the values its closure captured. \<open>Ended\<close> is a thread whose function has
  returned and that was not joined yet. The data socket is closed when the transport inside the function
  is destroyed.
\<close>

datatype cl_worker =
    Storing string string DataMode nat sockaddr_in sockaddr_in TransferMode
  | Retrieving string DataMode nat sockaddr_in sockaddr_in TransferMode
  | Ended

record ClientState =
  c_dataMode :: DataMode
  c_pendingDataSocket :: "nat option"
  c_passiveAddress :: sockaddr_in
  c_serverAddress :: sockaddr_in
  c_transferMode :: TransferMode
  c_replyBuffer :: string
  c_transferActive :: bool
  c_abortRequested :: bool
  c_transferWorker :: "cl_worker option"

text \<open>A line on the standard output or the standard error.\<close>

datatype console_line = Cout string | Cerr string

text \<open>
  The client: its state, its end of the control connection, what it has printed, the local files, the
  network of the transfers and the data sockets closed so far.
\<close>

record client =
  cst :: ClientState
  ctl :: tcp
  console :: "console_line list"
  cdisk :: fsys
  cnet :: world
  cclosed :: "nat list"

text \<open>
  What the code asks of the system: addresses, the port a bound socket gets, the number of a new socket,
  the file a path names, whether it is a directory (without an error), the answers of the checks of a
  destination, digests, and whether a thread can be started.
\<close>

record cl_system =
  cl_inet_pton :: "string \<Rightarrow> u32 option"
  cl_wide_int :: "int \<Rightarrow> int"
  cl_localIp :: u32
  cl_boundPort :: u16
  cl_newSocket :: nat
  cl_denotes :: "string \<Rightarrow> path"
  cl_isDirectory :: "string \<Rightarrow> bool"
  cl_probe :: "string \<Rightarrow> dest_probe"
  cl_hash :: "bytes \<Rightarrow> string"
  cl_threadStarts :: bool

section \<open>Small steps\<close>

definition on_cst :: "(ClientState \<Rightarrow> ClientState) \<Rightarrow> client \<Rightarrow> client" where
  "on_cst f C = C\<lparr>cst := f (cst C)\<rparr>"

definition print_line :: "console_line \<Rightarrow> client \<Rightarrow> client" where
  "print_line l C = C\<lparr>console := console C @ [l]\<rparr>"

definition close_socket :: "nat \<Rightarrow> client \<Rightarrow> client" where
  "close_socket k C = C\<lparr>cclosed := cclosed C @ [k]\<rparr>"

definition closeDataState :: "client \<Rightarrow> client" where
  "closeDataState C =
     (let C1 = (case c_pendingDataSocket (cst C) of
                  None \<Rightarrow> C
                | Some k \<Rightarrow> on_cst (c_pendingDataSocket_update (\<lambda>_. None)) (close_socket k C))
      in on_cst (\<lambda>s. s\<lparr>c_passiveAddress := zero_addr, c_dataMode := NoData\<rparr>) C1)"

definition cl_joinCompletedTransfer :: "client \<Rightarrow> client" where
  "cl_joinCompletedTransfer C =
     (if \<not> c_transferActive (cst C) \<and> c_transferWorker (cst C) \<noteq> None
      then on_cst (c_transferWorker_update (\<lambda>_. None)) C else C)"

definition cl_send :: "string \<Rightarrow> client \<Rightarrow> bool \<times> client" where
  "cl_send command C = (case sendCommand command (ctl C) of (ok, c) \<Rightarrow> (ok, C\<lparr>ctl := c\<rparr>))"

text \<open>\<^verbatim>\<open>readReply\<close> on the state of the client; \<open>None\<close> where it returns false.\<close>

definition cl_readReply :: "client \<Rightarrow> Reply option \<times> client" where
  "cl_readReply C =
     (case readReply (c_replyBuffer (cst C)) (ctl C) of
        (ok, r, buf, c) \<Rightarrow> (if ok then Some r else None, on_cst (c_replyBuffer_update (\<lambda>_. buf)) (C\<lparr>ctl := c\<rparr>)))"

definition printStoredReply :: "Reply \<Rightarrow> client \<Rightarrow> client" where
  "printStoredReply r C = C\<lparr>console := console C @ map Cout (rlines r)\<rparr>"

definition printReply :: "client \<Rightarrow> Reply option \<times> client" where
  "printReply C =
     (case cl_readReply C of
        (None, C1) \<Rightarrow> (None, C1)
      | (Some r, C1) \<Rightarrow> (Some r, printStoredReply r C1))"

definition canonicalizeCommandVerb :: "string \<Rightarrow> string" where
  "canonicalizeCommandVerb command =
     (let rest = dropWhile trim_space command; verb = takeWhile (\<lambda>c. \<not> trim_space c) rest
      in if rest = [] then command
         else takeWhile trim_space command @ upper_string verb @ drop (length verb) rest)"

text \<open>
  The abort predicate of the workers reads the flag of the state, which the other thread may set at any
  time while the worker runs: the answers are scripted. An abort a worker has seen was requested, so the
  flag is set from then on.
\<close>

definition cl_aborted :: "client \<Rightarrow> bool \<times> client" where
  "cl_aborted C =
     (case isAbortRequested True (cnet C) of
        (ab, w) \<Rightarrow> (ab,
          on_cst (c_abortRequested_update (\<lambda>flag. flag \<or> ab)) (C\<lparr>cnet := w\<rparr>)))"

section \<open>PORT and PASV\<close>

text \<open>The result of a command is whether the connection still works.\<close>

definition announcePort :: "nat \<Rightarrow> string \<Rightarrow> client \<Rightarrow> bool \<times> client" where
  "announcePort k portArgument C =
     (case cl_send (''PORT '' @ portArgument) C of
        (False, C1) \<Rightarrow> (False, close_socket k C1)
      | (True, C1) \<Rightarrow>
          (case printReply C1 of
             (None, C2) \<Rightarrow> (False, close_socket k C2)
           | (Some r, C2) \<Rightarrow>
               (True, if rcode r = 200
                  then on_cst (\<lambda>s. s\<lparr>c_pendingDataSocket := Some k, c_dataMode := ActiveData\<rparr>) C2
                  else close_socket k C2)))"

definition enterActiveMode :: "cl_system \<Rightarrow> string list \<Rightarrow> client \<Rightarrow> bool \<times> client" where
  "enterActiveMode X tokens C =
     (if length tokens < 1 \<or> length tokens > 2
      then (True, print_line (Cerr ''Usage: PORT [h1,h2,h3,h4,p1,p2]'') C)
      else let C1 = closeDataState C
        in case getLocalIPv4ForServer (cl_inet_pton X) (cl_localIp X) (dotted (sin_addr (c_serverAddress (cst C1)))) (cnet C1) of
            (None, w) \<Rightarrow> (True, print_line (Cerr ''Could not determine the local IPv4 address.'') (C1\<lparr>cnet := w\<rparr>))
          | (Some localIp, w) \<Rightarrow>
              (if length tokens = 2
               then case cl_parsePortCommand (cl_wide_int X) (cl_inet_pton X) (tokens ! 1) of
                   None \<Rightarrow> (True, print_line (Cerr ''Invalid PORT argument. Usage: PORT h1,h2,h3,h4,p1,p2'') (C1\<lparr>cnet := w\<rparr>))
                 | Some requested \<Rightarrow>
                     if sin_addr requested \<noteq> localIp
                     then (True, print_line (Cerr ''PORT address must match the local control connection address.'') (C1\<lparr>cnet := w\<rparr>))
                     else (case openActiveListenPort_at requested w of
                             (False, w2) \<Rightarrow>
                               (True, print_line (Cerr ''Could not bind the requested Active-mode UDP endpoint.'') (C1\<lparr>cnet := w2\<rparr>))
                           | (True, w2) \<Rightarrow> announcePort (cl_newSocket X) (tokens ! 1) (C1\<lparr>cnet := w2\<rparr>))
               else case openActiveListenPort (cl_boundPort X) w of
                   (None, w2) \<Rightarrow> (True, print_line (Cerr ''Could not bind an Active-mode UDP socket.'') (C1\<lparr>cnet := w2\<rparr>))
                 | (Some dataPort, w2) \<Rightarrow>
                     announcePort (cl_newSocket X) (formatPortCommand localIp dataPort) (C1\<lparr>cnet := w2\<rparr>)))"

text \<open>
  Where \<^verbatim>\<open>inet_pton\<close> refuses the address, the code has already stored the port in \<^verbatim>\<open>passiveAddress\<close>; without a
  passive connection that field is not read, and here it stays as it was.
\<close>

definition enterPassiveMode :: "cl_system \<Rightarrow> string list \<Rightarrow> client \<Rightarrow> bool \<times> client" where
  "enterPassiveMode X tokens C =
     (if length tokens \<noteq> 1 then (True, print_line (Cerr ''Usage: PASV'') C)
      else case cl_send ''PASV'' (closeDataState C) of
          (False, C1) \<Rightarrow> (False, C1)
        | (True, C1) \<Rightarrow>
            (case printReply C1 of
               (None, C2) \<Rightarrow> (False, C2)
             | (Some r, C2) \<Rightarrow>
                 (case (if rcode r = 227 then parsePasvReply (cl_wide_int X) (cl_inet_pton X) (rline r) else None) of
                    None \<Rightarrow> (True, C2)
                  | Some address \<Rightarrow>
                      (let C3 = on_cst (c_passiveAddress_update (\<lambda>_. address)) C2
                       in case connectToPassiveDataPort address (cnet C3) of
                           (False, w) \<Rightarrow> (True, print_line (Cerr ''Could not open a Passive-mode UDP socket.'') (C3\<lparr>cnet := w\<rparr>))
                         | (True, w) \<Rightarrow>
                             (True, on_cst (\<lambda>s. s\<lparr>c_pendingDataSocket := Some (cl_newSocket X), c_dataMode := PassiveData\<rparr>)
                               (C3\<lparr>cnet := w\<rparr>))))))"

section \<open>Starting transfers\<close>

text \<open>
  After the preliminary reply: the data connection is handed to a worker that is described by \<open>job\<close>.
\<close>

definition start_worker ::
  "cl_system \<Rightarrow> (DataMode \<Rightarrow> nat \<Rightarrow> sockaddr_in \<Rightarrow> sockaddr_in \<Rightarrow> TransferMode \<Rightarrow> cl_worker) \<Rightarrow> string \<Rightarrow> nat \<Rightarrow> client \<Rightarrow> client" where
  "start_worker X job failure k C =
     (let s = cst C;
          worker = job (c_dataMode s) k (c_passiveAddress s) (c_serverAddress s) (c_transferMode s);
          C1 = on_cst (\<lambda>s. s\<lparr>c_pendingDataSocket := None, c_dataMode := NoData, c_passiveAddress := zero_addr\<rparr>) C;
          C2 = on_cst (\<lambda>s. s\<lparr>c_abortRequested := False, c_transferActive := True\<rparr>) (cl_joinCompletedTransfer C1)
      in if cl_threadStarts X then on_cst (c_transferWorker_update (\<lambda>_. Some worker)) C2
         else print_line (Cerr failure) (on_cst (c_transferActive_update (\<lambda>_. False)) (close_socket k C2)))"

text \<open>The command, the preliminary reply, and the worker if it was 150.\<close>

definition request_transfer ::
  "cl_system \<Rightarrow> string \<Rightarrow> (DataMode \<Rightarrow> nat \<Rightarrow> sockaddr_in \<Rightarrow> sockaddr_in \<Rightarrow> TransferMode \<Rightarrow> cl_worker) \<Rightarrow> string \<Rightarrow> nat \<Rightarrow>
   client \<Rightarrow> bool \<times> client" where
  "request_transfer X command job failure k C =
     (case cl_send command C of
        (False, C1) \<Rightarrow> (False, C1)
      | (True, C1) \<Rightarrow>
          (case printReply C1 of
             (None, C2) \<Rightarrow> (False, C2)
           | (Some r, C2) \<Rightarrow>
               (True, if rcode r \<noteq> 150 then closeDataState C2 else start_worker X job failure k C2)))"

text \<open>\<^verbatim>\<open>is_regular_file\<close> is called in the form that throws.\<close>

definition storeFile :: "cl_system \<Rightarrow> string list \<Rightarrow> client \<Rightarrow> (bool \<times> client) outcome" where
  "storeFile X tokens C =
     (let verb = upper_string (if tokens = [] then [] else hd tokens);
          unique = (verb = ''STOU'')
      in if unique \<and> length tokens \<noteq> 2 \<or> \<not> unique \<and> (length tokens < 2 \<or> length tokens > 3)
         then Returns (True, print_line (Cerr (if unique then ''Usage: STOU <local-path>''
                else ''Usage: '' @ verb @ '' <local-path> [remote-path]'')) C)
         else let localPath = tokens ! 1
           in case fs_try (cdisk C) of
               (False, F) \<Rightarrow> Terminates
             | (True, F) \<Rightarrow>
                 (let C1 = C\<lparr>cdisk := F\<rparr>
                  in if files F (cl_denotes X localPath) = None
                     then Returns (True, print_line (Cerr (''Local file not found: '' @ localPath)) C1)
                     else case (if c_dataMode (cst C1) = NoData then None else c_pendingDataSocket (cst C1)) of
                         None \<Rightarrow> Returns (True, print_line (Cerr (''Use PORT or PASV before '' @ verb @ ''.'')) C1)
                       | Some k \<Rightarrow>
                           (let remotePath = (if unique then [] else if length tokens = 3 then tokens ! 2
                                              else filename (path_of_string localPath))
                            in if \<not> unique \<and> remotePath = []
                               then Returns (True, print_line (Cerr ''A remote filename is required.'') C1)
                               else Returns (request_transfer X (if unique then ''STOU'' else verb @ '' '' @ remotePath)
                                      (Storing verb localPath) ''Could not start the upload worker.'' k C1))))"

text \<open>
  \<^verbatim>\<open>operator/=\<close> on the text of a path: a name with another drive replaces it; otherwise a separator comes
  between, unless there is one or the path is only a drive.
\<close>

definition append_name :: "string \<Rightarrow> string \<Rightarrow> string" where
  "append_name p name =
     (let m = root_name_length p; n = root_name_length name
      in if n > 0 \<and> take n name \<noteq> take m p then name
         else p @ (if p = [] \<or> is_sep (last p) \<or> m = 2 \<and> length p = 2 then [] else [CHR 0x5C]) @ drop n name)"

definition retrieveFile :: "cl_system \<Rightarrow> string list \<Rightarrow> client \<Rightarrow> bool \<times> client" where
  "retrieveFile X tokens C =
     (if length tokens < 2 \<or> length tokens > 3
      then (True, print_line (Cerr ''Usage: RETR <remote-path> [local-path]'') C)
      else case (if c_dataMode (cst C) = NoData then None else c_pendingDataSocket (cst C)) of
          None \<Rightarrow> (True, print_line (Cerr ''Use PORT or PASV before RETR.'') C)
        | Some k \<Rightarrow>
            (let remotePath = tokens ! 1;
                 name = filename (path_of_string remotePath);
                 localPath = (if length tokens = 3
                              then if cl_isDirectory X (tokens ! 2) then append_name (tokens ! 2) name else tokens ! 2
                              else name)
             in if localPath = [] then (True, print_line (Cerr ''A local filename is required.'') C)
                else case validateDestination (cl_probe X localPath) localPath (cdisk C) of
                    (Some failure, F) \<Rightarrow>
                      (True, print_line (Cerr (''Cannot download to '' @ quoted localPath @ '': '' @ failure)) (C\<lparr>cdisk := F\<rparr>))
                  | (None, F) \<Rightarrow>
                      request_transfer X (''RETR '' @ remotePath) (Retrieving localPath)
                        ''Could not start the download worker.'' k (C\<lparr>cdisk := F\<rparr>)))"

section \<open>The workers\<close>

text \<open>The digest of a local file; the empty text if it cannot be read.\<close>

definition cl_hash_file :: "cl_system \<Rightarrow> string \<Rightarrow> client \<Rightarrow> string" where
  "cl_hash_file X p C = (case files (cdisk C) (cl_denotes X p) of None \<Rightarrow> [] | Some bs \<Rightarrow> cl_hash X bs)"

definition compare_hashes :: "string \<Rightarrow> string \<Rightarrow> client \<Rightarrow> client" where
  "compare_hashes localHash serverHash C =
     print_line (if localHash = serverHash then Cout (''Integrity verified: SHA-256 matches ('' @ serverHash @ '')'')
       else Cerr (''WARNING: hash mismatch! Local='' @ localHash @ '' Server='' @ serverHash)) C"

text \<open>The reports at the end of a worker, with the completion reply or \<open>None\<close> where it was not received.\<close>

definition report_upload :: "string \<Rightarrow> TransferMode \<Rightarrow> SendResult \<Rightarrow> Reply option \<Rightarrow> client \<Rightarrow> client" where
  "report_upload verb mode result completion C =
     (case completion of
        None \<Rightarrow> C
      | Some r \<Rightarrow>
          (let (ab, C1) = cl_aborted C
           in if \<not> ab \<and> (\<not> success result \<or> rcode r \<noteq> 226) then print_line (Cerr ''Upload failed.'') C1
              else let (ab2, C2) = cl_aborted C1
                in if \<not> ab2 \<and> mode = Binary \<and> sha256 result \<noteq> []
                   then let C3 = (case extractHashField (rline r) ''SHA256'' of
                                    None \<Rightarrow> C2
                                  | Some serverHash \<Rightarrow> compare_hashes (sha256 result) serverHash C2)
                     in if verb = ''APPE''
                        then case extractHashField (rline r) ''FINAL_SHA256'' of
                            None \<Rightarrow> C3
                          | Some finalHash \<Rightarrow> print_line (Cout (''Final remote SHA-256: '' @ finalHash)) C3
                        else C3
                   else C2))"

definition download_failure :: "string \<Rightarrow> string \<Rightarrow> nat \<Rightarrow> string" where
  "download_failure localPath reason code =
     ''Download failed for '' @ quoted localPath @ (if reason \<noteq> [] then '': '' @ reason else []) @
     (if code = 226 then (if reason = [] then '': '' else '' '') @
        ''The server sent all data, but the local file was not committed.'' else [])"

definition report_download ::
  "cl_system \<Rightarrow> string \<Rightarrow> TransferMode \<Rightarrow> bool \<Rightarrow> string \<Rightarrow> Reply option \<Rightarrow> client \<Rightarrow> client" where
  "report_download X localPath mode transferOkay reason completion C =
     (case completion of
        None \<Rightarrow>
          (let (ab, C1) = cl_aborted C
           in if \<not> ab then print_line (Cerr (''Download failed for '' @ quoted localPath @
                  '': the final server reply was not received.'')) C1
              else C1)
      | Some r \<Rightarrow>
          (let (ab, C1) = cl_aborted C;
               C3 = (if \<not> ab \<and> (\<not> transferOkay \<or> rcode r \<noteq> 226)
                     then print_line (Cerr (download_failure localPath reason (rcode r)))
                            (if rcode r \<noteq> 226 then printStoredReply r C1 else C1)
                     else let (ab2, C2) = cl_aborted C1 in if \<not> ab2 then printStoredReply r C2 else C2)
           in if \<not> transferOkay then C3
              else let (ab3, C4) = cl_aborted C3
                in if \<not> ab3 \<and> rcode r = 226 \<and> mode = Binary
                   then case extractHashField (rline r) ''SHA256'' of
                       None \<Rightarrow> C4
                     | Some serverHash \<Rightarrow> compare_hashes (cl_hash_file X localPath C4) serverHash C4
                   else C4))"

definition end_worker :: "nat \<Rightarrow> client \<Rightarrow> client" where
  "end_worker k C = close_socket k (on_cst (\<lambda>s. s\<lparr>c_transferActive := False, c_transferWorker := Some Ended\<rparr>) C)"

definition run_store ::
  "cl_system \<Rightarrow> string \<Rightarrow> string \<Rightarrow> DataMode \<Rightarrow> nat \<Rightarrow> sockaddr_in \<Rightarrow> sockaddr_in \<Rightarrow> TransferMode \<Rightarrow> client \<Rightarrow> client option" where
  "run_store X verb localPath mode k passiveAddress serverAddress transferMode C =
     (let (s, w1) = (if mode = PassiveData then cl_RdtSender_existing True passiveAddress 500 (cnet C)
                     else cl_RdtSender_active True 500 (cnet C));
          s1 = cl_sender_setAbortPredicate True s
      in case (if mode = PassiveData then Some (True, s1, w1) else waitForServerReady (sin_addr serverAddress) s1 w1) of
          None \<Rightarrow> None
        | Some (ready, s2, w2) \<Rightarrow>
            (let (ab, C1) = (if ready then cl_aborted (C\<lparr>cnet := w2\<rparr>) else (True, C\<lparr>cnet := w2\<rparr>))
             in case (if ready \<and> \<not> ab
                      then cl_sendFile (cl_hash X) True (cl_denotes X localPath) transferMode s2 (cnet C1) (cdisk C1)
                      else Some (\<lparr>success = False, sha256 = []\<rparr>, s2, cnet C1, cdisk C1)) of
                 None \<Rightarrow> None
               | Some (result, s3, w3, F) \<Rightarrow>
                   (case printReply (C1\<lparr>cnet := w3, cdisk := F\<rparr>) of
                      (completion, C2) \<Rightarrow> Some (end_worker k (report_upload verb transferMode result completion C2)))))"

definition run_retrieve ::
  "cl_system \<Rightarrow> string \<Rightarrow> DataMode \<Rightarrow> nat \<Rightarrow> sockaddr_in \<Rightarrow> sockaddr_in \<Rightarrow> TransferMode \<Rightarrow> client \<Rightarrow> client option" where
  "run_retrieve X localPath mode k passiveAddress serverAddress transferMode C =
     (let (r, w1) = cl_RdtReceiver_existing True (cnet C);
          r1 = cl_expectPeerIp (sin_addr serverAddress) (cl_setAbortPredicate True r)
      in case (if udpSocketOk r1 \<and> mode = PassiveData then signalClientReady passiveAddress r1 w1
               else Some (udpSocketOk r1, r1, w1)) of
          None \<Rightarrow> None
        | Some (ready, r2, w2) \<Rightarrow>
            (let (ab, C1) = (if ready then cl_aborted (C\<lparr>cnet := w2\<rparr>) else (True, C\<lparr>cnet := w2\<rparr>))
             in case (if ready \<and> \<not> ab
                      then cl_receiveFile (cl_probe X localPath) True localPath transferMode r2 (cnet C1) (cdisk C1)
                      else Some (False, [], r2, cnet C1, cdisk C1)) of
                 None \<Rightarrow> None
               | Some (ok, reason, r3, w3, F) \<Rightarrow>
                   (case cl_readReply (C1\<lparr>cnet := w3, cdisk := F\<rparr>) of
                      (completion, C2) \<Rightarrow>
                        Some (end_worker k (report_download X localPath transferMode ok reason completion C2)))))"

definition cl_run_worker :: "cl_system \<Rightarrow> client \<Rightarrow> client option" where
  "cl_run_worker X C =
     (case c_transferWorker (cst C) of
        Some (Storing verb localPath mode k passiveAddress serverAddress transferMode) \<Rightarrow>
          run_store X verb localPath mode k passiveAddress serverAddress transferMode C
      | Some (Retrieving localPath mode k passiveAddress serverAddress transferMode) \<Rightarrow>
          run_retrieve X localPath mode k passiveAddress serverAddress transferMode C
      | _ \<Rightarrow> Some C)"

definition cl_join_worker :: "cl_system \<Rightarrow> client \<Rightarrow> client option" where
  "cl_join_worker X C =
     (if c_transferWorker (cst C) = None then Some C
      else map_option (on_cst (c_transferWorker_update (\<lambda>_. None))) (cl_run_worker X C))"

section \<open>The other commands and the loop\<close>

definition forwardCommand :: "string \<Rightarrow> string list \<Rightarrow> client \<Rightarrow> bool \<times> client" where
  "forwardCommand command tokens C =
     (case cl_send (canonicalizeCommandVerb command) C of
        (False, C1) \<Rightarrow> (False, C1)
      | (True, C1) \<Rightarrow>
          (case printReply C1 of
             (None, C2) \<Rightarrow> (False, C2)
           | (Some r, C2) \<Rightarrow>
               (True,
                if tokens \<noteq> [] \<and> upper_string (hd tokens) = ''TYPE'' \<and> length tokens = 2 \<and> 200 \<le> rcode r \<and> rcode r < 300
                then let type = upper_string (tokens ! 1)
                  in on_cst (c_transferMode_update (\<lambda>m. if type = ''I'' then Binary else if type = ''A'' then ASCII else m)) C2
                else C2)))"

text \<open>A line of the user: whether the loop goes on, and the client.\<close>

definition dispatch :: "cl_system \<Rightarrow> string \<Rightarrow> string list \<Rightarrow> client \<Rightarrow> (bool \<times> client) outcome" where
  "dispatch X input tokens C =
     (let verb = upper_string (hd tokens)
      in if verb = ''PORT'' then Returns (enterActiveMode X tokens C)
         else if verb = ''PASV'' then Returns (enterPassiveMode X tokens C)
         else if verb = ''STOR'' \<or> verb = ''STOU'' \<or> verb = ''APPE'' then storeFile X tokens C
         else if verb = ''RETR'' then Returns (retrieveFile X tokens C)
         else Returns (forwardCommand input tokens C))"

definition client_line :: "cl_system \<Rightarrow> string \<Rightarrow> client \<Rightarrow> (bool \<times> client) outcome option" where
  "client_line X input C =
     (let tokens = split_words input
      in if tokens = [] then Some (Returns (True, C))
         else if c_transferActive (cst C)
         then if upper_string (hd tokens) \<noteq> ''ABOR'' \<or> length tokens \<noteq> 1
           then Some (Returns (True, print_line (Cerr ''Transfer already in progress; use ABOR first.'') C))
           else (case cl_send ''ABOR'' (on_cst (c_abortRequested_update (\<lambda>_. True)) C) of
                   (alive, C1) \<Rightarrow>
                     map_option (\<lambda>C2. Returns (alive, on_cst (c_transferActive_update (\<lambda>_. False)) C2)) (cl_join_worker X C1))
         else Some (case dispatch X input tokens (cl_joinCompletedTransfer C) of
                      Terminates \<Rightarrow> Terminates
                    | Returns (alive, C1) \<Rightarrow> Returns (alive \<and> upper_string (hd tokens) \<noteq> ''QUIT'', C1)))"

text \<open>
  The loop. With every line comes whether a running transfer has ended before it is read. \<open>env n\<close> is the
  system while line \<open>n\<close> is handled.
\<close>

fun client_loop :: "(nat \<Rightarrow> cl_system) \<Rightarrow> nat \<Rightarrow> (bool \<times> string) list \<Rightarrow> client \<Rightarrow> client outcome option" where
  "client_loop env n [] C = Some (Returns C)"
| "client_loop env n ((ended, input) # rest) C =
     (case (if ended \<and> c_transferActive (cst C) then cl_run_worker (env n) C else Some C) of
        None \<Rightarrow> None
      | Some C1 \<Rightarrow>
          (case client_line (env n) input C1 of
             None \<Rightarrow> None
           | Some Terminates \<Rightarrow> Some Terminates
           | Some (Returns (True, C2)) \<Rightarrow> client_loop env (Suc n) rest C2
           | Some (Returns (False, C2)) \<Rightarrow> Some (Returns C2)))"

definition close_session :: "cl_system \<Rightarrow> client \<Rightarrow> client option" where
  "close_session X C =
     (let C1 = (if c_transferActive (cst C)
                then snd (cl_send ''ABOR'' (on_cst (c_abortRequested_update (\<lambda>_. True)) C)) else C)
      in map_option closeDataState (cl_join_worker X C1))"

definition new_client_state :: "sockaddr_in \<Rightarrow> ClientState" where
  "new_client_state server =
     \<lparr>c_dataMode = NoData, c_pendingDataSocket = None, c_passiveAddress = zero_addr, c_serverAddress = server,
      c_transferMode = Binary, c_replyBuffer = [], c_transferActive = False, c_abortRequested = False,
      c_transferWorker = None\<rparr>"

text \<open>\<open>peer\<close> is what \<^verbatim>\<open>getpeername\<close> reports, if it does.\<close>

definition runClientSession ::
  "(nat \<Rightarrow> cl_system) \<Rightarrow> cl_system \<Rightarrow> sockaddr_in option \<Rightarrow> (bool \<times> string) list \<Rightarrow> client \<Rightarrow> client outcome option" where
  "runClientSession env closing peer inputs C =
     (case peer of
        None \<Rightarrow> Some (Returns (print_line (Cerr ''Could not inspect the control server address.'') C))
      | Some server \<Rightarrow>
          (case printReply (C\<lparr>cst := new_client_state server\<rparr>) of
             (None, C1) \<Rightarrow> Some (Returns C1)
           | (Some greeting, C1) \<Rightarrow>
               (case client_loop env 0 inputs C1 of
                  None \<Rightarrow> None
                | Some Terminates \<Rightarrow> Some Terminates
                | Some (Returns C2) \<Rightarrow> map_option Returns (close_session closing C2))))"

text \<open>
  \<^verbatim>\<open>connectToServer\<close>: the connected socket, the sockets left open, and whether the socket library stays
  started. \<open>wsaError\<close> is the text of \<^verbatim>\<open>WSAGetLastError\<close>.
\<close>

definition connectToServer ::
  "(string \<Rightarrow> u32 option) \<Rightarrow> string \<Rightarrow> nat \<Rightarrow> string \<Rightarrow> nat \<Rightarrow> world \<Rightarrow> nat option \<times> nat list \<times> bool \<times> console_line \<times> world" where
  "connectToServer inet_pton wsaError k ipAddress port w =
     (let (started, w1) = syscall w
      in if \<not> started then (None, [], False, Cout ''WSAStartup failed'', w1)
         else let (created, w2) = syscall w1
           in if \<not> created then (None, [], False, Cout (''socket() failed: '' @ wsaError), w2)
              else if inet_pton ipAddress = None
              then (None, [], False, Cerr (''connect() failed: '' @ wsaError), w2)
              else let (alive, w3) = syscall w2
                in if \<not> alive then (None, [], False, Cerr (''connect() failed: '' @ wsaError), w3)
                   else (Some k, [k], True, Cout (''Connected to '' @ ipAddress @ '':'' @ to_string port), w3))"

end
