(* ===== verification/Client_Registry.thy ===== *)
theory Client_Registry
  imports Text_Format "HOL-Library.AList" "HOL-Library.Multiset"
begin

text \<open>
  The table of clients (\<^verbatim>\<open>ClientRegistry.cpp\<close>): its operations, one after the other under their mutex, the
  contract they are used by, and that they refine a finite map.
\<close>

section \<open>The table\<close>

type_synonym SOCKET = nat

record ClientInfo =
  clientAddress :: string
  clientUsername :: string

type_synonym registry = "(SOCKET \<times> ClientInfo) list"

definition addClient :: "SOCKET \<Rightarrow> string \<Rightarrow> registry \<Rightarrow> registry" where
  "addClient s address clients = AList.update s \<lparr>clientAddress = address, clientUsername = []\<rparr> clients"

definition removeClient :: "SOCKET \<Rightarrow> registry \<Rightarrow> registry" where
  "removeClient s clients = AList.delete s clients"

definition setUsername :: "SOCKET \<Rightarrow> string \<Rightarrow> registry \<Rightarrow> registry" where
  "setUsername s name clients =
     (case map_of clients s of
        None \<Rightarrow> clients
      | Some info \<Rightarrow> AList.update s (info\<lparr>clientUsername := name\<rparr>) clients)"

definition findClient :: "SOCKET \<Rightarrow> registry \<Rightarrow> ClientInfo option" where
  "findClient s clients = map_of clients s"

definition client_count :: "registry \<Rightarrow> nat" where
  "client_count clients = length clients"

definition client_snapshot :: "registry \<Rightarrow> ClientInfo list" where
  "client_snapshot clients = map snd clients"

section \<open>The contract\<close>

text \<open>What a session relies on: an operation changes the entry of its key only, and the number of clients is that of the keys.\<close>

locale client_table =
  fixes ok :: "'t \<Rightarrow> bool"
    and find :: "'k \<Rightarrow> 't \<Rightarrow> ClientInfo option"
    and add :: "'k \<Rightarrow> string \<Rightarrow> 't \<Rightarrow> 't"
    and remove :: "'k \<Rightarrow> 't \<Rightarrow> 't"
    and set_user :: "'k \<Rightarrow> string \<Rightarrow> 't \<Rightarrow> 't"
    and number :: "'t \<Rightarrow> nat"
  assumes ok_add: "ok t \<Longrightarrow> ok (add k a t)"
    and ok_remove: "ok t \<Longrightarrow> ok (remove k t)"
    and ok_set_user: "ok t \<Longrightarrow> ok (set_user k n t)"
    and find_add: "find j (add k a t) = (if j = k then Some \<lparr>clientAddress = a, clientUsername = []\<rparr> else find j t)"
    and find_remove: "find j (remove k t) = (if j = k then None else find j t)"
    and find_set_user: "find j (set_user k n t) =
      (if j = k then map_option (clientUsername_update (\<lambda>_. n)) (find k t) else find j t)"
    and finite_keys: "finite {k. find k t \<noteq> None}"
    and number_keys: "ok t \<Longrightarrow> number t = card {k. find k t \<noteq> None}"
begin

lemma number_add:
  assumes "ok t"
  shows "number (add k a t) = (if find k t = None then Suc (number t) else number t)"
proof -
  have "{j. find j (add k a t) \<noteq> None} = insert k {j. find j t \<noteq> None}" by (auto simp: find_add)
  then show ?thesis using number_keys [OF assms] number_keys [OF ok_add [OF assms]] finite_keys [of t]
    by (simp add: card_insert_if)
qed

lemma number_remove:
  assumes "ok t"
  shows "number (remove k t) = (if find k t = None then number t else number t - 1)"
proof -
  have "{j. find j (remove k t) \<noteq> None} = {j. find j t \<noteq> None} - {k}" by (auto simp: find_remove)
  then show ?thesis using number_keys [OF assms] number_keys [OF ok_remove [OF assms]] finite_keys [of t]
    by (simp add: card_Diff_singleton_if)
qed

lemma number_set_user: "ok t \<Longrightarrow> number (set_user k n t) = number t"
proof -
  assume t: "ok t"
  have "{j. find j (set_user k n t) \<noteq> None} = {j. find j t \<noteq> None}" by (auto simp: find_set_user)
  then show ?thesis using number_keys [OF t] number_keys [OF ok_set_user [OF t]] by simp
qed

text \<open>A visit: whatever a session did to its own entry, after it the table is as without it.\<close>

lemma visit:
  assumes "\<And>j. j \<noteq> k \<Longrightarrow> find j t' = find j (add k a t)"
  shows "find j (remove k t') = (if j = k then None else find j t)"
  using assms [of j] by (simp add: find_remove find_add)

end

lemma card_keys: "distinct (map fst t) \<Longrightarrow> length t = card (dom (map_of t))"
  using distinct_card [of "map fst t"] by (simp add: dom_map_of_conv_image_fst)

lemma findClient_setUsername:
  "findClient j (setUsername k n t) = (if j = k then map_option (clientUsername_update (\<lambda>_. n)) (findClient k t) else findClient j t)"
  by (simp add: findClient_def setUsername_def update_conv' split: option.split)

lemma distinct_setUsername: "distinct (map fst t) \<Longrightarrow> distinct (map fst (setUsername k n t))"
  by (simp add: setUsername_def distinct_update split: option.split)

interpretation reg: client_table "\<lambda>t. distinct (map fst t)" findClient addClient removeClient setUsername client_count
proof
  fix t :: registry and j k :: SOCKET and a n :: string
  show "distinct (map fst t) \<Longrightarrow> distinct (map fst (addClient k a t))" by (simp add: addClient_def distinct_update)
  show "distinct (map fst t) \<Longrightarrow> distinct (map fst (removeClient k t))" by (simp add: removeClient_def distinct_delete)
  show "distinct (map fst t) \<Longrightarrow> distinct (map fst (setUsername k n t))" by (rule distinct_setUsername)
  show "findClient j (addClient k a t) = (if j = k then Some \<lparr>clientAddress = a, clientUsername = []\<rparr> else findClient j t)"
    by (simp add: findClient_def addClient_def update_conv')
  show "findClient j (removeClient k t) = (if j = k then None else findClient j t)"
    by (simp add: findClient_def removeClient_def delete_conv')
  show "findClient j (setUsername k n t) =
      (if j = k then map_option (clientUsername_update (\<lambda>_. n)) (findClient k t) else findClient j t)"
    by (rule findClient_setUsername)
  show "finite {k. findClient k t \<noteq> None}" using finite_dom_map_of [of t] by (simp add: findClient_def dom_def)
  show "distinct (map fst t) \<Longrightarrow> client_count t = card {k. findClient k t \<noteq> None}"
    using card_keys [of t] by (simp add: client_count_def findClient_def dom_def)
qed

section \<open>Refinement\<close>

lemma snapshot_dom: "distinct (map fst t) \<Longrightarrow> mset (map snd t) = image_mset (\<lambda>k. the (map_of t k)) (mset_set (dom (map_of t)))"
proof (induction t)
  case (Cons p t)
  obtain k v where p: "p = (k, v)" by fastforce
  have k: "k \<notin> dom (map_of t)" using Cons.prems p by (simp add: dom_map_of_conv_image_fst)
  have "image_mset (\<lambda>j. the (map_of (p # t) j)) (mset_set (dom (map_of t))) =
      image_mset (\<lambda>j. the (map_of t j)) (mset_set (dom (map_of t)))"
    using k p finite_dom_map_of [of t] by (intro image_mset_cong) auto
  moreover have "mset_set (dom (map_of (p # t))) = add_mset k (mset_set (dom (map_of t)))"
    using k p finite_dom_map_of [of t] by simp
  moreover have "the (map_of (p # t) k) = v" using p by simp
  ultimately have "image_mset (\<lambda>j. the (map_of (p # t) j)) (mset_set (dom (map_of (p # t)))) =
      add_mset v (image_mset (\<lambda>j. the (map_of t j)) (mset_set (dom (map_of t))))"
    by (simp only: image_mset_add_mset)
  also have "\<dots> = add_mset v (mset (map snd t))" using Cons by (simp only: list.map distinct.simps)
  also have "\<dots> = mset (map snd (p # t))" using p by simp
  finally show ?case by (rule sym)
qed simp



end
