(* ===== verification/Server_State.thy ===== *)
theory Server_State
  imports Data_Channel_Receive Endpoint_Format Command_Parser Transfer_Report Client_Registry
begin

text \<open>
  The state of a session of the server (\<^verbatim>\<open>ClientSession\<close> of \<^verbatim>\<open>server/src/control/Session.h\<close>) and
  the transfers of \<^verbatim>\<open>CommandDispatcher.cpp\<close>: how RETR, STOR, STOU and APPE start a worker, and what the
  worker does.
\<close>

section \<open>The session\<close>

datatype DataChannelMode = NoChannel | Passive | Active
datatype UploadKind = Store | Unique | Append

text \<open>
  What a worker thread has to do: the values its closure captured. \<open>WorkerDone\<close> is a thread whose
  function has returned and that was not joined yet.
\<close>

datatype worker =
    Download fspath TransferMode bool sv_sender
  | Upload fspath "path option" TransferMode bool sockaddr_in UploadKind string receiver
  | WorkerDone

record ClientSession =
  ctlSocket :: "SOCKET option"
  authenticated :: bool
  transferMode :: TransferMode
  username :: string
  currentDir :: fspath
  dataChannelMode :: DataChannelMode
  pendingDataSocket :: "SOCKET option"
  pendingPeerAddr :: sockaddr_in
  controlPeerAddr :: sockaddr_in
  pendingRenameSource :: fspath
  hasPendingRename :: bool
  transferActive :: bool
  abortRequested :: bool
  transferWorker :: "worker option"
  pendingUniqueFilename :: string

text \<open>
  The server as one session sees it: the session, its control connection, the table of clients, the
  disk, the network of the transfers, the counter of unique names and the sockets closed so far.
\<close>

record server =
  sess :: ClientSession
  chan :: tcp
  clients :: registry
  tree :: store
  net :: world
  nextId :: "64 word"
  closedSockets :: "SOCKET list"

text \<open>
  What the code asks of its surroundings while it runs a command: paths, digests, addresses, a new
  socket, whether a thread can be started, and the text of a modification time (which depends on the
  clocks of the system).
\<close>

record surroundings =
  paths :: places
  sha256_of :: "bytes \<Rightarrow> string"
  inet_pton_of :: "string \<Rightarrow> u32 option"
  wide_int :: "int \<Rightarrow> int"
  localIp :: u32
  boundPort :: u16
  newSocket :: SOCKET
  absolute_of :: "path \<Rightarrow> path option"
  threadStarts :: bool
  formatMdtm :: "nat \<Rightarrow> string"

subsection \<open>Small steps\<close>

definition on_sess :: "(ClientSession \<Rightarrow> ClientSession) \<Rightarrow> server \<Rightarrow> server" where
  "on_sess f S = S\<lparr>sess := f (sess S)\<rparr>"

definition reply :: "nat \<Rightarrow> string \<Rightarrow> server \<Rightarrow> server" where
  "reply code msg S = S\<lparr>chan := replyWithCode code msg (chan S)\<rparr>"

definition multilineReply :: "nat \<Rightarrow> string \<Rightarrow> server \<Rightarrow> server" where
  "multilineReply code msg S = S\<lparr>chan := multilineReplyWithCode code msg (chan S)\<rparr>"

definition clearDataState :: "server \<Rightarrow> server" where
  "clearDataState S =
     (let S1 = (case pendingDataSocket (sess S) of
                  None \<Rightarrow> S
                | Some k \<Rightarrow> on_sess (pendingDataSocket_update (\<lambda>_. None)) (S\<lparr>closedSockets := closedSockets S @ [k]\<rparr>))
      in on_sess (\<lambda>s. s\<lparr>pendingPeerAddr := zero_addr, dataChannelMode := NoChannel\<rparr>) S1)"

definition portMatchesControlPeer :: "ClientSession \<Rightarrow> sockaddr_in \<Rightarrow> bool" where
  "portMatchesControlPeer s advertised \<longleftrightarrow>
     sin_addr advertised = sin_addr (controlPeerAddr s) \<and> sin_port advertised \<noteq> 0"

definition sessionReply :: "nat \<Rightarrow> string \<Rightarrow> server \<Rightarrow> server" where
  "sessionReply code msg S = (if ctlSocket (sess S) \<noteq> None then reply code msg S else S)"

definition joinCompletedTransfer :: "server \<Rightarrow> server" where
  "joinCompletedTransfer S =
     (if \<not> transferActive (sess S) \<and> transferWorker (sess S) \<noteq> None
      then on_sess (transferWorker_update (\<lambda>_. None)) S else S)"

definition finishTransfer :: "bool \<Rightarrow> string \<Rightarrow> server \<Rightarrow> server" where
  "finishTransfer ok successMessage S =
     on_sess (transferActive_update (\<lambda>_. False))
       (if \<not> abortRequested (sess S) \<and> ctlSocket (sess S) \<noteq> None
        then reply (if ok then 226 else 426) (if ok then successMessage else ''Transfer failed.'') S
        else S)"

definition remove_path :: "path \<Rightarrow> server \<Rightarrow> server" where
  "remove_path p S = S\<lparr>tree := (tree S)\<lparr>disk := fs_remove p (disk (tree S))\<rparr>\<rparr>"

definition remove_if :: "bool \<Rightarrow> path \<Rightarrow> server \<Rightarrow> server" where
  "remove_if b p S = (if b then remove_path p S else S)"

definition remove_opt :: "path option \<Rightarrow> server \<Rightarrow> server" where
  "remove_opt p S = (case p of None \<Rightarrow> S | Some q \<Rightarrow> remove_path q S)"

section \<open>Starting a transfer\<close>

text \<open>The default of the timeout of a sender, in milliseconds.\<close>

definition DEFAULT_TIMEOUT_MS :: int where "DEFAULT_TIMEOUT_MS = 500"

definition startDownloadTransfer :: "surroundings \<Rightarrow> fspath \<Rightarrow> server \<Rightarrow> server" where
  "startDownloadTransfer X source S =
     (if dataChannelMode (sess S) = NoChannel
      then sessionReply 425 ''Use PORT or PASV before RETR.'' S
      else
        let S1 = joinCompletedTransfer S;
            passive = (dataChannelMode (sess S1) = Passive);
            (transport, w) =
              (if passive then sv_RdtSender_existing (pendingDataSocket (sess S1) \<noteq> None) DEFAULT_TIMEOUT_MS (net S1)
               else sv_RdtSender_target (inet_pton_of X) (dotted (sin_addr (pendingPeerAddr (sess S1))))
                      (sin_port (pendingPeerAddr (sess S1))) DEFAULT_TIMEOUT_MS (net S1));
            S2 = on_sess (\<lambda>s. s\<lparr>pendingDataSocket := (if passive then None else pendingDataSocket s),
                               dataChannelMode := NoChannel, pendingPeerAddr := zero_addr\<rparr>) (S1\<lparr>net := w\<rparr>)
        in if \<not> ss_socketOk transport
           then sessionReply 425 ''Could not open data connection.'' S2
           else
             let S3 = on_sess (\<lambda>s. s\<lparr>abortRequested := False, transferActive := True\<rparr>) S2;
                 mode = transferMode (sess S3);
                 S4 = sessionReply 150 ''Opening data connection.'' S3
             in if threadStarts X
                then on_sess (transferWorker_update (\<lambda>_. Some (Download source mode passive transport))) S4
                else sessionReply 425 ''Could not start transfer worker.''
                       (on_sess (transferActive_update (\<lambda>_. False)) S4))"

definition startUploadTransfer :: "surroundings \<Rightarrow> fspath \<Rightarrow> UploadKind \<Rightarrow> string \<Rightarrow> server \<Rightarrow> server" where
  "startUploadTransfer X destination kind uniqueFilename S =
     (if dataChannelMode (sess S) = NoChannel
      then remove_if (kind = Unique) (native destination) (sessionReply 425 ''Use PORT or PASV before upload.'' S)
      else
        let (staging, st) = (if kind = Append then createSiblingTemporaryPath destination (tree S) else (None, tree S));
            S0 = S\<lparr>tree := st\<rparr>
        in if kind = Append \<and> staging = None
           then sessionReply 550 ''Could not create append staging file.'' (clearDataState S0)
           else
             let S1 = joinCompletedTransfer S0;
                 passive = (dataChannelMode (sess S1) = Passive);
                 (transport, w) =
                   (if passive then sv_RdtReceiver_existing (pendingDataSocket (sess S1) \<noteq> None) (net S1)
                    else sv_RdtReceiver_listen (net S1));
                 activePeer = pendingPeerAddr (sess S1);
                 S2 = on_sess (\<lambda>s. s\<lparr>pendingDataSocket := (if passive then None else pendingDataSocket s),
                                    dataChannelMode := NoChannel, pendingPeerAddr := zero_addr\<rparr>) (S1\<lparr>net := w\<rparr>)
             in if \<not> udpSocketOk transport
                then sessionReply 425 ''Could not open data connection.''
                       (remove_if (kind = Unique) (native destination) (remove_opt staging S2))
                else
                  let S3 = on_sess (\<lambda>s. s\<lparr>abortRequested := False, transferActive := True,
                                         pendingUniqueFilename := uniqueFilename\<rparr>) S2;
                      mode = transferMode (sess S3);
                      S4 = sessionReply 150 ''Opening data connection.'' S3
                  in if threadStarts X
                     then on_sess (transferWorker_update
                            (\<lambda>_. Some (Upload destination staging mode passive activePeer kind uniqueFilename transport))) S4
                     else sessionReply 425 ''Could not start transfer worker.''
                            (on_sess (pendingUniqueFilename_update (\<lambda>_. []))
                              (remove_if (kind = Unique) (native destination)
                                (remove_opt staging (on_sess (transferActive_update (\<lambda>_. False)) S4)))))"

section \<open>The workers\<close>

text \<open>
  What a worker does until it ends; \<open>None\<close> while it still waits for the network. Between the handshake
  and the transfer it asks for an abort once more. An abort a worker has seen was requested by the control
  thread before: the flag of the session is set from then on.
\<close>

definition seen_abort :: "bool \<Rightarrow> server \<Rightarrow> server" where
  "seen_abort b S = on_sess (abortRequested_update (\<lambda>flag. flag \<or> b)) S"

definition run_download :: "surroundings \<Rightarrow> fspath \<Rightarrow> TransferMode \<Rightarrow> bool \<Rightarrow> sv_sender \<Rightarrow> server \<Rightarrow> server option" where
  "run_download X source mode passive transport S =
     (let t0 = sv_sender_setAbortPredicate True transport
      in case (if \<not> passive then Some (True, t0, net S) else waitForClientReady t0 (net S)) of
          None \<Rightarrow> None
        | Some (ready, t1, w1) \<Rightarrow>
            (let (ab, w2) = (if ready then isAbortRequested True w1 else (True, w1))
             in case (if ready \<and> \<not> ab
                      then sv_sendFile (sha256_of X) True (native source) mode t1 w2 (disk (tree S))
                      else Some (\<lparr>success = False, sha256 = []\<rparr>, t1, w2, disk (tree S))) of
                 None \<Rightarrow> None
               | Some (result, t2, w3, F) \<Rightarrow>
                   Some (finishTransfer (success result)
                     (transferCompleteMessage (if mode = Binary then sha256 result else []) [] [])
                     (seen_abort (ready \<and> ab) (S\<lparr>net := w3, tree := (tree S)\<lparr>disk := F\<rparr>\<rparr>)))))"

text \<open>Hashing a path of the disk; the empty text for a file that cannot be read.\<close>

definition hash_path :: "surroundings \<Rightarrow> path \<Rightarrow> store \<Rightarrow> string" where
  "hash_path X p st = (case files (disk st) p of None \<Rightarrow> [] | Some bs \<Rightarrow> sha256_of X bs)"

text \<open>
  The append after a successful reception: whether the upload succeeded, the digest of what came in, the
  digest of the whole, and the disk.
\<close>

definition finish_append ::
  "surroundings \<Rightarrow> fspath \<Rightarrow> path \<Rightarrow> TransferMode \<Rightarrow> store \<Rightarrow> bool \<times> string \<times> string \<times> store" where
  "finish_append X destination staging mode st =
     (let payloadHash = (if mode = Binary then hash_path X staging st else [])
      in if mode = Binary \<and> payloadHash = [] then (False, [], [], st)
         else case appendAtomically (if mode = Binary then Some (sha256_of X) else None) destination staging st of
             (None, st1) \<Rightarrow> (False, payloadHash, [], st1)
           | (Some finalHash, st1) \<Rightarrow> (True, payloadHash, finalHash, st1))"

definition run_upload ::
  "surroundings \<Rightarrow> fspath \<Rightarrow> path option \<Rightarrow> TransferMode \<Rightarrow> bool \<Rightarrow> sockaddr_in \<Rightarrow> UploadKind \<Rightarrow> string \<Rightarrow> receiver \<Rightarrow>
   server \<Rightarrow> server option" where
  "run_upload X destination staging mode passive activePeer kind uniqueFilename transport S =
     (let t0 = sv_setAbortPredicate True transport
      in case (if passive then Some (True, t0, net S) else sv_initiateActiveHandshake activePeer t0 (net S)) of
          None \<Rightarrow> None
        | Some (ready, t1, w1) \<Rightarrow>
            (let receivePath = (case staging of Some p \<Rightarrow> if kind = Append then p else native destination
                                | None \<Rightarrow> native destination);
                 (ab, w2) = (if ready then isAbortRequested True w1 else (True, w1))
             in case (if ready \<and> \<not> ab
                      then sv_receiveFile (absolute_of X) True receivePath mode t1 w2 (disk (tree S))
                      else Some (False, t1, w2, disk (tree S))) of
                 None \<Rightarrow> None
               | Some (ok, t2, w3, F) \<Rightarrow>
                   (let (ab2, w4) = (if ok \<and> kind = Append then isAbortRequested True w3 else (False, w3));
                        S2 = seen_abort (ready \<and> ab \<or> ab2) (S\<lparr>tree := (tree S)\<lparr>disk := F\<rparr>, net := w4\<rparr>);
                        (ok2, payloadHash, finalHash, st) =
                          (if ok \<and> kind = Append \<and> \<not> ab2 then finish_append X destination receivePath mode (tree S2)
                           else (ok, [], [], tree S2));
                        S3 = remove_opt staging (S2\<lparr>tree := st\<rparr>);
                        S4 = remove_if (\<not> ok2 \<and> kind = Unique) (native destination) S3;
                        payloadHash2 = (if ok2 \<and> mode = Binary \<and> kind \<noteq> Append
                                        then hash_path X (native destination) (tree S4) else payloadHash)
                    in Some (on_sess (pendingUniqueFilename_update (\<lambda>_. []))
                         (finishTransfer ok2 (transferCompleteMessage payloadHash2 uniqueFilename finalHash) S4)))))"

definition run_worker :: "surroundings \<Rightarrow> server \<Rightarrow> server option" where
  "run_worker X S =
     (case transferWorker (sess S) of
        Some (Download source mode passive transport) \<Rightarrow>
          map_option (on_sess (transferWorker_update (\<lambda>_. Some WorkerDone))) (run_download X source mode passive transport S)
      | Some (Upload destination staging mode passive activePeer kind uniqueFilename transport) \<Rightarrow>
          map_option (on_sess (transferWorker_update (\<lambda>_. Some WorkerDone)))
            (run_upload X destination staging mode passive activePeer kind uniqueFilename transport S)
      | _ \<Rightarrow> Some S)"

text \<open>\<^verbatim>\<open>join\<close> of a joinable thread: it waits until the worker has ended.\<close>

definition join_worker :: "surroundings \<Rightarrow> server \<Rightarrow> server option" where
  "join_worker X S =
     (if transferWorker (sess S) = None then Some S
      else map_option (on_sess (transferWorker_update (\<lambda>_. None))) (run_worker X S))"

end
