(* ===== verification/Command_Dispatcher.thy ===== *)
theory Command_Dispatcher
  imports Server_State
begin

text \<open>
  \<^verbatim>\<open>CommandDispatcher.cpp\<close>: one definition per entry of the command table, \<^verbatim>\<open>executeCommand\<close> and
  \<^verbatim>\<open>shutdownSession\<close>. A handler gives the server after it, an exception that ends the program, or nothing
  while it waits for a worker thread.
\<close>

type_synonym handler_result = "server outcome option"
type_synonym handler = "surroundings \<Rightarrow> string list \<Rightarrow> server \<Rightarrow> handler_result"

abbreviation finished :: "server \<Rightarrow> handler_result" where
  "finished S \<equiv> Some (Returns S)"

section \<open>Texts\<close>

definition database :: "(string \<times> string) list" where
  "database = [(''User1'', ''password''), (''User2'', ''hcmus'')]"

definition formatDirectoryEntry :: "bool \<Rightarrow> DirEntryInfo \<Rightarrow> string" where
  "formatDirectoryEntry namesOnly entry =
     (if namesOnly then entryName entry
      else formatPermissions entry @ '' '' @ to_string (unat (entrySize entry)) @ '' '' @ entryName entry)"

definition formatDirectoryListing :: "DirEntryInfo list \<Rightarrow> bool \<Rightarrow> string" where
  "formatDirectoryListing infos namesOnly = join_with LF (map (formatDirectoryEntry namesOnly) infos)"

definition helpMap :: "(string \<times> string) list" where
  "helpMap =
    [(''USER'', ''Syntax: USER <username>'' @ [LF] @ ''Send the client's username to initiate an authentication session.''),
     (''PASS'', ''Syntax: PASS <password>'' @ [LF] @ ''Send the client's password to complete authentication.''),
     (''QUIT'', ''Syntax: QUIT'' @ [LF] @ ''Gracefully terminate the control connection and end the session.''),
     (''NOOP'', ''Syntax: NOOP'' @ [LF] @ ''No-operation; used as a keep-alive ping to prevent session timeout.''),
     (''PWD'', ''Syntax: PWD'' @ [LF] @ ''Print the server's current working directory path.''),
     (''CWD'', ''Syntax: CWD <path>'' @ [LF] @ ''Change the server's current working directory to the specified path.''),
     (''CDUP'', ''Syntax: CDUP'' @ [LF] @ ''Change the server's working directory to its parent directory.''),
     (''MKD'', ''Syntax: MKD <dirname>'' @ [LF] @ ''Create a new directory on the server at the current path.''),
     (''RMD'', ''Syntax: RMD <dirname>'' @ [LF] @ ''Remove an empty directory from the server.''),
     (''LIST'', ''Syntax: LIST [path]'' @ [LF] @ ''Return a detailed listing (name, size, type, permissions) of files and directories in the current or specified path.''),
     (''NLST'', ''Syntax: NLST [path]'' @ [LF] @ ''Return a plain name-only listing of files in the current or specified path.''),
     (''STAT'', ''Syntax: STAT [path]'' @ [LF] @ ''Return server status or, if a path is given, file/directory metadata.''),
     (''SIZE'', ''Syntax: SIZE <filename>'' @ [LF] @ ''Return the exact byte size of the specified file on the server.''),
     (''MDTM'', ''Syntax: MDTM <filename>'' @ [LF] @ ''Return the last modification timestamp of the specified file (format: YYYYMMDDhhmmss).''),
     (''TYPE'', ''Syntax: TYPE {A | I}'' @ [LF] @ ''Set the data transfer type: A = ASCII (text), I = Image/Binary.''),
     (''MODE'', ''Syntax: MODE {S | B | C}'' @ [LF] @ ''Set the transfer mode. Stream (S) is supported; Block (B) and Compressed (C) return 504.''),
     (''PORT'', ''Syntax: PORT <h1,h2,h3,h4,p1,p2>'' @ [LF] @ ''Active Mode: Client specifies its IP and port for the server to open the data connection back to. ''),
     (''PASV'', ''Syntax: PASV'' @ [LF] @ ''Passive Mode: Server opens a random port and returns its IP + port for the client to connect to.''),
     (''RETR'', ''Syntax: RETR <filename>'' @ [LF] @ ''Retrieve (download) the specified file from the server to the client via the data channel.''),
     (''STOR'', ''Syntax: STOR <filename>'' @ [LF] @ ''Store (upload) a file from the client to the server using the current filename.''),
     (''STOU'', ''Syntax: STOU'' @ [LF] @ ''Store a file with a guaranteed unique server-generated filename to prevent overwrites.''),
     (''APPE'', ''Syntax: APPE <filename>'' @ [LF] @ ''Append the uploaded data to an existing file on the server; create it if absent.''),
     (''DELE'', ''Syntax: DELE <filename>'' @ [LF] @ ''Delete the specified file from the server.''),
     (''RNFR'', ''Syntax: RNFR <oldname>'' @ [LF] @ ''Rename From: specify the file to be renamed (must be followed by RNTO).''),
     (''RNTO'', ''Syntax: RNTO <newname>'' @ [LF] @ ''Rename To: complete the rename operation initiated by RNFR.''),
     (''HASH'', ''Syntax: HASH <filename>'' @ [LF] @ ''Request a cryptographic hash (MD5 or SHA-256) of the specified file for post-transfer integrity verification.''),
     (''ABOR'', ''Syntax: ABOR'' @ [LF] @ ''Abort the current data transfer in progress; data channel is reset.''),
     (''HELP'', ''Syntax: HELP [command]'' @ [LF] @ ''Return help text for all supported commands, or detailed usage for a specific command.'')]"

definition helpOverview :: string where
  "helpOverview =
     ''The following commands are recognized:'' @ [LF] @
     ''USER   PASS    QUIT    NOOP    PWD     CWD     CDUP    MKD '' @ [LF] @
     ''RMD    LIST    NLST    STAT    SIZE    MDTM    TYPE    MODE'' @ [LF] @
     ''PORT   PASV    RETR    STOR    STOU    APPE    DELE    RNFR'' @ [LF] @
     ''RNTO   HASH    ABOR    HELP''"

definition first_arg :: "string list \<Rightarrow> string" where
  "first_arg args = (case args of [] \<Rightarrow> [] | a # _ \<Rightarrow> a)"

definition reply_result :: "Result \<Rightarrow> server \<Rightarrow> server" where
  "reply_result r S = reply (rCode r) (rMessage r) S"

definition set_name :: "string \<Rightarrow> server \<Rightarrow> server" where
  "set_name name S =
     (case ctlSocket (sess S) of None \<Rightarrow> S | Some k \<Rightarrow> S\<lparr>clients := setUsername k name (clients S)\<rparr>)"

section \<open>Logging in\<close>

definition cmd_USER :: handler where
  "cmd_USER X args S =
     (let S1 = set_name [] (on_sess (\<lambda>s. s\<lparr>authenticated := False, username := []\<rparr>) S)
      in if length args \<noteq> 1 then finished (reply 500 ''Syntax: USER <username>'' S1)
         else case map_of database (hd args) of
             Some _ \<Rightarrow>
               finished (reply 331 ''Username OK, need password.''
                 (set_name (hd args) (on_sess (username_update (\<lambda>_. hd args)) S1)))
           | None \<Rightarrow> finished (reply 530 ''Not logged in, username incorrect.'' S1))"

definition cmd_PASS :: handler where
  "cmd_PASS X args S =
     (if username (sess S) = [] then finished (reply 503 ''Log in with USER first.'' S)
      else let S1 = on_sess (authenticated_update (\<lambda>_. False)) S
        in if length args \<noteq> 1 then finished (reply 500 ''Syntax: PASS <password>'' S1)
           else if map_of database (username (sess S1)) = Some (hd args)
           then finished (reply 230 ''User logged in.'' (on_sess (authenticated_update (\<lambda>_. True)) S1))
           else finished (reply 530 ''Not logged in, password incorrect.'' S1))"

definition cmd_QUIT :: handler where
  "cmd_QUIT X args S =
     (let S1 = reply 221 ''Service closing control connection.'' S
      in finished (on_sess (ctlSocket_update (\<lambda>_. None))
           (S1\<lparr>closedSockets := closedSockets S1 @ (case ctlSocket (sess S1) of None \<Rightarrow> [] | Some k \<Rightarrow> [k])\<rparr>)))"

definition cmd_NOOP :: handler where
  "cmd_NOOP X args S = finished (reply 250 ''NOOP OK.'' S)"

section \<open>Directories\<close>

definition cmd_PWD :: handler where
  "cmd_PWD X args S =
     (case printWorkingDir (paths X) (currentDir (sess S)) of
        Terminates \<Rightarrow> Some Terminates
      | Returns r \<Rightarrow> finished (reply_result r S))"

definition cmd_CWD :: handler where
  "cmd_CWD X args S =
     (case changeDir (paths X) (currentDir (sess S)) (first_arg args) (tree S) of
        Terminates \<Rightarrow> Some Terminates
      | Returns (r, dir, st) \<Rightarrow>
          finished (reply_result r (on_sess (currentDir_update (\<lambda>_. dir)) (S\<lparr>tree := st\<rparr>))))"

definition cmd_CDUP :: handler where
  "cmd_CDUP X args S =
     (case changeToParent (paths X) (currentDir (sess S)) of
        (r, dir) \<Rightarrow> finished (reply_result r (on_sess (currentDir_update (\<lambda>_. dir)) S)))"

definition cmd_MKD :: handler where
  "cmd_MKD X args S =
     (case makeDir (paths X) (currentDir (sess S)) (first_arg args) (tree S) of
        Terminates \<Rightarrow> Some Terminates
      | Returns (r, st) \<Rightarrow> finished (reply_result r (S\<lparr>tree := st\<rparr>)))"

definition cmd_RMD :: handler where
  "cmd_RMD X args S =
     (case removeDir (paths X) (currentDir (sess S)) (first_arg args) (tree S) of
        Terminates \<Rightarrow> Some Terminates
      | Returns (r, st) \<Rightarrow> finished (reply_result r (S\<lparr>tree := st\<rparr>)))"

definition list_command :: "string \<Rightarrow> bool \<Rightarrow> handler" where
  "list_command usage namesOnly X args S =
     (if length args > 1 then finished (reply 500 usage S)
      else case listDir (paths X) (currentDir (sess S)) (first_arg args) (tree S) of
          Terminates \<Rightarrow> Some Terminates
        | Returns (None, st) \<Rightarrow> finished (reply 550 ''Could not list directory.'' (S\<lparr>tree := st\<rparr>))
        | Returns (Some infos, st) \<Rightarrow>
            finished (multilineReply 250 (formatDirectoryListing infos namesOnly) (S\<lparr>tree := st\<rparr>)))"

definition cmd_LIST :: handler where
  "cmd_LIST = list_command ''Syntax: LIST [path]'' False"

definition cmd_NLST :: handler where
  "cmd_NLST = list_command ''Syntax: NLST [path]'' True"

definition cmd_STAT :: handler where
  "cmd_STAT X args S =
     (case args of
        [] \<Rightarrow> finished (reply 211 (''Server status: OK.'' @ to_string (client_count (clients S)) @ '' client(s) connected.'') S)
      | a # _ \<Rightarrow>
          (case getMetadata (paths X) (currentDir (sess S)) a (tree S) of
             (None, st) \<Rightarrow> finished (reply 550 ''Path not found.'' (S\<lparr>tree := st\<rparr>))
           | (Some meta, st) \<Rightarrow>
               finished (reply 213 (a @ '': '' @ (if metaIsDirectory meta then ''directory'' else ''file'') @ '', '' @
                 to_string (unat (metaSize meta)) @ '' bytes'') (S\<lparr>tree := st\<rparr>))))"

text \<open>SIZE and MDTM: an answer about a file.\<close>

definition about_file :: "string \<Rightarrow> (PathMetadata \<Rightarrow> string) \<Rightarrow> handler" where
  "about_file failure answer X args S =
     (case args of
        [] \<Rightarrow> finished (reply 550 failure S)
      | a # _ \<Rightarrow>
          (case getMetadata (paths X) (currentDir (sess S)) a (tree S) of
             (None, st) \<Rightarrow> finished (reply 550 failure (S\<lparr>tree := st\<rparr>))
           | (Some meta, st) \<Rightarrow>
               if metaIsDirectory meta then finished (reply 550 failure (S\<lparr>tree := st\<rparr>))
               else finished (reply 213 (answer meta) (S\<lparr>tree := st\<rparr>))))"

definition cmd_SIZE :: handler where
  "cmd_SIZE = about_file ''Could not get file size.'' (\<lambda>meta. to_string (unat (metaSize meta)))"

definition cmd_MDTM :: handler where
  "cmd_MDTM X = about_file ''Could not get modification time.'' (\<lambda>meta. formatMdtm X (lastModified meta)) X"

definition cmd_DELE :: handler where
  "cmd_DELE X args S =
     (case deleteFile (paths X) (currentDir (sess S)) (first_arg args) (tree S) of
        (r, st) \<Rightarrow> finished (reply_result r (S\<lparr>tree := st\<rparr>)))"

definition cmd_RNFR :: handler where
  "cmd_RNFR X args S =
     (case renameFrom (paths X) (currentDir (sess S)) (first_arg args) (pendingRenameSource (sess S)) (tree S) of
        (r, src, st) \<Rightarrow>
          finished (reply_result r
            (on_sess (\<lambda>s. s\<lparr>pendingRenameSource := src, hasPendingRename := rOk r\<rparr>) (S\<lparr>tree := st\<rparr>))))"

definition cmd_RNTO :: handler where
  "cmd_RNTO X args S =
     (if \<not> hasPendingRename (sess S) then finished (reply 550 ''RNFR required first.'' S)
      else case renameTo (paths X) (currentDir (sess S)) (pendingRenameSource (sess S)) (first_arg args) (tree S) of
          (r, st) \<Rightarrow>
            finished (reply_result r (on_sess (hasPendingRename_update (\<lambda>_. False)) (S\<lparr>tree := st\<rparr>))))"

section \<open>Data connections\<close>

definition cmd_PASV :: handler where
  "cmd_PASV X args S =
     (let S1 = clearDataState S
      in case openPassiveDataPort (boundPort X) (net S1) of
          (None, w) \<Rightarrow> finished (reply 425 ''Could not open data port.'' (S1\<lparr>net := w\<rparr>))
        | (Some port, w) \<Rightarrow>
            finished (reply 227 (''Entering Passive Mode ('' @ formatPasvReply (localIp X) port @ '').'')
              (on_sess (\<lambda>s. s\<lparr>pendingDataSocket := Some (newSocket X), dataChannelMode := Passive\<rparr>) (S1\<lparr>net := w\<rparr>))))"

definition cmd_PORT :: handler where
  "cmd_PORT X args S =
     (let S1 = clearDataState S
      in if length args \<noteq> 1 then finished (reply 500 ''Bad PORT argument.'' S1)
         else case sv_parsePortCommand (wide_int X) (inet_pton_of X) (hd args) of
             None \<Rightarrow> finished (reply 500 ''Bad PORT argument.'' S1)
           | Some peer \<Rightarrow>
               if \<not> portMatchesControlPeer (sess S1) peer
               then finished (reply 500 ''PORT address must match the control connection.'' S1)
               else finished (reply 200 ''PORT command successful.''
                 (on_sess (\<lambda>s. s\<lparr>pendingPeerAddr := peer, dataChannelMode := Active\<rparr>) S1)))"

section \<open>Transfers\<close>

definition cmd_RETR :: handler where
  "cmd_RETR X args S =
     (if length args \<noteq> 1 then finished (reply 500 ''Syntax: RETR <filename>'' S)
      else case resolve_in (paths X) (currentDir (sess S)) (hd args) of
          None \<Rightarrow> finished (reply 550 ''File not found.'' (clearDataState S))
        | Some resolved \<Rightarrow>
            (case query_ec (type_of (tree S) (native resolved) = Regular) (tree S) of
               (regular, ec, st) \<Rightarrow>
                 if \<not> regular \<or> ec then finished (reply 550 ''File not found.'' (clearDataState (S\<lparr>tree := st\<rparr>)))
                 else finished (startDownloadTransfer X resolved (S\<lparr>tree := st\<rparr>))))"

definition cmd_STOR :: handler where
  "cmd_STOR X args S =
     (if length args \<noteq> 1 then finished (reply 500 ''Syntax: STOR <filename>'' S)
      else case resolve_in (paths X) (currentDir (sess S)) (hd args) of
          None \<Rightarrow> finished (reply 550 ''Path outside server root.'' (clearDataState S))
        | Some resolved \<Rightarrow>
            (case query_ec (directories (tree S) (native resolved)) (tree S) of
               (isDir, ec, st) \<Rightarrow>
                 if isDir then finished (reply 553 ''Destination is a directory.'' (clearDataState (S\<lparr>tree := st\<rparr>)))
                 else finished (startUploadTransfer X resolved Store [] (S\<lparr>tree := st\<rparr>))))"

definition cmd_STOU :: handler where
  "cmd_STOU X args S =
     (if args \<noteq> [] then finished (reply 500 ''Syntax: STOU'' S)
      else case reserveUniqueUpload (paths X) (currentDir (sess S)) (nextId S) (tree S) of
          (None, n, st) \<Rightarrow>
            finished (reply 553 ''Could not reserve a unique filename.'' (clearDataState (S\<lparr>nextId := n, tree := st\<rparr>)))
        | (Some (resolved, name), n, st) \<Rightarrow>
            finished (startUploadTransfer X resolved Unique name (S\<lparr>nextId := n, tree := st\<rparr>)))"

definition cmd_APPE :: handler where
  "cmd_APPE X args S =
     (if length args \<noteq> 1 then finished (reply 500 ''Syntax: APPE <filename>'' S)
      else case resolve_in (paths X) (currentDir (sess S)) (hd args) of
          None \<Rightarrow> finished (reply 550 ''Path outside server root.'' (clearDataState S))
        | Some resolved \<Rightarrow>
            (case query_ec (present (tree S) (native resolved)) (tree S) of
               (there, ec, st) \<Rightarrow>
                 (case (if there then query_ec (type_of st (native resolved) = Regular) st else (True, False, st)) of
                    (regular, ec2, st2) \<Rightarrow>
                      if there \<and> \<not> regular
                      then finished (reply 553 ''Destination is not a regular file.'' (clearDataState (S\<lparr>tree := st2\<rparr>)))
                      else finished (startUploadTransfer X resolved Append [] (S\<lparr>tree := st2\<rparr>)))))"

definition cmd_HASH :: handler where
  "cmd_HASH X args S =
     (case args of
        [] \<Rightarrow> finished (reply 550 ''File not found.'' S)
      | a # _ \<Rightarrow>
          (case resolve_in (paths X) (currentDir (sess S)) a of
             None \<Rightarrow> finished (reply 550 ''File not found.'' S)
           | Some resolved \<Rightarrow>
               (case query_throw (present (tree S) (native resolved)) (tree S) of
                  Terminates \<Rightarrow> Some Terminates
                | Returns (False, st) \<Rightarrow> finished (reply 550 ''File not found.'' (S\<lparr>tree := st\<rparr>))
                | Returns (True, st) \<Rightarrow>
                    (let hash = hash_path X (native resolved) st
                     in if hash = [] then finished (reply 550 ''Hash computation failed.'' (S\<lparr>tree := st\<rparr>))
                        else finished (reply 213 (''SHA-256 '' @ hash) (S\<lparr>tree := st\<rparr>))))))"

definition cmd_TYPE :: handler where
  "cmd_TYPE X args S =
     (let type = (if length args = 1 then upper_string (hd args) else [])
      in if type \<noteq> ''A'' \<and> type \<noteq> ''I'' then finished (reply 500 ''TYPE must be A or I.'' S)
         else finished (reply 250 (''Type set to '' @ type @ ''.'')
           (on_sess (transferMode_update (\<lambda>_. if type = ''A'' then ASCII else Binary)) S)))"

definition cmd_MODE :: handler where
  "cmd_MODE X args S =
     (let mode = (if length args = 1 then upper_string (hd args) else [])
      in if mode \<noteq> ''S'' \<and> mode \<noteq> ''B'' \<and> mode \<noteq> ''C'' then finished (reply 500 ''MODE must be S, B, or C.'' S)
         else if mode \<noteq> ''S'' then finished (reply 504 ''Only MODE S is supported.'' S)
         else finished (reply 200 ''Stream mode enabled.'' S))"

definition cmd_ABOR :: handler where
  "cmd_ABOR X args S =
     (if args \<noteq> [] then finished (reply 500 ''Syntax: ABOR'' S)
      else if \<not> transferActive (sess S)
      then finished (sessionReply 226 ''No transfer in progress.'' (clearDataState (joinCompletedTransfer S)))
      else case join_worker X (on_sess (abortRequested_update (\<lambda>_. True)) S) of
          None \<Rightarrow> None
        | Some S1 \<Rightarrow>
            finished (sessionReply 426 ''Transfer aborted.''
              (clearDataState (on_sess (transferActive_update (\<lambda>_. False)) S1))))"

definition cmd_HELP :: handler where
  "cmd_HELP X args S =
     (case args of
        [] \<Rightarrow> finished (multilineReply 214 helpOverview S)
      | a # _ \<Rightarrow>
          (case map_of helpMap (upper_string a) of
             Some text \<Rightarrow> finished (multilineReply 214 text S)
           | None \<Rightarrow> finished (reply 500 (''Command not found: '' @ a) S)))"

section \<open>Dispatch\<close>

definition commandMap :: "(string \<times> handler) list" where
  "commandMap =
     [(''USER'', cmd_USER), (''PASS'', cmd_PASS), (''QUIT'', cmd_QUIT), (''NOOP'', cmd_NOOP), (''PWD'', cmd_PWD),
      (''CWD'', cmd_CWD), (''CDUP'', cmd_CDUP), (''MKD'', cmd_MKD), (''RMD'', cmd_RMD), (''LIST'', cmd_LIST),
      (''NLST'', cmd_NLST), (''STAT'', cmd_STAT), (''SIZE'', cmd_SIZE), (''MDTM'', cmd_MDTM), (''DELE'', cmd_DELE),
      (''RNFR'', cmd_RNFR), (''RNTO'', cmd_RNTO), (''PASV'', cmd_PASV), (''PORT'', cmd_PORT), (''RETR'', cmd_RETR),
      (''STOR'', cmd_STOR), (''STOU'', cmd_STOU), (''APPE'', cmd_APPE), (''HASH'', cmd_HASH), (''TYPE'', cmd_TYPE),
      (''MODE'', cmd_MODE), (''ABOR'', cmd_ABOR), (''HELP'', cmd_HELP)]"

definition open_commands :: "string list" where
  "open_commands = [''USER'', ''PASS'', ''HELP'', ''NOOP'', ''QUIT'']"

definition executeCommand :: "surroundings \<Rightarrow> ParsedCommand \<Rightarrow> server \<Rightarrow> handler_result" where
  "executeCommand X cmd S =
     (if \<not> authenticated (sess S) \<and> cmdType cmd \<notin> set open_commands
      then finished (reply 530 ''Please log in using USER and PASS.'' S)
      else if transferActive (sess S) \<and> cmdType cmd \<noteq> ''ABOR''
      then finished (sessionReply 503 ''Transfer already in progress; use ABOR first.'' S)
      else let S1 = joinCompletedTransfer S
        in case map_of commandMap (cmdType cmd) of
            Some h \<Rightarrow> h X (cmdArgs cmd) S1
          | None \<Rightarrow> finished (reply 500 (''Command not found: '' @ cmdType cmd) S1))"

definition shutdownSession :: "surroundings \<Rightarrow> server \<Rightarrow> server option" where
  "shutdownSession X S =
     map_option (\<lambda>S1. clearDataState (on_sess (transferActive_update (\<lambda>_. False)) S1))
       (join_worker X (on_sess (abortRequested_update (\<lambda>_. True)) S))"

end
