(* ===== verification/Server_Replies.thy ===== *)
theory Server_Replies
  imports Command_Dispatcher
begin

text \<open>
  The replies of the server: every command is answered by exactly one reply, or by the reply that opens
  a transfer and the one that takes it back when no thread can be started. What a worker sends comes in
  addition, once, when its transfer ends.
\<close>

section \<open>What a reply does to the connection\<close>

definition one_reply :: "tcp \<Rightarrow> tcp \<Rightarrow> bool" where
  "one_reply c c' \<longleftrightarrow>
     (\<exists>code msg. reply_code code \<and>
        (LF \<notin> set msg \<and> c' = replyWithCode code msg c \<or> c' = multilineReplyWithCode code msg c))"

text \<open>The first argument: whether the command may start a transfer.\<close>

definition answered :: "bool \<Rightarrow> tcp \<Rightarrow> tcp \<Rightarrow> bool" where
  "answered b c c' \<longleftrightarrow> one_reply c c' \<or>
     b \<and> (\<exists>msg. LF \<notin> set msg \<and> c' = replyWithCode 425 msg (replyWithCode 150 ''Opening data connection.'' c))"

lemma answered_reply [intro!]: "reply_code code \<Longrightarrow> LF \<notin> set msg \<Longrightarrow> answered b c (replyWithCode code msg c)"
  unfolding answered_def one_reply_def by blast

lemma answered_multiline [intro!]: "reply_code code \<Longrightarrow> answered b c (multilineReplyWithCode code msg c)"
  unfolding answered_def one_reply_def by blast

text \<open>A connection on which nothing fails stays one.\<close>

definition calm :: "tcp \<Rightarrow> bool" where
  "calm c \<longleftrightarrow> sendResults c = [] \<and> \<not> shut c"

lemma sv_sendAll_calm: "calm c \<Longrightarrow> sv_sendAll bs c = (True, c\<lparr>toPeer := toPeer c @ bs\<rparr>)"
  by (cases bs) (simp_all add: calm_def sv_sendAll_def over_tcp_def)

lemma replyWithCode_calm:
  "calm c \<Longrightarrow> replyWithCode code msg c = c\<lparr>toPeer := toPeer c @ reply_text code [msg]\<rparr>"
  by (simp add: replyWithCode_def sv_sendAll_calm)

lemma send_lines_calm: "calm c \<Longrightarrow> \<exists>out. send_lines code ls c = (True, c\<lparr>toPeer := out\<rparr>)"
proof (induction ls arbitrary: c)
  case Nil
  show ?case by (intro exI [of _ "toPeer c"]) simp
next
  case (Cons l ls)
  let ?c1 = "c\<lparr>toPeer := toPeer c @ to_string code @ ''-'' @ l @ CRLF\<rparr>"
  have "calm ?c1" using Cons.prems by (simp add: calm_def)
  from Cons.IH [OF this] show ?case using sv_sendAll_calm [OF Cons.prems] by auto
qed

lemma multilineReplyWithCode_calm:
  assumes "calm c"
  shows "multilineReplyWithCode code msg c = c\<lparr>toPeer := toPeer c @ reply_text code (reply_lines msg)\<rparr>"
proof -
  obtain out where s: "send_lines code (butlast (reply_lines msg)) c = (True, c\<lparr>toPeer := out\<rparr>)"
    using send_lines_calm [OF assms] by blast
  have "calm (c\<lparr>toPeer := out\<rparr>)" using assms by (simp add: calm_def)
  then have m: "multilineReplyWithCode code msg c =
      c\<lparr>toPeer := out @ reply_text code [last (reply_lines msg)]\<rparr>"
    using s by (simp add: multilineReplyWithCode_def Let_def replyWithCode_calm)
  then have "\<not> shut (multilineReplyWithCode code msg c)" using assms by (simp add: calm_def)
  from multilineReplyWithCode_sent [OF this] m show ?thesis by simp
qed

text \<open>One reply in bytes, and what an answer adds.\<close>

definition is_reply :: "string \<Rightarrow> bool" where
  "is_reply s \<longleftrightarrow> (\<exists>code ls. reply_code code \<and> ls \<noteq> [] \<and> (\<forall>l \<in> set ls. LF \<notin> set l) \<and> s = reply_text code ls)"

lemma one_reply_calm:
  assumes "one_reply c c'" "calm c"
  shows "\<exists>s. is_reply s \<and> c' = c\<lparr>toPeer := toPeer c @ s\<rparr>"
proof -
  obtain code msg where r: "reply_code code"
    "LF \<notin> set msg \<and> c' = replyWithCode code msg c \<or> c' = multilineReplyWithCode code msg c"
    using assms(1) by (auto simp: one_reply_def)
  have "is_reply (reply_text code [msg])" if "LF \<notin> set msg" unfolding is_reply_def using r(1) that
    by (intro exI [of _ code] exI [of _ "[msg]"]) simp
  moreover have "is_reply (reply_text code (reply_lines msg))" unfolding is_reply_def using r(1) reply_lines_no_LF
    by (intro exI [of _ code] exI [of _ "reply_lines msg"]) auto
  ultimately show ?thesis using r(2) replyWithCode_calm [OF assms(2)] multilineReplyWithCode_calm [OF assms(2)] by metis
qed

lemma answered_calm:
  assumes "answered b c c'" "calm c"
  shows "\<exists>ss. ss \<noteq> [] \<and> length ss \<le> 2 \<and> list_all is_reply ss \<and> c' = c\<lparr>toPeer := toPeer c @ concat ss\<rparr>"
proof (cases "one_reply c c'")
  case True
  then obtain s where "is_reply s" "c' = c\<lparr>toPeer := toPeer c @ s\<rparr>" using one_reply_calm assms(2) by blast
  then show ?thesis by (intro exI [of _ "[s]"]) simp
next
  case False
  then obtain msg where m: "LF \<notin> set msg" "c' = replyWithCode 425 msg (replyWithCode 150 ''Opening data connection.'' c)"
    using assms(1) by (auto simp: answered_def)
  let ?a = "reply_text 150 [''Opening data connection.'']" and ?b = "reply_text 425 [msg]"
  have "is_reply ?a" unfolding is_reply_def by (intro exI [of _ 150] exI [of _ "[''Opening data connection.'']"]) (simp add: reply_code_def)
  moreover have "is_reply ?b" unfolding is_reply_def using m(1) by (intro exI [of _ 425] exI [of _ "[msg]"]) (simp add: reply_code_def)
  moreover have "c' = c\<lparr>toPeer := toPeer c @ concat [?a, ?b]\<rparr>"
    using m(2) assms(2) replyWithCode_calm [of "c\<lparr>toPeer := toPeer c @ ?a\<rparr>"] by (simp add: replyWithCode_calm calm_def)
  ultimately show ?thesis by (intro exI [of _ "[?a, ?b]"]) simp
qed

section \<open>The parts of a handler and the connection\<close>

lemma reply_simps [simp]:
  "sess (reply code msg S) = sess S" "tree (reply code msg S) = tree S" "net (reply code msg S) = net S"
  "chan (reply code msg S) = replyWithCode code msg (chan S)" "nextId (reply code msg S) = nextId S"
  "sess (multilineReply code msg S) = sess S" "tree (multilineReply code msg S) = tree S"
  "chan (multilineReply code msg S) = multilineReplyWithCode code msg (chan S)"
  "net (multilineReply code msg S) = net S" "nextId (multilineReply code msg S) = nextId S"
  by (simp_all add: reply_def multilineReply_def)

lemma on_sess_simps [simp]:
  "sess (on_sess f S) = f (sess S)" "tree (on_sess f S) = tree S" "chan (on_sess f S) = chan S"
  "net (on_sess f S) = net S" "nextId (on_sess f S) = nextId S"
  by (simp_all add: on_sess_def)

lemma set_name_simps [simp]:
  "sess (set_name n S) = sess S" "tree (set_name n S) = tree S" "chan (set_name n S) = chan S" "net (set_name n S) = net S"
  "nextId (set_name n S) = nextId S"
  by (simp_all add: set_name_def split: option.split)

lemma clearDataState_simps [simp]:
  "sess (clearDataState S) = (sess S)\<lparr>pendingDataSocket := None, pendingPeerAddr := zero_addr, dataChannelMode := NoChannel\<rparr>"
  "tree (clearDataState S) = tree S" "chan (clearDataState S) = chan S" "net (clearDataState S) = net S"
  "nextId (clearDataState S) = nextId S"
  by (cases "pendingDataSocket (sess S)"; simp add: clearDataState_def Let_def)+

lemma joinCompletedTransfer_simps [simp]:
  "sess (joinCompletedTransfer S) = (sess S)\<lparr>transferWorker := (if transferActive (sess S) then transferWorker (sess S) else None)\<rparr>"
  "tree (joinCompletedTransfer S) = tree S" "chan (joinCompletedTransfer S) = chan S" "net (joinCompletedTransfer S) = net S"
  "nextId (joinCompletedTransfer S) = nextId S"
  by (cases "transferActive (sess S)"; cases "transferWorker (sess S)"; simp add: joinCompletedTransfer_def)+

lemma remove_simps [simp]:
  "sess (remove_if b p S) = sess S" "chan (remove_if b p S) = chan S" "net (remove_if b p S) = net S"
  "sess (remove_opt q S) = sess S" "chan (remove_opt q S) = chan S" "net (remove_opt q S) = net S"
  "nextId (remove_if b p S) = nextId S" "nextId (remove_opt q S) = nextId S"
  by (simp_all add: remove_if_def remove_opt_def remove_path_def split: option.split)

lemma sessionReply_simps [simp]:
  "sess (sessionReply code msg S) = sess S" "tree (sessionReply code msg S) = tree S" "net (sessionReply code msg S) = net S"
  "ctlSocket (sess S) \<noteq> None \<Longrightarrow> chan (sessionReply code msg S) = replyWithCode code msg (chan S)"
  "nextId (sessionReply code msg S) = nextId S"
  by (simp_all add: sessionReply_def)

lemma seen_abort_simps [simp]:
  "sess (seen_abort b S) = (sess S)\<lparr>abortRequested := abortRequested (sess S) \<or> b\<rparr>" "tree (seen_abort b S) = tree S"
  "chan (seen_abort b S) = chan S" "net (seen_abort b S) = net S" "nextId (seen_abort b S) = nextId S"
  by (simp_all add: seen_abort_def)

section \<open>Texts without line feeds\<close>

text \<open>
  What the surroundings promise: no name of a canonical path, no digest and no time has a line feed.
\<close>

definition clean_name :: "fspath \<Rightarrow> bool" where
  "clean_name p \<longleftrightarrow> (\<forall>c \<in> set (pathComps p). LF \<notin> set c)"

definition clean :: "surroundings \<Rightarrow> bool" where
  "clean X \<longleftrightarrow> (\<forall>p q. canonical (paths X) p = Some q \<longrightarrow> clean_name q) \<and>
     (\<forall>bs. LF \<notin> set (sha256_of X bs)) \<and> (\<forall>t. LF \<notin> set (formatMdtm X t))"

definition good_result :: "Result \<Rightarrow> bool" where
  "good_result r \<longleftrightarrow> reply_code (rCode r) \<and> LF \<notin> set (rMessage r)"

lemma good_result_intros [simp]:
  "good_result (res_ok c m) \<longleftrightarrow> reply_code c \<and> LF \<notin> set m" "good_result (res_no c m) \<longleftrightarrow> reply_code c \<and> LF \<notin> set m"
  by (simp_all add: good_result_def res_ok_def res_no_def)

lemma codes [simp]:
  "reply_code 150" "reply_code 200" "reply_code 211" "reply_code 213" "reply_code 214" "reply_code 220" "reply_code 221"
  "reply_code 226" "reply_code 227" "reply_code 230" "reply_code 250" "reply_code 257" "reply_code 331" "reply_code 350"
  "reply_code 425" "reply_code 426" "reply_code 500" "reply_code 503" "reply_code 504" "reply_code 530" "reply_code 550"
  "reply_code 553"
  by (simp_all add: reply_code_def)

lemma resolve_clean: "clean X \<Longrightarrow> resolve_in (paths X) cur input = Some p \<Longrightarrow> clean_name p"
  by (auto simp: clean_def resolve_def split: option.splits if_splits)

lemma filename_clean: "clean_name p \<Longrightarrow> LF \<notin> set (filename p)"
  by (simp add: clean_name_def filename_def)

lemma join_with_clean: "x \<noteq> LF \<Longrightarrow> \<forall>c \<in> set cs. LF \<notin> set c \<Longrightarrow> LF \<notin> set (join_with x cs)"
  by (induction cs rule: induct_list012) auto

lemma drop_common_subset: "drop_common xs ys = (as, bs) \<Longrightarrow> set as \<subseteq> set xs"
  by (induction xs ys rule: drop_common.induct) (auto split: if_splits)

lemma lexically_relative_clean: "clean_name p \<Longrightarrow> LF \<notin> set (generic_string (lexically_relative p b))"
proof -
  assume p: "clean_name p"
  obtain as bs where d: "drop_common (pathComps p) (pathComps b) = (as, bs)" by fastforce
  have "\<forall>c \<in> set as. LF \<notin> set c" using p drop_common_subset [OF d] by (auto simp: clean_name_def)
  then have "\<forall>c \<in> set (pathComps (lexically_relative p b)). LF \<notin> set c"
    using d by (auto simp: lexically_relative_def rel_path_def Let_def)
  moreover have "rootName (lexically_relative p b) = []" using d by (auto simp: lexically_relative_def rel_path_def Let_def)
  ultimately show ?thesis using join_with_clean [of "CHR ''/''"] by (simp add: path_text_def)
qed

lemma printWorkingDir_good: "clean X \<Longrightarrow> printWorkingDir (paths X) cur = Returns r \<Longrightarrow> good_result r"
  using lexically_relative_clean
  by (auto simp: printWorkingDir_def fs_relative_def Let_def clean_def quoted_def split: option.splits outcome.splits if_splits)

lemma changeDir_good: "clean X \<Longrightarrow> changeDir (paths X) cur t st = Returns (r, cur', st') \<Longrightarrow> good_result r"
  by (auto simp: changeDir_def filename_clean dest!: resolve_clean split: option.splits outcome.splits bool.splits)

lemma changeToParent_good: "clean X \<Longrightarrow> changeToParent (paths X) cur = (r, cur') \<Longrightarrow> good_result r"
  by (auto simp: changeToParent_def filename_clean dest!: resolve_clean split: option.splits)

lemma makeDir_good: "clean X \<Longrightarrow> makeDir (paths X) cur n st = Returns (r, st') \<Longrightarrow> good_result r"
  by (auto simp: makeDir_def filename_clean quoted_def dest!: resolve_clean split: option.splits outcome.splits bool.splits prod.splits if_splits)

lemma removeDir_good: "removeDir E cur n st = Returns (r, st') \<Longrightarrow> good_result r"
  by (auto simp: removeDir_def split: option.splits outcome.splits bool.splits prod.splits if_splits)

lemma deleteFile_good: "deleteFile E cur n st = (r, st') \<Longrightarrow> good_result r"
  by (auto simp: deleteFile_def Let_def split: option.splits bool.splits prod.splits if_splits)

lemma renameFrom_good: "renameFrom E cur n pend st = (r, pend', st') \<Longrightarrow> good_result r"
  by (auto simp: renameFrom_def split: option.splits prod.splits)

lemma renameTo_good: "renameTo E cur pend n st = (r, st') \<Longrightarrow> good_result r"
  by (auto simp: renameTo_def split: option.splits prod.splits bool.splits)

lemmas results_good = printWorkingDir_good changeDir_good changeToParent_good makeDir_good removeDir_good deleteFile_good
  renameFrom_good renameTo_good

lemma answered_result: "good_result r \<Longrightarrow> answered b (chan S) (chan (reply_result r S))"
  by (auto simp: reply_result_def good_result_def)

lemma to_string_clean: "LF \<notin> set (to_string n)"
  by (rule no_LF_to_string)

section \<open>Every handler answers\<close>

lemma answered_two [intro!]:
  "LF \<notin> set msg \<Longrightarrow> answered True c (replyWithCode 425 msg (replyWithCode 150 ''Opening data connection.'' c))"
  unfolding answered_def by blast

lemma startDownloadTransfer_answered:
  assumes "ctlSocket (sess S) \<noteq> None"
  shows "answered True (chan S) (chan (startDownloadTransfer X src S))"
proof -
  let ?J = "joinCompletedTransfer S"
  let ?passive = "dataChannelMode (sess ?J) = Passive"
  obtain t w where tw: "(if ?passive then sv_RdtSender_existing (pendingDataSocket (sess ?J) \<noteq> None) DEFAULT_TIMEOUT_MS (net ?J)
     else sv_RdtSender_target (inet_pton_of X) (dotted (sin_addr (pendingPeerAddr (sess ?J))))
            (sin_port (pendingPeerAddr (sess ?J))) DEFAULT_TIMEOUT_MS (net ?J)) = (t, w)" by fastforce
  show ?thesis
  proof (cases "dataChannelMode (sess S) = NoChannel")
    case True
    then show ?thesis using assms by (auto simp: startDownloadTransfer_def)
  next
    case False
    then show ?thesis using assms
      unfolding startDownloadTransfer_def Let_def tw by (auto simp: Let_def)
  qed
qed

lemma startUploadTransfer_answered:
  assumes "ctlSocket (sess S) \<noteq> None"
  shows "answered True (chan S) (chan (startUploadTransfer X dest kind name S))"
proof -
  obtain staging st where g: "(if kind = Append then createSiblingTemporaryPath dest (tree S) else (None, tree S)) = (staging, st)"
    by fastforce
  let ?J = "joinCompletedTransfer (S\<lparr>tree := st\<rparr>)"
  let ?passive = "dataChannelMode (sess ?J) = Passive"
  obtain t w where tw: "(if ?passive then sv_RdtReceiver_existing (pendingDataSocket (sess ?J) \<noteq> None) (net ?J)
     else sv_RdtReceiver_listen (net ?J)) = (t, w)" by fastforce
  show ?thesis
  proof (cases "dataChannelMode (sess S) = NoChannel \<or> kind = Append \<and> staging = None")
    case True
    then show ?thesis using assms unfolding startUploadTransfer_def g by (auto simp: Let_def)
  next
    case False
    then show ?thesis using assms
      unfolding startUploadTransfer_def g Let_def prod.case tw by auto
  qed
qed

subsection \<open>The worker\<close>

text \<open>What a worker leaves of the session, and its one reply if nobody asked for an abort.\<close>

definition worker_left :: "server \<Rightarrow> server \<Rightarrow> bool" where
  "worker_left S S' \<longleftrightarrow>
     (\<exists>b u. sess S' = (sess S)\<lparr>abortRequested := abortRequested (sess S) \<or> b, transferActive := False, pendingUniqueFilename := u\<rparr>) \<and>
     nextId S' = nextId S \<and>
     (if abortRequested (sess S) \<or> ctlSocket (sess S) = None then chan S' = chan S
      else chan S' = chan S \<or> (\<exists>ok msg. chan S' = replyWithCode (if ok then 226 else 426) msg (chan S)))"

lemma finishTransfer_left:
  assumes "sess S1 = (sess S)\<lparr>abortRequested := abortRequested (sess S) \<or> b\<rparr>" "chan S1 = chan S" "nextId S1 = nextId S"
  shows "worker_left S (finishTransfer ok msg S1)"
    "worker_left S (on_sess (pendingUniqueFilename_update (\<lambda>_. [])) (finishTransfer ok msg S1))"
proof -
  let ?f = "finishTransfer ok msg S1"
  have s: "sess ?f = (sess S)\<lparr>abortRequested := abortRequested (sess S) \<or> b, transferActive := False\<rparr>"
    using assms(1) by (simp add: finishTransfer_def)
  have n: "nextId ?f = nextId S" using assms(3) by (simp add: finishTransfer_def)
  have c: "if abortRequested (sess S) \<or> ctlSocket (sess S) = None then chan ?f = chan S
      else chan ?f = chan S \<or> (\<exists>ok msg. chan ?f = replyWithCode (if ok then 226 else 426) msg (chan S))"
    using assms(1,2) by (auto simp: finishTransfer_def)
  show "worker_left S ?f"
    unfolding worker_left_def s n
    by (intro conjI exI [of _ b] exI [of _ "pendingUniqueFilename (sess S)"]) (simp, simp, rule c)
  show "worker_left S (on_sess (pendingUniqueFilename_update (\<lambda>_. [])) ?f)"
    unfolding worker_left_def on_sess_simps s n
    by (intro conjI exI [of _ b] exI [of _ "[]"]) (simp, simp, rule c)
qed

text \<open>The shape of what a worker ends with: its reply, after what it did to the disk.\<close>

lemma run_download_outcome:
  assumes "run_download X src mode passive t S = Some S'"
  obtains ok msg b w F where "S' = finishTransfer ok msg (seen_abort b (S\<lparr>net := w, tree := (tree S)\<lparr>disk := F\<rparr>\<rparr>))"
    "F = disk (tree S) \<or> (\<exists>t1 w1 res t2. sv_sendFile (sha256_of X) True (native src) mode t1 w1 (disk (tree S)) = Some (res, t2, w, F))"
proof -
  obtain ready t1 w1 where r: "(if \<not> passive then Some (True, sv_sender_setAbortPredicate True t, net S)
      else waitForClientReady (sv_sender_setAbortPredicate True t) (net S)) = Some (ready, t1, w1)"
    using assms by (auto simp: run_download_def Let_def split: option.splits)
  obtain ab w2 where a: "(if ready then isAbortRequested True w1 else (True, w1)) = (ab, w2)" by fastforce
  obtain result t2 w3 F where f: "(if ready \<and> \<not> ab then sv_sendFile (sha256_of X) True (native src) mode t1 w2 (disk (tree S))
      else Some (\<lparr>success = False, sha256 = []\<rparr>, t1, w2, disk (tree S))) = Some (result, t2, w3, F)"
    using assms unfolding run_download_def Let_def r option.case prod.case a by (auto split: option.splits)
  have "S' = finishTransfer (success result) (transferCompleteMessage (if mode = Binary then sha256 result else []) [] [])
      (seen_abort (ready \<and> ab) (S\<lparr>net := w3, tree := (tree S)\<lparr>disk := F\<rparr>\<rparr>))"
    using assms unfolding run_download_def Let_def r option.case prod.case a f by simp
  then show thesis by (rule that) (use f in \<open>auto split: if_splits\<close>)
qed

lemma run_download_left:
  assumes "run_download X src mode passive t S = Some S'"
  shows "worker_left S S'"
proof -
  obtain ok msg b w F where "S' = finishTransfer ok msg (seen_abort b (S\<lparr>net := w, tree := (tree S)\<lparr>disk := F\<rparr>\<rparr>))"
    by (rule run_download_outcome [OF assms]) (rule that)
  then show ?thesis using finishTransfer_left(1) [of "seen_abort b (S\<lparr>net := w, tree := (tree S)\<lparr>disk := F\<rparr>\<rparr>)" S b] by simp
qed

lemma run_upload_outcome:
  assumes "run_upload X dest staging mode passive peer kind name t S = Some S'"
  obtains ok msg b w F st c rp where
    "S' = on_sess (pendingUniqueFilename_update (\<lambda>_. [])) (finishTransfer ok msg
       (remove_if c (native dest) (remove_opt staging (seen_abort b (S\<lparr>net := w, tree := st\<rparr>)))))"
    "rp = (case staging of Some p \<Rightarrow> if kind = Append then p else native dest | None \<Rightarrow> native dest)"
    "F = disk (tree S) \<or> (\<exists>t1 w1 good t2 w2. sv_receiveFile (absolute_of X) True rp mode t1 w1 (disk (tree S)) = Some (good, t2, w2, F))"
    "st = (tree S)\<lparr>disk := F\<rparr> \<or> (\<exists>ok2 h g. finish_append X dest rp mode ((tree S)\<lparr>disk := F\<rparr>) = (ok2, h, g, st))"
proof -
  obtain ready t1 w1 where r: "(if passive then Some (True, sv_setAbortPredicate True t, net S)
      else sv_initiateActiveHandshake peer (sv_setAbortPredicate True t) (net S)) = Some (ready, t1, w1)"
    using assms by (auto simp: run_upload_def Let_def split: option.splits)
  obtain ab w2 where a: "(if ready then isAbortRequested True w1 else (True, w1)) = (ab, w2)" by fastforce
  define rp where "rp = (case staging of Some p \<Rightarrow> if kind = Append then p else native dest | None \<Rightarrow> native dest)"
  obtain ok t2 w3 F where f: "(if ready \<and> \<not> ab then sv_receiveFile (absolute_of X) True rp mode t1 w2 (disk (tree S))
      else Some (False, t1, w2, disk (tree S))) = Some (ok, t2, w3, F)"
    using assms unfolding run_upload_def Let_def r option.case prod.case a rp_def [symmetric] by (auto split: option.splits)
  obtain ab2 w4 where a2: "(if ok \<and> kind = Append then isAbortRequested True w3 else (False, w3)) = (ab2, w4)" by fastforce
  let ?S2 = "seen_abort (ready \<and> ab \<or> ab2) (S\<lparr>tree := (tree S)\<lparr>disk := F\<rparr>, net := w4\<rparr>)"
  obtain ok2 h g st where p: "(if ok \<and> kind = Append \<and> \<not> ab2 then finish_append X dest rp mode (tree ?S2) else (ok, [], [], tree ?S2)) = (ok2, h, g, st)"
    by (metis prod_cases4)
  let ?S4 = "remove_if (\<not> ok2 \<and> kind = Unique) (native dest) (remove_opt staging (?S2\<lparr>tree := st\<rparr>))"
  let ?h = "if ok2 \<and> mode = Binary \<and> kind \<noteq> Append then hash_path X (native dest) (tree ?S4) else h"
  have "?S2\<lparr>tree := st\<rparr> = seen_abort (ready \<and> ab \<or> ab2) (S\<lparr>net := w4, tree := st\<rparr>)" by (simp add: seen_abort_def on_sess_def)
  then have "S' = on_sess (pendingUniqueFilename_update (\<lambda>_. [])) (finishTransfer ok2 (transferCompleteMessage ?h name g)
      (remove_if (\<not> ok2 \<and> kind = Unique) (native dest) (remove_opt staging (seen_abort (ready \<and> ab \<or> ab2) (S\<lparr>net := w4, tree := st\<rparr>)))))"
    using assms unfolding run_upload_def Let_def r option.case prod.case a rp_def [symmetric] f a2 p by simp
  moreover have "F = disk (tree S) \<or> (\<exists>t1 w1 good t2 w2. sv_receiveFile (absolute_of X) True rp mode t1 w1 (disk (tree S)) = Some (good, t2, w2, F))"
    using f by (auto split: if_splits)
  moreover have "st = (tree S)\<lparr>disk := F\<rparr> \<or> (\<exists>ok2 h g. finish_append X dest rp mode ((tree S)\<lparr>disk := F\<rparr>) = (ok2, h, g, st))"
    using p by (auto split: if_splits)
  ultimately show thesis by (rule that [OF _ rp_def])
qed

lemma run_upload_left:
  assumes "run_upload X dest staging mode passive peer kind name t S = Some S'"
  shows "worker_left S S'"
proof -
  obtain ok msg b w st c where "S' = on_sess (pendingUniqueFilename_update (\<lambda>_. [])) (finishTransfer ok msg
       (remove_if c (native dest) (remove_opt staging (seen_abort b (S\<lparr>net := w, tree := st\<rparr>)))))"
    by (rule run_upload_outcome [OF assms]) (rule that)
  then show ?thesis
    using finishTransfer_left(2) [of "remove_if c (native dest) (remove_opt staging (seen_abort b (S\<lparr>net := w, tree := st\<rparr>)))" S b]
    by simp
qed

lemma run_worker_left:
  assumes "run_worker X S = Some S'"
  shows "S' = S \<or> (\<exists>S1. worker_left S S1 \<and> S' = on_sess (transferWorker_update (\<lambda>_. Some WorkerDone)) S1)"
  using assms
  by (auto simp: run_worker_def dest!: run_download_left run_upload_left split: option.splits worker.splits)

text \<open>Once an abort is requested, a worker that is joined says nothing more.\<close>

lemma join_worker_aborted:
  assumes "join_worker X S = Some S'" "abortRequested (sess S)"
  shows "chan S' = chan S" "ctlSocket (sess S') = ctlSocket (sess S)"
proof -
  have "chan S' = chan S \<and> ctlSocket (sess S') = ctlSocket (sess S)"
  proof (cases "transferWorker (sess S) = None")
    case False
    then obtain S1 where S1: "run_worker X S = Some S1" "S' = on_sess (transferWorker_update (\<lambda>_. None)) S1"
      using assms(1) by (auto simp: join_worker_def)
    have "chan S1 = chan S \<and> ctlSocket (sess S1) = ctlSocket (sess S)"
      using run_worker_left [OF S1(1)] assms(2) by (auto simp: worker_left_def)
    with S1(2) show ?thesis by simp
  qed (use assms(1) in \<open>simp add: join_worker_def\<close>)
  then show "chan S' = chan S" "ctlSocket (sess S') = ctlSocket (sess S)" by simp_all
qed

subsection \<open>The handlers\<close>

definition clean_args :: "string list \<Rightarrow> bool" where
  "clean_args args \<longleftrightarrow> (\<forall>a \<in> set args. LF \<notin> set a)"

definition answers :: "bool \<Rightarrow> handler \<Rightarrow> bool" where
  "answers b h \<longleftrightarrow> (\<forall>X args S S'. clean X \<longrightarrow> clean_args args \<longrightarrow> ctlSocket (sess S) \<noteq> None \<longrightarrow>
     h X args S = Some (Returns S') \<longrightarrow> answered b (chan S) (chan S'))"

lemma answersI:
  assumes "\<And>X args S S'. \<lbrakk>clean X; clean_args args; ctlSocket (sess S) \<noteq> None; h X args S = Some (Returns S')\<rbrakk> \<Longrightarrow>
    answered b (chan S) (chan S')"
  shows "answers b h"
  using assms by (auto simp: answers_def)

lemma answers_USER: "answers b cmd_USER"
  by (rule answersI) (auto simp: cmd_USER_def Let_def split: if_splits option.splits)

lemma answers_PASS: "answers b cmd_PASS"
  by (rule answersI) (auto simp: cmd_PASS_def Let_def split: if_splits)

lemma answers_QUIT: "answers b cmd_QUIT"
  by (rule answersI) (auto simp: cmd_QUIT_def Let_def)

lemma answers_NOOP: "answers b cmd_NOOP"
  by (rule answersI) (auto simp: cmd_NOOP_def)

lemma answered_result_at: "good_result r \<Longrightarrow> chan S1 = chan S \<Longrightarrow> answered b (chan S) (chan (reply_result r S1))"
  using answered_result [of r b S1] by simp

lemma answers_PWD: "answers b cmd_PWD"
  by (rule answersI) (auto simp: cmd_PWD_def split: outcome.splits intro!: answered_result_at dest: results_good)

lemma answers_CWD: "answers b cmd_CWD"
  by (rule answersI) (auto simp: cmd_CWD_def split: outcome.splits prod.splits intro!: answered_result_at dest: results_good)

lemma answers_CDUP: "answers b cmd_CDUP"
  by (rule answersI) (auto simp: cmd_CDUP_def split: prod.splits intro!: answered_result_at dest: results_good)

lemma answers_MKD: "answers b cmd_MKD"
  by (rule answersI) (auto simp: cmd_MKD_def split: outcome.splits prod.splits intro!: answered_result_at dest: results_good)

lemma answers_RMD: "answers b cmd_RMD"
  by (rule answersI) (auto simp: cmd_RMD_def split: outcome.splits prod.splits intro!: answered_result_at dest: results_good)

lemma answers_DELE: "answers b cmd_DELE"
  by (rule answersI) (auto simp: cmd_DELE_def split: prod.splits intro!: answered_result_at dest: results_good)

lemma answers_RNFR: "answers b cmd_RNFR"
  by (rule answersI) (auto simp: cmd_RNFR_def split: prod.splits intro!: answered_result_at dest: results_good)

lemma answers_RNTO: "answers b cmd_RNTO"
  by (rule answersI) (auto simp: cmd_RNTO_def split: prod.splits if_splits intro!: answered_result_at dest: results_good)

lemma answers_listing:
  assumes "LF \<notin> set usage"
  shows "answers b (list_command usage namesOnly)"
  by (rule answersI) (use assms in \<open>auto simp: list_command_def split: if_splits outcome.splits option.splits prod.splits\<close>)

lemma answers_LIST: "answers b cmd_LIST" and answers_NLST: "answers b cmd_NLST"
  unfolding cmd_LIST_def cmd_NLST_def by (rule answers_listing, simp)+

lemma answers_STAT: "answers b cmd_STAT"
  by (rule answersI) (auto simp: cmd_STAT_def clean_args_def to_string_clean split: list.splits prod.splits option.splits if_splits)

lemma answers_SIZE: "answers b cmd_SIZE"
  by (rule answersI) (auto simp: cmd_SIZE_def about_file_def to_string_clean split: list.splits prod.splits option.splits if_splits)

lemma answers_MDTM: "answers b cmd_MDTM"
  by (rule answersI) (auto simp: cmd_MDTM_def about_file_def clean_def split: list.splits prod.splits option.splits if_splits)

lemma print_ints_clean: "LF \<notin> set (print_ints (CHR '','') vs)"
  by (induction "CHR '',''" vs rule: print_ints.induct) (auto simp: to_string_clean)

lemma answers_PASV: "answers b cmd_PASV"
  by (rule answersI) (auto simp: cmd_PASV_def Let_def formatPasvReply_def print_ints_clean split: prod.splits option.splits)

lemma answers_PORT: "answers b cmd_PORT"
  by (rule answersI) (auto simp: cmd_PORT_def Let_def split: if_splits option.splits)

lemma startDownload_at: "ctlSocket (sess S1) \<noteq> None \<Longrightarrow> chan S1 = chan S \<Longrightarrow> answered True (chan S) (chan (startDownloadTransfer X p S1))"
  using startDownloadTransfer_answered [of S1 X p] by simp

lemma startUpload_at: "ctlSocket (sess S1) \<noteq> None \<Longrightarrow> chan S1 = chan S \<Longrightarrow> answered True (chan S) (chan (startUploadTransfer X p k n S1))"
  using startUploadTransfer_answered [of S1 X p k n] by simp

lemma answers_RETR: "answers True cmd_RETR"
  by (rule answersI) (auto simp: cmd_RETR_def split: if_splits option.splits prod.splits intro!: startDownload_at)

lemma answers_STOR: "answers True cmd_STOR"
  by (rule answersI) (auto simp: cmd_STOR_def split: if_splits option.splits prod.splits intro!: startUpload_at)

lemma answers_STOU: "answers True cmd_STOU"
  by (rule answersI) (auto simp: cmd_STOU_def split: if_splits option.splits prod.splits intro!: startUpload_at)

lemma answers_APPE: "answers True cmd_APPE"
  by (rule answersI) (auto simp: cmd_APPE_def split: if_splits option.splits prod.splits intro!: startUpload_at)

lemma hash_path_clean: "clean X \<Longrightarrow> LF \<notin> set (hash_path X p st)"
  by (auto simp: hash_path_def clean_def split: option.splits)

lemma answers_HASH: "answers b cmd_HASH"
  by (rule answersI) (auto simp: cmd_HASH_def Let_def hash_path_clean split: list.splits if_splits option.splits outcome.splits prod.splits bool.splits)

lemma answers_TYPE: "answers b cmd_TYPE"
  by (rule answersI) (auto simp: cmd_TYPE_def Let_def split: if_splits)

lemma answers_MODE: "answers b cmd_MODE"
  by (rule answersI) (auto simp: cmd_MODE_def Let_def split: if_splits)

lemma answers_ABOR: "answers b cmd_ABOR"
proof (rule answersI)
  fix X args S S'
  assume h: "ctlSocket (sess S) \<noteq> None" "cmd_ABOR X args S = Some (Returns S')"
  show "answered b (chan S) (chan S')"
  proof (cases "args = [] \<and> transferActive (sess S)")
    case True
    then obtain S1 where j: "join_worker X (on_sess (abortRequested_update (\<lambda>_. True)) S) = Some S1"
      "S' = sessionReply 426 ''Transfer aborted.'' (clearDataState (on_sess (transferActive_update (\<lambda>_. False)) S1))"
      using h(2) by (auto simp: cmd_ABOR_def split: option.splits)
    with join_worker_aborted [OF j(1)] h(1) show ?thesis by auto
  next
    case False
    with h show ?thesis by (auto simp: cmd_ABOR_def split: if_splits)
  qed
qed

lemma answers_HELP: "answers b cmd_HELP"
  by (rule answersI) (auto simp: cmd_HELP_def clean_args_def split: list.splits option.splits)

lemmas answers_all = answers_USER answers_PASS answers_QUIT answers_NOOP answers_PWD answers_CWD answers_CDUP answers_MKD
  answers_RMD answers_LIST answers_NLST answers_STAT answers_SIZE answers_MDTM answers_DELE answers_RNFR answers_RNTO
  answers_PASV answers_PORT answers_RETR answers_STOR answers_STOU answers_APPE answers_HASH answers_TYPE answers_MODE
  answers_ABOR answers_HELP

text \<open>The commands that start a transfer.\<close>

definition transfer_commands :: "string list" where
  "transfer_commands = [''RETR'', ''STOR'', ''STOU'', ''APPE'']"

lemma commandMap_answers: "map_of commandMap t = Some h \<Longrightarrow> answers (t \<in> set transfer_commands) h"
proof -
  assume "map_of commandMap t = Some h"
  then have "(t, h) \<in> set commandMap" by (rule map_of_SomeD)
  then show ?thesis using answers_all by (auto simp: commandMap_def transfer_commands_def)
qed

end
