(* ===== verification/Server_Loop.thy ===== *)
theory Server_Loop
  imports Server_Replies
begin

text \<open>
  \<^verbatim>\<open>handleClient\<close> and \<^verbatim>\<open>initializeSession\<close> of \<^verbatim>\<open>server/src/control/Session.cpp\<close>: the life of a session, and the proof that
  it is the execution of the lines the client sends, one after the other, however they arrive.
\<close>

section \<open>The loop over the input\<close>

text \<open>One complete line, without its line feed.\<close>

definition handle_line :: "surroundings \<Rightarrow> string \<Rightarrow> server \<Rightarrow> handler_result" where
  "handle_line X raw S =
     (let cmd = parseCommand (strip_cr raw)
      in if cmdType cmd = [] then finished (reply 500 [] S) else executeCommand X cmd S)"

text \<open>
  The loop: every line in the buffer is handled before more is received. \<open>input\<close> are the pieces
  \<^verbatim>\<open>recv\<close> finds; \<open>env n\<close> are the surroundings of command number \<open>n\<close>. The loop ends when the connection
  does, or when a command closed the socket.
\<close>

definition input_size :: "string \<Rightarrow> string list \<Rightarrow> nat" where
  "input_size buf input = length buf + length (concat input) + length input"

definition receive_from :: "string list \<Rightarrow> server \<Rightarrow> string option \<times> string list" where
  "receive_from input S =
     (case tcp_recv 511 ((chan S)\<lparr>fromPeer := input\<rparr>) of (piece, c) \<Rightarrow> (piece, fromPeer c))"

lemma receive_from_less:
  assumes "receive_from input S = (Some piece, input')"
  shows "piece @ concat input' = concat input" "piece \<noteq> []" "length piece + length (concat input') + length input' \<le> length (concat input) + length input"
proof -
  obtain c where c: "tcp_recv 511 ((chan S)\<lparr>fromPeer := input\<rparr>) = (Some piece, c)" "input' = fromPeer c"
    using assms by (auto simp: receive_from_def split: prod.splits)
  from tcp_recv_less [OF c(1)] c(2) show "piece @ concat input' = concat input" "piece \<noteq> []"
    "length piece + length (concat input') + length input' \<le> length (concat input) + length input"
    by (simp_all add: tcp_pending_def)
qed

function serve :: "(nat \<Rightarrow> surroundings) \<Rightarrow> nat \<Rightarrow> string \<Rightarrow> string list \<Rightarrow> server \<Rightarrow> handler_result" where
  "serve env n inBuffer input S =
     (case cut_line inBuffer of
        Some (raw, rest) \<Rightarrow>
          (case handle_line (env n) raw S of
             None \<Rightarrow> None
           | Some Terminates \<Rightarrow> Some Terminates
           | Some (Returns S1) \<Rightarrow>
               if ctlSocket (sess S1) = None then finished S1 else serve env (Suc n) rest input S1)
      | None \<Rightarrow>
          (case receive_from input S of
             (None, input1) \<Rightarrow> finished S
           | (Some piece, input1) \<Rightarrow> serve env n (inBuffer @ piece) input1 S))"
  by pat_completeness auto
termination
proof (relation "measures [\<lambda>(env, n, buf, input, S). length buf + length (concat input) + length input,
    \<lambda>(env, n, buf, input, S). length (concat input) + length input]", goal_cases)
  case (2 env n buf input S q input1 piece)
  have "length piece + length (concat input1) + length input1 \<le> length (concat input) + length input" "piece \<noteq> []"
    using receive_from_less [of input S piece input1] 2 by auto
  then show ?case by (cases piece) auto
next
  case 3
  then show ?case using cut_line_less by fastforce
qed simp

declare serve.simps [simp del]

section \<open>Sessions\<close>

definition new_session :: "SOCKET \<Rightarrow> fspath \<Rightarrow> sockaddr_in \<Rightarrow> ClientSession" where
  "new_session k start peer =
     \<lparr>ctlSocket = Some k, authenticated = False, transferMode = Binary, username = [], currentDir = start,
      dataChannelMode = NoChannel, pendingDataSocket = None, pendingPeerAddr = zero_addr, controlPeerAddr = peer,
      pendingRenameSource = empty_path, hasPendingRename = False, transferActive = False, abortRequested = False,
      transferWorker = None, pendingUniqueFilename = []\<rparr>"

definition peer_text :: "sockaddr_in \<Rightarrow> string" where
  "peer_text a = dotted (sin_addr a) @ '':'' @ to_string (unat (sin_port a))"

text \<open>The beginning of \<^verbatim>\<open>handleClient\<close>, until the greeting is sent.\<close>

definition begin_session :: "surroundings \<Rightarrow> SOCKET \<Rightarrow> sockaddr_in \<Rightarrow> server \<Rightarrow> server" where
  "begin_session X k peer S =
     reply 220 ''Service ready.'' (S\<lparr>sess := new_session k (serverRoot (paths X)) peer,
       clients := addClient k (peer_text peer) (clients S)\<rparr>)"

text \<open>Its end: the session is shut down, and the socket is closed unless a command closed it.\<close>

definition leave_session :: "surroundings \<Rightarrow> SOCKET \<Rightarrow> server \<Rightarrow> server option" where
  "leave_session X k S =
     map_option (\<lambda>S1. if ctlSocket (sess S) = None then S1 else S1\<lparr>closedSockets := closedSockets S1 @ [k]\<rparr>) (shutdownSession X S)"

text \<open>
  \<open>closing\<close> are the surroundings in which the session is shut down. The destructor of \<^verbatim>\<open>registryGuard\<close> runs
  last.
\<close>

definition handleClient ::
  "(nat \<Rightarrow> surroundings) \<Rightarrow> surroundings \<Rightarrow> SOCKET \<Rightarrow> sockaddr_in \<Rightarrow> string list \<Rightarrow> server \<Rightarrow> handler_result" where
  "handleClient env closing k peer input S =
     (case serve env 0 [] input (begin_session (env 0) k peer S) of
        None \<Rightarrow> None
      | Some Terminates \<Rightarrow> Some Terminates
      | Some (Returns S2) \<Rightarrow>
          (case leave_session closing k S2 of
             None \<Rightarrow> None
           | Some S3 \<Rightarrow> finished (S3\<lparr>clients := removeClient k (clients S3)\<rparr>)))"

text \<open>
  \<^verbatim>\<open>initializeSession\<close>: the listening socket, or none; \<^verbatim>\<open>WSAStartup\<close>, \<^verbatim>\<open>socket\<close>, \<^verbatim>\<open>bind\<close> and \<^verbatim>\<open>listen\<close> can fail, and then
  what was opened is closed again: the second result is the sockets that stay open, the third whether the
  socket library stays started, the fourth the port it reports.
\<close>

definition initializeSession :: "SOCKET \<Rightarrow> u16 \<Rightarrow> u16 \<Rightarrow> world \<Rightarrow> SOCKET option \<times> SOCKET list \<times> bool \<times> u16 option \<times> world" where
  "initializeSession k port bound w =
     (let (started, w1) = syscall w
      in if \<not> started then (None, [], False, None, w1)
         else let (created, w2) = syscall w1
           in if \<not> created then (None, [], False, None, w2)
              else let (bindOk, w3) = syscall w2
                in if \<not> bindOk then (None, [], False, None, w3)
                   else let (listening, w4) = syscall w3
                     in if \<not> listening then (None, [], False, None, w4)
                        else if port \<noteq> 0 then (Some k, [k], True, Some port, w4)
                        else let (named, w5) = syscall w4
                          in (Some k, [k], True, Some (if named then bound else port), w5))"

section \<open>The lines of the input\<close>

text \<open>The complete lines of a text.\<close>

function line_list :: "string \<Rightarrow> string list" where
  "line_list s = (case cut_line s of None \<Rightarrow> [] | Some (raw, rest) \<Rightarrow> raw # line_list rest)"
  by pat_completeness auto
termination
  by (relation "measure length") (auto dest: cut_line_less)

declare line_list.simps [simp del]

text \<open>Executing lines in order: what the loop is to do.\<close>

fun run_lines :: "(nat \<Rightarrow> surroundings) \<Rightarrow> nat \<Rightarrow> string list \<Rightarrow> server \<Rightarrow> handler_result" where
  "run_lines env n [] S = finished S"
| "run_lines env n (raw # lines) S =
     (case handle_line (env n) raw S of
        None \<Rightarrow> None
      | Some Terminates \<Rightarrow> Some Terminates
      | Some (Returns S1) \<Rightarrow> if ctlSocket (sess S1) = None then finished S1 else run_lines env (Suc n) lines S1)"

lemma answersD:
  "answers b h \<Longrightarrow> clean X \<Longrightarrow> clean_args args \<Longrightarrow> ctlSocket (sess S) \<noteq> None \<Longrightarrow> h X args S = Some (Returns S') \<Longrightarrow>
   answered b (chan S) (chan S')"
  unfolding answers_def by blast

lemma executeCommand_answered:
  assumes "clean X" "clean_args (cmdArgs cmd)" "LF \<notin> set (cmdType cmd)" "ctlSocket (sess S) \<noteq> None"
    "executeCommand X cmd S = Some (Returns S')"
  shows "answered (cmdType cmd \<in> set transfer_commands) (chan S) (chan S')"
proof (cases "\<not> authenticated (sess S) \<and> cmdType cmd \<notin> set open_commands \<or> transferActive (sess S) \<and> cmdType cmd \<noteq> ''ABOR''")
  case True
  with assms(4,5) show ?thesis by (auto simp: executeCommand_def split: if_splits)
next
  case False
  show ?thesis
  proof (cases "map_of commandMap (cmdType cmd)")
    case None
    with False assms(3,5) show ?thesis by (auto simp: executeCommand_def Let_def)
  next
    case (Some h)
    then have run: "h X (cmdArgs cmd) (joinCompletedTransfer S) = Some (Returns S')"
      using False assms(5) by (auto simp: executeCommand_def Let_def)
    from answersD [OF commandMap_answers [OF Some] assms(1,2) _ run] assms(4) show ?thesis by simp
  qed
qed

lemma word_no_LF: "is_word t \<Longrightarrow> LF \<notin> set t"
  by (auto simp: is_word_def is_space_def list_all_iff)

lemma parseCommand_clean: "clean_args (cmdArgs (parseCommand s))" "LF \<notin> set (cmdType (parseCommand s))"
proof -
  have w: "is_word t" if "t \<in> set (split_words (trim s))" for t using split_words_word that by blast
  have "LF \<notin> set (upper_string t)" if "is_word t" for t
  proof
    assume "LF \<in> set (upper_string t)"
    then obtain c where "c \<in> set t" "to_upper c = LF" by (auto simp: upper_string_def)
    moreover have "is_space LF" by (simp add: is_space_def)
    ultimately show False using that is_space_to_upper [of c] by (auto simp: is_word_def list_all_iff)
  qed
  with w word_no_LF show "clean_args (cmdArgs (parseCommand s))" "LF \<notin> set (cmdType (parseCommand s))"
    by (auto simp: parseCommand_def Let_def clean_args_def split: list.splits)
qed

lemma handle_line_answered:
  assumes "clean X" "ctlSocket (sess S) \<noteq> None" "handle_line X raw S = Some (Returns S')"
  shows "answered (cmdType (parseCommand (strip_cr raw)) \<in> set transfer_commands) (chan S) (chan S')"
proof (cases "cmdType (parseCommand (strip_cr raw)) = []")
  case True
  with assms(3) show ?thesis by (auto simp: handle_line_def)
next
  case False
  with executeCommand_answered [OF assms(1) parseCommand_clean assms(2)] assms(3) show ?thesis
    by (auto simp: handle_line_def Let_def)
qed

lemma answered_stays_calm: "answered b c c' \<Longrightarrow> calm c \<Longrightarrow> calm c'"
  using answered_calm [of b c c'] by (auto simp: calm_def)

section \<open>The loop and the lines\<close>

lemma line_list_cut: "LF \<notin> set raw \<Longrightarrow> line_list (raw @ LF # rest) = raw # line_list rest"
  by (simp add: line_list.simps [of "raw @ LF # rest"] cut_line_Some)

lemma line_list_none: "LF \<notin> set s \<Longrightarrow> line_list s = []"
  by (simp add: line_list.simps [of s] cut_line_def)

lemma receive_from_calm:
  assumes "calm (chan S)" "[] \<notin> set input"
  shows "receive_from input S = (None, []) \<and> input = [] \<or>
    (\<exists>piece input'. receive_from input S = (Some piece, input') \<and> [] \<notin> set input' \<and> input \<noteq> [])"
proof (cases input)
  case (Cons p ps)
  then show ?thesis using assms by (auto simp: receive_from_def tcp_recv_def calm_def)
qed (simp add: receive_from_def tcp_recv_def)

lemma cut_line_SomeD: "cut_line buf = Some (raw, rest) \<Longrightarrow> buf = raw @ LF # rest \<and> LF \<notin> set raw"
proof -
  assume h: "cut_line buf = Some (raw, rest)"
  then have "LF \<in> set buf" by (auto simp: cut_line_def split: if_splits)
  then obtain a b where ab: "buf = a @ LF # b" "LF \<notin> set a" by (meson split_list_first)
  with h cut_line_Some [OF ab(2), of b] show ?thesis by simp
qed

lemma serve_run_lines:
  "\<forall>k. clean (env k) \<Longrightarrow> calm (chan S) \<Longrightarrow> ctlSocket (sess S) \<noteq> None \<Longrightarrow> [] \<notin> set input \<Longrightarrow>
   serve env n buf input S = run_lines env n (line_list (buf @ concat input)) S"
proof (induction env n buf input S rule: serve.induct)
  case (1 env n buf input S)
  show ?case
  proof (cases "cut_line buf")
    case None
    then have noLF: "LF \<notin> set buf" by (auto simp: cut_line_def split: if_splits)
    from receive_from_calm [OF "1.prems"(2,4)] show ?thesis
    proof (elim disjE exE conjE)
      assume "receive_from input S = (None, [])" "input = []"
      with None noLF show ?thesis by (simp add: serve.simps [of env n buf] line_list_none)
    next
      fix piece input'
      assume r: "receive_from input S = (Some piece, input')" "[] \<notin> set input'"
      have "serve env n buf input S = serve env n (buf @ piece) input' S"
        using None r by (simp add: serve.simps [of env n buf])
      also have "\<dots> = run_lines env n (line_list ((buf @ piece) @ concat input')) S"
        using "1.IH"(1) [OF None r(1) [symmetric] refl "1.prems"(1-3) r(2)] r(1) by simp
      also have "(buf @ piece) @ concat input' = buf @ concat input" using receive_from_less(1) [OF r(1)] by simp
      finally show ?thesis .
    qed
  next
    case (Some p)
    obtain raw rest where p: "p = (raw, rest)" by fastforce
    note cut = cut_line_SomeD [OF Some [unfolded p]]
    have lines: "line_list (buf @ concat input) = raw # line_list (rest @ concat input)"
      using line_list_cut [of raw "rest @ concat input"] cut by simp
    show ?thesis
    proof (cases "handle_line (env n) raw S")
      case None
      with Some p lines show ?thesis by (simp add: serve.simps [of env n buf])
    next
      case (Some out)
      show ?thesis
      proof (cases out)
        case Terminates
        with Some \<open>cut_line buf = Some p\<close> p lines show ?thesis by (simp add: serve.simps [of env n buf])
      next
        case (Returns S1)
        have calm1: "calm (chan S1)"
          using handle_line_answered [OF _ "1.prems"(3), of "env n" raw S1] Some Returns "1.prems"(1,2) answered_stays_calm by blast
        show ?thesis
        proof (cases "ctlSocket (sess S1) = None")
          case True
          with Some Returns \<open>cut_line buf = Some p\<close> p lines show ?thesis by (simp add: serve.simps [of env n buf])
        next
          case False
          with "1.IH"(2) [OF \<open>cut_line buf = Some p\<close> p [symmetric] Some Returns False "1.prems"(1) calm1 False "1.prems"(4)]
            Some Returns \<open>cut_line buf = Some p\<close> p lines show ?thesis by (auto simp: serve.simps [of env n buf])
        qed
      qed
    qed
  qed
qed

text \<open>
  C17: however TCP cuts the stream, the session is the same. On a connection on which sending works, the
  loop of \<^verbatim>\<open>handleClient\<close> over any pieces of input does exactly what executing the complete lines of the
  whole text in order does; it returns, or waits for a transfer, or ends the program, exactly when that does.
\<close>

theorem serve_lines:
  assumes "\<forall>k. clean (env k)" "calm (chan S)" "ctlSocket (sess S) \<noteq> None" "[] \<notin> set input"
  shows "serve env n buf input S = run_lines env n (line_list (buf @ concat input)) S"
  using serve_run_lines [OF assms] .

section \<open>One answer per command\<close>

text \<open>An answer: one reply, or the announcement of a transfer and its withdrawal.\<close>

definition is_answer :: "string list \<Rightarrow> bool" where
  "is_answer ss \<longleftrightarrow> (\<exists>s. ss = [s] \<and> is_reply s) \<or>
     (\<exists>msg. LF \<notin> set msg \<and> ss = [reply_text 150 [''Opening data connection.''], reply_text 425 [msg]])"

lemma answered_is_answer:
  assumes "answered b c c'" "calm c"
  shows "\<exists>ss. is_answer ss \<and> c' = c\<lparr>toPeer := toPeer c @ concat ss\<rparr>"
proof (cases "one_reply c c'")
  case True
  then obtain s where "is_reply s" "c' = c\<lparr>toPeer := toPeer c @ s\<rparr>" using one_reply_calm assms(2) by blast
  then show ?thesis by (intro exI [of _ "[s]"]) (simp add: is_answer_def)
next
  case False
  then obtain msg where m: "LF \<notin> set msg" "c' = replyWithCode 425 msg (replyWithCode 150 ''Opening data connection.'' c)"
    using assms(1) by (auto simp: answered_def)
  have "calm (c\<lparr>toPeer := toPeer c @ reply_text 150 [''Opening data connection.'']\<rparr>)" using assms(2) by (simp add: calm_def)
  with m assms(2) show ?thesis
    by (intro exI [of _ "[reply_text 150 [''Opening data connection.''], reply_text 425 [msg]]"])
      (auto simp add: replyWithCode_calm is_answer_def simp del: reply_text.simps)
qed

lemma run_lines_answers:
  assumes "\<forall>k. clean (env k)"
  shows "calm (chan S) \<Longrightarrow> ctlSocket (sess S) \<noteq> None \<Longrightarrow> run_lines env n lines S = Some (Returns S') \<Longrightarrow>
    \<exists>answers. length answers \<le> length lines \<and> (ctlSocket (sess S') \<noteq> None \<longrightarrow> length answers = length lines) \<and>
      list_all is_answer answers \<and> chan S' = (chan S)\<lparr>toPeer := toPeer (chan S) @ concat (concat answers)\<rparr>"
proof (induction lines arbitrary: n S)
  case Nil
  then show ?case by (intro exI [of _ "[]"]) simp
next
  case (Cons raw lines)
  obtain S1 where S1: "handle_line (env n) raw S = Some (Returns S1)"
    "Some (Returns S') = (if ctlSocket (sess S1) = None then finished S1 else run_lines env (Suc n) lines S1)"
    using Cons.prems(3) by (auto split: option.splits outcome.splits)
  have ans: "answered (cmdType (parseCommand (strip_cr raw)) \<in> set transfer_commands) (chan S) (chan S1)" using handle_line_answered [OF _ Cons.prems(2) S1(1)] assms by blast
  obtain ss where ss: "is_answer ss" "chan S1 = (chan S)\<lparr>toPeer := toPeer (chan S) @ concat ss\<rparr>"
    using answered_is_answer [OF ans Cons.prems(1)] by blast
  show ?case
  proof (cases "ctlSocket (sess S1) = None")
    case True
    with S1(2) ss show ?thesis by (intro exI [of _ "[ss]"]) simp
  next
    case False
    with S1(2) have "run_lines env (Suc n) lines S1 = Some (Returns S')" by simp
    from Cons.IH [OF answered_stays_calm [OF ans Cons.prems(1)] False this] obtain answers where
      "length answers \<le> length lines" "ctlSocket (sess S') \<noteq> None \<longrightarrow> length answers = length lines"
      "list_all is_answer answers" "chan S' = (chan S1)\<lparr>toPeer := toPeer (chan S1) @ concat (concat answers)\<rparr>" by blast
    with ss show ?thesis by (intro exI [of _ "ss # answers"]) simp
  qed
qed


section \<open>Examples\<close>

text \<open>Surroundings for examples: a disk without links that takes no name with a line feed.\<close>

definition clean_places :: places where
  "clean_places = \<lparr>canonical = (\<lambda>p. if clean_name (lexically_normal p) then Some (lexically_normal p) else None),
     serverRoot = sample_root\<rparr>"

definition sample_surroundings :: surroundings where
  "sample_surroundings = \<lparr>paths = clean_places, sha256_of = (\<lambda>bs. ''ab''), inet_pton_of = sample_inet_pton, wide_int = (\<lambda>n. n),
     localIp = 0x7F000001, boundPort = 4000, newSocket = 9, absolute_of = Some, threadStarts = True,
     formatMdtm = (\<lambda>t. ''20240101000000'')\<rparr>"

lemma sample_clean: "clean sample_surroundings"
  by (simp add: clean_def sample_surroundings_def clean_places_def)

definition sample_server :: server where
  "sample_server = \<lparr>sess = new_session 7 sample_root zero_addr,
     chan = \<lparr>toPeer = [], sendResults = [], fromPeer = [], shut = False\<rparr>, clients = [], tree = sample_store [1],
     net = idle_world [], nextId = 1, closedSockets = []\<rparr>"

lemma sample_server_calm: "calm (chan sample_server)" "ctlSocket (sess sample_server) \<noteq> None"
  by (simp_all add: sample_server_def calm_def new_session_def)

theorem serve_lines_witness:
  "serve (\<lambda>_. sample_surroundings) 0 [] [''NO'', ''OP'' @ [CR], [LF] @ ''QU''] sample_server =
   serve (\<lambda>_. sample_surroundings) 0 [] [''NOOP'' @ [CR, LF], ''QU''] sample_server"
proof -
  have c: "\<forall>k. clean ((\<lambda>_. sample_surroundings) (k :: nat))" using sample_clean by simp
  show ?thesis
    using serve_lines [OF c sample_server_calm, of "[''NO'', ''OP'' @ [CR], [LF] @ ''QU'']" 0 "[]"]
      serve_lines [OF c sample_server_calm, of "[''NOOP'' @ [CR, LF], ''QU'']" 0 "[]"] by simp
qed

lemma sample_noop:
  "handle_line X (''NOOP'' @ [CR]) sample_server = finished (reply 250 ''NOOP OK.'' sample_server)"
proof -
  have "cmdType (parseCommand ''NOOP'') = ''NOOP''"
    by (simp add: parseCommand_def Let_def trim_def trim_space_def split_words.simps [of "''NOOP''"] is_space_def
        upper_string_def to_upper_def)
  moreover have "joinCompletedTransfer sample_server = sample_server"
    by (simp add: joinCompletedTransfer_def sample_server_def new_session_def)
  ultimately show ?thesis
    by (simp add: handle_line_def strip_cr_def executeCommand_def open_commands_def commandMap_def cmd_NOOP_def
        sample_server_def new_session_def)
qed


end
