(* ===== verification/Command_Line.thy ===== *)
theory Command_Line
  imports Client_Session Server_Loop
begin

text \<open>
  A line of the user on its way to the server: what \<^verbatim>\<open>splitCommand\<close> and \<^verbatim>\<open>canonicalizeCommandVerb\<close> of the
  client make of it, and what \<^verbatim>\<open>parseCommand\<close> of the server makes of the result.
\<close>

section \<open>Words of a line\<close>

lemma is_space_upper [simp]: "is_space \<circ> to_upper = is_space"
  by (simp add: fun_eq_iff is_space_to_upper)

lemma not_space_upper [simp]: "(\<lambda>x. \<not> is_space x) \<circ> to_upper = (\<lambda>x. \<not> is_space x)"
  by (simp add: fun_eq_iff is_space_to_upper)

lemma split_words_lead: "list_all is_space p \<Longrightarrow> split_words (p @ s) = split_words s"
  by (induction p) (simp_all add: split_words_space)

lemma split_words_blank: "list_all is_space p \<Longrightarrow> split_words p = []"
  using split_words_lead [of p "[]"] by simp

lemma split_words_upper: "split_words (upper_string s) = map upper_string (split_words s)"
proof (induction s rule: split_words.induct)
  case (1 s)
  show ?case
  proof (cases "dropWhile is_space s")
    case Nil
    then have "list_all is_space s" "list_all is_space (map to_upper s)" by (auto simp: list_all_iff is_space_to_upper)
    then show ?thesis by (simp add: split_words_blank upper_string_def)
  next
    case (Cons c cs)
    with 1 [OF Cons] show ?thesis
      by (simp add: split_words.simps [of s] split_words.simps [of "map to_upper s"] upper_string_def dropWhile_map takeWhile_map)
  qed
qed

lemma split_words_trail:
  assumes "list_all is_space q"
  shows "split_words (s @ q) = split_words s"
proof (induction s rule: split_words.induct)
  case (1 s)
  show ?case
  proof (cases "dropWhile is_space s")
    case Nil
    then have "list_all is_space s" by (simp add: list_all_iff)
    with assms split_words_blank show ?thesis by simp
  next
    case (Cons c cs)
    have d: "dropWhile is_space (s @ q) = c # cs @ q"
      using Cons by (metis append_Cons dropWhile_append1 dropWhile_append3 list.discI dropWhile_eq_Nil_conv)
    have q: "q = [] \<or> is_space (hd q)" using assms by (cases q) simp_all
    show ?thesis
    proof (cases "list_all (\<lambda>x. \<not> is_space x) cs")
      case True
      then have t: "takeWhile (\<lambda>x. \<not> is_space x) (cs @ q) = cs" "dropWhile (\<lambda>x. \<not> is_space x) (cs @ q) = q"
        "takeWhile (\<lambda>x. \<not> is_space x) cs = cs" "dropWhile (\<lambda>x. \<not> is_space x) cs = []"
        using q by (cases q; auto simp: list_all_iff takeWhile_append dropWhile_append)+
      show ?thesis by (simp add: split_words.simps [of s] split_words.simps [of "s @ q"] d Cons t split_words_blank [OF assms])
    next
      case False
      then obtain x where "x \<in> set cs" "is_space x" by (auto simp: list_all_iff)
      then have "takeWhile (\<lambda>x. \<not> is_space x) (cs @ q) = takeWhile (\<lambda>x. \<not> is_space x) cs"
        "dropWhile (\<lambda>x. \<not> is_space x) (cs @ q) = dropWhile (\<lambda>x. \<not> is_space x) cs @ q" by simp_all
      with d Cons 1 [OF Cons] show ?thesis by (simp add: split_words.simps [of s] split_words.simps [of "s @ q"])
    qed
  qed
qed

lemma split_words_trim: "split_words (trim s) = split_words s"
proof -
  let ?r = "dropWhile trim_space s"
  have sp: "list_all is_space (takeWhile trim_space t)" for t
    using trim_space_is_space by (auto simp: list_all_iff dest: set_takeWhileD)
  have "?r = rev (takeWhile trim_space (rev ?r) @ dropWhile trim_space (rev ?r))" by simp
  then have r: "?r = trim s @ rev (takeWhile trim_space (rev ?r))" unfolding trim_def by (simp only: rev_append)
  have "list_all is_space (rev (takeWhile trim_space (rev ?r)))" using sp by simp
  then have "split_words (trim s @ rev (takeWhile trim_space (rev ?r))) = split_words (trim s)" by (rule split_words_trail)
  moreover have "split_words s = split_words ?r" using split_words_lead [OF sp, of s ?r] by simp
  ultimately show ?thesis using r by simp
qed

lemma parseCommand_words:
  assumes "split_words s \<noteq> []"
  shows "cmdType (parseCommand s) = upper_string (hd (split_words s))" "cmdArgs (parseCommand s) = tl (split_words s)"
proof -
  have "trim s \<noteq> []" using assms split_words_trim [of s] by (cases "trim s") auto
  then show "cmdType (parseCommand s) = upper_string (hd (split_words s))" "cmdArgs (parseCommand s) = tl (split_words s)"
    using assms split_words_trim [of s] by (auto simp: parseCommand_def Let_def split: list.splits)
qed

section \<open>The line the client sends\<close>

lemma canonicalize_parts:
  obtains pre verb rest where "input = pre @ verb @ rest" "canonicalizeCommandVerb input = pre @ upper_string verb @ rest"
    "pre = takeWhile trim_space input" "verb = takeWhile (\<lambda>c. \<not> trim_space c) (dropWhile trim_space input)"
    "rest = dropWhile (\<lambda>c. \<not> trim_space c) (dropWhile trim_space input)"
proof -
  let ?pre = "takeWhile trim_space input" and ?r = "dropWhile trim_space input"
  let ?v = "takeWhile (\<lambda>c. \<not> trim_space c) ?r" and ?rest = "dropWhile (\<lambda>c. \<not> trim_space c) ?r"
  have i: "input = ?pre @ ?v @ ?rest" by simp
  have "canonicalizeCommandVerb input = ?pre @ upper_string ?v @ ?rest"
  proof (cases "?r = []")
    case True
    then have "input = ?pre" using takeWhile_dropWhile_id [of trim_space input] by (simp only: append_Nil2)
    moreover have "canonicalizeCommandVerb input = input" by (simp add: canonicalizeCommandVerb_def Let_def True)
    ultimately show ?thesis by (simp add: True upper_string_def)
  next
    case False
    have "drop (length ?v) ?r = ?rest" by (simp add: dropWhile_eq_drop)
    with False show ?thesis unfolding canonicalizeCommandVerb_def Let_def by (simp only: if_False)
  qed
  from that [OF i this] show thesis by blast
qed

lemma canonicalize_upper: "upper_string (canonicalizeCommandVerb input) = upper_string input"
proof (rule canonicalize_parts [of input])
  fix pre verb rest
  assume "input = pre @ verb @ rest" "canonicalizeCommandVerb input = pre @ upper_string verb @ rest"
  from this(2) arg_cong [OF this(1), of upper_string] show ?thesis by (simp add: upper_string_def)
qed

lemma canonicalize_words:
  "map upper_string (split_words (canonicalizeCommandVerb input)) = map upper_string (split_words input)"
  by (metis split_words_upper canonicalize_upper)

lemma to_upper_LF: "to_upper c = LF \<Longrightarrow> c = LF"
proof -
  assume h: "to_upper c = LF"
  have "is_space c \<Longrightarrow> to_upper c = c" by (auto simp: is_space_def to_upper_def of_char_Char)
  moreover have "is_space c" using is_space_to_upper [of c] h by (simp add: is_space_def)
  ultimately show ?thesis using h by simp
qed

lemma canonicalize_LF: "LF \<notin> set input \<Longrightarrow> LF \<notin> set (canonicalizeCommandVerb input)"
proof (rule canonicalize_parts [of input])
  fix pre verb rest
  assume "LF \<notin> set input" and i: "input = pre @ verb @ rest" and c: "canonicalizeCommandVerb input = pre @ upper_string verb @ rest"
  then have "LF \<notin> set (pre @ verb @ rest)" by simp
  then show ?thesis unfolding c using to_upper_LF by (auto simp: upper_string_def dest: sym)
qed

text \<open>Without vertical tabs and form feeds, only the verb changes.\<close>

lemma canonicalize_exact:
  assumes "CHR 0x0B \<notin> set input" "CHR 0x0C \<notin> set input" "split_words input \<noteq> []"
  shows "split_words (canonicalizeCommandVerb input) = upper_string (hd (split_words input)) # tl (split_words input)"
proof (rule canonicalize_parts [of input])
  fix pre verb rest
  assume h: "input = pre @ verb @ rest" "canonicalizeCommandVerb input = pre @ upper_string verb @ rest"
    "pre = takeWhile trim_space input" "verb = takeWhile (\<lambda>c. \<not> trim_space c) (dropWhile trim_space input)"
    "rest = dropWhile (\<lambda>c. \<not> trim_space c) (dropWhile trim_space input)"
  have same: "trim_space c \<longleftrightarrow> is_space c" if "c \<in> set input" for c
    using that assms(1,2) by (auto simp: trim_space_def is_space_def)
  have pre: "list_all is_space pre" using h(3) trim_space_is_space by (auto simp: list_all_iff dest: set_takeWhileD)
  have rest: "rest = [] \<or> is_space (hd rest)"
    using h(5) hd_dropWhile [of "\<lambda>c. \<not> trim_space c" "dropWhile trim_space input"] trim_space_is_space by (cases rest) auto
  have ne: "verb \<noteq> []"
  proof
    assume v: "verb = []"
    then have "dropWhile trim_space input = []"
      using h(4) hd_dropWhile [of trim_space input] by (cases "dropWhile trim_space input") (auto split: if_splits)
    then have "list_all is_space input" using trim_space_is_space by (auto simp: list_all_iff)
    with assms(3) split_words_blank show False by blast
  qed
  have "list_all (\<lambda>c. \<not> is_space c) verb"
  proof -
    have "\<not> trim_space c \<and> c \<in> set input" if "c \<in> set verb" for c
      using that h(4) set_takeWhileD [of c "\<lambda>c. \<not> trim_space c"] set_dropWhileD [of c trim_space input] by auto
    with same show ?thesis by (auto simp: list_all_iff)
  qed
  with ne have w: "is_word verb" "is_word (upper_string verb)"
    by (auto simp: is_word_def upper_string_def list_all_iff is_space_to_upper)
  show ?thesis
    using split_words_lead [OF pre] split_words_step [OF w(1) rest] split_words_step [OF w(2) rest] h(1,2) by simp
qed

text \<open>
  C13: the server receives the command the user typed. What the client sends for a line is one line for the
  server; the server takes its first word, in upper case, for the command and the following words for the
  arguments, up to the case of letters, and exactly if the line has no vertical tab and no form feed.
\<close>

theorem command_received:
  assumes "split_words input \<noteq> []" "LF \<notin> set input"
    "cmd = parseCommand (strip_cr (canonicalizeCommandVerb input @ [CR]))"
  shows "line_list (canonicalizeCommandVerb input @ CRLF) = [canonicalizeCommandVerb input @ [CR]] \<and>
    cmdType cmd = upper_string (hd (split_words input)) \<and>
    map upper_string (cmdArgs cmd) = map upper_string (tl (split_words input)) \<and>
    (CHR 0x0B \<in> set input \<or> CHR 0x0C \<in> set input \<or> cmdArgs cmd = tl (split_words input))"
proof -
  let ?c = "canonicalizeCommandVerb input"
  have w: "map upper_string (split_words ?c) = map upper_string (split_words input)" by (rule canonicalize_words)
  then have ne: "split_words ?c \<noteq> []" using assms(1) by auto
  have cmd: "cmdType cmd = upper_string (hd (split_words ?c))" "cmdArgs cmd = tl (split_words ?c)"
    using parseCommand_words [OF ne] assms(3) by simp_all
  have "upper_string (hd (split_words ?c)) = upper_string (hd (split_words input))"
    "map upper_string (tl (split_words ?c)) = map upper_string (tl (split_words input))"
    using w ne assms(1) by (metis hd_map, metis map_tl)
  moreover have "line_list (?c @ CRLF) = [?c @ [CR]]"
    using line_list_cut [of "?c @ [CR]" "[]"] canonicalize_LF [OF assms(2)] line_list_none [of "[]"] by simp
  moreover have "tl (split_words ?c) = tl (split_words input)" if "CHR 0x0B \<notin> set input" "CHR 0x0C \<notin> set input"
    using canonicalize_exact [OF that assms(1)] by simp
  ultimately show ?thesis using cmd by auto
qed

theorem command_received_witness:
  "cmdType (parseCommand (strip_cr (canonicalizeCommandVerb '' Type a'' @ [CR]))) = ''TYPE'' \<and>
   cmdArgs (parseCommand (strip_cr (canonicalizeCommandVerb '' Type a'' @ [CR]))) = [''a'']"
proof -
  have "split_words '' Type a'' = [''Type'', ''a'']" "upper_string ''Type'' = ''TYPE''" by code_simp+
  with command_received [of "'' Type a''", OF _ _ refl] show ?thesis by simp
qed

end
