(* ===== verification/Server_Cleanup.thy ===== *)
theory Server_Cleanup
  imports Server_Loop
begin

text \<open>
  What a session leaves behind: its entry in the table of clients is gone and no other entry has changed,
  its control socket is closed once, no data connection is pending and no worker is left.
\<close>

section \<open>What a command leaves alone\<close>

text \<open>
  \<open>tidy k b S S'\<close>: of the table only the entry of \<open>k\<close> changed; the control socket \<open>k\<close> is still open and was
  not closed, or it is given up and was closed once; the data socket is not \<open>k\<close>; an entry that showed the
  name of the user still does; and if \<open>b\<close>, the transfer mode is the same.
\<close>

definition tidy :: "SOCKET \<Rightarrow> bool \<Rightarrow> server \<Rightarrow> server \<Rightarrow> bool" where
  "tidy k b S S' \<longleftrightarrow>
     (\<forall>j. j \<noteq> k \<longrightarrow> findClient j (clients S') = findClient j (clients S)) \<and>
     (ctlSocket (sess S') = Some k \<and> count_list (closedSockets S') k = count_list (closedSockets S) k \<or>
      ctlSocket (sess S') = None \<and> count_list (closedSockets S') k = Suc (count_list (closedSockets S) k)) \<and>
     pendingDataSocket (sess S') \<noteq> Some k \<and>
     (\<forall>a. findClient k (clients S) = Some \<lparr>clientAddress = a, clientUsername = username (sess S)\<rparr> \<longrightarrow>
        findClient k (clients S') = Some \<lparr>clientAddress = a, clientUsername = username (sess S')\<rparr>) \<and>
     (b \<longrightarrow> transferMode (sess S') = transferMode (sess S))"

text \<open>The states it is about: the control socket is open, and not the data socket.\<close>

definition holding :: "SOCKET \<Rightarrow> server \<Rightarrow> bool" where
  "holding k S \<longleftrightarrow> ctlSocket (sess S) = Some k \<and> pendingDataSocket (sess S) \<noteq> Some k"

lemma clients_simps [simp]:
  "clients (reply code msg S) = clients S" "clients (multilineReply code msg S) = clients S"
  "clients (on_sess f S) = clients S" "clients (sessionReply code msg S) = clients S"
  "clients (joinCompletedTransfer S) = clients S" "clients (seen_abort b S) = clients S"
  "clients (remove_if b p S) = clients S" "clients (remove_opt q S) = clients S"
  "clients (reply_result r S) = clients S" "clients (finishTransfer ok msg S) = clients S"
  by (simp_all add: reply_def multilineReply_def on_sess_def sessionReply_def joinCompletedTransfer_def seen_abort_def
      remove_if_def remove_opt_def remove_path_def reply_result_def finishTransfer_def split: option.split)

lemma closed_simps [simp]:
  "closedSockets (reply code msg S) = closedSockets S" "closedSockets (multilineReply code msg S) = closedSockets S"
  "closedSockets (on_sess f S) = closedSockets S" "closedSockets (sessionReply code msg S) = closedSockets S"
  "closedSockets (joinCompletedTransfer S) = closedSockets S" "closedSockets (seen_abort b S) = closedSockets S"
  "closedSockets (remove_if b p S) = closedSockets S" "closedSockets (remove_opt q S) = closedSockets S"
  "closedSockets (reply_result r S) = closedSockets S" "closedSockets (finishTransfer ok msg S) = closedSockets S"
  "closedSockets (set_name n S) = closedSockets S"
  by (simp_all add: reply_def multilineReply_def on_sess_def sessionReply_def joinCompletedTransfer_def seen_abort_def
      remove_if_def remove_opt_def remove_path_def reply_result_def finishTransfer_def set_name_def split: option.split)

lemma reply_result_simps [simp]:
  "sess (reply_result r S) = sess S" "tree (reply_result r S) = tree S"
  by (simp_all add: reply_result_def)

lemma clearDataState_left [simp]:
  "clients (clearDataState S) = clients S"
  "closedSockets (clearDataState S) = closedSockets S @ (case pendingDataSocket (sess S) of None \<Rightarrow> [] | Some k \<Rightarrow> [k])"
  by (simp_all add: clearDataState_def Let_def on_sess_def split: option.split)

lemma tidy_refl [simp]: "tidy k b S S \<longleftrightarrow> holding k S"
  by (auto simp: tidy_def holding_def)

text \<open>Changes that \<open>tidy\<close> does not see, and those it allows.\<close>

lemma tidy_simps [simp]:
  "tidy k b S (reply code msg S') = tidy k b S S'" "tidy k b S (multilineReply code msg S') = tidy k b S S'"
  "tidy k b S (sessionReply code msg S') = tidy k b S S'" "tidy k b S (reply_result r S') = tidy k b S S'"
  "tidy k b S (joinCompletedTransfer S') = tidy k b S S'" "tidy k b S (S'\<lparr>tree := st\<rparr>) = tidy k b S S'"
  "tidy k b S (S'\<lparr>net := w\<rparr>) = tidy k b S S'" "tidy k b S (S'\<lparr>nextId := n\<rparr>) = tidy k b S S'"
  "tidy k b S (remove_if c p S') = tidy k b S S'" "tidy k b S (remove_opt q S') = tidy k b S S'"
  by (simp_all add: tidy_def)

lemma tidy_clear: "tidy k b S S' \<Longrightarrow> tidy k b S (clearDataState S')"
  by (auto simp: tidy_def split: option.split)

lemma tidy_on_sess:
  assumes "tidy k b S S'" "ctlSocket (f (sess S')) = ctlSocket (sess S')" "pendingDataSocket (f (sess S')) \<noteq> Some k"
    "b \<Longrightarrow> transferMode (f (sess S')) = transferMode (sess S')" "username (f (sess S')) = username (sess S')"
  shows "tidy k b S (on_sess f S')"
  using assms by (simp add: tidy_def)

lemma tidy_set_name:
  assumes "tidy k b S S'" "ctlSocket (sess S') = Some k" "ctlSocket (f (sess S')) = Some k"
    "pendingDataSocket (f (sess S')) \<noteq> Some k" "b \<Longrightarrow> transferMode (f (sess S')) = transferMode (sess S')"
    "username (f (sess S')) = n"
  shows "tidy k b S (set_name n (on_sess f S'))"
  using assms by (auto simp: tidy_def set_name_def findClient_setUsername on_sess_def)

lemma tidy_trans: "tidy k b S S1 \<Longrightarrow> ctlSocket (sess S1) = Some k \<Longrightarrow> tidy k b S1 S2 \<Longrightarrow> tidy k b S S2"
  by (auto simp: tidy_def)

lemma tidy_holding: "tidy k b S S' \<Longrightarrow> ctlSocket (sess S') \<noteq> None \<Longrightarrow> holding k S'"
  by (auto simp: tidy_def holding_def)

section \<open>Transfers and workers\<close>

lemma startDownloadTransfer_tidy:
  assumes "tidy k b S0 S" "ctlSocket (sess S) = Some k"
  shows "tidy k b S0 (startDownloadTransfer X src S)"
  using assms
  by (auto simp: startDownloadTransfer_def Let_def tidy_def split: prod.splits)

lemma startUploadTransfer_tidy:
  assumes "tidy k b S0 S" "ctlSocket (sess S) = Some k"
  shows "tidy k b S0 (startUploadTransfer X d kind name S)"
  using assms
  by (auto simp: startUploadTransfer_def Let_def tidy_def split: prod.splits option.splits)

lemma run_worker_frame:
  assumes "run_worker X S = Some S'"
  shows "clients S' = clients S \<and> closedSockets S' = closedSockets S"
proof (cases "transferWorker (sess S)")
  case (Some wk)
  show ?thesis
  proof (cases wk)
    case (Download src mode pas t)
    then obtain S1 where S1: "run_download X src mode pas t S = Some S1" "S' = on_sess (transferWorker_update (\<lambda>_. Some WorkerDone)) S1"
      using assms Some by (auto simp: run_worker_def)
    obtain ok msg b w F where "S1 = finishTransfer ok msg (seen_abort b (S\<lparr>net := w, tree := (tree S)\<lparr>disk := F\<rparr>\<rparr>))"
      by (rule run_download_outcome [OF S1(1)]) (rule that)
    with S1(2) show ?thesis by simp
  next
    case (Upload d staging mode pas peer kind name t)
    then obtain S1 where S1: "run_upload X d staging mode pas peer kind name t S = Some S1"
      "S' = on_sess (transferWorker_update (\<lambda>_. Some WorkerDone)) S1"
      using assms Some by (auto simp: run_worker_def)
    obtain ok msg b w st c where "S1 = on_sess (pendingUniqueFilename_update (\<lambda>_. [])) (finishTransfer ok msg
       (remove_if c (native d) (remove_opt staging (seen_abort b (S\<lparr>net := w, tree := st\<rparr>)))))"
      by (rule run_upload_outcome [OF S1(1)]) (rule that)
    with S1(2) show ?thesis by simp
  qed (use assms Some in \<open>simp add: run_worker_def\<close>)
qed (use assms in \<open>simp add: run_worker_def\<close>)

lemma run_worker_tidy:
  assumes "run_worker X S = Some S'" "holding k S"
  shows "tidy k b S S'"
  using run_worker_frame [OF assms(1)] run_worker_left [OF assms(1)] assms(2)
  by (auto simp: tidy_def holding_def worker_left_def)

lemma join_worker_tidy:
  assumes "join_worker X S = Some S'" "holding k S"
  shows "tidy k b S S'" "transferWorker (sess S') = None"
    "ctlSocket (sess S') = Some k"
proof -
  have r: "ctlSocket (sess S1) = ctlSocket (sess S)" if "run_worker X S = Some S1" for S1
    using run_worker_left [OF that] by (auto simp: worker_left_def)
  show "tidy k b S S'" using assms run_worker_tidy [of X S _ k b] r
    by (auto simp: join_worker_def holding_def tidy_def split: if_splits)
  show "transferWorker (sess S') = None" "ctlSocket (sess S') = Some k"
    using assms r by (auto simp: join_worker_def holding_def split: if_splits)
qed

section \<open>The handlers\<close>

definition settles :: "bool \<Rightarrow> handler \<Rightarrow> bool" where
  "settles b h \<longleftrightarrow> (\<forall>X args S S' k. holding k S \<longrightarrow> newSocket X \<noteq> k \<longrightarrow> h X args S = Some (Returns S') \<longrightarrow> tidy k b S S')"

lemma settlesI:
  assumes "\<And>X args S S' k. \<lbrakk>holding k S; newSocket X \<noteq> k; h X args S = Some (Returns S')\<rbrakk> \<Longrightarrow> tidy k b S S'"
  shows "settles b h"
  using assms unfolding settles_def by blast

lemma holdingD: "holding k S \<Longrightarrow> ctlSocket (sess S) = Some k" "holding k S \<Longrightarrow> pendingDataSocket (sess S) \<noteq> Some k"
  by (simp_all add: holding_def)

lemma settles_USER: "settles True cmd_USER"
proof (rule settlesI)
  fix X args S S' k
  assume h: "holding k S" and run: "cmd_USER X args S = Some (Returns S')"
  let ?S1 = "set_name [] (on_sess (\<lambda>s. s\<lparr>authenticated := False, username := []\<rparr>) S)"
  have t: "tidy k True S ?S1"
    by (intro tidy_set_name) (use h in \<open>simp_all add: holding_def\<close>)
  have "tidy k True S (set_name n (on_sess (username_update (\<lambda>_. n)) ?S1))" for n
    by (intro tidy_set_name [OF t]) (use h in \<open>simp_all add: holding_def\<close>)
  with t run show "tidy k True S S'"
    by (auto simp: cmd_USER_def Let_def split: if_splits option.splits)
qed

lemma settles_PASS: "settles True cmd_PASS"
  by (rule settlesI) (auto simp: cmd_PASS_def Let_def holding_def intro!: tidy_on_sess split: if_splits)

lemma settles_QUIT: "settles True cmd_QUIT"
  by (rule settlesI) (auto simp: cmd_QUIT_def Let_def tidy_def holding_def)

lemma settles_plain: "settles True cmd_NOOP" "settles True cmd_PWD" "settles True cmd_MODE" "settles True cmd_HELP"
  by (rule settlesI, auto simp: cmd_NOOP_def cmd_PWD_def cmd_MODE_def cmd_HELP_def Let_def
      split: if_splits outcome.splits list.splits option.splits)+

lemma settles_CWD: "settles True cmd_CWD" "settles True cmd_CDUP"
  by (rule settlesI, auto simp: cmd_CWD_def cmd_CDUP_def holding_def intro!: tidy_on_sess split: outcome.splits prod.splits)+

lemma settles_directory: "settles True cmd_MKD" "settles True cmd_RMD" "settles True cmd_DELE"
  by (rule settlesI, auto simp: cmd_MKD_def cmd_RMD_def cmd_DELE_def split: outcome.splits prod.splits)+

lemma settles_listing: "settles True (list_command usage namesOnly)"
  by (rule settlesI) (auto simp: list_command_def split: if_splits outcome.splits prod.splits option.splits)

lemma settles_about: "settles True (about_file failure answer)"
  by (rule settlesI) (auto simp: about_file_def split: list.splits if_splits prod.splits option.splits)

lemma settles_MDTM: "settles True cmd_MDTM"
  using settles_about unfolding settles_def cmd_MDTM_def by blast

lemma settles_STAT: "settles True cmd_STAT"
  by (rule settlesI) (auto simp: cmd_STAT_def split: list.splits prod.splits option.splits)

lemma settles_rename: "settles True cmd_RNFR" "settles True cmd_RNTO"
  by (rule settlesI, auto simp: cmd_RNFR_def cmd_RNTO_def holding_def intro!: tidy_on_sess split: if_splits prod.splits)+

lemma settles_PASV: "settles True cmd_PASV"
  by (rule settlesI) (auto simp: cmd_PASV_def Let_def holding_def intro!: tidy_on_sess tidy_clear split: prod.splits option.splits)

lemma settles_PORT: "settles True cmd_PORT"
  by (rule settlesI) (auto simp: cmd_PORT_def Let_def holding_def intro!: tidy_on_sess tidy_clear split: if_splits option.splits)

lemma settles_HASH: "settles True cmd_HASH"
  by (rule settlesI) (auto simp: cmd_HASH_def Let_def split: list.splits option.splits outcome.splits prod.splits bool.splits if_splits)

lemma settles_TYPE: "settles False cmd_TYPE"
  by (rule settlesI) (auto simp: cmd_TYPE_def Let_def holding_def intro!: tidy_on_sess split: if_splits)

lemma settles_RETR: "settles True cmd_RETR"
  by (rule settlesI) (auto simp: cmd_RETR_def intro!: startDownloadTransfer_tidy tidy_clear dest: holdingD
      split: if_splits option.splits prod.splits)

lemma settles_STOR: "settles True cmd_STOR"
  by (rule settlesI) (auto simp: cmd_STOR_def intro!: startUploadTransfer_tidy tidy_clear dest: holdingD
      split: if_splits option.splits prod.splits)

lemma settles_STOU: "settles True cmd_STOU"
proof (rule settlesI)
  fix X args S S' k
  assume h: "holding k S" and run: "cmd_STOU X args S = Some (Returns S')"
  obtain res n st where r: "reserveUniqueUpload (paths X) (currentDir (sess S)) (nextId S) (tree S) = (res, n, st)"
    by (metis prod_cases3)
  have t: "tidy k True S (S\<lparr>nextId := n, tree := st\<rparr>)" using h by (auto simp: tidy_def holding_def)
  have "tidy k True S (startUploadTransfer X p Unique nm (S\<lparr>nextId := n, tree := st\<rparr>))" for p nm
    by (rule startUploadTransfer_tidy [OF t]) (use h in \<open>simp add: holding_def\<close>)
  with h run r tidy_clear [OF t] show "tidy k True S S'"
    by (auto simp: cmd_STOU_def split: if_splits option.splits)
qed

lemma settles_APPE: "settles True cmd_APPE"
proof (rule settlesI)
  fix X args S S' k
  assume h: "holding k S" and run: "cmd_APPE X args S = Some (Returns S')"
  have t: "tidy k True S (S\<lparr>tree := st\<rparr>)" for st using h by simp
  have u: "tidy k True S (startUploadTransfer X p Append [] (S\<lparr>tree := st\<rparr>))" for p st
    by (rule startUploadTransfer_tidy [OF t]) (use h in \<open>simp add: holding_def\<close>)
  from h run u tidy_clear [OF t] tidy_clear [of k True S S] show "tidy k True S S'"
    unfolding cmd_APPE_def by (auto split: if_splits option.splits prod.splits)
qed

lemma settles_ABOR: "settles True cmd_ABOR"
proof (rule settlesI)
  fix X args S S' k
  assume h: "holding k S" and run: "cmd_ABOR X args S = Some (Returns S')"
  show "tidy k True S S'"
  proof (cases "args = [] \<and> transferActive (sess S)")
    case False
    with h run show ?thesis by (auto simp: cmd_ABOR_def intro!: tidy_clear split: if_splits)
  next
    case True
    let ?S = "on_sess (abortRequested_update (\<lambda>_. True)) S"
    obtain S1 where j: "join_worker X ?S = Some S1" using run True by (auto simp: cmd_ABOR_def split: option.splits)
    have h1: "holding k ?S" using h by (simp add: holding_def)
    have t0: "tidy k True S ?S" by (rule tidy_on_sess) (use h in \<open>simp_all add: holding_def\<close>)
    have "tidy k True S S1" by (rule tidy_trans [OF t0 _ join_worker_tidy(1) [OF j h1]]) (use h in \<open>simp add: holding_def\<close>)
    then have "tidy k True S (clearDataState (on_sess (transferActive_update (\<lambda>_. False)) S1))"
      by (intro tidy_clear tidy_on_sess) (auto simp: tidy_def)
    with run True j show ?thesis by (auto simp: cmd_ABOR_def)
  qed
qed

lemmas settles_mode = settles_USER settles_PASS settles_QUIT settles_plain settles_CWD settles_directory settles_MDTM
  settles_STAT settles_rename settles_PASV settles_PORT settles_HASH settles_RETR settles_STOR settles_STOU settles_APPE
  settles_ABOR settles_listing settles_about

lemma commandMap_settles:
  assumes "map_of commandMap t = Some h" "b \<longrightarrow> t \<noteq> ''TYPE''"
  shows "settles b h"
proof -
  have m: "settles False h" if "settles True h" for h using that by (auto simp: settles_def tidy_def)
  have all: "\<forall>(t, h) \<in> set commandMap. settles (t \<noteq> ''TYPE'') h"
    by (simp add: commandMap_def settles_mode settles_TYPE cmd_LIST_def cmd_NLST_def cmd_SIZE_def)
  have "(t, h) \<in> set commandMap" using assms(1) by (rule map_of_SomeD)
  with all have "settles (t \<noteq> ''TYPE'') h" by blast
  with assms(2) m show ?thesis by (cases b; cases "t = ''TYPE''") auto
qed

section \<open>Sessions\<close>

lemma executeCommand_tidy:
  assumes "holding k S" "newSocket X \<noteq> k" "executeCommand X cmd S = Some (Returns S')"
  shows "tidy k (cmdType cmd \<noteq> ''TYPE'') S S'"
proof (cases "\<not> authenticated (sess S) \<and> cmdType cmd \<notin> set open_commands \<or> transferActive (sess S) \<and> cmdType cmd \<noteq> ''ABOR''")
  case True
  with assms show ?thesis by (auto simp: executeCommand_def split: if_splits)
next
  case False
  have j: "holding k (joinCompletedTransfer S)" using assms(1) by (simp add: holding_def)
  have t: "tidy k b S (joinCompletedTransfer S)" for b using assms(1) by simp
  show ?thesis
  proof (cases "map_of commandMap (cmdType cmd)")
    case None
    with False assms show ?thesis by (auto simp: executeCommand_def Let_def)
  next
    case (Some h)
    then have "h X (cmdArgs cmd) (joinCompletedTransfer S) = Some (Returns S')"
      using False assms(3) by (auto simp: executeCommand_def Let_def)
    then have "tidy k (cmdType cmd \<noteq> ''TYPE'') (joinCompletedTransfer S) S'"
      using commandMap_settles [OF Some, of "cmdType cmd \<noteq> ''TYPE''"] j assms(2) unfolding settles_def by blast
    from tidy_trans [OF t _ this] assms(1) show ?thesis by (simp add: holding_def)
  qed
qed

lemma handle_line_tidy:
  assumes "holding k S" "newSocket X \<noteq> k" "handle_line X raw S = Some (Returns S')"
  shows "tidy k (cmdType (parseCommand (strip_cr raw)) \<noteq> ''TYPE'') S S'"
  using assms executeCommand_tidy [OF assms(1,2)] by (auto simp: handle_line_def Let_def split: if_splits)

lemma tidy_weaken: "tidy k b S S' \<Longrightarrow> tidy k False S S'"
  by (simp add: tidy_def)

lemma serve_tidy:
  "\<forall>m. newSocket (env m) \<noteq> k \<Longrightarrow> holding k S \<Longrightarrow> serve env n buf input S = Some (Returns S') \<Longrightarrow> tidy k False S S'"
proof (induction env n buf input S rule: serve.induct)
  case (1 env n buf input S)
  show ?case
  proof (cases "cut_line buf")
    case None
    show ?thesis
    proof (cases "receive_from input S")
      case (Pair piece input1)
      with None "1.IH"(1) [OF None Pair [symmetric]] "1.prems" show ?thesis
        by (cases piece) (auto simp: serve.simps [of env n buf])
    qed
  next
    case (Some p)
    obtain raw rest where p: "p = (raw, rest)" by fastforce
    obtain S1 where S1: "handle_line (env n) raw S = Some (Returns S1)"
      using "1.prems"(3) Some p by (auto simp: serve.simps [of env n buf] split: option.splits outcome.splits)
    have t: "tidy k False S S1" using handle_line_tidy [OF "1.prems"(2) _ S1] "1.prems"(1) tidy_weaken by blast
    show ?thesis
    proof (cases "ctlSocket (sess S1) = None")
      case True
      with "1.prems"(3) Some p S1 t show ?thesis by (simp add: serve.simps [of env n buf])
    next
      case False
      have "serve env (Suc n) rest input S1 = Some (Returns S')"
        using "1.prems"(3) Some p S1 False by (simp add: serve.simps [of env n buf])
      from "1.IH"(2) [OF Some p [symmetric] S1 refl False "1.prems"(1) tidy_holding [OF t False] this]
      show ?thesis using tidy_trans [OF t] tidy_holding [OF t False] by (simp add: holding_def)
    qed
  qed
qed

lemma shutdownSession_frame:
  assumes "shutdownSession X S = Some S'" "pendingDataSocket (sess S) \<noteq> Some k"
  shows "clients S' = clients S" "count_list (closedSockets S') k = count_list (closedSockets S) k"
    "transferWorker (sess S') = None" "\<not> transferActive (sess S')" "pendingDataSocket (sess S') = None"
    "dataChannelMode (sess S') = NoChannel" "username (sess S') = username (sess S)" "ctlSocket (sess S') = ctlSocket (sess S)"
    "controlPeerAddr (sess S') = controlPeerAddr (sess S)"
proof -
  let ?S = "on_sess (abortRequested_update (\<lambda>_. True)) S"
  obtain S1 where j: "join_worker X ?S = Some S1" and S': "S' = clearDataState (on_sess (transferActive_update (\<lambda>_. False)) S1)"
    using assms(1) by (auto simp: shutdownSession_def)
  have p: "pendingDataSocket (sess S2) = pendingDataSocket (sess S) \<and> username (sess S2) = username (sess S) \<and>
      ctlSocket (sess S2) = ctlSocket (sess S) \<and> controlPeerAddr (sess S2) = controlPeerAddr (sess S)" if "run_worker X ?S = Some S2" for S2
    using run_worker_left [OF that] by (auto simp: worker_left_def)
  have "clients S1 = clients S \<and> closedSockets S1 = closedSockets S \<and> transferWorker (sess S1) = None \<and>
      pendingDataSocket (sess S1) = pendingDataSocket (sess S) \<and> username (sess S1) = username (sess S) \<and>
      ctlSocket (sess S1) = ctlSocket (sess S) \<and> controlPeerAddr (sess S1) = controlPeerAddr (sess S)"
  proof (cases "transferWorker (sess ?S) = None")
    case True
    then have "S1 = ?S" using j by (simp add: join_worker_def)
    with True show ?thesis by simp
  next
    case False
    then obtain S2 where S2: "run_worker X ?S = Some S2" "S1 = on_sess (transferWorker_update (\<lambda>_. None)) S2"
      using j by (auto simp: join_worker_def)
    from p [OF S2(1)] run_worker_frame [OF S2(1)] show ?thesis unfolding S2(2) by simp
  qed
  then show "clients S' = clients S" "count_list (closedSockets S') k = count_list (closedSockets S) k"
    "transferWorker (sess S') = None" "\<not> transferActive (sess S')" "pendingDataSocket (sess S') = None"
    "dataChannelMode (sess S') = NoChannel" "username (sess S') = username (sess S)" "ctlSocket (sess S') = ctlSocket (sess S)"
    "controlPeerAddr (sess S') = controlPeerAddr (sess S)"
    unfolding S' using assms(2) by (simp_all split: option.split)
qed

text \<open>
  C20: a session leaves nothing behind. When \<^verbatim>\<open>handleClient\<close> returns, however the connection ended, no client
  with its socket is in the table and every other entry is as before; its control socket has been closed
  exactly once; no worker is left, no transfer active and no data connection pending.
\<close>

theorem handleClient_cleans:
  assumes "\<forall>m. newSocket (env m) \<noteq> k" "handleClient env closing k peer input S = Some (Returns S')"
  shows "findClient j (clients S') = (if j = k then None else findClient j (clients S)) \<and>
    count_list (closedSockets S') k = Suc (count_list (closedSockets S) k) \<and>
    transferWorker (sess S') = None \<and> \<not> transferActive (sess S') \<and> pendingDataSocket (sess S') = None \<and>
    dataChannelMode (sess S') = NoChannel"
proof -
  let ?S1 = "begin_session (env 0) k peer S"
  obtain S2 S3 where S2: "serve env 0 [] input ?S1 = Some (Returns S2)" and S3: "shutdownSession closing S2 = Some S3"
    and S': "S' = (let S4 = (if ctlSocket (sess S2) = None then S3 else S3\<lparr>closedSockets := closedSockets S3 @ [k]\<rparr>)
       in S4\<lparr>clients := removeClient k (clients S4)\<rparr>)"
    using assms(2) by (auto simp: handleClient_def leave_session_def Let_def split: option.splits outcome.splits)
  have "holding k ?S1" by (simp add: holding_def new_session_def begin_session_def)
  from serve_tidy [OF assms(1) this S2] have t: "tidy k False ?S1 S2" .
  then have p: "pendingDataSocket (sess S2) \<noteq> Some k" by (simp add: tidy_def)
  note sh = shutdownSession_frame [OF S3 p]
  have "findClient i (clients S2) = findClient i (addClient k (peer_text peer) (clients S))" if "i \<noteq> k" for i
    using t that by (simp add: tidy_def begin_session_def)
  then have "findClient j (removeClient k (clients S2)) = (if j = k then None else findClient j (clients S))"
    by (rule reg.visit)
  with sh t show ?thesis unfolding S' Let_def by (auto simp: tidy_def begin_session_def)
qed

theorem handleClient_cleans_witness:
  "\<exists>S'. handleClient (\<lambda>_. sample_surroundings) sample_surroundings 7 zero_addr [''NOOP''] sample_server = Some (Returns S') \<and>
     count_list (closedSockets S') 7 = 1 \<and> findClient 7 (clients S') = None"
proof -
  let ?S1 = "sample_server\<lparr>sess := new_session 7 sample_root zero_addr, clients := addClient 7 (peer_text zero_addr) (clients sample_server)\<rparr>"
  let ?S2 = "reply 220 ''Service ready.'' ?S1"
  have calm: "calm (chan ?S2)" "ctlSocket (sess ?S2) \<noteq> None"
    by (simp_all add: sample_server_def calm_def new_session_def replyWithCode_calm)
  have c: "\<forall>k. clean ((\<lambda>_. sample_surroundings) (k :: nat))" using sample_clean by simp
  have "serve (\<lambda>_. sample_surroundings) 0 [] [''NOOP''] ?S2 = Some (Returns ?S2)"
    using serve_run_lines [OF c calm, of "[''NOOP'']" 0 "[]"] line_list_none [of "''NOOP''"] by simp
  moreover have "shutdownSession sample_surroundings ?S2 =
      Some (clearDataState (on_sess (\<lambda>s. s\<lparr>abortRequested := True, transferActive := False\<rparr>) ?S2))"
    by (simp add: shutdownSession_def join_worker_def new_session_def on_sess_def)
  moreover have "paths sample_surroundings = clean_places" "serverRoot clean_places = sample_root"
    by (simp_all add: sample_surroundings_def clean_places_def)
  ultimately obtain S' where S': "handleClient (\<lambda>_. sample_surroundings) sample_surroundings 7 zero_addr [''NOOP''] sample_server =
      Some (Returns S')"
    by (simp add: handleClient_def leave_session_def begin_session_def)
  have "\<forall>m. newSocket ((\<lambda>_. sample_surroundings) (m :: nat)) \<noteq> 7" by (simp add: sample_surroundings_def)
  from handleClient_cleans [OF this S', of 7] S' show ?thesis by (simp add: sample_server_def)
qed

end
