(* ===== verification/Client_Facts.thy ===== *)
theory Client_Facts
  imports Client_Session "HOL-Library.Multiset" "HOL-Library.Sublist"
begin

text \<open>
  The invariant of the client and its data sockets: every data socket the client opens is pending, owned by
  a worker, or closed, and it is closed once.
\<close>

section \<open>What the parts leave alone\<close>

text \<open>Same data connection, worker and closed sockets; and the frame without the abort flag and the texts.\<close>

definition same_links :: "client \<Rightarrow> client \<Rightarrow> bool" where
  "same_links C C' \<longleftrightarrow> cclosed C' = cclosed C \<and> c_dataMode (cst C') = c_dataMode (cst C) \<and>
     c_pendingDataSocket (cst C') = c_pendingDataSocket (cst C) \<and> c_transferActive (cst C') = c_transferActive (cst C) \<and>
     c_transferWorker (cst C') = c_transferWorker (cst C) \<and> c_passiveAddress (cst C') = c_passiveAddress (cst C) \<and>
     c_serverAddress (cst C') = c_serverAddress (cst C) \<and> c_transferMode (cst C') = c_transferMode (cst C)"

lemma same_links_refl [simp]: "same_links C C"
  by (simp add: same_links_def)

lemma same_links_trans [trans]: "same_links C C1 \<Longrightarrow> same_links C1 C2 \<Longrightarrow> same_links C C2"
  by (simp add: same_links_def)

lemma on_cst_simps [simp]:
  "cst (on_cst f C) = f (cst C)" "ctl (on_cst f C) = ctl C" "console (on_cst f C) = console C"
  "cdisk (on_cst f C) = cdisk C" "cnet (on_cst f C) = cnet C" "cclosed (on_cst f C) = cclosed C"
  by (simp_all add: on_cst_def)

lemma print_simps [simp]:
  "cst (print_line l C) = cst C" "ctl (print_line l C) = ctl C" "cdisk (print_line l C) = cdisk C"
  "cnet (print_line l C) = cnet C" "cclosed (print_line l C) = cclosed C" "console (print_line l C) = console C @ [l]"
  "cst (printStoredReply r C) = cst C" "ctl (printStoredReply r C) = ctl C" "cdisk (printStoredReply r C) = cdisk C"
  "cnet (printStoredReply r C) = cnet C" "cclosed (printStoredReply r C) = cclosed C"
  "console (printStoredReply r C) = console C @ map Cout (rlines r)"
  by (simp_all add: print_line_def printStoredReply_def)

lemma close_socket_simps [simp]:
  "cst (close_socket k C) = cst C" "ctl (close_socket k C) = ctl C" "cdisk (close_socket k C) = cdisk C"
  "cnet (close_socket k C) = cnet C" "console (close_socket k C) = console C" "cclosed (close_socket k C) = cclosed C @ [k]"
  by (simp_all add: close_socket_def)

lemma closeDataState_simps [simp]:
  "cst (closeDataState C) = (cst C)\<lparr>c_pendingDataSocket := None, c_passiveAddress := zero_addr, c_dataMode := NoData\<rparr>"
  "ctl (closeDataState C) = ctl C" "cdisk (closeDataState C) = cdisk C" "cnet (closeDataState C) = cnet C"
  "console (closeDataState C) = console C"
  "cclosed (closeDataState C) = cclosed C @ (case c_pendingDataSocket (cst C) of None \<Rightarrow> [] | Some k \<Rightarrow> [k])"
  by (cases "c_pendingDataSocket (cst C)"; simp add: closeDataState_def Let_def)+

lemma join_simps [simp]:
  "cst (cl_joinCompletedTransfer C) =
     (cst C)\<lparr>c_transferWorker := (if c_transferActive (cst C) then c_transferWorker (cst C) else None)\<rparr>"
  "ctl (cl_joinCompletedTransfer C) = ctl C" "cdisk (cl_joinCompletedTransfer C) = cdisk C"
  "cnet (cl_joinCompletedTransfer C) = cnet C" "console (cl_joinCompletedTransfer C) = console C"
  "cclosed (cl_joinCompletedTransfer C) = cclosed C"
  by (cases "c_transferActive (cst C)"; cases "c_transferWorker (cst C)"; simp add: cl_joinCompletedTransfer_def)+

lemma same_links_print [simp]:
  "same_links C (print_line l C') = same_links C C'" "same_links C (printStoredReply r C') = same_links C C'"
  "same_links C (C'\<lparr>cnet := w\<rparr>) = same_links C C'" "same_links C (C'\<lparr>cdisk := F\<rparr>) = same_links C C'"
  "same_links C (C'\<lparr>ctl := c\<rparr>) = same_links C C'"
  by (simp_all add: same_links_def)

lemma cl_send_links: "cl_send t C = (b, C') \<Longrightarrow> same_links C C'"
  by (auto simp: cl_send_def same_links_def split: prod.splits)

lemma cl_readReply_links: "cl_readReply C = (r, C') \<Longrightarrow> same_links C C'"
  by (auto simp: cl_readReply_def same_links_def split: prod.splits)

lemma printReply_links: "printReply C = (r, C') \<Longrightarrow> same_links C C'"
  using cl_readReply_links [of C] by (auto simp: printReply_def split: prod.splits option.splits)

text \<open>The steps of a worker between the replies leave the control connection alone as well.\<close>

definition quiet :: "client \<Rightarrow> client \<Rightarrow> bool" where
  "quiet C C' \<longleftrightarrow> same_links C C' \<and> ctl C' = ctl C \<and> c_replyBuffer (cst C') = c_replyBuffer (cst C)"

lemma quiet_refl [simp]: "quiet C C"
  by (simp add: quiet_def)

lemma quiet_trans [trans]: "quiet C C1 \<Longrightarrow> quiet C1 C2 \<Longrightarrow> quiet C C2"
  using same_links_trans by (auto simp: quiet_def)

lemma quiet_print [simp]:
  "quiet C (print_line l C') = quiet C C'" "quiet C (printStoredReply r C') = quiet C C'"
  "quiet C (C'\<lparr>cnet := w\<rparr>) = quiet C C'" "quiet C (C'\<lparr>cdisk := F\<rparr>) = quiet C C'"
  by (simp_all add: quiet_def)

lemma cl_aborted_quiet: "cl_aborted C = (b, C') \<Longrightarrow> quiet C C'"
  by (auto simp: cl_aborted_def quiet_def same_links_def split: prod.splits)

lemma compare_hashes_quiet [simp]: "quiet C (compare_hashes a b C') = quiet C C'"
  by (simp add: compare_hashes_def)

text \<open>What all parts of the reports keep, the reports keep.\<close>

lemma report_upload_rule:
  assumes "Q C" "\<And>C b C'. cl_aborted C = (b, C') \<Longrightarrow> Q C \<Longrightarrow> Q C'" "\<And>C. Q C \<Longrightarrow> Q (print_line (Cerr ''Upload failed.'') C)"
    "\<And>C s. Q C \<Longrightarrow> Q (print_line (Cout s) C)"
    "\<And>C r h. completion = Some r \<Longrightarrow> mode = Binary \<Longrightarrow> sha256 res \<noteq> [] \<Longrightarrow>
       extractHashField (rline r) ''SHA256'' = Some h \<Longrightarrow> Q C \<Longrightarrow> Q (compare_hashes (sha256 res) h C)"
  shows "Q (report_upload verb mode res completion C)"
proof (cases completion)
  case None
  with assms(1) show ?thesis by (simp add: report_upload_def)
next
  case (Some r)
  obtain ab C1 where a: "cl_aborted C = (ab, C1)" by fastforce
  obtain ab2 C2 where a2: "cl_aborted C1 = (ab2, C2)" by fastforce
  have c1: "Q C1" using assms(2) [OF a assms(1)] .
  have c2: "Q C2" using assms(2) [OF a2 c1] .
  show ?thesis using c1 c2 assms(3,4) assms(5) [OF Some]
    by (auto simp: report_upload_def Some a a2 Let_def split: option.split)
qed

lemma report_upload_quiet: "quiet C (report_upload verb mode res completion C)"
  by (rule report_upload_rule) (auto dest: cl_aborted_quiet intro: quiet_trans)

lemma report_download_rule:
  assumes "Q C" "\<And>C b C'. cl_aborted C = (b, C') \<Longrightarrow> Q C \<Longrightarrow> Q C'" "\<And>C s. Q C \<Longrightarrow> Q (print_line (Cerr (''Download failed for '' @ s)) C)"
    "\<And>C r. Q C \<Longrightarrow> Q (printStoredReply r C)"
    "\<And>C r h. completion = Some r \<Longrightarrow> rcode r = 226 \<Longrightarrow> good \<Longrightarrow> mode = Binary \<Longrightarrow>
       extractHashField (rline r) ''SHA256'' = Some h \<Longrightarrow> Q C \<Longrightarrow> Q (compare_hashes (cl_hash_file X p C) h C)"
  shows "Q (report_download X p mode good why completion C)"
proof (cases completion)
  case None
  obtain ab C1 where a: "cl_aborted C = (ab, C1)" by fastforce
  with None show ?thesis using assms(2) [OF a assms(1)]
      assms(3) [of C1 "quoted p @ '': the final server reply was not received.''"] by (simp add: report_download_def)
next
  case (Some r)
  obtain ab C1 where a: "cl_aborted C = (ab, C1)" by fastforce
  obtain ab2 C2 where a2: "cl_aborted C1 = (ab2, C2)" by fastforce
  define C3 where "C3 = (if \<not> ab \<and> (\<not> good \<or> rcode r \<noteq> 226)
     then print_line (Cerr (download_failure p why (rcode r))) (if rcode r \<noteq> 226 then printStoredReply r C1 else C1)
     else if \<not> ab2 then printStoredReply r C2 else C2)"
  obtain ab3 C4 where a3: "cl_aborted C3 = (ab3, C4)" by fastforce
  have c1: "Q C1" using assms(2) [OF a assms(1)] .
  have c2: "Q C2" using assms(2) [OF a2 c1] .
  have c3: "Q C3" using c1 c2 assms(3,4) by (auto simp: C3_def download_failure_def)
  have c4: "Q C4" using assms(2) [OF a3 c3] .
  have eq: "report_download X p mode good why completion C =
     (if \<not> good then C3
      else if \<not> ab3 \<and> rcode r = 226 \<and> mode = Binary
      then case extractHashField (rline r) ''SHA256'' of None \<Rightarrow> C4
         | Some h \<Rightarrow> compare_hashes (cl_hash_file X p C4) h C4
      else C4)"
    unfolding report_download_def Some option.case a Let_def prod.case a2 C3_def [symmetric] a3 ..
  show ?thesis unfolding eq using c3 c4 assms(5) [OF Some] by (simp split: option.split)
qed

lemma report_download_quiet: "quiet C (report_download X p mode good why completion C)"
  by (rule report_download_rule) (auto dest: cl_aborted_quiet intro: quiet_trans)

section \<open>The invariant\<close>

definition worker_socket :: "cl_worker option \<Rightarrow> nat list" where
  "worker_socket wk = (case wk of Some (Storing v p m k a b t) \<Rightarrow> [k] | Some (Retrieving p m k a b t) \<Rightarrow> [k] | _ \<Rightarrow> [])"

lemma worker_socket_simps [simp]:
  "worker_socket None = []" "worker_socket (Some Ended) = []" "worker_socket (Some (Storing v p m k a b t)) = [k]"
  "worker_socket (Some (Retrieving p m k a b t)) = [k]"
  by (simp_all add: worker_socket_def)

definition client_ok :: "client \<Rightarrow> bool" where
  "client_ok C \<longleftrightarrow> (c_dataMode (cst C) \<noteq> NoData \<longleftrightarrow> c_pendingDataSocket (cst C) \<noteq> None) \<and>
     (c_transferActive (cst C) \<longleftrightarrow> worker_socket (c_transferWorker (cst C)) \<noteq> [])"

text \<open>The data sockets the client ever had: closed, pending, or with a worker.\<close>

definition sockets :: "client \<Rightarrow> nat multiset" where
  "sockets C = mset (cclosed C) + mset (case c_pendingDataSocket (cst C) of None \<Rightarrow> [] | Some k \<Rightarrow> [k]) +
     mset (worker_socket (c_transferWorker (cst C)))"

lemma same_links_ok: "same_links C C' \<Longrightarrow> client_ok C' = client_ok C" "same_links C C' \<Longrightarrow> sockets C' = sockets C"
  by (simp_all add: same_links_def client_ok_def sockets_def)

text \<open>A step that keeps the invariant and opens at most the socket \<open>n\<close>.\<close>

definition accounts :: "nat \<Rightarrow> client \<Rightarrow> client \<Rightarrow> bool" where
  "accounts n C C' \<longleftrightarrow> client_ok C' \<and> (sockets C' = sockets C \<or> sockets C' = add_mset n (sockets C))"

lemma accounts_links: "same_links C C' \<Longrightarrow> client_ok C \<Longrightarrow> accounts n C C'"
  using same_links_ok by (simp add: accounts_def)

lemma accounts_after: "same_links C C1 \<Longrightarrow> accounts n C1 C' \<Longrightarrow> accounts n C C'"
  using same_links_ok by (simp add: accounts_def)

lemma accounts_before: "accounts n C C1 \<Longrightarrow> same_links C1 C' \<Longrightarrow> accounts n C C'"
  using same_links_ok by (simp add: accounts_def)

lemma close_ok: "client_ok C \<Longrightarrow> client_ok (closeDataState C) \<and> sockets (closeDataState C) = sockets C"
  by (auto simp: client_ok_def sockets_def split: option.splits)

lemma join_ok: "client_ok C \<Longrightarrow> client_ok (cl_joinCompletedTransfer C) \<and> sockets (cl_joinCompletedTransfer C) = sockets C"
  by (auto simp: client_ok_def sockets_def)

section \<open>Every command keeps it\<close>

lemma close_new: "client_ok C \<Longrightarrow> accounts n C (close_socket n C)"
  by (simp add: accounts_def client_ok_def sockets_def)

lemma accounts_simps [simp]:
  "accounts n C (print_line l C') = accounts n C C'" "accounts n C (C'\<lparr>cnet := w\<rparr>) = accounts n C C'"
  "accounts n C (C'\<lparr>cdisk := F\<rparr>) = accounts n C C'"
  by (simp_all add: accounts_def client_ok_def sockets_def)

lemma accounts_refl [simp]: "accounts n C C \<longleftrightarrow> client_ok C"
  by (simp add: accounts_def)

lemma announcePort_ok:
  assumes "client_ok C" "c_pendingDataSocket (cst C) = None"
  shows "accounts k C (snd (announcePort k arg C))"
proof -
  obtain b C1 where s: "cl_send (''PORT '' @ arg) C = (b, C1)" by fastforce
  obtain r C2 where p: "printReply C1 = (r, C2)" by fastforce
  note l1 = cl_send_links [OF s]
  note l2 = same_links_trans [OF l1 printReply_links [OF p]]
  have ok: "client_ok C1" "client_ok C2" using l1 l2 assms(1) by (simp_all add: same_links_ok)
  have "accounts k C2 (on_cst (\<lambda>s. s\<lparr>c_pendingDataSocket := Some k, c_dataMode := ActiveData\<rparr>) C2)"
    using ok(2) l2 assms(2) by (simp add: accounts_def client_ok_def sockets_def same_links_def)
  from accounts_after [OF l2 this] accounts_after [OF l1 close_new [OF ok(1), of k]] accounts_after [OF l2 close_new [OF ok(2), of k]]
  show ?thesis unfolding announcePort_def s by (cases b; cases r) (simp_all add: p)
qed

lemma accounts_closed:
  assumes "client_ok C" "accounts n (closeDataState C) C'"
  shows "accounts n C C'"
  using close_ok [OF assms(1)] assms(2) by (simp add: accounts_def)

lemma enterActiveMode_ok:
  assumes "client_ok C"
  shows "accounts (cl_newSocket X) C (snd (enterActiveMode X tokens C))"
proof -
  let ?C = "closeDataState C"
  have ok: "client_ok ?C" using close_ok [OF assms] by simp
  have ann: "accounts (cl_newSocket X) ?C (snd (announcePort (cl_newSocket X) arg (?C\<lparr>cnet := w\<rparr>)))" for arg w
    using announcePort_ok [of "?C\<lparr>cnet := w\<rparr>" "cl_newSocket X" arg] ok
    by (intro accounts_after [of ?C "?C\<lparr>cnet := w\<rparr>"]) (simp_all add: client_ok_def)
  show ?thesis
  proof (cases "length tokens < 1 \<or> length tokens > 2")
    case True
    with assms show ?thesis by (simp add: enterActiveMode_def)
  next
    case False
    show ?thesis
      by (rule accounts_closed [OF assms])
        (use ann ok False in \<open>auto simp: enterActiveMode_def Let_def split: prod.split option.split bool.split\<close>)
  qed
qed

lemma enterPassiveMode_ok:
  assumes "client_ok C"
  shows "accounts (cl_newSocket X) C (snd (enterPassiveMode X tokens C))"
proof (cases "length tokens = 1")
  case True
  let ?C = "closeDataState C"
  have ok: "client_ok ?C" using close_ok [OF assms] by simp
  obtain b C1 where s: "cl_send ''PASV'' ?C = (b, C1)" by fastforce
  obtain r C2 where p: "printReply C1 = (r, C2)" by fastforce
  note l1 = cl_send_links [OF s]
  note l2 = same_links_trans [OF l1 printReply_links [OF p]]
  have c: "c_pendingDataSocket (cst C2) = None" "client_ok C2" using l2 ok by (simp_all add: same_links_def client_ok_def)
  let ?C3 = "\<lambda>a. on_cst (c_passiveAddress_update (\<lambda>_. a)) C2"
  have o: "accounts n C2 (?C3 a)" for a n using c by (simp add: accounts_def client_ok_def sockets_def)
  have n: "accounts k C2 (on_cst (\<lambda>s. s\<lparr>c_pendingDataSocket := Some k, c_dataMode := PassiveData\<rparr>) ((?C3 a)\<lparr>cnet := w\<rparr>))" for a k w
    using c by (simp add: accounts_def client_ok_def sockets_def)
  have a1: "accounts (cl_newSocket X) ?C C1" "accounts (cl_newSocket X) ?C C2"
    using accounts_links [OF l1 ok] accounts_links [OF l2 ok] by simp_all
  have a2: "accounts (cl_newSocket X) ?C (?C3 a)" for a by (rule accounts_after [OF l2 o])
  have a3: "accounts (cl_newSocket X) ?C
      (on_cst (\<lambda>s. s\<lparr>c_pendingDataSocket := Some (cl_newSocket X), c_dataMode := PassiveData\<rparr>) ((?C3 a)\<lparr>cnet := w\<rparr>))" for a w
    by (rule accounts_after [OF l2 n])
  show ?thesis
    by (rule accounts_closed [OF assms])
      (use True a1 a2 a3 in \<open>auto simp: enterPassiveMode_def s p Let_def split: bool.split option.split prod.split\<close>)
qed (use assms in \<open>simp add: enterPassiveMode_def\<close>)

lemma start_worker_ok:
  assumes "client_ok C" "\<not> c_transferActive (cst C)" "c_pendingDataSocket (cst C) = Some k"
    "\<And>m a b t. worker_socket (Some (job m k a b t)) = [k]"
  shows "accounts n C (start_worker X job failure k C)"
proof -
  have w: "worker_socket (c_transferWorker (cst C)) = []" using assms(1,2) by (simp add: client_ok_def)
  have "sockets (start_worker X job failure k C) = sockets C"
    using assms(2-4) w by (simp add: start_worker_def Let_def sockets_def)
  moreover have "client_ok (start_worker X job failure k C)"
    using assms w by (simp add: start_worker_def Let_def client_ok_def)
  ultimately show ?thesis by (simp add: accounts_def)
qed

lemma request_transfer_ok:
  assumes "client_ok C" "\<not> c_transferActive (cst C)" "c_pendingDataSocket (cst C) = Some k"
    "\<And>m a b t. worker_socket (Some (job m k a b t)) = [k]"
  shows "accounts n C (snd (request_transfer X command job failure k C))"
proof -
  obtain b C1 where s: "cl_send command C = (b, C1)" by fastforce
  obtain r C2 where p: "printReply C1 = (r, C2)" by fastforce
  note l1 = cl_send_links [OF s]
  note l2 = same_links_trans [OF l1 printReply_links [OF p]]
  have ok: "client_ok C2" using l2 assms(1) by (simp add: same_links_ok)
  have "accounts n C2 (start_worker X job failure k C2)"
    by (rule start_worker_ok [OF ok]) (use l2 assms in \<open>simp_all add: same_links_def\<close>)
  moreover have "accounts n C2 (closeDataState C2)" using close_ok [OF ok] by (simp add: accounts_def)
  ultimately have "accounts n C (start_worker X job failure k C2)" "accounts n C (closeDataState C2)"
    using accounts_after [OF l2] by blast+
  with accounts_links [OF l1 assms(1)] accounts_links [OF l2 assms(1)] show ?thesis
    by (cases b; cases r) (simp_all add: request_transfer_def s p)
qed

lemma storeFile_ok:
  assumes "storeFile X tokens C = Returns (b, C')" "client_ok C" "\<not> c_transferActive (cst C)"
  shows "accounts n C C'"
proof -
  have rt: "accounts n C (snd (request_transfer X command (Storing v p) failure k (C\<lparr>cdisk := F\<rparr>)))"
    if "c_pendingDataSocket (cst C) = Some k" for command v p failure k F
    by (rule accounts_after [of C "C\<lparr>cdisk := F\<rparr>"])
      (use that assms(2,3) in \<open>auto simp: client_ok_def intro!: request_transfer_ok\<close>)
  have rt': "accounts n C C2" if "request_transfer X command (Storing v p) failure k (C\<lparr>cdisk := F\<rparr>) = (b2, C2)"
    "c_pendingDataSocket (cst C) = Some k" for command v p failure k F b2 C2
    using rt [OF that(2), of command v p failure F] that(1) by simp
  show ?thesis using assms(1,2)
    by (auto simp: storeFile_def Let_def intro: rt' split: if_splits prod.splits bool.splits option.splits)
qed

lemma retrieveFile_ok:
  assumes "client_ok C" "\<not> c_transferActive (cst C)"
  shows "accounts n C (snd (retrieveFile X tokens C))"
proof -
  have rt: "accounts n C (snd (request_transfer X command (Retrieving p) failure k (C\<lparr>cdisk := F\<rparr>)))"
    if "c_pendingDataSocket (cst C) = Some k" for command p failure k F
    by (rule accounts_after [of C "C\<lparr>cdisk := F\<rparr>"])
      (use that assms in \<open>auto simp: client_ok_def intro!: request_transfer_ok\<close>)
  show ?thesis using assms(1)
    by (auto simp: retrieveFile_def Let_def rt split: prod.split option.split)
qed

lemma forwardCommand_ok:
  assumes "client_ok C"
  shows "accounts n C (snd (forwardCommand command tokens C))"
proof -
  obtain b C1 where s: "cl_send (canonicalizeCommandVerb command) C = (b, C1)" by fastforce
  obtain r C2 where p: "printReply C1 = (r, C2)" by fastforce
  note l1 = cl_send_links [OF s]
  note l2 = same_links_trans [OF l1 printReply_links [OF p]]
  have ok: "client_ok C2" using l2 assms by (simp add: same_links_ok)
  have "accounts n C2 (on_cst (c_transferMode_update f) C2)" for f
    using ok by (simp add: accounts_def client_ok_def sockets_def)
  with accounts_links [OF l1 assms] accounts_links [OF l2 assms] accounts_after [OF l2] show ?thesis
    by (cases b; cases r) (simp_all add: forwardCommand_def s p Let_def)
qed

text \<open>A worker that ends closes its socket.\<close>

lemma end_worker_ok:
  assumes "client_ok C" "worker_socket (c_transferWorker (cst C)) = [k]" "same_links C C1"
  shows "client_ok (end_worker k C1) \<and> sockets (end_worker k C1) = sockets C"
  using assms by (simp add: end_worker_def client_ok_def sockets_def same_links_def)

text \<open>A worker, whatever its transfer does, reads one reply from the control connection.\<close>

lemma run_store_outcome:
  assumes "run_store X v p mode k a b t C = Some C'"
  obtains completion C1 C2 C3 where "quiet C C1" "cl_readReply C1 = (completion, C2)" "quiet C2 C3" "C' = end_worker k C3"
proof -
  obtain s w1 where s: "(if mode = PassiveData then cl_RdtSender_existing True a 500 (cnet C) else cl_RdtSender_active True 500 (cnet C)) = (s, w1)"
    by fastforce
  let ?s = "cl_sender_setAbortPredicate True s"
  obtain ready s2 w2 where r: "(if mode = PassiveData then Some (True, ?s, w1) else waitForServerReady (sin_addr b) ?s w1) = Some (ready, s2, w2)"
    using assms unfolding run_store_def Let_def s prod.case by (auto split: option.splits)
  obtain ab C1 where a: "(if ready then cl_aborted (C\<lparr>cnet := w2\<rparr>) else (True, C\<lparr>cnet := w2\<rparr>)) = (ab, C1)" by fastforce
  have q1: "quiet C C1"
    using a cl_aborted_quiet [of "C\<lparr>cnet := w2\<rparr>" ab C1] by (auto simp: quiet_def same_links_def split: if_splits)
  obtain result s3 w3 F where f: "(if ready \<and> \<not> ab then cl_sendFile (cl_hash X) True (cl_denotes X p) t s2 (cnet C1) (cdisk C1)
      else Some (\<lparr>success = False, sha256 = []\<rparr>, s2, cnet C1, cdisk C1)) = Some (result, s3, w3, F)"
    using assms unfolding run_store_def Let_def s prod.case r option.case a by (auto split: option.splits)
  let ?C1 = "C1\<lparr>cnet := w3, cdisk := F\<rparr>"
  obtain completion C2 where p: "cl_readReply ?C1 = (completion, C2)" by fastforce
  define C2' where "C2' = (case completion of None \<Rightarrow> C2 | Some rep \<Rightarrow> printStoredReply rep C2)"
  have "printReply ?C1 = (completion, C2')" by (cases completion) (simp_all add: printReply_def p C2'_def)
  then have C': "C' = end_worker k (report_upload v t result completion C2')"
    using assms unfolding run_store_def Let_def s prod.case r option.case a f by simp
  have "quiet C ?C1" using q1 by simp
  moreover have "quiet C2 C2'" by (simp add: C2'_def split: option.split)
  then have "quiet C2 (report_upload v t result completion C2')" using report_upload_quiet by (rule quiet_trans)
  ultimately show thesis using p C' by (intro that)
qed

lemma run_retrieve_outcome:
  assumes "run_retrieve X p mode k a b t C = Some C'"
  obtains completion C1 C2 C3 where "quiet C C1" "cl_readReply C1 = (completion, C2)" "quiet C2 C3" "C' = end_worker k C3"
proof -
  obtain s w1 where s: "cl_RdtReceiver_existing True (cnet C) = (s, w1)" by fastforce
  let ?s = "cl_expectPeerIp (sin_addr b) (cl_setAbortPredicate True s)"
  obtain ready s2 w2 where r: "(if udpSocketOk ?s \<and> mode = PassiveData then signalClientReady a ?s w1
      else Some (udpSocketOk ?s, ?s, w1)) = Some (ready, s2, w2)"
    using assms unfolding run_retrieve_def Let_def s prod.case by (auto split: option.splits)
  obtain ab C1 where a: "(if ready then cl_aborted (C\<lparr>cnet := w2\<rparr>) else (True, C\<lparr>cnet := w2\<rparr>)) = (ab, C1)" by fastforce
  have q1: "quiet C C1"
    using a cl_aborted_quiet [of "C\<lparr>cnet := w2\<rparr>" ab C1] by (auto simp: quiet_def same_links_def split: if_splits)
  obtain good why s3 w3 F where f: "(if ready \<and> \<not> ab then cl_receiveFile (cl_probe X p) True p t s2 (cnet C1) (cdisk C1)
      else Some (False, [], s2, cnet C1, cdisk C1)) = Some (good, why, s3, w3, F)"
    using assms unfolding run_retrieve_def Let_def s prod.case r option.case a by (auto split: option.splits)
  obtain completion C2 where p: "cl_readReply (C1\<lparr>cnet := w3, cdisk := F\<rparr>) = (completion, C2)" by fastforce
  have "C' = end_worker k (report_download X p t good why completion C2)"
    using assms unfolding run_retrieve_def Let_def s prod.case r option.case a f p by simp
  moreover have "quiet C (C1\<lparr>cnet := w3, cdisk := F\<rparr>)" using q1 by simp
  ultimately show thesis using p report_download_quiet by (intro that)
qed

lemma worker_socket_cases:
  assumes "worker_socket wk \<noteq> []"
  obtains v p m k a b t where "wk = Some (Storing v p m k a b t)" | p m k a b t where "wk = Some (Retrieving p m k a b t)"
  using assms by (auto simp: worker_socket_def split: option.splits cl_worker.splits)

lemma cl_run_worker_outcome:
  assumes "cl_run_worker X C = Some C'" "worker_socket (c_transferWorker (cst C)) = [k]"
  obtains completion C1 C2 C3 where "quiet C C1" "cl_readReply C1 = (completion, C2)" "quiet C2 C3" "C' = end_worker k C3"
proof -
  have "worker_socket (c_transferWorker (cst C)) \<noteq> []" using assms(2) by simp
  then show thesis
  proof (cases rule: worker_socket_cases)
    case (1 v p m j a b t)
    with assms have "run_store X v p m k a b t C = Some C'" by (simp add: cl_run_worker_def)
    then show thesis by (rule run_store_outcome) (rule that)
  next
    case (2 p m j a b t)
    with assms have "run_retrieve X p m k a b t C = Some C'" by (simp add: cl_run_worker_def)
    then show thesis by (rule run_retrieve_outcome) (rule that)
  qed
qed

lemma worker_socket_one: "worker_socket wk \<noteq> [] \<Longrightarrow> \<exists>k. worker_socket wk = [k]"
  by (auto simp: worker_socket_def split: option.splits cl_worker.splits)

lemma cl_run_worker_ok:
  assumes "cl_run_worker X C = Some C'" "client_ok C"
  shows "client_ok C' \<and> sockets C' = sockets C"
proof (cases "worker_socket (c_transferWorker (cst C)) = []")
  case True
  with assms show ?thesis by (auto simp: cl_run_worker_def worker_socket_def split: option.splits cl_worker.splits)
next
  case False
  then obtain k where k: "worker_socket (c_transferWorker (cst C)) = [k]" using worker_socket_one by blast
  obtain completion C1 C2 C3 where o: "quiet C C1" "cl_readReply C1 = (completion, C2)" "quiet C2 C3" "C' = end_worker k C3"
    by (rule cl_run_worker_outcome [OF assms(1) k])
  have "same_links C C3"
    using o(1,3) cl_readReply_links [OF o(2)] same_links_trans unfolding quiet_def by blast
  then show ?thesis unfolding o(4) by (rule end_worker_ok [OF assms(2) k])
qed

lemma cl_run_worker_ended:
  assumes "cl_run_worker X C = Some C'" "client_ok C" "c_transferWorker (cst C) \<noteq> None"
  shows "c_transferWorker (cst C') = Some Ended"
proof (cases "worker_socket (c_transferWorker (cst C)) = []")
  case True
  with assms show ?thesis by (auto simp: cl_run_worker_def worker_socket_def split: option.splits cl_worker.splits)
next
  case False
  then obtain k where k: "worker_socket (c_transferWorker (cst C)) = [k]" using worker_socket_one by blast
  obtain C3 where "C' = end_worker k C3" by (rule cl_run_worker_outcome [OF assms(1) k]) (rule that)
  then show ?thesis by (simp add: end_worker_def)
qed

lemma cl_join_worker_ok:
  assumes "cl_join_worker X C = Some C'" "client_ok C"
  shows "sockets C' = sockets C" "c_transferWorker (cst C') = None"
    "client_ok (on_cst (c_transferActive_update (\<lambda>_. False)) C')"
proof -
  have "sockets C' = sockets C \<and> c_transferWorker (cst C') = None \<and>
      client_ok (on_cst (c_transferActive_update (\<lambda>_. False)) C')"
  proof (cases "c_transferWorker (cst C) = None")
    case True
    with assms show ?thesis by (auto simp: cl_join_worker_def client_ok_def)
  next
    case False
    then obtain C1 where C1: "cl_run_worker X C = Some C1" "C' = on_cst (c_transferWorker_update (\<lambda>_. None)) C1"
      using assms(1) by (auto simp: cl_join_worker_def)
    from cl_run_worker_ok [OF C1(1) assms(2)] cl_run_worker_ended [OF C1(1) assms(2) False] C1(2) show ?thesis
      by (auto simp: client_ok_def sockets_def)
  qed
  then show "sockets C' = sockets C" "c_transferWorker (cst C') = None"
    "client_ok (on_cst (c_transferActive_update (\<lambda>_. False)) C')" by blast+
qed

lemma dispatch_ok:
  assumes "dispatch X input tokens C = Returns (b, C')" "client_ok C" "\<not> c_transferActive (cst C)"
  shows "accounts (cl_newSocket X) C C'"
  using assms(1) enterActiveMode_ok [OF assms(2), of X tokens] enterPassiveMode_ok [OF assms(2), of X tokens]
    storeFile_ok [OF _ assms(2,3), of X tokens b C'] retrieveFile_ok [OF assms(2,3), of _ X tokens]
    forwardCommand_ok [OF assms(2), of _ input tokens]
  by (auto simp: dispatch_def Let_def split: if_splits)

lemma client_line_ok:
  assumes "client_line X input C = Some (Returns (b, C'))" "client_ok C"
  shows "accounts (cl_newSocket X) C C'"
proof (cases "split_words input = []")
  case True
  with assms show ?thesis by (auto simp: client_line_def)
next
  case False
  show ?thesis
  proof (cases "c_transferActive (cst C)")
    case True
    show ?thesis
    proof (cases "upper_string (hd (split_words input)) \<noteq> ''ABOR'' \<or> length (split_words input) \<noteq> 1")
      case refused: True
      with assms True False show ?thesis by (auto simp: client_line_def Let_def)
    next
      case abor: False
      let ?C = "on_cst (c_abortRequested_update (\<lambda>_. True)) C"
      obtain alive C1 where s: "cl_send ''ABOR'' ?C = (alive, C1)" by fastforce
      have ok0: "client_ok ?C" "sockets ?C = sockets C" using assms(2) by (simp_all add: client_ok_def sockets_def)
      have ok1: "client_ok C1" "sockets C1 = sockets C" using cl_send_links [OF s] ok0 by (simp_all add: same_links_ok)
      obtain C2 where j: "cl_join_worker X C1 = Some C2" "C' = on_cst (c_transferActive_update (\<lambda>_. False)) C2"
        using assms(1) True False abor s by (auto simp: client_line_def Let_def)
      from cl_join_worker_ok [OF j(1) ok1(1)] ok1(2) j(2) show ?thesis by (simp add: accounts_def sockets_def)
    qed
  next
    case inactive: False
    let ?J = "cl_joinCompletedTransfer C"
    have j: "client_ok ?J" "sockets ?J = sockets C" using join_ok [OF assms(2)] by simp_all
    obtain a where "dispatch X input (split_words input) ?J = Returns (a, C')"
      using assms(1) False inactive by (auto simp: client_line_def Let_def split: outcome.splits prod.splits)
    from dispatch_ok [OF this j(1)] j(2) inactive show ?thesis by (simp add: accounts_def)
  qed
qed

lemma client_loop_ok:
  "client_loop env n inputs C = Some (Returns C') \<Longrightarrow> client_ok C \<Longrightarrow>
   client_ok C' \<and> (\<exists>opened. subseq opened (map (cl_newSocket \<circ> env) [n..<n + length inputs]) \<and>
     sockets C' = sockets C + mset opened)"
proof (induction env n inputs C rule: client_loop.induct)
  case (1 env n C)
  then show ?case by (intro conjI exI [of _ "[]"]) auto
next
  case (2 env n ended input rest C)
  obtain C1 where C1: "(if ended \<and> c_transferActive (cst C) then cl_run_worker (env n) C else Some C) = Some C1"
    using "2.prems"(1) by (auto split: option.splits)
  obtain b C2 where C2: "client_line (env n) input C1 = Some (Returns (b, C2))"
    using "2.prems"(1) C1 by (auto split: option.splits outcome.splits)
  have ok1: "client_ok C1" "sockets C1 = sockets C"
    using C1 "2.prems"(2) cl_run_worker_ok [of "env n" C C1] by (auto split: if_splits)
  have ok2: "client_ok C2" "sockets C2 = sockets C \<or> sockets C2 = add_mset (cl_newSocket (env n)) (sockets C)"
    using client_line_ok [OF C2 ok1(1)] ok1(2) by (simp_all add: accounts_def)
  have upt: "map (cl_newSocket \<circ> env) [n..<n + length ((ended, input) # rest)] =
      cl_newSocket (env n) # map (cl_newSocket \<circ> env) [Suc n..<Suc n + length rest]"
    using upt_conv_Cons [of n "n + length ((ended, input) # rest)"] by (simp del: upt_Suc)
  have "client_ok C' \<and> (\<exists>opened. subseq opened (map (cl_newSocket \<circ> env) [Suc n..<Suc n + length rest]) \<and>
      sockets C' = sockets C2 + mset opened)"
  proof (cases b)
    case True
    with "2.prems"(1) C1 C2 have "client_loop env (Suc n) rest C2 = Some (Returns C')" by simp
    with "2.IH" [OF C1 C2 refl refl] True ok2(1) show ?thesis by (simp add: comp_def del: upt_Suc)
  next
    case False
    with "2.prems"(1) C1 C2 ok2(1) show ?thesis by (intro conjI exI [of _ "[]"]) auto
  qed
  then obtain opened where o: "client_ok C'" "subseq opened (map (cl_newSocket \<circ> env) [Suc n..<Suc n + length rest])"
    "sockets C' = sockets C2 + mset opened" by blast
  show ?case
  proof (cases "sockets C2 = sockets C")
    case True
    with o show ?thesis unfolding upt by (intro conjI exI [of _ opened]) auto
  next
    case False
    with o ok2(2) show ?thesis unfolding upt
      by (intro conjI exI [of _ "cl_newSocket (env n) # opened"]) auto
  qed
qed


section \<open>Example\<close>

text \<open>A client whose control connection ends after the greeting and one reply; the user opens a passive connection.\<close>

definition sample_system :: cl_system where
  "sample_system = \<lparr>cl_inet_pton = sample_inet_pton, cl_wide_int = (\<lambda>v. v), cl_localIp = 0x7F000001, cl_boundPort = 5000,
     cl_newSocket = 30, cl_denotes = (\<lambda>p. p), cl_isDirectory = (\<lambda>p. False),
     cl_probe = (\<lambda>p. \<lparr>absoluteResult = Inl p, parentEmpty = False, parentExists = Inl True, parentIsDirectory = Inl True,
       destExists = Inl False, destIsDirectory = Inl False, destAttributes = Inl True, destReplaceable = None\<rparr>),
     cl_hash = (\<lambda>bs. ''ab''), cl_threadStarts = True\<rparr>"

definition sample_client :: "string list \<Rightarrow> client" where
  "sample_client pieces = \<lparr>cst = new_client_state zero_addr, ctl = \<lparr>toPeer = [], sendResults = [], fromPeer = pieces, shut = False\<rparr>,
     console = [], cdisk = \<lparr>files = Map.empty, fsOk = [], tmpNames = [], lastError = ([], [])\<rparr>, cnet = idle_world [], cclosed = []\<rparr>"

abbreviation sample_pieces :: "string list" where
  "sample_pieces \<equiv> [''220 a'' @ CRLF, ''200 b'' @ CRLF]"

lemma sample_session:
  "case runClientSession (\<lambda>_. sample_system) sample_system (Some zero_addr) [(False, ''port'')] (sample_client sample_pieces) of
     Some (Returns C') \<Rightarrow> cclosed C' = [30] \<and> toPeer (ctl C') = ''PORT 127,0,0,1,19,136'' @ CRLF | _ \<Rightarrow> False"
  by code_simp


end
