(* ===== verification/Disk_Frame.thy ===== *)
theory Disk_Frame
  imports Data_Channel_Receive Transfer_Files
begin

text \<open>
  Which files the transfers can touch, whatever fails: temporary ones and the destination.
\<close>

definition touches :: "path set \<Rightarrow> fsys \<Rightarrow> fsys \<Rightarrow> bool" where
  "touches A F F' \<longleftrightarrow> (\<forall>q. q \<notin> A \<longrightarrow> files F' q = files F q) \<and> set (tmpNames F') \<subseteq> set (tmpNames F)"

lemma touches_refl [simp]: "touches A F F"
  by (simp add: touches_def)

lemma touches_trans [trans]: "touches A F F1 \<Longrightarrow> touches A F1 F2 \<Longrightarrow> touches A F F2"
  by (auto simp: touches_def)

lemma touches_mono: "touches A F F' \<Longrightarrow> A \<subseteq> B \<Longrightarrow> touches B F F'"
  by (auto simp: touches_def)

section \<open>The calls of the file system\<close>

lemma touches_try: "fs_try F = (b, F') \<Longrightarrow> touches A F F'"
  using fs_try_eq by (fastforce simp: touches_def)

lemma touches_set: "p \<in> A \<Longrightarrow> touches A F (F\<lparr>files := (files F)(p := v)\<rparr>)"
  by (auto simp: touches_def)

lemma touches_remove: "p \<in> A \<Longrightarrow> touches A F (fs_remove p F)"
  using touches_try [of F] by (fastforce simp: fs_remove_def touches_def split: prod.splits bool.splits)

lemma touches_temp:
  assumes "GetTempFileName F = (t, F')"
  shows "touches (set (tmpNames F)) F F'" "t = Some p \<Longrightarrow> p \<in> set (tmpNames F)"
proof -
  obtain b F1 where b: "fs_try F = (b, F1)" by fastforce
  with assms fs_try_eq [OF b] show "touches (set (tmpNames F)) F F'" "t = Some p \<Longrightarrow> p \<in> set (tmpNames F)"
    by (cases b; auto simp: GetTempFileName_def touches_def split: list.splits)+
qed

lemma touches_write: "stream_write p bs F = (b, F') \<Longrightarrow> p \<in> A \<Longrightarrow> touches A F F'"
proof -
  assume h: "stream_write p bs F = (b, F')" "p \<in> A"
  obtain b1 F1 where t: "fs_try F = (b1, F1)" by fastforce
  have "F' = F1 \<or> (\<exists>v. F' = F1\<lparr>files := (files F1)(p := v)\<rparr>)"
    using h(1) t by (cases b1) (auto simp: stream_write_def)
  then show ?thesis using touches_try [OF t, of A] touches_set [OF h(2), of F1] touches_trans by blast
qed

lemma touches_move: "MoveFile s d F = (b, F') \<Longrightarrow> s \<in> A \<Longrightarrow> d \<in> A \<Longrightarrow> touches A F F'"
proof -
  assume h: "MoveFile s d F = (b, F')" "s \<in> A" "d \<in> A"
  obtain b1 F1 where t: "fs_try F = (b1, F1)" by fastforce
  have "F' = F1 \<or> (\<exists>v. F' = F1\<lparr>files := ((files F1)(s := None))(d \<mapsto> v)\<rparr>)"
    using h(1) t by (cases b1) (auto simp: MoveFile_def split: option.splits)
  moreover have "touches A F1 (F1\<lparr>files := ((files F1)(s := None))(d \<mapsto> v)\<rparr>)" for v
    using h(2,3) by (auto simp: touches_def)
  ultimately show ?thesis using touches_try [OF t, of A] touches_trans by blast
qed

section \<open>Sending\<close>

lemma touches_snapshot:
  assumes "source_snapshot src F = (t, F')"
  shows "touches (set (tmpNames F)) F F'" "t = Some p \<Longrightarrow> p \<in> set (tmpNames F)"
proof -
  let ?A = "set (tmpNames F)"
  have "touches ?A F F' \<and> (t = Some p \<longrightarrow> p \<in> ?A)"
  proof (cases "files F src")
    case (Some bs)
    obtain b1 F1 where t1: "fs_try F = (b1, F1)" by fastforce
    obtain b2 F2 where t2: "fs_try F1 = (b2, F2)" by fastforce
    obtain b3 F3 where t3: "fs_try F2 = (b3, F3)" by fastforce
    obtain tmp F4 where t4: "GetTempFileName F3 = (tmp, F4)" by fastforce
    obtain b5 F5 where t5: "fs_try F4 = (b5, F5)" by fastforce
    have n3: "tmpNames F3 = tmpNames F" using fs_try_eq [OF t1] fs_try_eq [OF t2] fs_try_eq [OF t3] by simp
    have c1: "touches ?A F F1" by (rule touches_try [OF t1])
    have c2: "touches ?A F F2" by (rule touches_trans [OF c1 touches_try [OF t2]])
    have c3: "touches ?A F F3" by (rule touches_trans [OF c2 touches_try [OF t3]])
    have c4: "touches ?A F F4" by (rule touches_trans [OF c3]) (use touches_temp(1) [OF t4] n3 in simp)
    have c5: "touches ?A F F5" by (rule touches_trans [OF c4 touches_try [OF t5]])
    have q: "q \<in> ?A" if "tmp = Some q" for q using touches_temp(2) [OF t4 that] n3 by simp
    have c6: "touches ?A F (fs_remove q F5)" "touches ?A F (F5\<lparr>files := (files F5)(q \<mapsto> bs)\<rparr>)" if "tmp = Some q" for q
      using touches_trans [OF c5 touches_remove [OF q [OF that]]] touches_trans [OF c5 touches_set [OF q [OF that]]] by simp_all
    have "(t, F') = (if \<not> b1 then (None, F1) else if \<not> b2 then (None, F2) else if \<not> b3 then (None, F3)
       else case tmp of None \<Rightarrow> (None, F4)
         | Some q \<Rightarrow> if b5 then (Some q, F5\<lparr>files := (files F5)(q \<mapsto> bs)\<rparr>) else (None, fs_remove q F5))"
      using assms unfolding source_snapshot_def Some Let_def t1 t2 t3 t4 t5 prod.case option.case
      by (cases tmp; cases b5) auto
    with c1 c2 c3 c4 c6 q show ?thesis by (auto split: if_splits option.splits)
  qed (use assms in \<open>simp add: source_snapshot_def\<close>)
  then show "touches ?A F F'" "t = Some p \<Longrightarrow> p \<in> ?A" by simp_all
qed

lemma touches_sendFile:
  assumes "sv_sendFile hash b p mode s w F = Some (res, s', w', F')"
  shows "touches (set (tmpNames F)) F F'"
proof -
  obtain t F1 where t: "source_snapshot p F = (t, F1)" by fastforce
  note ts = touches_snapshot [OF t]
  show ?thesis
  proof (cases t)
    case None
    with assms t ts show ?thesis by (simp add: sv_sendFile_def send_file_over_def)
  next
    case (Some snap)
    then have "F' = fs_remove snap F1"
      using assms t by (cases mode) (auto simp: sv_sendFile_def send_file_over_def Let_def split: if_splits option.splits)
    with ts Some touches_remove [of snap "set (tmpNames F)" F1] show ?thesis using touches_trans by blast
  qed
qed

section \<open>Receiving\<close>

lemma touches_append_chunk:
  "sv_appendChunk n d wr F = (b, wr', F') \<Longrightarrow> temporaryPath wr \<in> A \<Longrightarrow>
   touches A F F' \<and> temporaryPath wr' = temporaryPath wr \<and> destinationPath wr' = destinationPath wr"
  by (auto simp: sv_appendChunk_def Let_def split: if_splits prod.splits dest: touches_write)

lemma touches_commit:
  assumes "sv_commit wr F = (b, wr', F')" "temporaryPath wr \<in> A" "destinationPath wr \<in> A"
  shows "touches A F F' \<and> (temporaryPath wr' = [] \<or> temporaryPath wr' \<in> A)"
proof -
  obtain b1 F1 where t1: "fs_try F = (b1, F1)" by fastforce
  obtain b2 F2 where t2: "fs_try F1 = (b2, F2)" by fastforce
  obtain b3 F3 where t3: "MoveFile (temporaryPath wr) (destinationPath wr) F2 = (b3, F3)" by fastforce
  have "touches A F F1" "touches A F F2" "touches A F F3"
    using touches_try [OF t1] touches_try [OF t2] touches_move [OF t3 assms(2,3)] touches_trans by blast+
  with assms t1 t2 t3 show ?thesis by (auto simp: sv_commit_def Let_def split: if_splits)
qed

lemma touches_abort: "temporaryPath wr = [] \<or> temporaryPath wr \<in> A \<Longrightarrow> touches A F (snd (writer_abort wr F))"
  by (auto simp: writer_abort_def Let_def touches_remove)

lemma touches_writer_new:
  assumes "sv_writer_new absolute p F = (wr, F')"
  shows "touches (set (tmpNames F)) F F'" "temporaryPath wr = [] \<or> temporaryPath wr \<in> set (tmpNames F)"
    "valid wr \<Longrightarrow> temporaryPath wr \<in> set (tmpNames F) \<and> absolute p = Some (destinationPath wr)"
proof -
  let ?A = "set (tmpNames F)"
  obtain t F1 where g: "GetTempFileName F = (t, F1)" by fastforce
  note tg = touches_temp [OF g]
  obtain b F2 where b: "fs_try F1 = (b, F2)" by fastforce
  have c: "touches ?A F F2" using tg(1) touches_try [OF b] touches_trans by blast
  have "touches ?A F (fs_remove q F2)" "touches ?A F (F2\<lparr>files := (files F2)(q \<mapsto> [])\<rparr>)" if "t = Some q" for q
    using c tg(2) [OF that] touches_remove [of q ?A F2] touches_set [of q ?A F2 "Some []"] touches_trans by blast+
  with assms g b tg show "touches ?A F F'" "temporaryPath wr = [] \<or> temporaryPath wr \<in> ?A"
    "valid wr \<Longrightarrow> temporaryPath wr \<in> ?A \<and> absolute p = Some (destinationPath wr)"
    by (auto simp: sv_writer_new_def no_writer_def split: if_splits option.splits bool.splits)
qed

lemma touches_receive_loop:
  assumes "receive_file_loop sv_receiveNext sv_appendChunk rj mode b t wr F r w = Some (oc, wr2, F2, r2, w2)"
    "temporaryPath wr \<in> A"
  shows "touches A F F2 \<and> temporaryPath wr2 = temporaryPath wr \<and> destinationPath wr2 = destinationPath wr"
proof (rule receive_file_loop_rule [OF assms(1), where
      I = "\<lambda>t' wr' F' r' w'. touches A F F' \<and> temporaryPath wr' = temporaryPath wr \<and> destinationPath wr' = destinationPath wr"])
  fix t wr1 F1 r w t2 wr2 F2 r2 w2
  assume i: "touches A F F1 \<and> temporaryPath wr1 = temporaryPath wr \<and> destinationPath wr1 = destinationPath wr"
    and "receive_file_round sv_receiveNext sv_appendChunk rj mode b t wr1 F1 r w = Some (Inr (t2, wr2, F2, r2, w2))"
  from this(2) obtain n d where "sv_appendChunk n d wr1 F1 = (True, wr2, F2)"
    by (cases rule: receive_file_roundE) (auto split: if_splits)
  from touches_append_chunk [OF this, of A] i assms(2)
  show "touches A F F2 \<and> temporaryPath wr2 = temporaryPath wr \<and> destinationPath wr2 = destinationPath wr"
    using touches_trans by auto
next
  fix t wr1 F1 r w
  assume i: "touches A F F1 \<and> temporaryPath wr1 = temporaryPath wr \<and> destinationPath wr1 = destinationPath wr"
    and "receive_file_round sv_receiveNext sv_appendChunk rj mode b t wr1 F1 r w = Some (Inl (oc, wr2, F2, r2, w2))"
  from this(2) have "wr2 = wr1 \<and> F2 = F1 \<or> (\<exists>n d c. sv_appendChunk n d wr1 F1 = (c, wr2, F2))"
    by (cases rule: receive_file_roundE) (auto split: if_splits)
  then show "touches A F F2 \<and> temporaryPath wr2 = temporaryPath wr \<and> destinationPath wr2 = destinationPath wr"
    using touches_append_chunk [of _ _ wr1 F1 _ wr2 F2 A] i assms(2) touches_trans by auto
qed simp

lemma touches_receiveFile:
  assumes "sv_receiveFile absolute b p mode r w F = Some (ok, r', w', F')" "\<forall>d. absolute p = Some d \<longrightarrow> d \<in> A"
    "set (tmpNames F) \<subseteq> A"
  shows "touches A F F'"
proof -
  obtain wr F1 where n: "sv_writer_new absolute p F = (wr, F1)" by fastforce
  note wn = touches_writer_new [OF n]
  have c1: "touches A F F1" using wn(1) assms(3) touches_mono by blast
  show ?thesis
  proof (cases "valid wr")
    case False
    then have "F' = snd (writer_abort wr F1)" using assms(1) n by (simp add: sv_receiveFile_def)
    with c1 touches_abort [of wr A F1] wn(2) assms(3) show ?thesis using touches_trans by blast
  next
    case True
    then have tmp: "temporaryPath wr \<in> A" "destinationPath wr \<in> A" using wn(3) assms(2,3) by auto
    obtain oc wr2 F2 r2 w2 where l: "receive_file_loop sv_receiveNext sv_appendChunk (\<lambda>n r w. (r, w)) mode b
        new_translator wr F1 r w = Some (oc, wr2, F2, r2, w2)"
      using assms(1) n True by (auto simp: sv_receiveFile_def split: option.splits)
    note tl = touches_receive_loop [OF l tmp(1)]
    have c2: "touches A F F2" using c1 tl touches_trans by blast
    obtain ab w3 where ab: "isAbortRequested b w2 = (ab, w3)" by fastforce
    obtain c wr3 F3 where c: "sv_commit wr2 F2 = (c, wr3, F3)" using prod_cases3 by blast
    have "touches A F2 F3 \<and> (temporaryPath wr3 = [] \<or> temporaryPath wr3 \<in> A)"
      by (rule touches_commit [OF c]) (use tl tmp in simp_all)
    then have tc: "touches A F F3" "temporaryPath wr3 = [] \<or> temporaryPath wr3 \<in> A"
      using touches_trans [OF c2] by blast+
    have "F' = snd (writer_abort wr2 F2) \<or> F' = snd (writer_abort wr3 F3)"
      using assms(1) n True l ab c by (cases oc; cases ab) (auto simp: sv_receiveFile_def)
    moreover have "touches A F (snd (writer_abort wr2 F2))"
      by (rule touches_trans [OF c2 touches_abort]) (use tl tmp in simp)
    moreover have "touches A F (snd (writer_abort wr3 F3))" by (rule touches_trans [OF tc(1) touches_abort [OF tc(2)]])
    ultimately show ?thesis by auto
  qed
qed

section \<open>Appending\<close>

lemma touches_copy_into: "copy_into t src F = (b, F') \<Longrightarrow> t \<in> A \<Longrightarrow> touches A F F'"
proof -
  assume h: "copy_into t src F = (b, F')" "t \<in> A"
  obtain b1 F1 where t: "fs_try F = (b1, F1)" by fastforce
  have "F' = F1 \<or> (\<exists>bs. stream_write t bs F1 = (b, F'))"
    using h(1) t by (cases b1) (auto simp: copy_into_def split: option.splits if_splits)
  then show ?thesis using touches_try [OF t, of A] touches_write [OF _ h(2)] touches_trans by blast
qed

lemma touches_append_rest:
  assumes "append_rest hash d inc t F = (res, F')" "t \<in> A" "d \<in> A"
  shows "touches A F F'"
proof -
  obtain b1 F1 where c: "copy_into t inc F = (b1, F1)" by fastforce
  obtain b2 F2 where t2: "fs_try F1 = (b2, F2)" by fastforce
  obtain b3 F3 where t3: "fs_try F2 = (b3, F3)" by fastforce
  obtain b4 F4 where m: "MoveFile t d F3 = (b4, F4)" by fastforce
  have c1: "touches A F F1" by (rule touches_copy_into [OF c assms(2)])
  have c2: "touches A F F2" by (rule touches_trans [OF c1 touches_try [OF t2]])
  have c3: "touches A F F3" by (rule touches_trans [OF c2 touches_try [OF t3]])
  have c4: "touches A F F4" by (rule touches_trans [OF c3 touches_move [OF m assms(2,3)]])
  have "F' \<in> {F1, F2, F3, F4}"
    using assms(1) c t2 t3 m by (cases b1; cases b2; cases b3; cases b4) (auto simp: append_rest_def Let_def split: if_splits)
  with c1 c2 c3 c4 show ?thesis by blast
qed

text \<open>The same for the disk as a whole.\<close>

definition touches_tree :: "path set \<Rightarrow> store \<Rightarrow> store \<Rightarrow> bool" where
  "touches_tree A st st' \<longleftrightarrow> same_tree st st' \<and> touches A (disk st) (disk st')"

lemma touches_tree_refl [simp]: "touches_tree A st st"
  by (simp add: touches_tree_def same_tree_def)

lemma touches_tree_trans: "touches_tree A st st1 \<Longrightarrow> touches_tree A st1 st2 \<Longrightarrow> touches_tree A st st2"
  using touches_trans by (auto simp: touches_tree_def same_tree_def)

lemma touches_tree_disk: "touches A (disk st) F \<Longrightarrow> touches_tree A st (st\<lparr>disk := F\<rparr>)"
  by (simp add: touches_tree_def same_tree_def)

lemma touches_tree_try: "st_try st = (b, st') \<Longrightarrow> touches_tree A st st'"
  using st_try_same [of st b st'] by (simp add: touches_tree_def same_tree_def touches_def)

lemma touches_tree_query: "query_ec a st = (b, e, st') \<Longrightarrow> touches_tree A st st'"
  using touches_tree_try [of st] by (auto simp: query_ec_def split: prod.splits)

lemma touches_tree_on_disk:
  "on_disk f st = (x, st') \<Longrightarrow> (\<And>F'. f (disk st) = (x, F') \<Longrightarrow> touches A (disk st) F') \<Longrightarrow> touches_tree A st st'"
  using on_disk_tree [of f st x st'] by (simp add: touches_tree_def on_disk_eq)

lemma touches_append_body:
  assumes "append_body hash d inc t st = (res, st')" "t \<in> A" "native d \<in> A"
  shows "touches_tree A st st'"
proof -
  obtain b1 st1 where t1: "st_try st = (b1, st1)" by fastforce
  let ?st2 = "st1\<lparr>disk := (disk st1)\<lparr>files := (files (disk st1))(t \<mapsto> [])\<rparr>\<rparr>"
  obtain there ec st3 where q3: "query_ec (present ?st2 (native d)) ?st2 = (there, ec, st3)" by (metis prod_cases3)
  obtain reg ec2 st4 where q4: "query_ec (type_of st3 (native d) = Regular) st3 = (reg, ec2, st4)" by (metis prod_cases3)
  obtain b5 st5 where c5: "on_disk (copy_into t (native d)) st4 = (b5, st5)" by fastforce
  obtain r6 st6 where a6: "on_disk (append_rest hash (native d) inc t) st5 = (r6, st6)" by fastforce
  obtain r7 st7 where a7: "on_disk (append_rest hash (native d) inc t) st3 = (r7, st7)" by fastforce
  have c1: "touches_tree A st st1" by (rule touches_tree_try [OF t1])
  have c2: "touches_tree A st ?st2" by (rule touches_tree_trans [OF c1 touches_tree_disk [OF touches_set [OF assms(2)]]])
  have c3: "touches_tree A st st3" by (rule touches_tree_trans [OF c2 touches_tree_query [OF q3]])
  have c4: "touches_tree A st st4" by (rule touches_tree_trans [OF c3 touches_tree_query [OF q4]])
  have d5: "touches_tree A st st5"
    by (rule touches_tree_trans [OF c4 touches_tree_on_disk [OF c5 touches_copy_into [OF _ assms(2)]]])
  have d6: "touches_tree A st st6"
    by (rule touches_tree_trans [OF d5 touches_tree_on_disk [OF a6 touches_append_rest [OF _ assms(2,3)]]])
  have d7: "touches_tree A st st7"
    by (rule touches_tree_trans [OF c3 touches_tree_on_disk [OF a7 touches_append_rest [OF _ assms(2,3)]]])
  have "append_body hash d inc t st =
      (if \<not> b1 then (None, st1)
       else if there then if ec \<or> \<not> reg then (None, st4) else if b5 then (r6, st6) else (None, st5)
       else if ec then (None, st3) else (r7, st7))"
    unfolding append_body_def by (simp add: t1 q3 q4 c5 a6 a7 Let_def split: bool.split)
  with assms(1) c1 c3 c4 d5 d6 d7 show ?thesis by (auto split: if_splits)
qed

lemma touches_sibling:
  assumes "createSiblingTemporaryPath d st = (t, st')"
  shows "touches_tree (set (tmpNames (disk st))) st st'" "t = Some p \<Longrightarrow> p \<in> set (tmpNames (disk st))"
proof -
  have "t = None \<and> st' = st \<or> GetTempFileName (disk st) = (t, disk st') \<and> same_tree st st'"
    using assms on_disk_tree [of GetTempFileName st t st'] by (auto simp: createSiblingTemporaryPath_def on_disk_eq split: if_splits)
  then show "touches_tree (set (tmpNames (disk st))) st st'" "t = Some p \<Longrightarrow> p \<in> set (tmpNames (disk st))"
    using touches_temp [of "disk st" t "disk st'"] by (auto simp: touches_tree_def same_tree_def)
qed

lemma touches_appendAtomically:
  assumes "appendAtomically hash d inc st = (res, st')" "native d \<in> A" "set (tmpNames (disk st)) \<subseteq> A"
  shows "touches_tree A st st'"
proof -
  obtain t st1 where s: "createSiblingTemporaryPath d st = (t, st1)" by fastforce
  note ts = touches_sibling [OF s]
  have c1: "touches_tree A st st1" using ts(1) assms(3) touches_mono by (auto simp: touches_tree_def)
  show ?thesis
  proof (cases t)
    case None
    with assms(1) s c1 show ?thesis by (simp add: appendAtomically_def)
  next
    case (Some p)
    then have p: "p \<in> A" using ts(2) assms(3) by blast
    obtain r st2 where b: "append_body hash d inc p st1 = (r, st2)" by fastforce
    have c2: "touches_tree A st st2" by (rule touches_tree_trans [OF c1 touches_append_body [OF b p assms(2)]])
    have "touches_tree A st (st2\<lparr>disk := fs_remove p (disk st2)\<rparr>)"
      by (rule touches_tree_trans [OF c2 touches_tree_disk [OF touches_remove [OF p]]])
    with c2 assms(1) s Some b show ?thesis by (cases r) (auto simp: appendAtomically_def)
  qed
qed

end
