(* ===== verification/Server_Invariant.thy ===== *)
theory Server_Invariant
  imports Server_Loop Disk_Frame
begin

text \<open>
  Sessions as a transition system: a step is a command or the end of a worker. The invariant of the
  reachable states, and that starting, running and joining a worker keeps it.
\<close>

section \<open>Steps\<close>

text \<open>
  What the surroundings keep to: the root stays, canonical paths are absolute and in normal form, the
  absolute form of such a path is the path itself, and \<^verbatim>\<open>inet_pton\<close> reads what \<^verbatim>\<open>inet_ntop\<close> writes.
\<close>

definition full_name :: "path \<Rightarrow> bool" where
  "full_name q \<longleftrightarrow> (\<exists>p. q = native p \<and> absolute_path p \<and> lexically_normal p = p)"

definition fits_root :: "fspath \<Rightarrow> surroundings \<Rightarrow> bool" where
  "fits_root r X \<longleftrightarrow> good_places (paths X) \<and> serverRoot (paths X) = r \<and>
     (\<forall>p q. canonical (paths X) p = Some q \<longrightarrow> lexically_normal q = q) \<and>
     (\<forall>q. full_name q \<longrightarrow> absolute_of X q = None \<or> absolute_of X q = Some q) \<and>
     inet_pton_accepts (inet_pton_of X)"

text \<open>A name the server may give to a transfer.\<close>

definition jailed :: "fspath \<Rightarrow> fspath \<Rightarrow> bool" where
  "jailed r p \<longleftrightarrow> under_root r (native p) \<and> full_name (native p)"

lemma resolve_jailed:
  assumes "fits_root r X" "resolve_in (paths X) cur input = Some p"
  shows "jailed r p"
proof -
  have "canonical (paths X) (path_join cur (path_of_string input)) = Some p"
    using assms(2) by (auto simp: resolve_def split: option.splits if_splits)
  then have "lexically_normal p = p" using assms(1) by (auto simp: fits_root_def)
  with resolve_under [of "paths X", OF _ assms(2)] assms(1) show ?thesis
    by (auto simp: jailed_def full_name_def fits_root_def)
qed

inductive session_step :: "fspath \<Rightarrow> server \<Rightarrow> server \<Rightarrow> bool" for r where
  command: "\<lbrakk>fits_root r X; ctlSocket (sess S) \<noteq> None; handle_line X raw S = Some (Returns S')\<rbrakk> \<Longrightarrow> session_step r S S'"
| worker: "\<lbrakk>fits_root r X; transferActive (sess S); run_worker X S = Some S'\<rbrakk> \<Longrightarrow> session_step r S S'"

inductive_cases session_stepE: "session_step r S S'"

abbreviation session_run :: "fspath \<Rightarrow> server \<Rightarrow> server \<Rightarrow> bool" where
  "session_run r \<equiv> (session_step r)\<^sup>*\<^sup>*"

section \<open>The invariant\<close>

definition disk_ok :: "fspath \<Rightarrow> path set \<Rightarrow> store \<Rightarrow> store \<Rightarrow> bool" where
  "disk_ok r T st0 st \<longleftrightarrow> set (tmpNames (disk st)) \<subseteq> T \<and> root_reachable r st \<and>
     (\<forall>q. \<not> under_root r q \<longrightarrow> directories st q = directories st0 q \<and> special st q = special st0 q \<and>
        (q \<notin> T \<longrightarrow> files (disk st) q = files (disk st0) q))"

text \<open>A worker in active mode talks to the host of the control connection.\<close>

definition worker_ok :: "fspath \<Rightarrow> path set \<Rightarrow> sockaddr_in \<Rightarrow> worker option \<Rightarrow> bool" where
  "worker_ok r T ctl wk \<longleftrightarrow>
     (case wk of
        Some (Download p mode passive t) \<Rightarrow> jailed r p \<and> (passive \<or> sin_addr (destAddr t) = sin_addr ctl)
      | Some (Upload d staging mode passive peer kind name t) \<Rightarrow>
          jailed r d \<and> (\<forall>q. staging = Some q \<longrightarrow> q \<in> T) \<and> (kind = Append \<longrightarrow> staging \<noteq> None) \<and>
          (passive \<or> sin_addr peer = sin_addr ctl)
      | _ \<Rightarrow> True)"

definition session_ok :: "fspath \<Rightarrow> path set \<Rightarrow> ClientSession \<Rightarrow> bool" where
  "session_ok r T s \<longleftrightarrow>
     inside r (currentDir s) \<and>
     (hasPendingRename s \<longrightarrow> under_root r (native (pendingRenameSource s))) \<and>
     (authenticated s \<longrightarrow> map_of database (username s) \<noteq> None) \<and>
     (dataChannelMode s = Active \<longrightarrow>
        sin_addr (pendingPeerAddr s) = sin_addr (controlPeerAddr s) \<and> sin_port (pendingPeerAddr s) \<noteq> 0) \<and>
     (dataChannelMode s = Passive \<longleftrightarrow> pendingDataSocket s \<noteq> None) \<and>
     (transferActive s \<longrightarrow> transferWorker s \<noteq> None) \<and>
     worker_ok r T (controlPeerAddr s) (transferWorker s)"

definition server_ok :: "fspath \<Rightarrow> path set \<Rightarrow> store \<Rightarrow> sockaddr_in \<Rightarrow> server \<Rightarrow> bool" where
  "server_ok r T st0 ctl S \<longleftrightarrow> session_ok r T (sess S) \<and> disk_ok r T st0 (tree S) \<and> controlPeerAddr (sess S) = ctl \<and>
     (\<forall>q \<in> T. full_name q)"

subsection \<open>The disk\<close>

lemma disk_ok_confined: "disk_ok r T st0 st \<Longrightarrow> confined r st st' \<Longrightarrow> disk_ok r T st0 st'"
  using root_reachable_confined [of r st st'] by (auto simp: disk_ok_def confined_def)

lemma disk_ok_touches:
  assumes "disk_ok r T st0 st" "touches_tree A st st'" "\<forall>q \<in> A. q \<in> T \<or> under_root r q"
  shows "disk_ok r T st0 st'"
proof -
  have "root_reachable r st'" using assms(1,2) by (simp add: disk_ok_def root_reachable_def touches_tree_def same_tree_def)
  with assms show ?thesis by (auto simp: disk_ok_def touches_tree_def touches_def same_tree_def)
qed

lemma disk_ok_query: "disk_ok r T st0 st \<Longrightarrow> query_ec a st = (b, e, st') \<Longrightarrow> disk_ok r T st0 st'"
  using disk_ok_confined query_ec_confined by blast

lemma disk_ok_remove_path:
  assumes "disk_ok r T st0 (tree S)" "p \<in> T \<or> under_root r p"
  shows "disk_ok r T st0 (tree (remove_path p S))"
  using disk_ok_touches [OF assms(1) touches_tree_disk [OF touches_remove [of p "{p}"]]] assms(2)
  by (simp add: remove_path_def)

lemma disk_ok_remove_if:
  "disk_ok r T st0 (tree S) \<Longrightarrow> (b \<Longrightarrow> p \<in> T \<or> under_root r p) \<Longrightarrow> disk_ok r T st0 (tree (remove_if b p S))"
  by (simp add: remove_if_def disk_ok_remove_path)

lemma disk_ok_remove_opt:
  "disk_ok r T st0 (tree S) \<Longrightarrow> (\<And>q. p = Some q \<Longrightarrow> q \<in> T \<or> under_root r q) \<Longrightarrow> disk_ok r T st0 (tree (remove_opt p S))"
  by (simp add: remove_opt_def disk_ok_remove_path split: option.split)

subsection \<open>Starting transfers\<close>

lemma server_ok_tree: "server_ok r T st0 ctl S \<Longrightarrow> disk_ok r T st0 st \<Longrightarrow> server_ok r T st0 ctl (S\<lparr>tree := st\<rparr>)"
  by (simp add: server_ok_def)

lemma server_ok_reply [simp]:
  "server_ok r T st0 ctl (reply code msg S) = server_ok r T st0 ctl S"
  "server_ok r T st0 ctl (multilineReply code msg S) = server_ok r T st0 ctl S"
  "server_ok r T st0 ctl (sessionReply code msg S) = server_ok r T st0 ctl S"
  "server_ok r T st0 ctl (reply_result res S) = server_ok r T st0 ctl S"
  by (simp_all add: server_ok_def reply_result_def)

lemma worker_ok_None [simp]: "worker_ok r T ctl None"
  by (simp add: worker_ok_def)

lemma server_ok_clear: "server_ok r T st0 ctl S \<Longrightarrow> server_ok r T st0 ctl (clearDataState S)"
  by (auto simp: server_ok_def session_ok_def)

lemma server_ok_join: "server_ok r T st0 ctl S \<Longrightarrow> server_ok r T st0 ctl (joinCompletedTransfer S)"
  by (auto simp: server_ok_def session_ok_def)

lemma target_dest:
  assumes "inet_pton_accepts f" "sv_RdtSender_target f (dotted ip) port ms w = (t, w')" "ss_socketOk t"
  shows "sin_addr (destAddr t) = ip"
  using assms
  by (auto simp: sv_RdtSender_target_def inet_pton_accepts_def sv_sender_init_def Let_def split: prod.splits if_splits option.splits)

lemma startDownloadTransfer_ok:
  assumes "server_ok r T st0 ctl S" "jailed r src" "fits_root r X" "\<not> transferActive (sess S)"
  shows "server_ok r T st0 ctl (startDownloadTransfer X src S)"
proof (cases "dataChannelMode (sess S) = NoChannel")
  case True
  with assms(1) show ?thesis by (simp add: startDownloadTransfer_def)
next
  case False
  let ?J = "joinCompletedTransfer S"
  let ?passive = "dataChannelMode (sess ?J) = Passive"
  obtain t w where tw: "(if ?passive then sv_RdtSender_existing (pendingDataSocket (sess ?J) \<noteq> None) DEFAULT_TIMEOUT_MS (net ?J)
     else sv_RdtSender_target (inet_pton_of X) (dotted (sin_addr (pendingPeerAddr (sess ?J))))
            (sin_port (pendingPeerAddr (sess ?J))) DEFAULT_TIMEOUT_MS (net ?J)) = (t, w)" by fastforce
  have dest: "sin_addr (destAddr t) = sin_addr (controlPeerAddr (sess S))" if "ss_socketOk t" "dataChannelMode (sess S) \<noteq> Passive"
  proof -
    have "dataChannelMode (sess S) = Active" using False that(2) by (cases "dataChannelMode (sess S)") auto
    then have "sin_addr (pendingPeerAddr (sess S)) = sin_addr (controlPeerAddr (sess S))"
      using assms(1) by (simp add: server_ok_def session_ok_def)
    moreover have "sin_addr (destAddr t) = sin_addr (pendingPeerAddr (sess S))"
      by (rule target_dest [of "inet_pton_of X" _ "sin_port (pendingPeerAddr (sess S))" DEFAULT_TIMEOUT_MS "net S" t w])
        (use assms(3) tw that in \<open>simp_all add: fits_root_def\<close>)
    ultimately show ?thesis by simp
  qed
  show ?thesis using False assms(1,2,4) dest
    unfolding startDownloadTransfer_def Let_def tw
    by (auto simp: server_ok_def session_ok_def worker_ok_def Let_def)
qed

lemma startUploadTransfer_ok:
  assumes "server_ok r T st0 ctl S" "jailed r d" "\<not> transferActive (sess S)"
  shows "server_ok r T st0 ctl (startUploadTransfer X d kind name S)"
proof -
  obtain staging st where g: "(if kind = Append then createSiblingTemporaryPath d (tree S) else (None, tree S)) = (staging, st)"
    by fastforce
  have tmp: "set (tmpNames (disk (tree S))) \<subseteq> T" using assms(1) by (simp add: server_ok_def disk_ok_def)
  have st: "disk_ok r T st0 st \<and> (\<forall>q. staging = Some q \<longrightarrow> q \<in> T)"
  proof (cases "kind = Append")
    case True
    with g have c: "createSiblingTemporaryPath d (tree S) = (staging, st)" by simp
    have "disk_ok r T st0 st"
      by (rule disk_ok_touches [OF _ touches_sibling(1) [OF c]]) (use assms(1) tmp in \<open>auto simp: server_ok_def\<close>)
    with touches_sibling(2) [OF c] tmp show ?thesis by blast
  qed (use g assms(1) in \<open>auto simp: server_ok_def\<close>)
  let ?J = "joinCompletedTransfer (S\<lparr>tree := st\<rparr>)"
  let ?passive = "dataChannelMode (sess ?J) = Passive"
  obtain t w where tw: "(if ?passive then sv_RdtReceiver_existing (pendingDataSocket (sess ?J) \<noteq> None) (net ?J)
     else sv_RdtReceiver_listen (net ?J)) = (t, w)" by fastforce
  show ?thesis
  proof (cases "dataChannelMode (sess S) = NoChannel")
    case True
    then have "startUploadTransfer X d kind name S =
        remove_if (kind = Unique) (native d) (sessionReply 425 ''Use PORT or PASV before upload.'' S)"
      by (simp add: startUploadTransfer_def)
    with assms disk_ok_remove_if [of r T st0 "sessionReply 425 ''Use PORT or PASV before upload.'' S" "kind = Unique" "native d"]
    show ?thesis by (simp add: server_ok_def jailed_def)
  next
    case chan: False
    show ?thesis
    proof (cases "kind = Append \<and> staging = None")
      case True
      then show ?thesis using chan assms(1) st
        unfolding startUploadTransfer_def g Let_def prod.case by (simp add: server_ok_clear server_ok_tree)
    next
      case False
      have peer: "dataChannelMode (sess S) = Passive \<or> sin_addr (pendingPeerAddr (sess S)) = sin_addr ctl"
        using chan assms(1) by (cases "dataChannelMode (sess S)") (auto simp: server_ok_def session_ok_def)
      have rm: "disk_ok r T st0 (tree (remove_if b (native d) (remove_opt staging U)))" if "tree U = st" for U b
        using that st assms(2) by (intro disk_ok_remove_if disk_ok_remove_opt) (auto simp: jailed_def)
      show ?thesis using chan False assms st peer rm
        unfolding startUploadTransfer_def g Let_def prod.case tw
        by (auto simp: server_ok_def session_ok_def worker_ok_def)
    qed
  qed
qed

subsection \<open>The end of a worker\<close>

lemma finishTransfer_tree [simp]: "tree (finishTransfer ok msg S) = tree S"
  by (simp add: finishTransfer_def)

lemma session_ok_left:
  assumes "worker_left S S'" "session_ok r T (sess S)"
  shows "session_ok r T ((sess S')\<lparr>transferWorker := Some WorkerDone\<rparr>)" "controlPeerAddr (sess S') = controlPeerAddr (sess S)"
  using assms by (auto simp: worker_left_def session_ok_def worker_ok_def)

lemma run_download_disk:
  assumes "run_download X src mode passive t S = Some S'" "disk_ok r T st0 (tree S)"
  shows "disk_ok r T st0 (tree S')"
proof -
  obtain ok msg b w F where o: "S' = finishTransfer ok msg (seen_abort b (S\<lparr>net := w, tree := (tree S)\<lparr>disk := F\<rparr>\<rparr>))"
    "F = disk (tree S) \<or> (\<exists>t1 w1 res t2. sv_sendFile (sha256_of X) True (native src) mode t1 w1 (disk (tree S)) = Some (res, t2, w, F))"
    by (rule run_download_outcome [OF assms(1)])
  have "touches (set (tmpNames (disk (tree S)))) (disk (tree S)) F" using o(2) touches_sendFile by auto
  from disk_ok_touches [OF assms(2) touches_tree_disk [OF this]] assms(2) o(1) show ?thesis
    by (auto simp: disk_ok_def)
qed

lemma finish_append_touches:
  assumes "finish_append X d inc mode st = (ok, h, g, st')" "native d \<in> A" "set (tmpNames (disk st)) \<subseteq> A"
  shows "touches_tree A st st'"
  using assms touches_appendAtomically [of _ d inc st _ st' A]
  by (auto simp: finish_append_def Let_def split: if_splits prod.splits option.splits)

lemma run_upload_disk:
  assumes "run_upload X d staging mode passive peer kind name t S = Some S'" "disk_ok r T st0 (tree S)" "fits_root r X"
    "jailed r d" "\<forall>q. staging = Some q \<longrightarrow> q \<in> T" "\<forall>q \<in> T. full_name q"
  shows "disk_ok r T st0 (tree S')"
proof -
  obtain ok msg b w F st c rp where o:
    "S' = on_sess (pendingUniqueFilename_update (\<lambda>_. [])) (finishTransfer ok msg
       (remove_if c (native d) (remove_opt staging (seen_abort b (S\<lparr>net := w, tree := st\<rparr>)))))"
    "rp = (case staging of Some p \<Rightarrow> if kind = Append then p else native d | None \<Rightarrow> native d)"
    "F = disk (tree S) \<or> (\<exists>t1 w1 good t2 w2. sv_receiveFile (absolute_of X) True rp mode t1 w1 (disk (tree S)) = Some (good, t2, w2, F))"
    "st = (tree S)\<lparr>disk := F\<rparr> \<or> (\<exists>ok2 h g. finish_append X d rp mode ((tree S)\<lparr>disk := F\<rparr>) = (ok2, h, g, st))"
    by (rule run_upload_outcome [OF assms(1)])
  let ?A = "T \<union> {native d}"
  have A: "\<forall>q \<in> ?A. q \<in> T \<or> under_root r q" using assms(4) by (auto simp: jailed_def)
  have tmp: "set (tmpNames (disk (tree S))) \<subseteq> ?A" using assms(2) by (auto simp: disk_ok_def)
  have "rp \<in> ?A" using o(2) assms(5) by (auto split: option.splits if_splits)
  moreover have "full_name rp" using calculation assms(4,6) by (auto simp: jailed_def)
  then have "absolute_of X rp = None \<or> absolute_of X rp = Some rp" using assms(3) by (simp add: fits_root_def)
  ultimately have "\<forall>e. absolute_of X rp = Some e \<longrightarrow> e \<in> ?A" by auto
  then have tF: "touches ?A (disk (tree S)) F" using o(3) touches_receiveFile [OF _ _ tmp] by auto
  then have c1: "touches_tree ?A (tree S) ((tree S)\<lparr>disk := F\<rparr>)" by (rule touches_tree_disk)
  have "set (tmpNames (disk ((tree S)\<lparr>disk := F\<rparr>))) \<subseteq> ?A" using tF tmp by (auto simp: touches_def)
  then have "touches_tree ?A ((tree S)\<lparr>disk := F\<rparr>) st" using o(4) finish_append_touches [of X d rp mode _ _ _ _ st ?A] by auto
  then have "disk_ok r T st0 st" using disk_ok_touches [OF assms(2) touches_tree_trans [OF c1] A] by blast
  then show ?thesis unfolding o(1) using assms(4,5)
    by (auto simp: jailed_def intro!: disk_ok_remove_if disk_ok_remove_opt)
qed

lemma run_worker_ok:
  assumes "run_worker X S = Some S'" "server_ok r T st0 ctl S" "fits_root r X"
  shows "server_ok r T st0 ctl S'"
proof (cases "transferWorker (sess S)")
  case None
  with assms show ?thesis by (simp add: run_worker_def)
next
  case (Some wk)
  have ok: "session_ok r T (sess S)" "disk_ok r T st0 (tree S)" "controlPeerAddr (sess S) = ctl"
    "worker_ok r T ctl (Some wk)" "\<forall>q \<in> T. full_name q"
    using assms(2) Some by (auto simp: server_ok_def session_ok_def)
  have done_ok: "server_ok r T st0 ctl (on_sess (transferWorker_update (\<lambda>_. Some WorkerDone)) S1)"
    if "worker_left S S1" "disk_ok r T st0 (tree S1)" for S1
    using session_ok_left [OF that(1) ok(1)] that(2) ok(3,5) by (simp add: server_ok_def)
  show ?thesis
  proof (cases wk)
    case (Download src mode pas t)
    then obtain S1 where S1: "run_download X src mode pas t S = Some S1"
      "S' = on_sess (transferWorker_update (\<lambda>_. Some WorkerDone)) S1"
      using assms(1) Some by (auto simp: run_worker_def)
    show ?thesis unfolding S1(2) by (rule done_ok [OF run_download_left [OF S1(1)] run_download_disk [OF S1(1) ok(2)]])
  next
    case (Upload d staging mode pas peer kind name t)
    then obtain S1 where S1: "run_upload X d staging mode pas peer kind name t S = Some S1"
      "S' = on_sess (transferWorker_update (\<lambda>_. Some WorkerDone)) S1"
      using assms(1) Some by (auto simp: run_worker_def)
    have "jailed r d" "\<forall>q. staging = Some q \<longrightarrow> q \<in> T" using ok(4) Upload by (auto simp: worker_ok_def)
    with S1 show ?thesis using done_ok [OF run_upload_left [OF S1(1)] run_upload_disk [OF S1(1) ok(2) assms(3)]] ok(5) by simp
  next
    case WorkerDone
    with assms Some show ?thesis by (simp add: run_worker_def)
  qed
qed

lemma join_worker_ok:
  assumes "join_worker X S = Some S'" "server_ok r T st0 ctl S" "fits_root r X"
  shows "server_ok r T st0 ctl (on_sess (transferActive_update (\<lambda>_. False)) S')"
proof (cases "transferWorker (sess S) = None")
  case True
  with assms(1,2) show ?thesis by (auto simp: join_worker_def server_ok_def session_ok_def)
next
  case False
  then obtain S1 where "run_worker X S = Some S1" "S' = on_sess (transferWorker_update (\<lambda>_. None)) S1"
    using assms(1) by (auto simp: join_worker_def)
  with run_worker_ok [OF _ assms(2,3)] show ?thesis by (auto simp: server_ok_def session_ok_def)
qed

end
