(* ===== verification/Server_Safety.thy ===== *)
theory Server_Safety
  imports Server_Invariant
begin

text \<open>
  Every command keeps the invariant of the sessions, and what this gives: what the server touches on
  the disk, whom it opens data connections to, and what a client can do before it has logged in.
\<close>

section \<open>The handlers\<close>

lemma create_new_disk:
  assumes "create_new p st = (c, st')" "disk_ok r T st0 st" "under_root r (native p)"
  shows "disk_ok r T st0 st'"
proof -
  obtain b st1 where t: "st_try st = (b, st1)" by fastforce
  have ok1: "disk_ok r T st0 st1" by (rule disk_ok_confined [OF assms(2) st_try_confined [OF t]])
  have "disk_ok r T st0 (st1\<lparr>disk := (disk st1)\<lparr>files := (files (disk st1))(native p \<mapsto> [])\<rparr>\<rparr>)"
    by (rule disk_ok_touches [OF ok1 touches_tree_disk [OF touches_set [of "native p" "{native p}"]]]) (use assms(3) in simp_all)
  with ok1 assms(1) t show ?thesis by (cases b) (auto simp: create_new_def split: if_splits)
qed

lemma reserve_loop_disk:
  assumes "fits_root r X"
  shows "reserve_loop n (paths X) cur num st = (res, num', st') \<Longrightarrow> disk_ok r T st0 st \<Longrightarrow>
    disk_ok r T st0 st' \<and> (\<forall>p name. res = Some (p, name) \<longrightarrow> jailed r p)"
proof (induction n arbitrary: num st)
  case (Suc n)
  show ?case
  proof (cases "resolve_in (paths X) cur (upload_name num)")
    case None
    with Suc.prems show ?thesis by auto
  next
    case (Some p)
    note j = resolve_jailed [OF assms Some]
    obtain c st1 where c: "create_new p st = (c, st1)" by fastforce
    have ok1: "disk_ok r T st0 st1" using create_new_disk [OF c Suc.prems(2)] j by (simp add: jailed_def)
    show ?thesis
    proof (cases c)
      case AlreadyExists
      with Some c Suc.prems(1) Suc.IH [OF _ ok1] show ?thesis by auto
    qed (use Some c Suc.prems(1) ok1 j in auto)
  qed
qed auto

definition keeps :: "handler \<Rightarrow> bool" where
  "keeps h \<longleftrightarrow> (\<forall>r T st0 ctl X args S S'. fits_root r X \<longrightarrow> server_ok r T st0 ctl S \<longrightarrow> \<not> transferActive (sess S) \<longrightarrow>
     h X args S = Some (Returns S') \<longrightarrow> server_ok r T st0 ctl S')"

lemma keepsI:
  assumes "\<And>r T st0 ctl X args S S'. \<lbrakk>fits_root r X; server_ok r T st0 ctl S; \<not> transferActive (sess S);
    h X args S = Some (Returns S')\<rbrakk> \<Longrightarrow> server_ok r T st0 ctl S'"
  shows "keeps h"
  using assms unfolding keeps_def by blast

text \<open>Changes of the session that the invariant does not see, or sees kept.\<close>

lemma server_ok_sess:
  "server_ok r T st0 ctl S \<Longrightarrow> session_ok r T (f (sess S)) \<Longrightarrow> controlPeerAddr (f (sess S)) = controlPeerAddr (sess S) \<Longrightarrow>
   server_ok r T st0 ctl (on_sess f S)"
  by (simp add: server_ok_def)

lemma server_ok_set_name [simp]: "server_ok r T st0 ctl (set_name n S) = server_ok r T st0 ctl S"
  by (simp add: server_ok_def)

lemma server_okD: "server_ok r T st0 ctl S \<Longrightarrow> session_ok r T (sess S)" "server_ok r T st0 ctl S \<Longrightarrow> disk_ok r T st0 (tree S)"
  by (simp_all add: server_ok_def)

lemma logout_ok: "server_ok r T st0 ctl S \<Longrightarrow> server_ok r T st0 ctl (on_sess (\<lambda>s. s\<lparr>authenticated := False, username := n\<rparr>) S)"
  "server_ok r T st0 ctl S \<Longrightarrow> server_ok r T st0 ctl (on_sess (authenticated_update (\<lambda>_. False)) S)"
  by (auto simp: server_ok_def session_ok_def)

lemma keeps_USER: "keeps cmd_USER"
proof (rule keepsI)
  fix r T st0 ctl X args S S'
  assume ok: "server_ok r T st0 ctl S" and run: "cmd_USER X args S = Some (Returns S')"
  have "\<exists>n. server_ok r T st0 ctl S' = server_ok r T st0 ctl (on_sess (\<lambda>s. s\<lparr>authenticated := False, username := n\<rparr>) S)"
    using run by (auto simp: cmd_USER_def Let_def server_ok_def split: if_splits option.splits)
  with logout_ok(1) [OF ok] show "server_ok r T st0 ctl S'" by blast
qed

lemma keeps_PASS: "keeps cmd_PASS"
proof (rule keepsI)
  fix r T st0 ctl X args S S'
  assume ok: "server_ok r T st0 ctl S" and run: "cmd_PASS X args S = Some (Returns S')"
  then have "server_ok r T st0 ctl (on_sess (authenticated_update (\<lambda>_. True)) (on_sess (authenticated_update (\<lambda>_. False)) S))"
    if "map_of database (username (sess S)) \<noteq> None" using that by (auto simp: server_ok_def session_ok_def)
  with ok logout_ok(2) [OF ok] run show "server_ok r T st0 ctl S'"
    by (auto simp: cmd_PASS_def Let_def split: if_splits)
qed

lemma keeps_QUIT: "keeps cmd_QUIT"
  by (rule keepsI) (auto simp: cmd_QUIT_def Let_def server_ok_def session_ok_def)

lemma keeps_NOOP: "keeps cmd_NOOP"
  by (rule keepsI) (auto simp: cmd_NOOP_def)

lemma keeps_PWD: "keeps cmd_PWD"
  by (rule keepsI) (auto simp: cmd_PWD_def split: outcome.splits)

text \<open>A handler that changes only the disk, under the root, and one that moves inside the root.\<close>

lemma server_ok_confined:
  assumes "server_ok r T st0 ctl S" "confined r (tree S) st"
  shows "server_ok r T st0 ctl (S\<lparr>tree := st\<rparr>)"
  using assms disk_ok_confined by (auto simp: server_ok_def)

lemma server_ok_dir:
  assumes "server_ok r T st0 ctl S" "inside r dir"
  shows "server_ok r T st0 ctl (on_sess (currentDir_update (\<lambda>_. dir)) S)"
  using assms by (auto simp: server_ok_def session_ok_def)

lemma fits_places: "fits_root r X \<Longrightarrow> good_places (paths X) \<and> serverRoot (paths X) = r"
  by (simp add: fits_root_def)

lemma ok_inside: "server_ok r T st0 ctl S \<Longrightarrow> inside r (currentDir (sess S))"
  "server_ok r T st0 ctl S \<Longrightarrow> root_reachable r (tree S)"
  by (simp_all add: server_ok_def session_ok_def disk_ok_def)

lemma keeps_CWD: "keeps cmd_CWD"
proof (rule keepsI)
  fix r T st0 ctl X args S S'
  assume a: "fits_root r X" "server_ok r T st0 ctl S" "cmd_CWD X args S = Some (Returns S')"
  then obtain res dir st where c: "changeDir (paths X) (currentDir (sess S)) (first_arg args) (tree S) = Returns (res, dir, st)"
    "S' = reply_result res (on_sess (currentDir_update (\<lambda>_. dir)) (S\<lparr>tree := st\<rparr>))"
    by (auto simp: cmd_CWD_def split: outcome.splits prod.splits)
  have "server_ok r T st0 ctl (S\<lparr>tree := st\<rparr>)"
    using server_ok_confined [OF a(2)] changeDir_confined [OF c(1)] fits_places [OF a(1)] by simp
  moreover have "inside r dir" using changeDir_inside [OF _ c(1)] ok_inside(1) [OF a(2)] fits_places [OF a(1)] by simp
  ultimately show "server_ok r T st0 ctl S'" using server_ok_dir c(2) by simp
qed

lemma keeps_CDUP: "keeps cmd_CDUP"
proof (rule keepsI)
  fix r T st0 ctl X args S S'
  assume a: "fits_root r X" "server_ok r T st0 ctl S" "cmd_CDUP X args S = Some (Returns S')"
  then obtain res dir where c: "changeToParent (paths X) (currentDir (sess S)) = (res, dir)"
    "S' = reply_result res (on_sess (currentDir_update (\<lambda>_. dir)) S)"
    by (auto simp: cmd_CDUP_def split: prod.splits)
  have "inside r dir" using changeToParent_inside [OF _ c(1)] ok_inside(1) [OF a(2)] fits_places [OF a(1)] by simp
  then show "server_ok r T st0 ctl S'" using server_ok_dir [OF a(2)] c(2) by simp
qed

lemma server_ok_mode [simp]: "server_ok r T st0 ctl (on_sess (transferMode_update g) S) = server_ok r T st0 ctl S"
  by (simp add: server_ok_def session_ok_def)

lemma server_ok_pending:
  assumes "server_ok r T st0 ctl S" "b \<longrightarrow> under_root r (native src)"
  shows "server_ok r T st0 ctl (on_sess (\<lambda>s. s\<lparr>pendingRenameSource := src, hasPendingRename := b\<rparr>) S)"
  using assms by (auto simp: server_ok_def session_ok_def)

lemma server_ok_active:
  assumes "server_ok r T st0 ctl S" "sin_addr peer = sin_addr (controlPeerAddr (sess S))" "sin_port peer \<noteq> 0"
    "pendingDataSocket (sess S) = None"
  shows "server_ok r T st0 ctl (on_sess (\<lambda>s. s\<lparr>pendingPeerAddr := peer, dataChannelMode := Active\<rparr>) S)"
  using assms by (auto simp: server_ok_def session_ok_def)

text \<open>Handlers that read or change the disk through the directory service, and answer.\<close>

lemma server_ok_answer:
  assumes "fits_root r X" "server_ok r T st0 ctl S" "confined (serverRoot (paths X)) (tree S) st"
  shows "server_ok r T st0 ctl (reply_result res (S\<lparr>tree := st\<rparr>))" "server_ok r T st0 ctl (S\<lparr>tree := st\<rparr>)"
  using server_ok_confined [OF assms(2)] assms(3) fits_places [OF assms(1)] by simp_all

lemma keeps_MKD: "keeps cmd_MKD"
proof (rule keepsI)
  fix r T st0 ctl X args S S'
  assume a: "fits_root r X" "server_ok r T st0 ctl S" "cmd_MKD X args S = Some (Returns S')"
  then obtain res st where c: "makeDir (paths X) (currentDir (sess S)) (first_arg args) (tree S) = Returns (res, st)"
    "S' = reply_result res (S\<lparr>tree := st\<rparr>)"
    by (auto simp: cmd_MKD_def split: outcome.splits prod.splits)
  have "confined (serverRoot (paths X)) (tree S) st"
    using makeDir_confined [OF _ _ c(1)] fits_places [OF a(1)] ok_inside(2) [OF a(2)] by simp
  with server_ok_answer(1) [OF a(1,2)] c(2) show "server_ok r T st0 ctl S'" by simp
qed

lemma keeps_RMD: "keeps cmd_RMD"
proof (rule keepsI)
  fix r T st0 ctl X args S S'
  assume a: "fits_root r X" "server_ok r T st0 ctl S" "cmd_RMD X args S = Some (Returns S')"
  then obtain res st where c: "removeDir (paths X) (currentDir (sess S)) (first_arg args) (tree S) = Returns (res, st)"
    "S' = reply_result res (S\<lparr>tree := st\<rparr>)"
    by (auto simp: cmd_RMD_def split: outcome.splits prod.splits)
  have "confined (serverRoot (paths X)) (tree S) st"
    using removeDir_confined [OF _ c(1)] fits_places [OF a(1)] by simp
  with server_ok_answer(1) [OF a(1,2)] c(2) show "server_ok r T st0 ctl S'" by simp
qed

lemma keeps_list_command: "keeps (list_command usage namesOnly)"
proof (rule keepsI)
  fix r T st0 ctl X args S S'
  assume a: "fits_root r X" "server_ok r T st0 ctl S" "list_command usage namesOnly X args S = Some (Returns S')"
  show "server_ok r T st0 ctl S'"
  proof (cases "length args > 1")
    case True
    with a(2,3) show ?thesis by (auto simp: list_command_def)
  next
    case False
    then obtain infos st where c: "listDir (paths X) (currentDir (sess S)) (first_arg args) (tree S) = Returns (infos, st)"
      using a(3) by (auto simp: list_command_def split: outcome.splits prod.splits)
    from server_ok_answer(2) [OF a(1,2) listDir_confined [OF c]] a(3) False c show ?thesis
      by (cases infos) (auto simp: list_command_def)
  qed
qed

lemma keeps_LIST: "keeps cmd_LIST"
  unfolding cmd_LIST_def by (rule keeps_list_command)

lemma keeps_NLST: "keeps cmd_NLST"
  unfolding cmd_NLST_def by (rule keeps_list_command)

lemma keeps_STAT: "keeps cmd_STAT"
proof (rule keepsI)
  fix r T st0 ctl X args S S'
  assume a: "fits_root r X" "server_ok r T st0 ctl S" "cmd_STAT X args S = Some (Returns S')"
  show "server_ok r T st0 ctl S'"
  proof (cases args)
    case (Cons a1 as)
    obtain meta st where g: "getMetadata (paths X) (currentDir (sess S)) a1 (tree S) = (meta, st)" by fastforce
    from server_ok_answer(2) [OF a(1,2) getMetadata_confined [OF g]] a(3) Cons g show ?thesis
      by (cases meta) (auto simp: cmd_STAT_def)
  qed (use a in \<open>auto simp: cmd_STAT_def\<close>)
qed

lemma about_file_ok:
  assumes "fits_root r X" "server_ok r T st0 ctl S" "about_file failure answer X args S = Some (Returns S')"
  shows "server_ok r T st0 ctl S'"
proof (cases args)
  case (Cons a1 as)
  obtain meta st where g: "getMetadata (paths X) (currentDir (sess S)) a1 (tree S) = (meta, st)" by fastforce
  from server_ok_answer(2) [OF assms(1,2) getMetadata_confined [OF g]] assms(3) Cons g show ?thesis
    by (cases meta) (auto simp: about_file_def split: if_splits)
qed (use assms in \<open>auto simp: about_file_def\<close>)

lemma keeps_SIZE: "keeps cmd_SIZE"
  unfolding cmd_SIZE_def by (rule keepsI) (rule about_file_ok)

lemma keeps_MDTM: "keeps cmd_MDTM"
  by (rule keepsI) (auto simp: cmd_MDTM_def intro: about_file_ok)

lemma keeps_DELE: "keeps cmd_DELE"
proof (rule keepsI)
  fix r T st0 ctl X args S S'
  assume a: "fits_root r X" "server_ok r T st0 ctl S" "cmd_DELE X args S = Some (Returns S')"
  then obtain res st where c: "deleteFile (paths X) (currentDir (sess S)) (first_arg args) (tree S) = (res, st)"
    "S' = reply_result res (S\<lparr>tree := st\<rparr>)"
    by (auto simp: cmd_DELE_def split: prod.splits)
  have "confined (serverRoot (paths X)) (tree S) st"
    using deleteFile_confined [OF _ c(1)] fits_places [OF a(1)] by simp
  with server_ok_answer(1) [OF a(1,2)] c(2) show "server_ok r T st0 ctl S'" by simp
qed

lemma keeps_RNFR: "keeps cmd_RNFR"
proof (rule keepsI)
  fix r T st0 ctl X args S S'
  assume a: "fits_root r X" "server_ok r T st0 ctl S" "cmd_RNFR X args S = Some (Returns S')"
  obtain res src st where c: "renameFrom (paths X) (currentDir (sess S)) (first_arg args) (pendingRenameSource (sess S)) (tree S) = (res, src, st)"
    by (metis prod_cases3)
  with a(3) have S': "S' = reply_result res (on_sess (\<lambda>s. s\<lparr>pendingRenameSource := src, hasPendingRename := rOk res\<rparr>) (S\<lparr>tree := st\<rparr>))"
    by (simp add: cmd_RNFR_def)
  note E = fits_places [OF a(1)]
  have "confined (serverRoot (paths X)) (tree S) st" "rOk res \<longrightarrow> under_root r (native src)"
    using renameFrom_confined [OF _ c] E by auto
  with server_ok_answer(2) [OF a(1,2)] show "server_ok r T st0 ctl S'"
    unfolding S' by (simp add: server_ok_pending)
qed

lemma keeps_RNTO: "keeps cmd_RNTO"
proof (rule keepsI)
  fix r T st0 ctl X args S S'
  assume a: "fits_root r X" "server_ok r T st0 ctl S" "cmd_RNTO X args S = Some (Returns S')"
  show "server_ok r T st0 ctl S'"
  proof (cases "hasPendingRename (sess S)")
    case True
    obtain res st where c: "renameTo (paths X) (currentDir (sess S)) (pendingRenameSource (sess S)) (first_arg args) (tree S) = (res, st)"
      by fastforce
    have "under_root r (native (pendingRenameSource (sess S)))" using True a(2) by (simp add: server_ok_def session_ok_def)
    then have "confined (serverRoot (paths X)) (tree S) st" using renameTo_confined [OF _ _ c] fits_places [OF a(1)] by simp
    from server_ok_answer(2) [OF a(1,2) this]
    have "server_ok r T st0 ctl (on_sess (hasPendingRename_update (\<lambda>_. False)) (S\<lparr>tree := st\<rparr>))"
      by (auto simp: server_ok_def session_ok_def)
    with a(3) True c show ?thesis by (auto simp: cmd_RNTO_def)
  qed (use a in \<open>auto simp: cmd_RNTO_def\<close>)
qed

text \<open>Data connections.\<close>

lemma keeps_PASV: "keeps cmd_PASV"
proof (rule keepsI)
  fix r T st0 ctl X args S S'
  assume a: "server_ok r T st0 ctl S" "cmd_PASV X args S = Some (Returns S')"
  from server_ok_clear [OF a(1)] a(2) show "server_ok r T st0 ctl S'"
    by (auto simp: cmd_PASV_def Let_def server_ok_def session_ok_def split: prod.splits option.splits)
qed

lemma keeps_PORT: "keeps cmd_PORT"
proof (rule keepsI)
  fix r T st0 ctl X args S S'
  assume a: "server_ok r T st0 ctl S" "cmd_PORT X args S = Some (Returns S')"
  have none: "pendingDataSocket (sess (clearDataState S)) = None" by simp
  from a(2) show "server_ok r T st0 ctl S'"
    by (auto simp: cmd_PORT_def Let_def portMatchesControlPeer_def none server_ok_clear [OF a(1)]
        intro!: server_ok_active split: if_splits option.splits)
qed

text \<open>Transfers.\<close>

lemma query_ok:
  "server_ok r T st0 ctl S \<Longrightarrow> query_ec b (tree S) = (v, ec, st) \<Longrightarrow> server_ok r T st0 ctl (S\<lparr>tree := st\<rparr>)"
  using disk_ok_query server_ok_tree server_okD(2) by blast

lemma keeps_RETR: "keeps cmd_RETR"
proof (rule keepsI)
  fix r T st0 ctl X args S S'
  assume a: "fits_root r X" "server_ok r T st0 ctl S" "\<not> transferActive (sess S)" "cmd_RETR X args S = Some (Returns S')"
  show "server_ok r T st0 ctl S'"
  proof (cases "length args = 1 \<and> resolve_in (paths X) (currentDir (sess S)) (hd args) \<noteq> None")
    case True
    then obtain p where p: "resolve_in (paths X) (currentDir (sess S)) (hd args) = Some p" by auto
    obtain v ec st where q: "query_ec (type_of (tree S) (native p) = Regular) (tree S) = (v, ec, st)" by (metis prod_cases3)
    note ok1 = query_ok [OF a(2) q]
    have "server_ok r T st0 ctl (startDownloadTransfer X p (S\<lparr>tree := st\<rparr>))"
      by (rule startDownloadTransfer_ok [OF ok1 resolve_jailed [OF a(1) p] a(1)]) (use a(3) in simp)
    with a(4) True p q server_ok_clear [OF ok1] show ?thesis by (auto simp: cmd_RETR_def split: if_splits)
  qed (use a(2,4) in \<open>auto simp: cmd_RETR_def server_ok_clear split: if_splits\<close>)
qed

lemma keeps_STOR: "keeps cmd_STOR"
proof (rule keepsI)
  fix r T st0 ctl X args S S'
  assume a: "fits_root r X" "server_ok r T st0 ctl S" "\<not> transferActive (sess S)" "cmd_STOR X args S = Some (Returns S')"
  show "server_ok r T st0 ctl S'"
  proof (cases "length args = 1 \<and> resolve_in (paths X) (currentDir (sess S)) (hd args) \<noteq> None")
    case True
    then obtain p where p: "resolve_in (paths X) (currentDir (sess S)) (hd args) = Some p" by auto
    obtain v ec st where q: "query_ec (directories (tree S) (native p)) (tree S) = (v, ec, st)" by (metis prod_cases3)
    note ok1 = query_ok [OF a(2) q]
    have "server_ok r T st0 ctl (startUploadTransfer X p Store [] (S\<lparr>tree := st\<rparr>))"
      by (rule startUploadTransfer_ok [OF ok1 resolve_jailed [OF a(1) p]]) (use a(3) in simp)
    with a(4) True p q server_ok_clear [OF ok1] show ?thesis by (auto simp: cmd_STOR_def split: if_splits)
  qed (use a(2,4) in \<open>auto simp: cmd_STOR_def server_ok_clear split: if_splits\<close>)
qed

lemma keeps_APPE: "keeps cmd_APPE"
proof (rule keepsI)
  fix r T st0 ctl X args S S'
  assume a: "fits_root r X" "server_ok r T st0 ctl S" "\<not> transferActive (sess S)" "cmd_APPE X args S = Some (Returns S')"
  show "server_ok r T st0 ctl S'"
  proof (cases "length args = 1 \<and> resolve_in (paths X) (currentDir (sess S)) (hd args) \<noteq> None")
    case True
    then obtain p where p: "resolve_in (paths X) (currentDir (sess S)) (hd args) = Some p" by auto
    obtain v ec st where q: "query_ec (present (tree S) (native p)) (tree S) = (v, ec, st)" by (metis prod_cases3)
    note ok1 = query_ok [OF a(2) q]
    obtain v2 ec2 st2 where q2: "(if v then query_ec (type_of st (native p) = Regular) st else (True, False, st)) = (v2, ec2, st2)"
      by (metis prod_cases3)
    have ok2: "server_ok r T st0 ctl (S\<lparr>tree := st2\<rparr>)" using query_ok [OF ok1, of _ v2 ec2 st2] q2 ok1 by (auto split: if_splits)
    have "server_ok r T st0 ctl (startUploadTransfer X p Append [] (S\<lparr>tree := st2\<rparr>))"
      by (rule startUploadTransfer_ok [OF ok2 resolve_jailed [OF a(1) p]]) (use a(3) in simp)
    then show ?thesis using a(4) True p server_ok_clear [OF ok2]
      unfolding cmd_APPE_def p option.case q prod.case q2 by (auto split: if_splits)
  qed (use a(2,4) in \<open>auto simp: cmd_APPE_def server_ok_clear split: if_splits\<close>)
qed

lemma keeps_STOU: "keeps cmd_STOU"
proof (rule keepsI)
  fix r T st0 ctl X args S S'
  assume a: "fits_root r X" "server_ok r T st0 ctl S" "\<not> transferActive (sess S)" "cmd_STOU X args S = Some (Returns S')"
  show "server_ok r T st0 ctl S'"
  proof (cases "args = []")
    case True
    obtain res n st where v: "reserveUniqueUpload (paths X) (currentDir (sess S)) (nextId S) (tree S) = (res, n, st)"
      by (metis prod_cases3)
    have d: "disk_ok r T st0 st \<and> (\<forall>p name. res = Some (p, name) \<longrightarrow> jailed r p)"
      by (rule reserve_loop_disk [OF a(1) v [unfolded reserveUniqueUpload_def] server_okD(2) [OF a(2)]])
    then have ok1: "server_ok r T st0 ctl (S\<lparr>nextId := n, tree := st\<rparr>)" using a(2) by (simp add: server_ok_def)
    show ?thesis
    proof (cases res)
      case None
      with a(4) True v server_ok_clear [OF ok1] show ?thesis by (auto simp: cmd_STOU_def)
    next
      case (Some pn)
      obtain p name where pn: "pn = (p, name)" by fastforce
      have "server_ok r T st0 ctl (startUploadTransfer X p Unique name (S\<lparr>nextId := n, tree := st\<rparr>))"
        by (rule startUploadTransfer_ok [OF ok1]) (use a(3) d Some pn in auto)
      with a(4) True v Some pn show ?thesis by (simp add: cmd_STOU_def)
    qed
  qed (use a(2,4) in \<open>auto simp: cmd_STOU_def\<close>)
qed

lemma keeps_HASH: "keeps cmd_HASH"
proof (rule keepsI)
  fix r T st0 ctl X args S S'
  assume a: "fits_root r X" "server_ok r T st0 ctl S" "cmd_HASH X args S = Some (Returns S')"
  show "server_ok r T st0 ctl S'"
  proof (cases "\<exists>a1 as p. args = a1 # as \<and> resolve_in (paths X) (currentDir (sess S)) a1 = Some p")
    case True
    then obtain a1 as p where p: "args = a1 # as" "resolve_in (paths X) (currentDir (sess S)) a1 = Some p" by blast
    obtain v st where q: "query_throw (present (tree S) (native p)) (tree S) = Returns (v, st)"
      using a(3) p by (cases "query_throw (present (tree S) (native p)) (tree S)") (auto simp: cmd_HASH_def)
    from server_ok_answer(2) [OF a(1,2) query_throw_confined [OF q]] a(3) p q show ?thesis
      by (cases v) (auto simp: cmd_HASH_def Let_def split: if_splits)
  next
    case False
    with a(2,3) show ?thesis by (cases args) (auto simp: cmd_HASH_def split: option.splits)
  qed
qed

lemma keeps_TYPE: "keeps cmd_TYPE"
  by (rule keepsI) (auto simp: cmd_TYPE_def Let_def split: if_splits)

lemma keeps_MODE: "keeps cmd_MODE"
  by (rule keepsI) (auto simp: cmd_MODE_def Let_def split: if_splits)

lemma keeps_HELP: "keeps cmd_HELP"
  by (rule keepsI) (auto simp: cmd_HELP_def split: list.splits option.splits)

lemma ABOR_ok:
  assumes "fits_root r X" "server_ok r T st0 ctl S" "cmd_ABOR X args S = Some (Returns S')"
  shows "server_ok r T st0 ctl S'"
proof (cases "args = [] \<and> transferActive (sess S)")
  case True
  let ?S = "on_sess (abortRequested_update (\<lambda>_. True)) S"
  obtain S1 where j: "join_worker X ?S = Some S1" using assms(3) True by (auto simp: cmd_ABOR_def split: option.splits)
  have "server_ok r T st0 ctl ?S" using assms(2) by (auto simp: server_ok_def session_ok_def)
  from server_ok_clear [OF join_worker_ok [OF j this assms(1)]] assms(3) True j show ?thesis by (auto simp: cmd_ABOR_def)
next
  case False
  with server_ok_clear [OF server_ok_join [OF assms(2)]] assms(2,3) show ?thesis by (auto simp: cmd_ABOR_def split: if_splits)
qed

lemma keeps_ABOR: "keeps cmd_ABOR"
  by (rule keepsI) (rule ABOR_ok)

lemmas keeps_all = keeps_USER keeps_PASS keeps_QUIT keeps_NOOP keeps_PWD keeps_CWD keeps_CDUP keeps_MKD keeps_RMD
  keeps_LIST keeps_NLST keeps_STAT keeps_SIZE keeps_MDTM keeps_DELE keeps_RNFR keeps_RNTO keeps_PASV keeps_PORT
  keeps_RETR keeps_STOR keeps_STOU keeps_APPE keeps_HASH keeps_TYPE keeps_MODE keeps_ABOR keeps_HELP

lemma commandMap_keeps: "map_of commandMap t = Some h \<Longrightarrow> keeps h"
proof -
  assume "map_of commandMap t = Some h"
  then have "h \<in> snd ` set commandMap" by (metis image_eqI map_of_SomeD snd_conv)
  moreover have "\<forall>h \<in> snd ` set commandMap. keeps h" by (simp add: commandMap_def keeps_all)
  ultimately show ?thesis by blast
qed

section \<open>Sessions keep the invariant\<close>

lemma executeCommand_ok:
  assumes "fits_root r X" "server_ok r T st0 ctl S" "executeCommand X cmd S = Some (Returns S')"
  shows "server_ok r T st0 ctl S'"
proof (cases "\<not> authenticated (sess S) \<and> cmdType cmd \<notin> set open_commands \<or> transferActive (sess S) \<and> cmdType cmd \<noteq> ''ABOR''")
  case True
  with assms(2,3) show ?thesis by (auto simp: executeCommand_def split: if_splits)
next
  case False
  note ok1 = server_ok_join [OF assms(2)]
  show ?thesis
  proof (cases "map_of commandMap (cmdType cmd)")
    case None
    with False assms(3) ok1 show ?thesis by (auto simp: executeCommand_def Let_def)
  next
    case (Some h)
    then have run: "h X (cmdArgs cmd) (joinCompletedTransfer S) = Some (Returns S')"
      using False assms(3) by (auto simp: executeCommand_def Let_def)
    show ?thesis
    proof (cases "cmdType cmd = ''ABOR''")
      case True
      with Some have "h = cmd_ABOR" by (simp add: commandMap_def)
      with ABOR_ok [OF assms(1) ok1] run show ?thesis by simp
    next
      case False
      then have "\<not> transferActive (sess (joinCompletedTransfer S))"
        using \<open>\<not> (\<not> authenticated (sess S) \<and> _ \<or> _)\<close> by simp
      with commandMap_keeps [OF Some] assms(1) ok1 run show ?thesis unfolding keeps_def by blast
    qed
  qed
qed

lemma handle_line_ok:
  assumes "fits_root r X" "server_ok r T st0 ctl S" "handle_line X raw S = Some (Returns S')"
  shows "server_ok r T st0 ctl S'"
  using assms executeCommand_ok [OF assms(1,2)] by (auto simp: handle_line_def Let_def split: if_splits)

lemma session_step_ok: "session_step r S S' \<Longrightarrow> server_ok r T st0 ctl S \<Longrightarrow> server_ok r T st0 ctl S'"
  by (induction rule: session_step.induct) (auto intro: handle_line_ok run_worker_ok)

lemma session_run_ok: "session_run r S S' \<Longrightarrow> server_ok r T st0 ctl S \<Longrightarrow> server_ok r T st0 ctl S'"
  by (induction rule: rtranclp_induct) (auto intro: session_step_ok)

lemma new_session_ok:
  assumes "sess S = new_session k r peer" "root_reachable r (tree S)" "\<forall>q \<in> set (tmpNames (disk (tree S))). full_name q"
  shows "server_ok r (set (tmpNames (disk (tree S)))) (tree S) peer S"
  using assms by (simp add: server_ok_def session_ok_def disk_ok_def new_session_def)

text \<open>
  The server is confined to its root. Along every run of a new session, whatever the client sends and
  however the transfers end, a path outside the root that is none of the names of temporary files is not
  created, changed or removed: neither as a file nor as a directory nor otherwise. No directory outside
  the root changes at all, and the current directory of the session stays inside the root.
\<close>

theorem session_confined:
  assumes "session_run r S S'" "sess S = new_session k r peer" "root_reachable r (tree S)"
    "\<forall>t \<in> set (tmpNames (disk (tree S))). full_name t" "\<not> under_root r q"
  shows "directories (tree S') q = directories (tree S) q \<and> special (tree S') q = special (tree S) q \<and>
    (q \<notin> set (tmpNames (disk (tree S))) \<longrightarrow> files (disk (tree S')) q = files (disk (tree S)) q) \<and>
    inside r (currentDir (sess S'))"
  using session_run_ok [OF assms(1) new_session_ok [OF assms(2-4)]] assms(5)
  by (auto simp: server_ok_def session_ok_def disk_ok_def)


section \<open>Before the login\<close>

text \<open>A step that leaves everything but the reply, the name and the login as it was.\<close>

definition harmless :: "server \<Rightarrow> server \<Rightarrow> bool" where
  "harmless S S' \<longleftrightarrow> tree S' = tree S \<and> net S' = net S \<and> nextId S' = nextId S \<and>
     currentDir (sess S') = currentDir (sess S) \<and> dataChannelMode (sess S') = dataChannelMode (sess S) \<and>
     pendingDataSocket (sess S') = pendingDataSocket (sess S) \<and> pendingPeerAddr (sess S') = pendingPeerAddr (sess S) \<and>
     hasPendingRename (sess S') = hasPendingRename (sess S) \<and> transferActive (sess S') = transferActive (sess S) \<and>
     (transferActive (sess S) \<longrightarrow> transferWorker (sess S') = transferWorker (sess S))"

lemma harmless_join: "harmless (joinCompletedTransfer S) S' \<Longrightarrow> harmless S S'"
  by (auto simp: harmless_def)

lemma harmless_simps [simp]:
  "harmless S (reply code msg S') = harmless S S'" "harmless S (multilineReply code msg S') = harmless S S'"
  "harmless S (sessionReply code msg S') = harmless S S'" "harmless S (set_name n S') = harmless S S'"
  "harmless S S"
  by (simp_all add: harmless_def)

lemma open_handlers:
  assumes "t \<in> set open_commands" "\<not> authenticated (sess S)"
  shows "\<exists>h S'. map_of commandMap t = Some h \<and> h X args S = Some (Returns S') \<and> harmless S S' \<and>
    (authenticated (sess S') \<longrightarrow> t = ''PASS'' \<and> (\<exists>pw. args = [pw] \<and> map_of database (username (sess S)) = Some pw))"
proof -
  consider "t = ''USER''" | "t = ''PASS''" | "t = ''HELP''" | "t = ''NOOP''" | "t = ''QUIT''"
    using assms(1) by (auto simp: open_commands_def)
  then show ?thesis
  proof cases
    case 1
    have "\<exists>S'. cmd_USER X args S = Some (Returns S') \<and> harmless S S' \<and> \<not> authenticated (sess S')"
      by (auto simp: cmd_USER_def Let_def harmless_def split: option.splits)
    with 1 show ?thesis by (auto simp: commandMap_def)
  next
    case 2
    have "\<exists>S'. cmd_PASS X args S = Some (Returns S') \<and> harmless S S' \<and>
      (authenticated (sess S') \<longrightarrow> (\<exists>pw. args = [pw] \<and> map_of database (username (sess S)) = Some pw))"
      using assms(2) by (auto simp: cmd_PASS_def Let_def harmless_def length_Suc_conv)
    with 2 show ?thesis by (auto simp: commandMap_def)
  next
    case 3
    have "\<exists>S'. cmd_HELP X args S = Some (Returns S') \<and> harmless S S' \<and> \<not> authenticated (sess S')"
      using assms(2) by (auto simp: cmd_HELP_def split: list.splits option.splits)
    with 3 show ?thesis by (auto simp: commandMap_def)
  next
    case 4
    with assms(2) show ?thesis by (auto simp: commandMap_def cmd_NOOP_def)
  next
    case 5
    have "\<exists>S'. cmd_QUIT X args S = Some (Returns S') \<and> harmless S S' \<and> \<not> authenticated (sess S')"
      using assms(2) by (auto simp: cmd_QUIT_def Let_def harmless_def)
    with 5 show ?thesis by (auto simp: commandMap_def)
  qed
qed

text \<open>
  C8: nothing happens before the login. Whatever line a client sends that is not logged in, the server
  returns from it without ending the program or waiting; the disk, the network, the counter of names, the
  data connection, a pending rename and a transfer stay as they are; and the client is logged in after it
  only if the line was PASS with the password that the table has for the name given before.
\<close>

theorem login_required:
  assumes "\<not> authenticated (sess S)"
  shows "\<exists>S'. handle_line X raw S = Some (Returns S') \<and> harmless S S' \<and>
    (authenticated (sess S') \<longrightarrow> cmdType (parseCommand (strip_cr raw)) = ''PASS'' \<and>
      (\<exists>pw. cmdArgs (parseCommand (strip_cr raw)) = [pw] \<and> map_of database (username (sess S)) = Some pw))"
proof -
  let ?cmd = "parseCommand (strip_cr raw)"
  consider (empty) "cmdType ?cmd = []" | (closed) "cmdType ?cmd \<noteq> []" "cmdType ?cmd \<notin> set open_commands"
    | (busy) "cmdType ?cmd \<in> set open_commands" "transferActive (sess S)"
    | (run) "cmdType ?cmd \<in> set open_commands" "\<not> transferActive (sess S)" by blast
  then show ?thesis
  proof cases
    case run
    have j: "\<not> authenticated (sess (joinCompletedTransfer S))" "username (sess (joinCompletedTransfer S)) = username (sess S)"
      using assms by simp_all
    obtain h S' where h: "map_of commandMap (cmdType ?cmd) = Some h" "h X (cmdArgs ?cmd) (joinCompletedTransfer S) = Some (Returns S')"
      "harmless (joinCompletedTransfer S) S'" "authenticated (sess S') \<longrightarrow> cmdType ?cmd = ''PASS'' \<and>
        (\<exists>pw. cmdArgs ?cmd = [pw] \<and> map_of database (username (sess S)) = Some pw)"
      using open_handlers [OF run(1) j(1), of X "cmdArgs ?cmd"] j(2) by auto
    have "cmdType ?cmd \<noteq> []" using run(1) by (auto simp: open_commands_def)
    then have "handle_line X raw S = Some (Returns S')" using run h by (simp add: handle_line_def executeCommand_def)
    with h(3,4) harmless_join show ?thesis by blast
  qed (use assms in \<open>auto simp: handle_line_def executeCommand_def open_commands_def\<close>)
qed

section \<open>Examples\<close>

text \<open>Surroundings with canonical paths as the invariant wants them, and a session that logs in.\<close>

definition jail_places :: places where
  "jail_places = \<lparr>canonical = (\<lambda>p. let q = lexically_normal p
       in if absolute_path q \<and> lexically_normal q = q then Some q else None), serverRoot = sample_root\<rparr>"

definition jail_surroundings :: surroundings where
  "jail_surroundings = sample_surroundings\<lparr>paths := jail_places\<rparr>"

lemma jail_fits: "fits_root sample_root jail_surroundings"
  by (auto simp: fits_root_def jail_surroundings_def sample_surroundings_def jail_places_def good_places_def
      sample_root_def absolute_path_def sample_inet_pton_accepts Let_def split: if_splits)

lemma say:
  assumes "list_all is_word (verb # args)" "upper_string verb \<noteq> []"
  shows "handle_line X (join_words (verb # args) @ [CR]) S =
    executeCommand X \<lparr>rawCommand = join_words (verb # args), cmdType = upper_string verb, cmdArgs = args\<rparr> S"
  using assms parse_words [OF assms(1), of "[]" "[]"] by (simp add: handle_line_def strip_cr_def)

lemma session_run_say:
  assumes "session_run r S0 S" "fits_root r X" "ctlSocket (sess S) \<noteq> None" "list_all is_word (verb # args)" "upper_string verb \<noteq> []"
    "executeCommand X \<lparr>rawCommand = join_words (verb # args), cmdType = upper_string verb, cmdArgs = args\<rparr> S = Some (Returns S')"
  shows "session_run r S0 S'"
  using assms(1) session_step.command [OF assms(2,3), of "join_words (verb # args) @ [CR]" S'] say [OF assms(4,5)] assms(6) by simp

definition logged_in :: server where
  "logged_in = reply 230 ''User logged in.'' (on_sess (\<lambda>s. s\<lparr>username := ''User1'', authenticated := True\<rparr>)
     (reply 331 ''Username OK, need password.'' sample_server))"

lemma sample_login: "session_run sample_root sample_server logged_in"
proof -
  let ?U = "reply 331 ''Username OK, need password.'' (on_sess (username_update (\<lambda>_. ''User1'')) sample_server)"
  have u: "upper_string ''USER'' = ''USER''" "upper_string ''PASS'' = ''PASS''" by code_simp+
  have "session_run sample_root sample_server ?U"
    by (rule session_run_say [OF rtranclp.rtrancl_refl jail_fits, of _ "''USER''" "[''User1'']"])
      (simp_all add: u executeCommand_def sample_server_def new_session_def joinCompletedTransfer_def open_commands_def
        commandMap_def cmd_USER_def database_def set_name_def setUsername_def on_sess_def is_word_def is_space_def)
  then show ?thesis
    by (rule session_run_say [OF _ jail_fits, of _ _ "''PASS''" "[''password'']"])
      (simp_all add: u executeCommand_def sample_server_def new_session_def joinCompletedTransfer_def open_commands_def
        commandMap_def cmd_PASS_def database_def logged_in_def on_sess_def reply_def is_word_def is_space_def)
qed

lemma sample_start:
  "sess sample_server = new_session 7 sample_root zero_addr" "root_reachable sample_root (tree sample_server)"
  "\<forall>t \<in> set (tmpNames (disk (tree sample_server))). full_name t"
  by (auto simp: sample_server_def root_reachable_def sample_root_def sample_store_def sample_path_def full_name_def
      absolute_path_def lexically_normal_def intro!: exI [of _ "\<lparr>rootName = ''C:'', rootDir = True, pathComps = [''srv'', ''hfa'']\<rparr>"])

lemma logged_in_simps [simp]:
  "authenticated (sess logged_in)" "\<not> transferActive (sess logged_in)" "currentDir (sess logged_in) = sample_root"
  "ctlSocket (sess logged_in) = Some 7" "joinCompletedTransfer logged_in = logged_in" "tree logged_in = sample_store [1]"
  "pendingDataSocket (sess logged_in) = None" "controlPeerAddr (sess logged_in) = zero_addr"
  by (simp_all add: logged_in_def sample_server_def new_session_def joinCompletedTransfer_def)

text \<open>After MKD there is the new directory; nothing changed outside the root.\<close>

theorem session_confined_witness:
  "\<exists>S'. session_run sample_root sample_server S' \<and> directories (tree S') (native (sample_path ''new'')) \<and>
     files (disk (tree S')) ''D:'' = files (disk (tree sample_server)) ''D:''"
proof -
  have u: "upper_string ''MKD'' = ''MKD''" by code_simp
  have n: "path_of_string ''new'' = rel_path [''new'']"
    using path_of_names [of "[''new'']"] by (simp add: plain_name_def is_sep_def rel_path_def)
  have j: "path_join sample_root (rel_path [''new'']) = sample_path ''new''"
    by (simp add: path_join_def rel_path_def sample_root_def sample_path_def)
  have c: "canonical (paths jail_surroundings) (sample_path ''new'') = Some (sample_path ''new'')"
    by (simp add: jail_surroundings_def jail_places_def sample_path_def lexically_normal_def absolute_path_def sample_root_def)
  have r: "resolve_in (paths jail_surroundings) sample_root ''new'' = Some (sample_path ''new'')"
    unfolding resolve_def n j c
    by (simp add: jail_surroundings_def jail_places_def sample_root_def sample_path_def path_elems_def)
  have t: "type_of (sample_store [1]) (native sample_root) = Directory"
    "type_of (sample_store [1]) (native (sample_path ''new'')) = NotFound"
    by (simp_all add: type_of_def sample_store_def)
  have p: "\<not> present (sample_store [1]) (native (sample_path ''new''))" by (simp add: present_def t)
  have y: "st_try (sample_store [1]) = (True, sample_store [1])" by (simp add: st_try_def fs_try_def sample_store_def)
  let ?st = "(sample_store [1])\<lparr>directories := (directories (sample_store [1]))(native (sample_path ''new'') := True)\<rparr>"
  have cs: "pathComps (sample_path ''new'') = [''srv'', ''new'']" 
    "(sample_path ''new'')\<lparr>pathComps := [''srv'']\<rparr> = sample_root" "(sample_path ''new'')\<lparr>pathComps := [''srv'', ''new'']\<rparr> = sample_path ''new''"
    "sample_root\<lparr>pathComps := [''srv'', ''new'']\<rparr> = sample_path ''new''" "pathComps sample_root = [''srv'']"
    by (simp_all add: sample_path_def sample_root_def)
  have d: "create_directories (sample_path ''new'') (sample_store [1]) = (True, False, ?st)"
    by (simp add: create_directories_def cs t y)
  have m: "makeDir (paths jail_surroundings) sample_root ''new'' (sample_store [1]) =
      Returns (res_ok 257 (quoted (filename (sample_path ''new'')) @ '' created''), ?st)"
    by (simp add: makeDir_def r query_throw_def y p d)
  let ?S = "reply_result (res_ok 257 (quoted (filename (sample_path ''new'')) @ '' created'')) (logged_in\<lparr>tree := ?st\<rparr>)"
  have run: "session_run sample_root sample_server ?S"
    by (rule session_run_say [OF sample_login jail_fits, of "''MKD''" "[''new'']"])
      (simp_all add: u executeCommand_def commandMap_def cmd_MKD_def first_arg_def m is_word_def is_space_def)
  have o: "\<not> under_root sample_root ''D:''" by (simp add: under_root_def below_def sample_root_def path_text_def)
  have "''D:'' \<notin> set (tmpNames (disk (tree sample_server)))"
    by (simp add: sample_server_def sample_store_def sample_path_def sample_root_def path_text_def)
  then have f: "files (disk (tree ?S)) ''D:'' = files (disk (tree sample_server)) ''D:''"
    using session_confined [OF run sample_start o] by blast
  have "directories (tree ?S) (native (sample_path ''new''))" by (simp add: reply_result_def)
  with run f show ?thesis by blast
qed

text \<open>PORT from the host of the control connection, here 0.0.0.0, and then the address of the active mode.\<close>

lemma port_word: "is_word (formatPortCommand ip port)"
proof -
  have "\<not> is_space c" if "is_digit c \<or> c = CHR '',''" for c
    using that by (auto simp: is_space_def is_digit_def of_char_Char)
  moreover have "formatPortCommand ip port \<noteq> []" by (simp add: formatPortCommand_def octets_def)
  ultimately show ?thesis using print_ints_chars [of "octets ip port"]
    by (auto simp: is_word_def list_all_iff formatPortCommand_def)
qed


theorem login_required_witness:
  "\<exists>S'. handle_line jail_surroundings ''DELE in'' sample_server = Some (Returns S') \<and> tree S' = tree sample_server"
  using login_required [of sample_server jail_surroundings "''DELE in''"]
  by (auto simp: harmless_def sample_server_def new_session_def)

end
