(* ===== verification/Session_Pair.thy ===== *)
theory Session_Pair
  imports Command_Line Server_Cleanup Client_Facts Server_Safety
begin

text \<open>
  The two programs over one control connection: the server answers what the client sends, and the client
  reads the answer. Both sides stay in step, and agree on the transfer mode and on the endpoints of the
  data connection.
\<close>

section \<open>The client reads the answer\<close>

lemma sendCommand_calm: "calm c \<Longrightarrow> sendCommand s c = (True, c\<lparr>toPeer := toPeer c @ s @ CRLF\<rparr>)"
  by (cases s) (simp_all add: calm_def sendCommand_def cl_sendAll_def over_tcp_def)

lemma tcp_recv_frame:
  "tcp_recv n c = (p, c') \<Longrightarrow> toPeer c' = toPeer c \<and> sendResults c' = sendResults c \<and> shut c' = shut c"
  by (auto simp: tcp_recv_def split: list.splits if_splits)

lemma read_reply_frame:
  "read_reply buf m r c = (ok, r', buf', c') \<Longrightarrow>
   toPeer c' = toPeer c \<and> sendResults c' = sendResults c \<and> shut c' = shut c"
proof (induction buf m r c rule: read_reply.induct)
  case (1 buf m r c)
  show ?case
  proof (cases "cut_line buf")
    case None
    obtain p c1 where p: "tcp_recv 512 c = (p, c1)" by fastforce
    with None "1.prems" "1.IH"(1) [OF None p [symmetric]] tcp_recv_frame [OF p] show ?thesis
      by (cases p) (auto simp: read_reply.simps [of buf])
  next
    case (Some q)
    obtain raw rest where q: "q = (raw, rest)" by fastforce
    show ?thesis
    proof (cases "take_line raw m r")
      case None
      with Some q "1.prems" show ?thesis by (simp add: read_reply.simps [of buf])
    next
      case (Some t)
      obtain complete m1 r1 where t: "t = (complete, m1, r1)" by (metis prod_cases3)
      with Some q \<open>cut_line buf = Some q\<close> "1.prems"
        "1.IH"(2) [OF \<open>cut_line buf = Some q\<close> q [symmetric] Some t [symmetric] refl] show ?thesis
        by (auto simp: read_reply.simps [of buf] split: if_splits)
    qed
  qed
qed

text \<open>A command and its reply on a connection on which sending works.\<close>

lemma exchange:
  assumes "calm (ctl C)" "reply_code code" "ls \<noteq> []" "\<forall>l \<in> set ls. LF \<notin> set l"
    "incoming (c_replyBuffer (cst C)) (ctl C) (reply_text code ls @ rest)"
  obtains C1 b c where "cl_send cmd C = (True, C1)"
    "printReply C1 = (Some \<lparr>rcode = code, rline = last (shown code ls), rlines = shown code ls\<rparr>,
       C\<lparr>cst := (cst C)\<lparr>c_replyBuffer := b\<rparr>, ctl := c, console := console C @ map Cout (shown code ls)\<rparr>)"
    "calm c" "toPeer c = toPeer (ctl C) @ cmd @ CRLF" "incoming b c rest"
proof -
  let ?c = "(ctl C)\<lparr>toPeer := toPeer (ctl C) @ cmd @ CRLF\<rparr>"
  have "incoming (c_replyBuffer (cst C)) ?c (reply_text code ls @ rest)" using assms(5) by (simp add: incoming_def)
  from read_reply_text [OF assms(2-4) _ this, of no_reply False]
  obtain b c where r: "incoming b c rest" "read_reply (c_replyBuffer (cst C)) False no_reply ?c =
      (True, \<lparr>rcode = code, rline = last (shown code ls), rlines = shown code ls\<rparr>, b, c)"
    by (auto simp: no_reply_def)
  note f = read_reply_frame [OF r(2)]
  show thesis
    by (rule that [of "C\<lparr>ctl := ?c\<rparr>" c b])
      (use assms(1) f r in \<open>simp_all add: cl_send_def sendCommand_calm printReply_def cl_readReply_def readReply_def
        printStoredReply_def on_cst_def calm_def\<close>)
qed

text \<open>What both programs make of a reply to TYPE.\<close>

definition told :: "string list \<Rightarrow> nat \<Rightarrow> TransferMode \<Rightarrow> TransferMode" where
  "told tokens code m =
     (if map upper_string tokens = [''TYPE'', ''A''] \<and> 200 \<le> code \<and> code < 300 then ASCII
      else if map upper_string tokens = [''TYPE'', ''I''] \<and> 200 \<le> code \<and> code < 300 then Binary else m)"

lemma forwardCommand_reply:
  assumes "calm (ctl C)" "reply_code code" "ls \<noteq> []" "\<forall>l \<in> set ls. LF \<notin> set l"
    "incoming (c_replyBuffer (cst C)) (ctl C) (reply_text code ls @ rest)"
  shows "\<exists>b c. forwardCommand input tokens C =
      (True, C\<lparr>cst := (cst C)\<lparr>c_replyBuffer := b, c_transferMode := told tokens code (c_transferMode (cst C))\<rparr>, ctl := c,
         console := console C @ map Cout (shown code ls)\<rparr>) \<and>
    calm c \<and> toPeer c = toPeer (ctl C) @ canonicalizeCommandVerb input @ CRLF \<and> incoming b c rest"
proof -
  let ?cmd = "canonicalizeCommandVerb input"
  obtain C1 b c where s: "cl_send ?cmd C = (True, C1)" and
    p: "printReply C1 = (Some \<lparr>rcode = code, rline = last (shown code ls), rlines = shown code ls\<rparr>,
       C\<lparr>cst := (cst C)\<lparr>c_replyBuffer := b\<rparr>, ctl := c, console := console C @ map Cout (shown code ls)\<rparr>)" and
    c: "calm c" "toPeer c = toPeer (ctl C) @ ?cmd @ CRLF" "incoming b c rest"
    by (rule exchange [OF assms, of ?cmd])
  have t: "(if tokens \<noteq> [] \<and> upper_string (hd tokens) = ''TYPE'' \<and> length tokens = 2 \<and> 200 \<le> code \<and> code < 300
      then (if upper_string (tokens ! 1) = ''I'' then Binary else if upper_string (tokens ! 1) = ''A'' then ASCII else m) else m)
    = told tokens code m" for m
    by (auto simp: told_def length_Suc_conv numeral_2_eq_2)
  have "forwardCommand input tokens C =
      (True, C\<lparr>cst := (cst C)\<lparr>c_replyBuffer := b, c_transferMode := told tokens code (c_transferMode (cst C))\<rparr>, ctl := c,
         console := console C @ map Cout (shown code ls)\<rparr>)"
    unfolding forwardCommand_def s p prod.case option.case Let_def t [symmetric]
    by (simp add: on_cst_def)
  with c show ?thesis by blast
qed

section \<open>The server answers it\<close>

lemma parseCommand_upper: "upper_string (cmdType (parseCommand s)) = cmdType (parseCommand s)"
  by (auto simp: parseCommand_def Let_def upper_string_def split: list.splits)

lemma executeCommand_TYPE:
  assumes "executeCommand X \<lparr>rawCommand = r, cmdType = ''TYPE'', cmdArgs = args\<rparr> S = Some (Returns S')" "calm (chan S)"
    "ctlSocket (sess S) \<noteq> None"
  shows "\<exists>code msg. reply_code code \<and> LF \<notin> set msg \<and> toPeer (chan S') = toPeer (chan S) @ reply_text code [msg] \<and>
    transferMode (sess S') = told (''TYPE'' # args) code (transferMode (sess S))"
proof -
  have u: "upper_string ''TYPE'' = ''TYPE''" by code_simp
  have m: "map_of commandMap ''TYPE'' = Some cmd_TYPE" by (simp add: commandMap_def)
  consider (login) "\<not> authenticated (sess S)" | (busy) "authenticated (sess S)" "transferActive (sess S)"
    | (runs) "authenticated (sess S)" "\<not> transferActive (sess S)" by blast
  then show ?thesis
  proof cases
    case login
    with assms show ?thesis
      by (intro exI [of _ 530] exI [of _ "''Please log in using USER and PASS.''"])
        (auto simp: executeCommand_def open_commands_def replyWithCode_calm told_def simp del: reply_text.simps)
  next
    case busy
    with assms show ?thesis
      by (intro exI [of _ 503] exI [of _ "''Transfer already in progress; use ABOR first.''"])
        (auto simp: executeCommand_def replyWithCode_calm told_def simp del: reply_text.simps)
  next
    case runs
    then have run: "cmd_TYPE X args (joinCompletedTransfer S) = Some (Returns S')"
      using assms(1) m by (simp add: executeCommand_def Let_def)
    show ?thesis
    proof (cases "map upper_string args = [''A''] \<or> map upper_string args = [''I'']")
      case True
      then obtain x where x: "args = [x]" "upper_string x = ''A'' \<or> upper_string x = ''I''" by auto
      with run assms(2) u show ?thesis
        by (intro exI [of _ 250] exI [of _ "''Type set to '' @ upper_string x @ ''.''"])
          (auto simp: cmd_TYPE_def replyWithCode_calm told_def simp del: reply_text.simps)
    next
      case False
      then have "upper_string (hd args) \<noteq> ''A'' \<and> upper_string (hd args) \<noteq> ''I''" if "length args = 1"
        using that by (cases args) auto
      with False run assms(2) u show ?thesis
        by (intro exI [of _ 500] exI [of _ "''TYPE must be A or I.''"])
          (auto simp: cmd_TYPE_def Let_def replyWithCode_calm told_def simp del: reply_text.simps split: if_splits)
    qed
  qed
qed

text \<open>One line that starts no transfer: one reply, and the mode as the reply tells.\<close>

lemma handle_line_told:
  assumes "clean X" "holding k S" "newSocket X \<noteq> k" "calm (chan S)" "handle_line X raw S = Some (Returns S')"
    "cmdType (parseCommand (strip_cr raw)) \<notin> set transfer_commands"
  shows "\<exists>code ls. reply_code code \<and> ls \<noteq> [] \<and> (\<forall>l \<in> set ls. LF \<notin> set l) \<and>
    toPeer (chan S') = toPeer (chan S) @ reply_text code ls \<and>
    transferMode (sess S') =
      told (cmdType (parseCommand (strip_cr raw)) # cmdArgs (parseCommand (strip_cr raw))) code (transferMode (sess S))"
proof -
  let ?p = "parseCommand (strip_cr raw)"
  have ctl: "ctlSocket (sess S) \<noteq> None" using assms(2) by (simp add: holding_def)
  show ?thesis
  proof (cases "cmdType ?p = ''TYPE''")
    case True
    then have p: "?p = \<lparr>rawCommand = rawCommand ?p, cmdType = ''TYPE'', cmdArgs = cmdArgs ?p\<rparr>" by simp
    have "executeCommand X ?p S = Some (Returns S')" using assms(5) True by (simp add: handle_line_def Let_def)
    then have "executeCommand X \<lparr>rawCommand = rawCommand ?p, cmdType = ''TYPE'', cmdArgs = cmdArgs ?p\<rparr> S = Some (Returns S')"
      using p by simp
    from executeCommand_TYPE [OF this assms(4) ctl] obtain code msg where "reply_code code" "LF \<notin> set msg"
      "toPeer (chan S') = toPeer (chan S) @ reply_text code [msg]"
      "transferMode (sess S') = told (''TYPE'' # cmdArgs ?p) code (transferMode (sess S))" by blast
    with True show ?thesis by (intro exI [of _ code] exI [of _ "[msg]"]) simp
  next
    case False
    have "one_reply (chan S) (chan S')"
      using handle_line_answered [OF assms(1) ctl assms(5)] assms(6) by (simp add: answered_def)
    then obtain s where s: "is_reply s" "chan S' = (chan S)\<lparr>toPeer := toPeer (chan S) @ s\<rparr>"
      using one_reply_calm assms(4) by blast
    have "transferMode (sess S') = transferMode (sess S)"
      using handle_line_tidy [OF assms(2,3,5)] False by (simp add: tidy_def)
    moreover have "told (cmdType ?p # as) code m = m" for as code m
      using False parseCommand_upper by (auto simp: told_def)
    ultimately show ?thesis using s by (auto simp: is_reply_def)
  qed
qed

section \<open>Both loops\<close>

lemma told_upper: "map upper_string ts = map upper_string us \<Longrightarrow> told ts code m = told us code m"
  by (simp add: told_def)

text \<open>The lines of the user that the client only forwards, and the lines it sends for those typed.\<close>

definition forwarded :: "string \<Rightarrow> bool" where
  "forwarded input \<longleftrightarrow> LF \<notin> set input \<and>
     (split_words input = [] \<or>
      upper_string (hd (split_words input)) \<notin> set ([''PORT'', ''PASV'', ''QUIT''] @ transfer_commands))"

definition wire_lines :: "string list \<Rightarrow> string list" where
  "wire_lines inputs = map (\<lambda>i. canonicalizeCommandVerb i @ [CR]) (filter (\<lambda>i. split_words i \<noteq> []) inputs)"

lemma client_line_forwards:
  assumes "\<not> c_transferActive (cst C)" "forwarded input" "split_words input \<noteq> []"
    "forwardCommand input (split_words input) (cl_joinCompletedTransfer C) = (True, C')"
  shows "client_line X input C = Some (Returns (True, C'))"
proof -
  have "dispatch X input (split_words input) (cl_joinCompletedTransfer C) = Returns (True, C')"
    using assms(2-4) by (simp add: dispatch_def Let_def forwarded_def transfer_commands_def)
  with assms(1-3) show ?thesis by (simp add: client_line_def Let_def forwarded_def)
qed

lemma joined_idle:
  assumes "\<not> c_transferActive (cst C)"
  shows "\<exists>wk. cl_joinCompletedTransfer C = C\<lparr>cst := (cst C)\<lparr>c_transferWorker := wk\<rparr>\<rparr>"
proof (cases "c_transferWorker (cst C) = None")
  case True
  then show ?thesis by (intro exI [of _ None]) (simp add: cl_joinCompletedTransfer_def)
next
  case False
  with assms show ?thesis by (intro exI [of _ None]) (simp add: cl_joinCompletedTransfer_def on_cst_def)
qed

text \<open>One line on both sides.\<close>

lemma lines_in_step:
  assumes "clean X" "holding k S" "newSocket X \<noteq> k" "calm (chan S)"
    "handle_line X (canonicalizeCommandVerb input @ [CR]) S = Some (Returns S1)"
    "toPeer (chan S1) @ rest = toPeer (chan S) @ new"
    "forwarded input" "split_words input \<noteq> []" "calm (ctl C)" "\<not> c_transferActive (cst C)"
    "incoming (c_replyBuffer (cst C)) (ctl C) new" "c_transferMode (cst C) = transferMode (sess S)"
  shows "\<exists>C1 code ls. client_line Y input C = Some (Returns (True, C1)) \<and>
    toPeer (chan S1) = toPeer (chan S) @ reply_text code ls \<and>
    console C1 = console C @ map Cout (shown code ls) \<and>
    toPeer (ctl C1) = toPeer (ctl C) @ canonicalizeCommandVerb input @ CRLF \<and> calm (ctl C1) \<and>
    \<not> c_transferActive (cst C1) \<and> incoming (c_replyBuffer (cst C1)) (ctl C1) rest \<and>
    c_transferMode (cst C1) = transferMode (sess S1)"
proof -
  let ?raw = "canonicalizeCommandVerb input @ [CR]"
  let ?p = "parseCommand (strip_cr ?raw)"
  have w: "map upper_string (split_words (canonicalizeCommandVerb input)) = map upper_string (split_words input)"
    by (rule canonicalize_words)
  then have ne: "split_words (canonicalizeCommandVerb input) \<noteq> []" using assms(8) by auto
  have p: "cmdType ?p = upper_string (hd (split_words (canonicalizeCommandVerb input)))"
    "cmdArgs ?p = tl (split_words (canonicalizeCommandVerb input))"
    using parseCommand_words [OF ne] by simp_all
  have t: "cmdType ?p = upper_string (hd (split_words input))" using p(1) w ne assms(8) by (metis hd_map)
  have u: "map upper_string (cmdType ?p # cmdArgs ?p) = map upper_string (split_words input)"
    using p w ne by (cases "split_words (canonicalizeCommandVerb input)") auto
  have "cmdType ?p \<notin> set transfer_commands" using assms(7,8) t by (auto simp: forwarded_def)
  from handle_line_told [OF assms(1-5) this] obtain code ls where
    r: "reply_code code" "ls \<noteq> []" "\<forall>l \<in> set ls. LF \<notin> set l" "toPeer (chan S1) = toPeer (chan S) @ reply_text code ls"
      "transferMode (sess S1) = told (split_words input) code (transferMode (sess S))"
    using told_upper [OF u] by auto
  obtain wk where J: "cl_joinCompletedTransfer C = C\<lparr>cst := (cst C)\<lparr>c_transferWorker := wk\<rparr>\<rparr>"
    using joined_idle [OF assms(10)] by blast
  let ?J = "cl_joinCompletedTransfer C"
  have new: "new = reply_text code ls @ rest" using assms(6) r(4) by simp
  have "calm (ctl ?J)" "incoming (c_replyBuffer (cst ?J)) (ctl ?J) (reply_text code ls @ rest)"
    using assms(9,11) new by (simp_all add: J)
  from forwardCommand_reply [OF this(1) r(1-3) this(2), of input "split_words input"]
  obtain b c where f: "forwardCommand input (split_words input) ?J =
      (True, ?J\<lparr>cst := (cst ?J)\<lparr>c_replyBuffer := b, c_transferMode := told (split_words input) code (c_transferMode (cst ?J))\<rparr>,
         ctl := c, console := console ?J @ map Cout (shown code ls)\<rparr>)"
    "calm c" "toPeer c = toPeer (ctl ?J) @ canonicalizeCommandVerb input @ CRLF" "incoming b c rest" by blast
  show ?thesis
    by (rule exI, rule exI [of _ code], rule exI [of _ ls], rule conjI,
        rule client_line_forwards [OF assms(10,7,8) f(1)])
      (use f(2-4) r(4,5) assms(10,12) in \<open>simp add: J\<close>)
qed

lemma loops_in_step:
  assumes "\<forall>i. clean (env i)" "\<forall>i. newSocket (env i) \<noteq> k"
  shows "\<lbrakk>holding k S; calm (chan S); run_lines env n (wire_lines (map snd inputs)) S = Some (Returns S');
      ctlSocket (sess S') \<noteq> None; list_all forwarded (map snd inputs); toPeer (chan S') @ rest = toPeer (chan S) @ new;
      calm (ctl C); \<not> c_transferActive (cst C); incoming (c_replyBuffer (cst C)) (ctl C) new;
      c_transferMode (cst C) = transferMode (sess S)\<rbrakk> \<Longrightarrow>
    \<exists>C' replies. client_loop cenv m inputs C = Some (Returns C') \<and> length replies = length (wire_lines (map snd inputs)) \<and>
      toPeer (chan S') = toPeer (chan S) @ concat (map (\<lambda>(code, ls). reply_text code ls) replies) \<and>
      console C' = console C @ map Cout (concat (map (\<lambda>(code, ls). shown code ls) replies)) \<and>
      toPeer (ctl C') = toPeer (ctl C) @ concat (map (\<lambda>l. l @ [LF]) (wire_lines (map snd inputs))) \<and>
      incoming (c_replyBuffer (cst C')) (ctl C') rest \<and> c_transferMode (cst C') = transferMode (sess S')"
proof (induction inputs arbitrary: n m S C new)
  case Nil
  then have "S' = S" by (simp add: wire_lines_def)
  with Nil show ?case by (intro exI [of _ C] exI [of _ "[]"]) (simp add: wire_lines_def)
next
  case (Cons x inputs)
  obtain ended input where x: "x = (ended, input)" by fastforce
  have fw: "forwarded input" "list_all forwarded (map snd inputs)" using Cons.prems(5) x by simp_all
  show ?case
  proof (cases "split_words input = []")
    case True
    have w: "wire_lines (map snd (x # inputs)) = wire_lines (map snd inputs)" using True x by (simp add: wire_lines_def)
    have "client_loop cenv m (x # inputs) C = client_loop cenv (Suc m) inputs C"
      using Cons.prems(8) True x by (simp add: client_line_def)
    with Cons.IH [OF Cons.prems(1,2) Cons.prems(3) [unfolded w] Cons.prems(4) fw(2) Cons.prems(6-10), of "Suc m"] w
    show ?thesis by simp
  next
    case False
    let ?raw = "canonicalizeCommandVerb input @ [CR]"
    have w: "wire_lines (map snd (x # inputs)) = ?raw # wire_lines (map snd inputs)"
      using False x by (simp add: wire_lines_def)
    obtain S1 where S1: "handle_line (env n) ?raw S = Some (Returns S1)"
      using Cons.prems(3) w by (auto split: option.splits outcome.splits)
    have tidy: "tidy k (cmdType (parseCommand (strip_cr ?raw)) \<noteq> ''TYPE'') S S1"
      using handle_line_tidy [OF Cons.prems(1) _ S1] assms(2) by blast
    have alive: "ctlSocket (sess S1) \<noteq> None"
      using Cons.prems(3,4) w S1 by (auto split: if_splits)
    have rest1: "run_lines env (Suc n) (wire_lines (map snd inputs)) S1 = Some (Returns S')"
      using Cons.prems(3) w S1 alive by (simp split: if_splits)
    have h1: "holding k S1" by (rule tidy_holding [OF tidy alive])
    have ans: "answered (cmdType (parseCommand (strip_cr ?raw)) \<in> set transfer_commands) (chan S) (chan S1)"
      using handle_line_answered [OF _ _ S1] assms(1) Cons.prems(1) by (simp add: holding_def)
    have calm1: "calm (chan S1)" by (rule answered_stays_calm [OF ans Cons.prems(2)])
    obtain more1 where grows: "toPeer (chan S') = toPeer (chan S1) @ more1"
      using run_lines_answers [OF assms(1) calm1 alive rest1] by auto
    have new1: "toPeer (chan S1) @ more1 @ rest = toPeer (chan S) @ new" using Cons.prems(6) grows by simp
    from lines_in_step [OF _ Cons.prems(1) _ Cons.prems(2) S1 new1 fw(1) False Cons.prems(7-10), of "cenv m"] assms
    obtain C1 code ls where C1: "client_line (cenv m) input C = Some (Returns (True, C1))"
      "toPeer (chan S1) = toPeer (chan S) @ reply_text code ls" "console C1 = console C @ map Cout (shown code ls)"
      "toPeer (ctl C1) = toPeer (ctl C) @ canonicalizeCommandVerb input @ CRLF" "calm (ctl C1)"
      "\<not> c_transferActive (cst C1)" "incoming (c_replyBuffer (cst C1)) (ctl C1) (more1 @ rest)"
      "c_transferMode (cst C1) = transferMode (sess S1)" by blast
    have loop: "client_loop cenv m (x # inputs) C = client_loop cenv (Suc m) inputs C1"
      using C1(1) Cons.prems(8) x by simp
    have g: "toPeer (chan S') @ rest = toPeer (chan S1) @ more1 @ rest" using grows by simp
    from Cons.IH [OF h1 calm1 rest1 Cons.prems(4) fw(2) g C1(5-8), of "Suc m"] obtain C' replies where
      "client_loop cenv (Suc m) inputs C1 = Some (Returns C')" "length replies = length (wire_lines (map snd inputs))"
      "toPeer (chan S') = toPeer (chan S1) @ concat (map (\<lambda>(code, ls). reply_text code ls) replies)"
      "console C' = console C1 @ map Cout (concat (map (\<lambda>(code, ls). shown code ls) replies))"
      "toPeer (ctl C') = toPeer (ctl C1) @ concat (map (\<lambda>l. l @ [LF]) (wire_lines (map snd inputs)))"
      "incoming (c_replyBuffer (cst C')) (ctl C') rest" "c_transferMode (cst C') = transferMode (sess S')" by blast
    then show ?thesis using loop w C1(2-4)
      by (intro exI [of _ C'] exI [of _ "(code, ls) # replies"]) simp
  qed
qed

lemma wire_lines_list:
  assumes "list_all forwarded inputs"
  shows "line_list (concat (map (\<lambda>l. l @ [LF]) (wire_lines inputs))) = wire_lines inputs"
  using assms
proof (induction inputs)
  case (Cons i inputs)
  then have "LF \<notin> set (canonicalizeCommandVerb i @ [CR])" using canonicalize_LF by (simp add: forwarded_def)
  from line_list_cut [OF this] Cons show ?case by (simp add: wire_lines_def)
qed (simp add: wire_lines_def line_list_none)

text \<open>
  C10: the two programs stay in step. The user types any lines the client forwards (all but those that
  open data connections, start transfers or quit), and the server runs its session loop on the bytes the client sends for
  them, in any pieces. Then the client's loop, reading the bytes the server sends in any pieces, sends
  exactly those bytes, prints for each command exactly the one reply the server gave to it, in order, has read all
  replies when the lines end, and then has the server's transfer mode.
\<close>

theorem sessions_in_step:
  assumes "\<forall>i. clean (env i)" "\<forall>i. newSocket (env i) \<noteq> k" "holding k S" "calm (chan S)"
    and "list_all forwarded (map snd inputs)" "[] \<notin> set pieces"
    and "concat pieces = concat (map (\<lambda>l. l @ [LF]) (wire_lines (map snd inputs)))"
    and "serve env 0 [] pieces S = Some (Returns S')" "ctlSocket (sess S') \<noteq> None"
    and "calm (ctl C)" "\<not> c_transferActive (cst C)" "c_transferMode (cst C) = transferMode (sess S)"
    and "toPeer (chan S') = toPeer (chan S) @ sent" "incoming (c_replyBuffer (cst C)) (ctl C) (sent @ later)"
  shows "\<exists>C' replies. client_loop cenv 0 inputs C = Some (Returns C') \<and>
    toPeer (ctl C') = toPeer (ctl C) @ concat pieces \<and>
    length replies = length (wire_lines (map snd inputs)) \<and>
    sent = concat (map (\<lambda>(code, ls). reply_text code ls) replies) \<and>
    console C' = console C @ map Cout (concat (map (\<lambda>(code, ls). shown code ls) replies)) \<and>
    incoming (c_replyBuffer (cst C')) (ctl C') later \<and> c_transferMode (cst C') = transferMode (sess S')"
proof -
  have ctl: "ctlSocket (sess S) \<noteq> None" using assms(3) by (simp add: holding_def)
  have "run_lines env 0 (wire_lines (map snd inputs)) S = Some (Returns S')"
    using serve_run_lines [OF assms(1,4) ctl assms(6), of 0 "[]"] assms(7,8) wire_lines_list [OF assms(5)] by simp
  from loops_in_step [OF assms(1-4) this assms(9,5) _ assms(10,11,14,12), of later cenv 0] assms(13)
  obtain C' replies where "client_loop cenv 0 inputs C = Some (Returns C')"
    "length replies = length (wire_lines (map snd inputs))"
    "sent = concat (map (\<lambda>(code, ls). reply_text code ls) replies)"
    "console C' = console C @ map Cout (concat (map (\<lambda>(code, ls). shown code ls) replies))"
    "toPeer (ctl C') = toPeer (ctl C) @ concat (map (\<lambda>l. l @ [LF]) (wire_lines (map snd inputs)))"
    "incoming (c_replyBuffer (cst C')) (ctl C') later" "c_transferMode (cst C') = transferMode (sess S')"
    by auto
  then show ?thesis unfolding assms(7) by blast
qed

section \<open>Data connections\<close>

lemma handle_line_say:
  assumes "is_word verb" "upper_string verb = verb" "list_all is_word args" "calm (chan S)" "ctlSocket (sess S) \<noteq> None"
    "handle_line X (join_words (verb # args) @ [CR]) S = Some (Returns S')" "map_of commandMap verb = Some h"
    "verb \<notin> set open_commands" "verb \<noteq> ''ABOR''"
  shows "\<not> (authenticated (sess S) \<and> \<not> transferActive (sess S)) \<and>
      (\<exists>code msg. code \<in> {503, 530} \<and> LF \<notin> set msg \<and> toPeer (chan S') = toPeer (chan S) @ reply_text code [msg]) \<or>
    authenticated (sess S) \<and> \<not> transferActive (sess S) \<and> h X args (joinCompletedTransfer S) = Some (Returns S')"
proof -
  have "verb \<noteq> []" using assms(1) by (simp add: is_word_def)
  with assms have run: "executeCommand X \<lparr>rawCommand = join_words (verb # args), cmdType = verb, cmdArgs = args\<rparr> S = Some (Returns S')"
    using say [of verb args X S] by simp
  show ?thesis
  proof (cases "authenticated (sess S)")
    case False
    with run assms(4,8) have "S' = reply 530 ''Please log in using USER and PASS.'' S" by (simp add: executeCommand_def)
    with False assms(4) show ?thesis
      by (intro disjI1 conjI exI [of _ 530] exI [of _ "''Please log in using USER and PASS.''"])
        (simp_all add: replyWithCode_calm del: reply_text.simps)
  next
    case auth: True
    show ?thesis
    proof (cases "transferActive (sess S)")
      case True
      with run auth assms(9) have "S' = sessionReply 503 ''Transfer already in progress; use ABOR first.'' S"
        by (simp add: executeCommand_def)
      with True assms(4,5) show ?thesis
        by (intro disjI1 conjI exI [of _ 503] exI [of _ "''Transfer already in progress; use ABOR first.''"])
          (simp_all add: replyWithCode_calm del: reply_text.simps)
    next
      case False
      with run auth assms(7) show ?thesis by (simp add: executeCommand_def Let_def)
    qed
  qed
qed

lemma paren_free: "CHR ''('' \<notin> set (to_string n)"
  using to_string_digits [of n] by (auto simp: list_all_iff is_digit_def)

lemma pasv_answer:
  assumes "handle_line X (''PASV'' @ [CR]) S = Some (Returns S')" "calm (chan S)" "ctlSocket (sess S) \<noteq> None"
  shows "\<exists>code msg. reply_code code \<and> LF \<notin> set msg \<and> toPeer (chan S') = toPeer (chan S) @ reply_text code [msg] \<and>
    (if authenticated (sess S) \<and> \<not> transferActive (sess S) \<and> fst (openPassiveDataPort (boundPort X) (net S)) \<noteq> None
     then code = 227 \<and> msg = ''Entering Passive Mode ('' @ formatPasvReply (localIp X) (boundPort X) @ '').'' \<and>
       dataChannelMode (sess S') = Passive \<and> pendingDataSocket (sess S') = Some (newSocket X)
     else code \<noteq> 227)"
proof -
  have v: "is_word ''PASV''" "upper_string ''PASV'' = ''PASV''" by code_simp+
  have m: "map_of commandMap ''PASV'' = Some cmd_PASV" by (simp add: commandMap_def)
  have "''PASV'' \<notin> set open_commands" by (simp add: open_commands_def)
  from handle_line_say [OF v _ assms(2,3) _ m this, of "[]" X S'] assms(1)
  consider (refused) code msg where "\<not> (authenticated (sess S) \<and> \<not> transferActive (sess S))" "code = 503 \<or> code = 530"
      "LF \<notin> set msg" "toPeer (chan S') = toPeer (chan S) @ reply_text code [msg]"
    | (runs) "authenticated (sess S)" "\<not> transferActive (sess S)" "cmd_PASV X [] (joinCompletedTransfer S) = Some (Returns S')"
    by auto
  then show ?thesis
  proof cases
    case refused
    then show ?thesis by (intro exI [of _ code] exI [of _ msg]) auto
  next
    case runs
    obtain port w where o: "openPassiveDataPort (boundPort X) (net S) = (port, w)" by fastforce
    have b: "port = None \<or> port = Some (boundPort X)" using o by (auto simp: openPassiveDataPort_def Let_def split: prod.splits if_splits)
    show ?thesis
    proof (cases port)
      case None
      with runs o assms(2) show ?thesis
        by (intro exI [of _ 425] exI [of _ "''Could not open data port.''"])
          (auto simp: cmd_PASV_def Let_def replyWithCode_calm simp del: reply_text.simps)
    next
      case (Some p)
      then have o: "openPassiveDataPort (boundPort X) (net S) = (Some (boundPort X), w)" using o b by simp
      with runs assms(2) show ?thesis
        by (intro exI [of _ 227] exI [of _ "''Entering Passive Mode ('' @ formatPasvReply (localIp X) (boundPort X) @ '').''"])
          (auto simp: cmd_PASV_def Let_def replyWithCode_calm formatPasvReply_def print_ints_clean simp del: reply_text.simps)
    qed
  qed
qed

text \<open>
  C11: both programs agree on a passive data connection. The server answers PASV and the client reads that
  answer from its connection, however it arrives. If the session is logged in and idle and both sides can
  open their sockets, the server waits at the data socket and the client will send to its address and
  port; in every other case the client has no data connection, and neither program's control connection
  is out of step.
\<close>

theorem passive_agreed:
  assumes "handle_line X (''PASV'' @ [CR]) S = Some (Returns S')" "calm (chan S)" "ctlSocket (sess S) \<noteq> None"
    and "toPeer (chan S') = toPeer (chan S) @ sent" "calm (ctl C)" "incoming (c_replyBuffer (cst C)) (ctl C) (sent @ later)"
    and "inet_pton_accepts (cl_inet_pton Y)" "length tokens = 1"
  shows "\<exists>C'. enterPassiveMode Y tokens C = (True, C') \<and> toPeer (ctl C') = toPeer (ctl C) @ ''PASV'' @ CRLF \<and>
    incoming (c_replyBuffer (cst C')) (ctl C') later \<and>
    (if authenticated (sess S) \<and> \<not> transferActive (sess S) \<and> fst (openPassiveDataPort (boundPort X) (net S)) \<noteq> None \<and>
       fst (syscall (cnet C))
     then c_dataMode (cst C') = PassiveData \<and> c_pendingDataSocket (cst C') = Some (cl_newSocket Y) \<and>
       c_passiveAddress (cst C') = \<lparr>sin_family = AF_INET, sin_port = boundPort X, sin_addr = localIp X\<rparr> \<and>
       dataChannelMode (sess S') = Passive \<and> pendingDataSocket (sess S') = Some (newSocket X)
     else c_dataMode (cst C') = NoData)"
proof -
  obtain code msg where a: "reply_code code" "LF \<notin> set msg" "toPeer (chan S') = toPeer (chan S) @ reply_text code [msg]"
    "if authenticated (sess S) \<and> \<not> transferActive (sess S) \<and> fst (openPassiveDataPort (boundPort X) (net S)) \<noteq> None
     then code = 227 \<and> msg = ''Entering Passive Mode ('' @ formatPasvReply (localIp X) (boundPort X) @ '').'' \<and>
       dataChannelMode (sess S') = Passive \<and> pendingDataSocket (sess S') = Some (newSocket X)
     else code \<noteq> 227"
    using pasv_answer [OF assms(1-3)] by blast
  have sent: "sent = reply_text code [msg]" using a(3) assms(4) by simp
  let ?D = "closeDataState C"
  have "calm (ctl ?D)" "[msg] \<noteq> []" "\<forall>l \<in> set [msg]. LF \<notin> set l"
    "incoming (c_replyBuffer (cst ?D)) (ctl ?D) (reply_text code [msg] @ later)"
    using assms(5,6) a(2) sent by simp_all
  from exchange [OF this(1) a(1) this(2-), of "''PASV''"] obtain C1 b c where
    x: "cl_send ''PASV'' ?D = (True, C1)"
    "printReply C1 = (Some \<lparr>rcode = code, rline = last (shown code [msg]), rlines = shown code [msg]\<rparr>,
       ?D\<lparr>cst := (cst ?D)\<lparr>c_replyBuffer := b\<rparr>, ctl := c, console := console ?D @ map Cout (shown code [msg])\<rparr>)"
    "toPeer c = toPeer (ctl ?D) @ ''PASV'' @ CRLF" "incoming b c later" by metis
  let ?R = "?D\<lparr>cst := (cst ?D)\<lparr>c_replyBuffer := b\<rparr>, ctl := c, console := console ?D @ map Cout (shown code [msg])\<rparr>"
  have line: "last (shown code [msg]) = to_string code @ '' '' @ msg" by (simp add: shown_def)
  obtain opened w where o: "syscall (cnet C) = (opened, w)" by fastforce
  let ?peer = "\<lparr>sin_family = AF_INET, sin_port = boundPort X, sin_addr = localIp X\<rparr>"
  show ?thesis
  proof (cases "code = 227")
    case False
    have "enterPassiveMode Y tokens C = (True, ?R)"
      unfolding enterPassiveMode_def x(1) prod.case x(2) option.case using False assms(8) by simp
    with False a(4) x(3,4) show ?thesis by (intro exI [of _ ?R]) (auto split: if_splits)
  next
    case True
    then have g: "authenticated (sess S)" "\<not> transferActive (sess S)" "fst (openPassiveDataPort (boundPort X) (net S)) \<noteq> None"
      "msg = ''Entering Passive Mode ('' @ formatPasvReply (localIp X) (boundPort X) @ '').''"
      "dataChannelMode (sess S') = Passive" "pendingDataSocket (sess S') = Some (newSocket X)"
      using a(4) by (simp_all split: if_splits)
    have "CHR ''('' \<notin> set (to_string 227 @ '' Entering Passive Mode '')" using paren_free by simp
    from parse_formatPasv [OF assms(7) this, of "cl_wide_int Y" "localIp X" "boundPort X"]
    have parsed: "parsePasvReply (cl_wide_int Y) (cl_inet_pton Y) (last (shown code [msg])) = Some ?peer"
      unfolding line unfolding g(4) True by simp
    have r: "rcode \<lparr>rcode = code, rline = last (shown code [msg]), rlines = shown code [msg]\<rparr> = 227"
      "rline \<lparr>rcode = code, rline = last (shown code [msg]), rlines = shown code [msg]\<rparr> = last (shown code [msg])"
      using True by simp_all
    let ?C3 = "on_cst (c_passiveAddress_update (\<lambda>_. ?peer)) ?R"
    have n: "connectToPassiveDataPort ?peer (cnet C) = (opened, w)" using o by (simp add: connectToPassiveDataPort_def)
    have len: "(length tokens \<noteq> 1) = False" using assms(8) by simp
    have e: "enterPassiveMode Y tokens C =
        (case (opened, w) of
           (False, w) \<Rightarrow> (True, print_line (Cerr ''Could not open a Passive-mode UDP socket.'') (?C3\<lparr>cnet := w\<rparr>))
         | (True, w) \<Rightarrow> (True, on_cst (\<lambda>s. s\<lparr>c_pendingDataSocket := Some (cl_newSocket Y), c_dataMode := PassiveData\<rparr>) (?C3\<lparr>cnet := w\<rparr>)))"
      unfolding enterPassiveMode_def len if_False x(1) prod.case x(2) option.case r parsed Let_def by (simp add: n)
    show ?thesis
    proof (cases opened)
      case True
      then show ?thesis unfolding e using g(1-3,5,6) x(3,4) o by (simp add: on_cst_def)
    next
      case False
      then show ?thesis unfolding e using x(3,4) o by (simp add: on_cst_def print_line_def)
    qed
  qed
qed

lemma port_answer:
  assumes "handle_line X (''PORT '' @ formatPortCommand ip port @ [CR]) S = Some (Returns S')" "calm (chan S)"
    "ctlSocket (sess S) \<noteq> None" "inet_pton_accepts (inet_pton_of X)"
  shows "\<exists>code msg. reply_code code \<and> LF \<notin> set msg \<and> toPeer (chan S') = toPeer (chan S) @ reply_text code [msg] \<and>
    (if authenticated (sess S) \<and> \<not> transferActive (sess S) \<and> port \<noteq> 0 \<and> ip = sin_addr (controlPeerAddr (sess S))
     then code = 200 \<and> dataChannelMode (sess S') = Active \<and>
       pendingPeerAddr (sess S') = \<lparr>sin_family = AF_INET, sin_port = port, sin_addr = ip\<rparr>
     else code \<noteq> 200)"
proof -
  have v: "is_word ''PORT''" "upper_string ''PORT'' = ''PORT''" by code_simp+
  have m: "map_of commandMap ''PORT'' = Some cmd_PORT" by (simp add: commandMap_def)
  have n: "''PORT'' \<notin> set open_commands" by (simp add: open_commands_def)
  have w: "list_all is_word [formatPortCommand ip port]" using port_word by simp
  have l: "join_words [''PORT'', formatPortCommand ip port] @ [CR] = ''PORT '' @ formatPortCommand ip port @ [CR]" by simp
  note parsed = parse_formatPort [OF assms(4), of "wide_int X" ip port]
  from handle_line_say [OF v w assms(2,3) _ m n, unfolded l, OF assms(1)]
  consider (refused) code msg where "\<not> (authenticated (sess S) \<and> \<not> transferActive (sess S))" "code = 503 \<or> code = 530"
      "LF \<notin> set msg" "toPeer (chan S') = toPeer (chan S) @ reply_text code [msg]"
    | (runs) "authenticated (sess S)" "\<not> transferActive (sess S)"
        "cmd_PORT X [formatPortCommand ip port] (joinCompletedTransfer S) = Some (Returns S')"
    by auto
  then show ?thesis
  proof cases
    case refused
    then show ?thesis by (intro exI [of _ code] exI [of _ msg]) auto
  next
    case runs
    consider (zero) "port = 0" | (other) "port \<noteq> 0" "ip \<noteq> sin_addr (controlPeerAddr (sess S))"
      | (good) "port \<noteq> 0" "ip = sin_addr (controlPeerAddr (sess S))" by blast
    then show ?thesis
    proof cases
      case zero
      with runs parsed assms(2) show ?thesis
        by (intro exI [of _ 500] exI [of _ "''Bad PORT argument.''"])
          (auto simp: cmd_PORT_def Let_def replyWithCode_calm simp del: reply_text.simps)
    next
      case other
      with runs parsed assms(2) show ?thesis
        by (intro exI [of _ 500] exI [of _ "''PORT address must match the control connection.''"])
          (auto simp: cmd_PORT_def Let_def replyWithCode_calm portMatchesControlPeer_def simp del: reply_text.simps)
    next
      case good
      with runs parsed assms(2) show ?thesis
        by (intro exI [of _ 200] exI [of _ "''PORT command successful.''"])
          (auto simp: cmd_PORT_def Let_def replyWithCode_calm portMatchesControlPeer_def simp del: reply_text.simps)
    qed
  qed
qed

text \<open>
  C12: both programs agree on an active data connection. PORT without an argument: the client has bound a
  socket, announces it, and reads the server's answer. If the session is logged in and idle and the
  endpoint has a port and the address of the control connection, the server will send to exactly the
  endpoint of the client's socket and the client keeps that socket; in every other case the client gives
  it up and has no data connection.
\<close>

theorem active_agreed:
  assumes "getLocalIPv4ForServer (cl_inet_pton Y) (cl_localIp Y) (dotted (sin_addr (c_serverAddress (cst C)))) (cnet C) = (Some ip, w)"
    and "openActiveListenPort (cl_boundPort Y) w = (Some port, w2)"
    and "handle_line X (''PORT '' @ formatPortCommand ip port @ [CR]) S = Some (Returns S')" "calm (chan S)"
    and "ctlSocket (sess S) \<noteq> None" "toPeer (chan S') = toPeer (chan S) @ sent"
    and "calm (ctl C)" "incoming (c_replyBuffer (cst C)) (ctl C) (sent @ later)"
    and "inet_pton_accepts (inet_pton_of X)" "length tokens = 1"
  shows "\<exists>C'. enterActiveMode Y tokens C = (True, C') \<and>
    toPeer (ctl C') = toPeer (ctl C) @ ''PORT '' @ formatPortCommand ip port @ CRLF \<and>
    incoming (c_replyBuffer (cst C')) (ctl C') later \<and>
    (if authenticated (sess S) \<and> \<not> transferActive (sess S) \<and> port \<noteq> 0 \<and> ip = sin_addr (controlPeerAddr (sess S))
     then c_dataMode (cst C') = ActiveData \<and> c_pendingDataSocket (cst C') = Some (cl_newSocket Y) \<and>
       cclosed C' = cclosed (closeDataState C) \<and> dataChannelMode (sess S') = Active \<and>
       pendingPeerAddr (sess S') = \<lparr>sin_family = AF_INET, sin_port = port, sin_addr = ip\<rparr>
     else c_dataMode (cst C') = NoData \<and> cclosed C' = cclosed (closeDataState C) @ [cl_newSocket Y])"
proof -
  obtain code msg where a: "reply_code code" "LF \<notin> set msg" "toPeer (chan S') = toPeer (chan S) @ reply_text code [msg]"
    "if authenticated (sess S) \<and> \<not> transferActive (sess S) \<and> port \<noteq> 0 \<and> ip = sin_addr (controlPeerAddr (sess S))
     then code = 200 \<and> dataChannelMode (sess S') = Active \<and>
       pendingPeerAddr (sess S') = \<lparr>sin_family = AF_INET, sin_port = port, sin_addr = ip\<rparr>
     else code \<noteq> 200"
    using port_answer [OF assms(3-5,9)] by blast
  have sent: "sent = reply_text code [msg]" using a(3) assms(6) by simp
  define D where "D = (closeDataState C)\<lparr>cnet := w2\<rparr>"
  have "calm (ctl D)" "[msg] \<noteq> []" "\<forall>l \<in> set [msg]. LF \<notin> set l"
    "incoming (c_replyBuffer (cst D)) (ctl D) (reply_text code [msg] @ later)"
    using assms(7,8) a(2) sent by (simp_all add: D_def)
  from exchange [OF this(1) a(1) this(2-), of "''PORT '' @ formatPortCommand ip port"] obtain C1 b c where
    x: "cl_send (''PORT '' @ formatPortCommand ip port) D = (True, C1)"
    "printReply C1 = (Some \<lparr>rcode = code, rline = last (shown code [msg]), rlines = shown code [msg]\<rparr>,
       D\<lparr>cst := (cst D)\<lparr>c_replyBuffer := b\<rparr>, ctl := c, console := console D @ map Cout (shown code [msg])\<rparr>)"
    "toPeer c = toPeer (ctl D) @ (''PORT '' @ formatPortCommand ip port) @ CRLF" "incoming b c later" by metis
  let ?R = "D\<lparr>cst := (cst D)\<lparr>c_replyBuffer := b\<rparr>, ctl := c, console := console D @ map Cout (shown code [msg])\<rparr>"
  have len: "(length tokens < 1 \<or> length tokens > 2) = False" "(length tokens = 2) = False" using assms(10) by simp_all
  have g: "getLocalIPv4ForServer (cl_inet_pton Y) (cl_localIp Y) (dotted (sin_addr (c_serverAddress (cst (closeDataState C)))))
      (cnet (closeDataState C)) = (Some ip, w)" using assms(1) by simp
  have "enterActiveMode Y tokens C = announcePort (cl_newSocket Y) (formatPortCommand ip port) D"
    unfolding enterActiveMode_def len if_False Let_def g prod.case option.case assms(2) D_def by (rule refl)
  also have "\<dots> = (True, if code = 200 then on_cst (\<lambda>s. s\<lparr>c_pendingDataSocket := Some (cl_newSocket Y), c_dataMode := ActiveData\<rparr>) ?R
      else close_socket (cl_newSocket Y) ?R)"
    unfolding announcePort_def x(1) prod.case x(2) option.case by simp
  finally have e: "enterActiveMode Y tokens C = (True, if code = 200
      then on_cst (\<lambda>s. s\<lparr>c_pendingDataSocket := Some (cl_newSocket Y), c_dataMode := ActiveData\<rparr>) ?R
      else close_socket (cl_newSocket Y) ?R)" .
  show ?thesis
  proof (cases "code = 200")
    case True
    then show ?thesis unfolding e using a(4) x(3,4) by (auto simp: D_def split: if_splits)
  next
    case False
    then show ?thesis unfolding e using a(4) x(3,4) by (auto simp: D_def split: if_splits)
  qed
qed

section \<open>Examples\<close>

text \<open>A session that is logged in, and a client after the login.\<close>

definition paired_server :: server where
  "paired_server = on_sess (\<lambda>s. s\<lparr>authenticated := True,
     controlPeerAddr := \<lparr>sin_family = AF_INET, sin_port = 6000, sin_addr = 0x7F000001\<rparr>\<rparr>) sample_server"

definition paired_inputs :: "(bool \<times> string) list" where
  "paired_inputs = [(False, ''noop''), (True, '' ''), (False, ''Type a'')]"

definition paired_pieces :: "string list" where
  "paired_pieces = [''NO'', ''OP'' @ CRLF @ ''T'', ''YPE a'' @ CRLF]"

definition paired_replies :: string where
  "paired_replies = ''250 NOOP OK.'' @ CRLF @ ''250 Type set to A.'' @ CRLF"

lemma paired_served:
  "case serve (\<lambda>_. sample_surroundings) 0 [] paired_pieces paired_server of
     Some (Returns S') \<Rightarrow> ctlSocket (sess S') = Some 7 \<and> transferMode (sess S') = ASCII \<and> toPeer (chan S') = paired_replies
   | _ \<Rightarrow> False"
  by code_simp

lemma paired_lines:
  "list_all forwarded (map snd paired_inputs) \<and> [] \<notin> set paired_pieces \<and>
   concat paired_pieces = concat (map (\<lambda>l. l @ [LF]) (wire_lines (map snd paired_inputs)))"
  by code_simp

lemma paired_start: "holding 7 paired_server" "calm (chan paired_server)" "ctlSocket (sess paired_server) \<noteq> None"
  "transferMode (sess paired_server) = Binary" "toPeer (chan paired_server) = []"
  by (simp_all add: paired_server_def sample_server_def new_session_def holding_def calm_def)

lemma paired_client: "calm (ctl (sample_client ps))" "c_replyBuffer (cst (sample_client ps)) = []"
  "\<not> c_transferActive (cst (sample_client ps))" "c_transferMode (cst (sample_client ps)) = Binary"
  "incoming [] (ctl (sample_client ps)) s \<longleftrightarrow> concat ps = s \<and> [] \<notin> set ps"
  by (simp_all add: sample_client_def new_client_state_def calm_def incoming_def)

theorem sessions_in_step_witness:
  "\<exists>C'. client_loop (\<lambda>_. sample_system) 0 paired_inputs
       (sample_client [''250 NO'', ''OP OK.'' @ CRLF @ ''250 Type'', '' set to A.'' @ CRLF]) = Some (Returns C') \<and>
     toPeer (ctl C') = concat paired_pieces \<and> c_transferMode (cst C') = ASCII"
proof -
  let ?C = "sample_client [''250 NO'', ''OP OK.'' @ CRLF @ ''250 Type'', '' set to A.'' @ CRLF]"
  obtain S' where S': "serve (\<lambda>_. sample_surroundings) 0 [] paired_pieces paired_server = Some (Returns S')"
    "ctlSocket (sess S') = Some 7" "transferMode (sess S') = ASCII" "toPeer (chan S') = paired_replies"
    using paired_served by (auto split: option.splits outcome.splits)
  have env: "\<forall>i. clean ((\<lambda>_. sample_surroundings) (i :: nat))" "\<forall>i. newSocket ((\<lambda>_. sample_surroundings) (i :: nat)) \<noteq> 7"
    using sample_clean by (simp_all add: sample_surroundings_def)
  have "incoming (c_replyBuffer (cst ?C)) (ctl ?C) (paired_replies @ [])"
    unfolding paired_client by (simp add: paired_replies_def)
  from sessions_in_step [OF env paired_start(1,2), of paired_inputs paired_pieces S' ?C paired_replies "[]" "\<lambda>_. sample_system"]
    this paired_lines S' paired_client paired_start(4,5)
  show ?thesis by (auto simp: sample_client_def)
qed

lemma paired_pasv:
  "case handle_line sample_surroundings (''PASV'' @ [CR]) paired_server of
     Some (Returns S') \<Rightarrow> toPeer (chan S') = ''227 Entering Passive Mode (127,0,0,1,15,160).'' @ CRLF | _ \<Rightarrow> False"
  by code_simp

lemma paired_port:
  "case handle_line sample_surroundings (''PORT '' @ formatPortCommand 0x7F000001 5000 @ [CR]) paired_server of
     Some (Returns S') \<Rightarrow> toPeer (chan S') = ''200 PORT command successful.'' @ CRLF | _ \<Rightarrow> False"
  by code_simp

lemma paired_ready:
  "authenticated (sess paired_server) \<and> \<not> transferActive (sess paired_server) \<and>
   fst (openPassiveDataPort (boundPort sample_surroundings) (net paired_server)) \<noteq> None \<and>
   localIp sample_surroundings = 0x7F000001 \<and> sin_addr (controlPeerAddr (sess paired_server)) = 0x7F000001"
  by code_simp

lemma paired_sockets:
  "fst (syscall (cnet (sample_client ps)))"
  "getLocalIPv4ForServer (cl_inet_pton sample_system) (cl_localIp sample_system)
     (dotted (sin_addr (c_serverAddress (cst (sample_client ps))))) (cnet (sample_client ps)) = (Some 0x7F000001, idle_world [])"
  "openActiveListenPort (cl_boundPort sample_system) (idle_world []) = (Some 5000, idle_world [])"
  by (simp_all add: sample_client_def new_client_state_def zero_addr_def sample_system_def syscall_def idle_world_def
      getLocalIPv4ForServer_def openActiveListenPort_def sample_inet_pton_accepts [unfolded inet_pton_accepts_def])

theorem passive_agreed_witness:
  "\<exists>C'. enterPassiveMode sample_system [''pasv''] (sample_client [''227 Entering Passive Mode (127,0,0,1,15,160).'' @ CRLF]) =
       (True, C') \<and> c_dataMode (cst C') = PassiveData \<and> sin_addr (c_passiveAddress (cst C')) = 0x7F000001"
proof -
  let ?r = "''227 Entering Passive Mode (127,0,0,1,15,160).'' @ CRLF"
  obtain S' where S': "handle_line sample_surroundings (''PASV'' @ [CR]) paired_server = Some (Returns S')" "toPeer (chan S') = ?r"
    using paired_pasv by (auto split: option.splits outcome.splits)
  have i: "incoming (c_replyBuffer (cst (sample_client [?r]))) (ctl (sample_client [?r])) (?r @ [])"
    unfolding paired_client by simp
  have t: "toPeer (chan S') = toPeer (chan paired_server) @ ?r" using S'(2) paired_start(5) by simp
  have a: "inet_pton_accepts (cl_inet_pton sample_system)" using sample_inet_pton_accepts by (simp add: sample_system_def)
  from passive_agreed [OF S'(1) paired_start(2,3) t paired_client(1) i a, of "[''pasv'']"] paired_ready paired_sockets(1)
  show ?thesis by auto
qed

theorem active_agreed_witness:
  "\<exists>C' S'. enterActiveMode sample_system [''port''] (sample_client [''200 PORT command successful.'' @ CRLF]) = (True, C') \<and>
     c_dataMode (cst C') = ActiveData \<and> c_pendingDataSocket (cst C') = Some 30 \<and>
     handle_line sample_surroundings (''PORT '' @ formatPortCommand 0x7F000001 5000 @ [CR]) paired_server = Some (Returns S') \<and>
     pendingPeerAddr (sess S') = \<lparr>sin_family = AF_INET, sin_port = 5000, sin_addr = 0x7F000001\<rparr>"
proof -
  let ?r = "''200 PORT command successful.'' @ CRLF"
  obtain S' where S': "handle_line sample_surroundings (''PORT '' @ formatPortCommand 0x7F000001 5000 @ [CR]) paired_server =
      Some (Returns S')" "toPeer (chan S') = ?r"
    using paired_port by (auto split: option.splits outcome.splits)
  have i: "incoming (c_replyBuffer (cst (sample_client [?r]))) (ctl (sample_client [?r])) (?r @ [])"
    unfolding paired_client by simp
  have t: "toPeer (chan S') = toPeer (chan paired_server) @ ?r" using S'(2) paired_start(5) by simp
  have a: "inet_pton_accepts (inet_pton_of sample_surroundings)" using sample_inet_pton_accepts by (simp add: sample_surroundings_def)
  have n: "cl_newSocket sample_system = 30" by (simp add: sample_system_def)
  from active_agreed [OF paired_sockets(2,3) S'(1) paired_start(2,3) t paired_client(1) i a, of "[''port'']"] paired_ready n S'(1)
  show ?thesis by auto
qed

end
