(* ===== verification/Download_Pair.thy ===== *)
theory Download_Pair
  imports Data_Link Session_Pair
begin

text \<open>
  A whole download: the worker of the server (\<^verbatim>\<open>startDownloadTransfer\<close> of its \<^verbatim>\<open>CommandDispatcher.cpp\<close>) and
  the worker of the client (\<^verbatim>\<open>retrieveFile\<close> of its \<^verbatim>\<open>Session.cpp\<close>), from the handshake to the completion
  reply and what the client prints of it.
\<close>

section \<open>The worker of a download\<close>

lemma net_finishTransfer [simp]: "net (finishTransfer ok msg S) = net S"
  by (simp add: finishTransfer_def)

lemma net_seen_abort [simp]: "net (seen_abort b S) = net S"
  by (simp add: seen_abort_def)

lemma run_download_run:
  assumes "run_download X src mode pas t S = Some S'"
  obtains (idle) w b where "exchanged (\<lambda>bs. \<exists>k. bs = seal_control (sv_ready_ack_header k)) (net S) w"
      "S' = finishTransfer False (transferCompleteMessage [] [] []) (seen_abort b (S\<lparr>net := w\<rparr>))"
  | (ran) a tm t' w res t2 w2 F where
      "exchanged (\<lambda>bs. \<exists>k. bs = seal_control (sv_ready_ack_header k)) (net S) w"
      "if pas then heard FLAG_SYN a (inbox (net S)) else a = destAddr t"
      "t' = t\<lparr>ss_abortInstalled := True, destAddr := a, ss_rcvTimeout := tm\<rparr>"
      "sv_sendFile (sha256_of X) True (native src) mode t' w (disk (tree S)) = Some (res, t2, w2, F)"
      "S' = finishTransfer (success res) (transferCompleteMessage (if mode = Binary then sha256 res else []) [] [])
         (seen_abort False (S\<lparr>net := w2, tree := (tree S)\<lparr>disk := F\<rparr>\<rparr>))"
proof -
  let ?P = "\<lambda>bs. \<exists>k. bs = seal_control (sv_ready_ack_header k)"
  let ?t = "sv_sender_setAbortPredicate True t"
  obtain ready t1 w1 where r: "(if \<not> pas then Some (True, ?t, net S) else waitForClientReady ?t (net S)) = Some (ready, t1, w1)"
    using assms by (auto simp: run_download_def Let_def split: option.splits)
  obtain ab w2 where a: "(if ready then isAbortRequested True w1 else (True, w1)) = (ab, w2)" by fastforce
  have shape: "exchanged ?P (net S) w1 \<and> (\<exists>a tm. t1 = t\<lparr>ss_abortInstalled := True, destAddr := a, ss_rcvTimeout := tm\<rparr> \<and>
      (ready \<longrightarrow> (if pas then heard FLAG_SYN a (inbox (net S)) else a = destAddr t)))"
  proof (cases pas)
    case False
    with r show ?thesis
      by (auto simp: exchanged_quiet sv_sender_setAbortPredicate_def intro!: exI [of _ "destAddr t"] exI [of _ "ss_rcvTimeout t"])
  next
    case True
    then have "waitForClientReady ?t (net S) = Some (ready, t1, w1)" using r by simp
    from waitForClientReady_outcome [OF this] True show ?thesis
      by (fastforce simp: sv_sender_setAbortPredicate_def)
  qed
  have e2: "exchanged ?P (net S) w2"
  proof (cases ready)
    case True
    then have "isAbortRequested True w1 = (ab, w2)" using a by simp
    from exchanged_abort [OF this] shape show ?thesis using exchanged_trans by blast
  qed (use shape a in simp)
  show thesis
  proof (cases "ready \<and> \<not> ab")
    case False
    have F: "disk_update (\<lambda>_. disk (tree S)) (tree S) = tree S" by simp
    have "S' = finishTransfer False (transferCompleteMessage [] [] []) (seen_abort (ready \<and> ab) (S\<lparr>net := w2\<rparr>))"
      using assms False unfolding run_download_def Let_def r option.case prod.case a by (simp cong: if_cong)
    with e2 show thesis by (rule idle)
  next
    case True
    obtain res t2 w3 F where f: "sv_sendFile (sha256_of X) True (native src) mode t1 w2 (disk (tree S)) = Some (res, t2, w3, F)"
      using assms True unfolding run_download_def Let_def r option.case prod.case a by (auto split: option.splits)
    have S': "S' = finishTransfer (success res) (transferCompleteMessage (if mode = Binary then sha256 res else []) [] [])
         (seen_abort False (S\<lparr>net := w3, tree := (tree S)\<lparr>disk := F\<rparr>\<rparr>))"
      using assms True f unfolding run_download_def Let_def r option.case prod.case a by simp
    from shape True obtain a tm where "t1 = t\<lparr>ss_abortInstalled := True, destAddr := a, ss_rcvTimeout := tm\<rparr>"
      "if pas then heard FLAG_SYN a (inbox (net S)) else a = destAddr t" by blast
    from ran [OF e2 this(2,1) f S'] show thesis .
  qed
qed

text \<open>What a worker says on the control connection.\<close>

lemma finishTransfer_says:
  assumes "calm (chan S)"
  shows "\<exists>out. toPeer (chan (finishTransfer ok msg S)) = toPeer (chan S) @ out \<and>
    (out = [] \<or> (if ok then out = reply_text 226 [msg] else out = reply_text 426 [''Transfer failed.'']))"
  using assms by (auto simp: finishTransfer_def replyWithCode_calm)

section \<open>The client's worker of a download\<close>

definition same_data :: "client \<Rightarrow> client \<Rightarrow> bool" where
  "same_data C C' \<longleftrightarrow> cdisk C' = cdisk C \<and> outbox (cnet C') = outbox (cnet C) \<and> set (inbox (cnet C')) \<subseteq> set (inbox (cnet C))"

lemma same_data_refl [simp]: "same_data C C"
  by (simp add: same_data_def)

lemma same_data_trans: "same_data C C1 \<Longrightarrow> same_data C1 C2 \<Longrightarrow> same_data C C2"
  by (auto simp: same_data_def)

lemma same_data_print [simp]:
  "same_data C (print_line l C') = same_data C C'" "same_data C (printStoredReply r C') = same_data C C'"
  "same_data C (compare_hashes a b C') = same_data C C'" "same_data C (end_worker k C') = same_data C C'"
  by (simp_all add: same_data_def print_line_def printStoredReply_def compare_hashes_def end_worker_def close_socket_def on_cst_def)

lemma cl_aborted_data: "cl_aborted C = (b, C') \<Longrightarrow> same_data C C'"
  using isAbortRequested_frame [of True "cnet C"]
  by (auto simp: cl_aborted_def same_data_def on_cst_def split: prod.splits)

lemma cl_readReply_data: "cl_readReply C = (r, C') \<Longrightarrow> same_data C C'"
  by (auto simp: cl_readReply_def same_data_def on_cst_def split: prod.splits)

lemma report_download_data: "same_data C (report_download X p mode good why completion C)"
  by (rule report_download_rule) (auto dest: cl_aborted_data intro: same_data_trans)

text \<open>The end of the worker: the completion reply is read, and the outcome \<open>good\<close> of the transfer reported.\<close>

definition reports_download :: "cl_system \<Rightarrow> string \<Rightarrow> TransferMode \<Rightarrow> nat \<Rightarrow> bool \<Rightarrow> client \<Rightarrow> client \<Rightarrow> bool" where
  "reports_download Y p mode k good C C' \<longleftrightarrow>
     (\<exists>D completion C1 why. console D = console C \<and> ctl D = ctl C \<and> c_replyBuffer (cst D) = c_replyBuffer (cst C) \<and>
        cl_readReply D = (completion, C1) \<and> C' = end_worker k (report_download Y p mode good why completion C1))"

lemma run_retrieve_run:
  assumes "run_retrieve Y p dm k pa sa mode C = Some C'"
  obtains (idle) "exchanged (\<lambda>bs. bs = seal_control cl_syn_header) (cnet C) (cnet C')" "cdisk C' = cdisk C"
      "reports_download Y p mode k False C C'"
  | (ran) r0 r w ok reason r' w' F where
      "r0 = cl_expectPeerIp (sin_addr sa) (cl_setAbortPredicate True ((cl_fresh_receiver True)\<lparr>rcvTimeout := DATA_IDLE_TIMEOUT_MS\<rparr>))"
      "exchanged (\<lambda>bs. bs = seal_control cl_syn_header) (cnet C) w"
      "if dm = PassiveData then announced (r0\<lparr>peerAddr := pa, peerKnown := True\<rparr>) (cnet C) r else r = r0"
      "cl_receiveFile (cl_probe Y p) True p mode r w (cdisk C) = Some (ok, reason, r', w', F)"
      "outbox (cnet C') = outbox w'" "cdisk C' = F" "reports_download Y p mode k ok C C'"
proof -
  let ?P = "\<lambda>bs. bs = seal_control cl_syn_header"
  obtain s w1 where s: "cl_RdtReceiver_existing True (cnet C) = (s, w1)" by fastforce
  let ?s = "cl_expectPeerIp (sin_addr sa) (cl_setAbortPredicate True s)"
  obtain ready s2 w2 where r: "(if udpSocketOk ?s \<and> dm = PassiveData then signalClientReady pa ?s w1
      else Some (udpSocketOk ?s, ?s, w1)) = Some (ready, s2, w2)"
    using assms unfolding run_retrieve_def Let_def s prod.case by (auto split: option.splits)
  obtain ab C1 where a: "(if ready then cl_aborted (C\<lparr>cnet := w2\<rparr>) else (True, C\<lparr>cnet := w2\<rparr>)) = (ab, C1)" by fastforce
  obtain good why s3 w3 F where f: "(if ready \<and> \<not> ab then cl_receiveFile (cl_probe Y p) True p mode s2 (cnet C1) (cdisk C1)
      else Some (False, [], s2, cnet C1, cdisk C1)) = Some (good, why, s3, w3, F)"
    using assms unfolding run_retrieve_def Let_def s prod.case r option.case a by (auto split: option.splits)
  let ?C2 = "C1\<lparr>cnet := w3, cdisk := F\<rparr>"
  obtain completion C3 where p: "cl_readReply ?C2 = (completion, C3)" by fastforce
  have C': "C' = end_worker k (report_download Y p mode good why completion C3)"
    using assms unfolding run_retrieve_def Let_def s prod.case r option.case a f p by simp
  have tail: "same_data ?C2 C'"
    unfolding C' same_data_print by (rule same_data_trans [OF cl_readReply_data [OF p] report_download_data])
  have e1: "exchanged ?P (cnet C) w1"
    using s syscall_frame [of "cnet C"] by (auto simp: cl_RdtReceiver_existing_def exchanged_quiet split: prod.splits if_splits)
  have e2: "exchanged ?P (cnet C) w2"
    using r e1 signalClientReady_outcome [of pa ?s w1 ready s2 w2] by (auto split: if_splits intro: exchanged_trans)
  have c1: "cdisk C1 = cdisk C" "exchanged ?P (cnet C) (cnet C1)"
  proof -
    have "same_data (C\<lparr>cnet := w2\<rparr>) C1" using a cl_aborted_data [of "C\<lparr>cnet := w2\<rparr>" ab C1] by (auto split: if_splits)
    then have "cdisk C1 = cdisk C" "exchanged ?P w2 (cnet C1)" by (simp_all add: same_data_def exchanged_quiet)
    with e2 show "cdisk C1 = cdisk C" "exchanged ?P (cnet C) (cnet C1)" by (auto intro: exchanged_trans)
  qed
  have "quiet (C\<lparr>cnet := w2\<rparr>) C1" "console C1 = console C"
    using a cl_aborted_quiet [of "C\<lparr>cnet := w2\<rparr>" ab C1] by (auto simp: cl_aborted_def on_cst_def split: if_splits prod.splits)
  then have rep: "reports_download Y p mode k good C C'"
    unfolding reports_download_def using p C' by (intro exI [of _ ?C2] exI [of _ completion] exI [of _ C3] exI [of _ why])
      (simp add: quiet_def)
  show thesis
  proof (cases "ready \<and> \<not> ab")
    case False
    then have "w3 = cnet C1" "F = cdisk C1" "\<not> good" using f by auto
    with tail have "exchanged ?P (cnet C1) (cnet C')" "cdisk C' = cdisk C1" by (simp_all add: same_data_def exchanged_quiet)
    with c1 rep \<open>\<not> good\<close> show thesis by (intro idle) (auto intro: exchanged_trans)
  next
    case True
    have ok: "udpSocketOk ?s" using True r signalClientReady_outcome [of pa ?s w1 ready s2 w2] by (auto split: if_splits)
    have s0: "s = (cl_fresh_receiver True)\<lparr>rcvTimeout := DATA_IDLE_TIMEOUT_MS\<rparr>"
      using s ok by (auto simp: cl_RdtReceiver_existing_def cl_fresh_receiver_def cl_expectPeerIp_def cl_setAbortPredicate_def
        cl_applyDataTimeout_def split: prod.splits if_splits)
    have peer: "if dm = PassiveData then announced (?s\<lparr>peerAddr := pa, peerKnown := True\<rparr>) (cnet C) s2 else s2 = ?s"
      using r ok True signalClientReady_outcome [of pa ?s w1 ready s2 w2] e1 announced_later by (auto split: if_splits)
    show thesis
      by (rule ran [OF _ c1(2) peer, of good why s3 w3 F]) (use s0 True f c1 tail rep in \<open>simp_all add: same_data_def\<close>)
  qed
qed


text \<open>What the server's worker does in a download, for whoever it talks to.\<close>

lemma run_download_sends:
  assumes "run_download X src mode pas t S = Some S'" "t = sv_sender_init True a tt" "\<not> pas \<longrightarrow> a = client"
    and "files (disk (tree S)) (native src) = Some bs" "fits (wire_content mode bs)"
    and "pas \<longrightarrow> learned FLAG_SYN client (inbox (net S))"
  shows "\<forall>p \<in> set (sent_between (net S) (net S')). carries_stream (file_stream (wire_content mode bs)) (fst p)"
    and "calm (chan S) \<Longrightarrow> \<exists>out. toPeer (chan S') = toPeer (chan S) @ out \<and>
      (out = [] \<or> out = reply_text 426 [''Transfer failed.''] \<or>
       out = reply_text 226 [transferCompleteMessage (if mode = Binary then sha256_of X bs else []) [] []] \<and>
       (\<forall>A. acks_honest A client (inbox (net S)) \<longrightarrow>
          (\<forall>j. file_stream (wire_content mode bs) j \<noteq> None \<longrightarrow> A (of_nat j))))"
proof -
  let ?f = "file_stream (wire_content mode bs)" and ?P = "\<lambda>bs. \<exists>k. bs = seal_control (sv_ready_ack_header k)"
  have both: "(\<forall>p \<in> set (sent_between (net S) (net S')). carries_stream ?f (fst p)) \<and>
    (calm (chan S) \<longrightarrow> (\<exists>out. toPeer (chan S') = toPeer (chan S) @ out \<and>
      (out = [] \<or> out = reply_text 426 [''Transfer failed.''] \<or>
       out = reply_text 226 [transferCompleteMessage (if mode = Binary then sha256_of X bs else []) [] []] \<and>
       (\<forall>A. acks_honest A client (inbox (net S)) \<longrightarrow> (\<forall>j. ?f j \<noteq> None \<longrightarrow> A (of_nat j))))))"
    using assms(1)
  proof (cases rule: run_download_run)
    case (idle w b)
    have "exchanged (carries_stream ?f) (net S) w" by (rule exchanged_weaken [OF idle(1)]) (auto simp: handshake_carries)
    with idle(2) have "\<forall>p \<in> set (sent_between (net S) (net S')). carries_stream ?f (fst p)"
      by (simp add: exchanged_sent)
    moreover have "calm (chan S) \<longrightarrow> (\<exists>out. toPeer (chan S') = toPeer (chan S) @ out \<and>
        (out = [] \<or> out = reply_text 426 [''Transfer failed.'']))"
      using finishTransfer_says [of "seen_abort b (S\<lparr>net := w\<rparr>)" False] idle(2) by (simp add: seen_abort_def)
    ultimately show ?thesis by blast
  next
    case (ran a' tm t' w res t2 w2 F)
    have a': "a' = client"
      using ran(2) assms(2,3,6) by (auto simp: learned_def sv_sender_init_def Let_def split: if_splits)
    have inv: "sender_inv ?f t'"
      using ran(3) assms(2) sv_sender_init_inv [of ?f True a tt] by (simp add: sender_inv_def)
    have dest: "destAddr t' = client" using ran(3) a' by simp
    note snd = sv_snd.send_file_outcome [OF ran(4) [unfolded sv_sendFile_def] assms(4,5) inv, unfolded sv_snd.frame_def dest]
    have e: "exchanged (carries_stream ?f) (net S) w" by (rule exchanged_weaken [OF ran(1)]) (auto simp: handshake_carries)
    have "exchanged (carries_stream ?f) w w2" using snd unfolding exchanged_def sends_stream_def by blast
    with e ran(5) have c: "\<forall>p \<in> set (sent_between (net S) (net S')). carries_stream ?f (fst p)"
      by (simp add: exchanged_sent [OF exchanged_trans])
    have acks: "acks_honest A client (inbox w)" if "acks_honest A client (inbox (net S))" for A
      using that e by (auto simp: exchanged_def elim: acks_honest_inbox)
    have hash: "(if mode = Binary then sha256 res else []) = (if mode = Binary then sha256_of X bs else [])" if "success res"
      using snd that by simp
    let ?msg = "transferCompleteMessage (if mode = Binary then sha256 res else []) [] []"
    have acked: "\<forall>A. acks_honest A client (inbox (net S)) \<longrightarrow> (\<forall>j. ?f j \<noteq> None \<longrightarrow> A (of_nat j))" if "success res"
      using snd acks that by blast
    have says: "\<exists>out. toPeer (chan S') = toPeer (chan S) @ out \<and>
        (out = [] \<or> (if success res then out = reply_text 226 [?msg] else out = reply_text 426 [''Transfer failed.'']))"
      if "calm (chan S)"
      using finishTransfer_says [of "seen_abort False (S\<lparr>net := w2, tree := (tree S)\<lparr>disk := F\<rparr>\<rparr>)" "success res" ?msg] ran(5) that
      by (simp add: seen_abort_def)
    show ?thesis
    proof (cases "success res")
      case True
      with says hash acked c show ?thesis by fastforce
    next
      case False
      with says c show ?thesis by fastforce
    qed
  qed
  then show "\<forall>p \<in> set (sent_between (net S) (net S')). carries_stream ?f (fst p)" by blast
  show "calm (chan S) \<Longrightarrow> \<exists>out. toPeer (chan S') = toPeer (chan S) @ out \<and>
      (out = [] \<or> out = reply_text 426 [''Transfer failed.''] \<or>
       out = reply_text 226 [transferCompleteMessage (if mode = Binary then sha256_of X bs else []) [] []] \<and>
       (\<forall>A. acks_honest A client (inbox (net S)) \<longrightarrow> (\<forall>j. ?f j \<noteq> None \<longrightarrow> A (of_nat j))))"
    using both by blast
qed

text \<open>What the client's worker does in a download, for a server that sends the stream of a content.\<close>

lemma run_retrieve_stores:
  assumes "run_retrieve Y p dm k pa sa mode C = Some C'" "dm = PassiveData \<longrightarrow> pa = server"
    and "resolveDestination (cl_probe Y p) p = Inr dest" "fresh_names (cdisk C) dest" "fits wire"
    and "network_delivers sent server (inbox (cnet C))" "\<forall>p \<in> set sent. carries_stream (file_stream wire) (fst p)"
    and "dm \<noteq> PassiveData \<longrightarrow> learned FLAG_DATA server (inbox (cnet C))"
    and "last_chunk (file_stream wire) n"
  shows "(files (cdisk C') dest = files (cdisk C) dest \<or> files (cdisk C') dest = Some (wire_content mode wire)) \<and>
    (\<forall>p \<in> set (sent_between (cnet C) (cnet C')). fst p = seal_control cl_syn_header \<or> (\<exists>s. fst p = cl_ack s \<or> fst p = cl_nak s)) \<and>
    (cl_ack n \<in> fst ` set (sent_between (cnet C) (cnet C')) \<longrightarrow> files (cdisk C') dest = Some (wire_content mode wire)) \<and>
    (\<exists>good. reports_download Y p mode k good C C' \<and> (good \<longrightarrow> files (cdisk C') dest = Some (wire_content mode wire)))"
  using assms(1)
proof (cases rule: run_retrieve_run)
  case idle
  have "cl_ack n \<noteq> seal_control cl_syn_header"
  proof
    assume "cl_ack n = seal_control cl_syn_header"
    from arg_cong [OF this, of decodeValidatedDatagram] show False
      by (simp add: decode_seal_control cl_response_header_def cl_syn_header_def zero_header_def flag_defs)
  qed
  then have "cl_ack n \<notin> fst ` set (sent_between (cnet C) (cnet C'))" using exchanged_sent [OF idle(1)] by auto
  moreover have "\<exists>good. reports_download Y p mode k good C C' \<and> (good \<longrightarrow> files (cdisk C') dest = Some (wire_content mode wire))"
    using idle(3) by blast
  ultimately show ?thesis using exchanged_sent [OF idle(1)] idle(2) by simp
next
  case (ran r0 r w ok reason r' w' F)
  note r0 = ran(1)
  have ready: "outOfOrderBuffer r0 = Map.empty" "pendingDatagram r0 = []" "expected_seq r0 = 0" "\<not> finalAcknowledgementPending r0"
    by (simp_all add: r0 cl_expectPeerIp_def cl_setAbortPredicate_def cl_applyDataTimeout_def cl_fresh_receiver_def)
  have sub: "set (inbox w) \<subseteq> set (inbox (cnet C))" using ran(2) by (simp add: exchanged_def)
  have st: "stream_inv (file_stream wire) r (inbox w)"
  proof (cases "dm = PassiveData")
    case True
    then have "announced (r0\<lparr>peerAddr := server, peerKnown := True\<rparr>) (cnet C) r" using ran(3) assms(2) by simp
    from announced_stream [OF assms(6,7) this _ _ _ _ sub] ready show ?thesis by simp
  next
    case False
    with learned_stream [OF assms(6,7) _ ready(1,2) sub] ran(3) assms(8) show ?thesis by simp
  qed
  have rr: "expected_seq r = 0" "outOfOrderBuffer r = Map.empty" "\<not> finalAcknowledgementPending r"
    using ran(3) ready by (auto simp: announced_def split: if_splits)
  obtain new where new: "outbox w' = outbox w @ new" "\<forall>p \<in> set new. \<exists>s. fst p = cl_ack s \<or> fst p = cl_nak s"
    "ok \<or> cl_ack n \<in> fst ` set new \<longrightarrow> files F dest = Some (wire_content mode wire)"
    using cl_receiveFile_outcome [OF ran(4) assms(3,4) st assms(5) rr assms(9)] by blast
  obtain syn where syn: "outbox w = outbox (cnet C) @ syn" "\<forall>p \<in> set syn. fst p = seal_control cl_syn_header"
    using ran(2) by (auto simp: exchanged_def)
  have sb: "sent_between (cnet C) (cnet C') = syn @ new" using ran(5) new(1) syn(1) by (simp add: sent_between_def)
  have "cl_ack n \<notin> fst ` set syn"
  proof
    assume "cl_ack n \<in> fst ` set syn"
    then have "cl_ack n = seal_control cl_syn_header" using syn(2) by auto
    from arg_cong [OF this, of decodeValidatedDatagram] show False
      by (simp add: decode_seal_control cl_response_header_def cl_syn_header_def zero_header_def flag_defs)
  qed
  with new syn(2) sb ran(6,7) cl_receiveFile_whole [OF ran(4) assms(3,4) st assms(5) rr(1)] show ?thesis by auto
qed

text \<open>
  C1: RETR, end to end, from the worker of the server to the worker of the client, in both data modes. The two
  are connected by a network that loses, repeats, reorders and damages datagrams as it likes, and the datagrams
  from which one side learns the address of the other come from that other. Whatever happens, the client's
  destination holds what it held before or exactly the file of the server (with line ends translated in ASCII
  mode); and if the server reports completion, it is the file, and the reply carries its digest.
\<close>

theorem retrieve_end_to_end:
  assumes "run_download X src mode pas t S = Some S'" "t = sv_sender_init True a tt" "\<not> pas \<longrightarrow> a = client" "calm (chan S)"
    and "files (disk (tree S)) (native src) = Some bs" "fits (wire_content mode bs)"
    and "run_retrieve Y p (if pas then PassiveData else ActiveData) k pa sa mode C = Some C'" "pas \<longrightarrow> pa = server"
    and "resolveDestination (cl_probe Y p) p = Inr dest" "fresh_names (cdisk C) dest"
    and "network_delivers (sent_between (net S) (net S')) server (inbox (cnet C))"
    and "network_delivers (sent_between (cnet C) (cnet C')) client (inbox (net S))"
    and "if pas then learned FLAG_SYN client (inbox (net S)) else learned FLAG_DATA server (inbox (cnet C))"
  shows "(files (cdisk C') dest = files (cdisk C) dest \<or> files (cdisk C') dest = Some (wire_content mode bs)) \<and>
    (\<exists>out. toPeer (chan S') = toPeer (chan S) @ out \<and>
      (out = [] \<or> out = reply_text 426 [''Transfer failed.''] \<or>
       out = reply_text 226 [transferCompleteMessage (if mode = Binary then sha256_of X bs else []) [] []] \<and>
       files (cdisk C') dest = Some (wire_content mode bs)))"
proof -
  let ?wire = "wire_content mode bs" and ?n = "of_nat (chunk_count (wire_content mode bs) - 1) :: u32"
  let ?sent = "sent_between (cnet C) (cnet C')"
  have syn: "pas \<longrightarrow> learned FLAG_SYN client (inbox (net S))" using assms(13) by simp
  note dl = run_download_sends [OF assms(1-3,5,6) syn]
  have rt: "(files (cdisk C') dest = files (cdisk C) dest \<or> files (cdisk C') dest = Some ?wire) \<and>
    (\<forall>p \<in> set ?sent. fst p = seal_control cl_syn_header \<or> (\<exists>s. fst p = cl_ack s \<or> fst p = cl_nak s)) \<and>
    (cl_ack ?n \<in> fst ` set ?sent \<longrightarrow> files (cdisk C') dest = Some ?wire)"
    using run_retrieve_stores [OF assms(7) _ assms(9,10,6,11) dl(1) _ file_stream_last_exists(1) [OF assms(6)]] assms(8,13)
    by (simp add: wire_content_idem split: if_splits)
  have "acks_honest (\<lambda>n. cl_ack n \<in> fst ` set ?sent) client (inbox (net S))"
  proof -
    have "cl_ack (ack_num h) \<in> fst ` set ?sent"
      if "Received d client \<in> set (inbox (net S))" "decodeValidatedDatagram d = Some h" "has_flag h FLAG_ACK" for d h
    proof -
      have d: "d \<in> fst ` set ?sent" using assms(12) that(1,2) by (auto simp: network_delivers_def)
      moreover from d have "d = cl_ack (ack_num h)" using rt by (intro cl_ack_decode [OF that(2,3)]) auto
      ultimately show ?thesis by simp
    qed
    then show ?thesis by (auto simp: acks_honest_def)
  qed
  with dl(2) [OF assms(4)] rt file_stream_last_exists(2) [OF assms(6)] show ?thesis by blast
qed


section \<open>No false alarm\<close>

definition alarm :: "console_line \<Rightarrow> bool" where
  "alarm l = (case l of Cerr m \<Rightarrow> has_prefix ''WARNING: hash mismatch!'' m | Cout m \<Rightarrow> False)"

definition new_lines :: "client \<Rightarrow> client \<Rightarrow> console_line list" where
  "new_lines C C' = drop (length (console C)) (console C')"

text \<open>The client prints more, and no alarm.\<close>

definition calmly :: "client \<Rightarrow> client \<Rightarrow> bool" where
  "calmly C C' \<longleftrightarrow> (\<exists>ls. console C' = console C @ ls \<and> (\<forall>l \<in> set ls. \<not> alarm l))"

lemma calmly_refl [simp]: "calmly C C"
  by (simp add: calmly_def)

lemma calmly_trans: "calmly C C1 \<Longrightarrow> calmly C1 C2 \<Longrightarrow> calmly C C2"
  by (fastforce simp: calmly_def)

lemma calmly_same: "console C' = console C \<Longrightarrow> calmly C C'"
  by (simp add: calmly_def)

lemma calmly_print: "\<not> alarm l \<Longrightarrow> calmly C (print_line l C)"
  by (simp add: calmly_def print_line_def)

lemma calmly_stored: "calmly C (printStoredReply r C)"
  by (auto simp: calmly_def printStoredReply_def alarm_def)

lemma calmly_hashes: "a = b \<Longrightarrow> calmly C (compare_hashes a b C)"
  unfolding compare_hashes_def by (rule calmly_print) (simp add: alarm_def)

lemma calmly_lines: "calmly C C' \<Longrightarrow> l \<in> set (new_lines C C') \<Longrightarrow> \<not> alarm l"
  by (auto simp: calmly_def new_lines_def)

lemma cl_aborted_console: "cl_aborted C = (b, C') \<Longrightarrow> console C' = console C"
  by (auto simp: cl_aborted_def on_cst_def split: prod.splits)

lemma cl_readReply_console: "cl_readReply C = (r, C') \<Longrightarrow> console C' = console C"
  by (auto simp: cl_readReply_def on_cst_def split: prod.splits)

lemma end_worker_console: "console (end_worker k C) = console C"
  by (simp add: end_worker_def close_socket_def on_cst_def)

text \<open>What the client makes of the completion reply of the server.\<close>

lemma incoming_nothing:
  assumes "incoming buf c []"
  shows "\<exists>r b c'. readReply buf c = (False, r, b, c')"
proof -
  have e: "buf = []" "fromPeer c = []" using assms by (cases "fromPeer c"; auto simp: incoming_def)+
  have "read_reply [] False no_reply c = (False, no_reply, [], c)"
    using e(2) by (subst read_reply.simps) (simp add: cut_line_def tcp_recv_def)
  with e(1) show ?thesis by (simp add: readReply_def)
qed

lemma reading_nothing:
  assumes "cl_readReply C = (completion, C1)" "incoming (c_replyBuffer (cst C)) (ctl C) []"
  shows "completion = None"
  using assms(1) incoming_nothing [OF assms(2)] by (auto simp: cl_readReply_def)

lemma reading_reply:
  assumes "cl_readReply C = (completion, C1)" "incoming (c_replyBuffer (cst C)) (ctl C) (reply_text code [msg])"
    "reply_code code" "LF \<notin> set msg"
  shows "\<exists>ls. completion = Some \<lparr>rcode = code, rline = last (shown code [msg]), rlines = ls\<rparr>"
proof -
  have "incoming (c_replyBuffer (cst C)) (ctl C) (reply_text code [msg] @ [])" using assms(2) by simp
  from read_reply_text [OF assms(3) _ _ _ this, of no_reply False] assms(4)
  obtain b c where "readReply (c_replyBuffer (cst C)) (ctl C) =
      (True, \<lparr>rcode = code, rline = last (shown code [msg]), rlines = shown code [msg]\<rparr>, b, c)"
    by (auto simp: readReply_def no_reply_def simp del: reply_text.simps)
  with assms(1) show ?thesis by (auto simp: cl_readReply_def)
qed

lemma transferCompleteMessage_line:
  "LF \<notin> set name \<Longrightarrow> LF \<notin> set h \<Longrightarrow> LF \<notin> set g \<Longrightarrow> LF \<notin> set (transferCompleteMessage h name g)"
  by (auto simp: transferCompleteMessage_def)


lemma calmly_same_trans: "calmly C C1 \<Longrightarrow> console C2 = console C1 \<Longrightarrow> calmly C C2"
  by (simp add: calmly_def)

lemma report_download_calm:
  assumes "\<And>r h. completion = Some r \<Longrightarrow> rcode r = 226 \<Longrightarrow> good \<Longrightarrow> mode = Binary \<Longrightarrow>
       extractHashField (rline r) ''SHA256'' = Some h \<Longrightarrow> cl_hash_file X p C = h"
  shows "calmly C (report_download X p mode good why completion C)"
proof -
  have "calmly C (report_download X p mode good why completion C) \<and> cdisk (report_download X p mode good why completion C) = cdisk C"
  proof (rule report_download_rule [where Q = "\<lambda>D. calmly C D \<and> cdisk D = cdisk C"], goal_cases)
    case (2 D b D')
    then show ?case using cl_aborted_console [OF 2(1)] cl_aborted_data [OF 2(1)] by (simp add: calmly_def same_data_def)
  next
    case (3 D s)
    have "calmly D (print_line (Cerr (''Download failed for '' @ s)) D)" by (rule calmly_print) (simp add: alarm_def has_prefix_def)
    with 3 show ?case using calmly_trans by (auto simp: print_line_def)
  next
    case (4 D r)
    then show ?case using calmly_trans [OF _ calmly_stored] by (simp add: printStoredReply_def)
  next
    case (5 D r h)
    then have "cl_hash_file X p D = h" using assms [OF 5(1-5)] by (simp add: cl_hash_file_def)
    with 5 show ?case using calmly_trans [OF _ calmly_hashes] by (simp add: compare_hashes_def print_line_def)
  qed simp
  then show ?thesis ..
qed

text \<open>The digest in a completion reply.\<close>

lemma no_digest: "extractHashField (last (shown 426 [''Transfer failed.''])) ''SHA256'' = None"
  by code_simp

text \<open>The completion reply as the client reads it: none, one without a digest, or one with this digest.\<close>

definition is_digest :: "string \<Rightarrow> bool" where
  "is_digest h \<longleftrightarrow> length h = 64 \<and> list_all is_xdigit h"

lemma is_digest_line: "is_digest h \<Longrightarrow> LF \<notin> set h"
  by (auto simp: is_digest_def list_all_iff is_xdigit_def is_digit_def LF_def)

lemma completion_digest:
  assumes "cl_readReply D = (completion, C1)" "incoming (c_replyBuffer (cst D)) (ctl D) out"
    and "out = [] \<or> out = reply_text 426 [''Transfer failed.''] \<or> out = reply_text 226 [transferCompleteMessage hash name g]"
    and "is_digest hash" "g = [] \<or> is_digest g" "list_all (\<lambda>c. \<not> is_space c) name"
    and "completion = Some r" "extractHashField (rline r) ''SHA256'' = Some h"
  shows "h = hash \<and> out = reply_text 226 [transferCompleteMessage hash name g]"
proof -
  have ne: "out \<noteq> []" using reading_nothing [OF assms(1)] assms(2,7) by auto
  have name: "LF \<notin> set name" using assms(6) by (auto simp: list_all_iff is_space_def LF_def)
  have m: "LF \<notin> set (transferCompleteMessage hash name g)"
    using transferCompleteMessage_line [OF name is_digest_line [OF assms(4)]] assms(5) is_digest_line by fastforce
  have codes: "reply_code 426" "reply_code 226" by (simp_all add: reply_code_def)
  have "out \<noteq> reply_text 426 [''Transfer failed.'']"
  proof
    assume "out = reply_text 426 [''Transfer failed.'']"
    then have "\<exists>ls. completion = Some \<lparr>rcode = 426, rline = last (shown 426 [''Transfer failed.'']), rlines = ls\<rparr>"
      using reading_reply [OF assms(1) _ codes(1), of "''Transfer failed.''"] assms(2) by (simp add: LF_def del: reply_text.simps)
    with assms(7,8) no_digest show False by auto
  qed
  with ne assms(3) have out: "out = reply_text 226 [transferCompleteMessage hash name g]" by blast
  then obtain ls where "completion = Some \<lparr>rcode = 226, rline = last (shown 226 [transferCompleteMessage hash name g]), rlines = ls\<rparr>"
    using reading_reply [OF assms(1) _ codes(2) m] assms(2) by blast
  with assms(4-8) transfer_report_roundtrip [of hash g name] out show ?thesis by (auto simp: is_digest_def)
qed


section \<open>Instances\<close>

definition sample_digest :: string where
  "sample_digest = replicate 64 (CHR ''a'')"

lemma sample_is_digest: "is_digest sample_digest" "sample_digest \<noteq> []"
  by (simp_all add: is_digest_def sample_digest_def is_xdigit_def list_all_iff)

definition hashing_server :: surroundings where
  "hashing_server = sample_surroundings\<lparr>sha256_of := (\<lambda>bs. sample_digest)\<rparr>"

definition hashing_client :: cl_system where
  "hashing_client = sample_system\<lparr>cl_hash := (\<lambda>bs. sample_digest)\<rparr>"

text \<open>A download in active mode of a file of one byte.\<close>

definition sample_source :: fspath where "sample_source = sample_path ''log''"

definition source_server :: server where
  "source_server = sample_server\<lparr>tree := sample_store [65], net := idle_world sv_sample_events,
     sess := (sess sample_server)\<lparr>transferWorker := Some (Download sample_source Binary False (sv_sender_init True sample_peer 500))\<rparr>\<rparr>"

definition sample_done :: string where
  "sample_done = reply_text 226 [transferCompleteMessage sample_digest [] []]"

definition fetching_client :: client where
  "fetching_client = (sample_client [sample_done])\<lparr>cdisk := sample_disk, cnet := sample_arrival 4,
     cst := (cst (sample_client [sample_done]))\<lparr>c_transferWorker := Some (Retrieving ''d'' ActiveData 30 zero_addr sample_peer Binary)\<rparr>\<rparr>"

lemma source_download:
  obtains S' where "run_download hashing_server sample_source Binary False (sv_sender_init True sample_peer 500) source_server = Some S'"
    "sent_between (net source_server) (net S') = [(data_bytes 0 True 4 [65], sample_peer)]" "toPeer (chan S') = sample_done"
proof -
  have F: "fsOk (disk (sample_store [65])) = []" "tmpNames (disk (sample_store [65])) = native (sample_path ''hfa'') # []"
    "files (disk (sample_store [65])) (native sample_source) = Some [65]"
    by (simp_all add: sample_store_def sample_source_def)
  obtain s' w' F' where sd: "sv_sendFile (\<lambda>bs. sample_digest) True (native sample_source) Binary sv_sample_sender
      (idle_world sv_sample_events) (disk (sample_store [65])) = Some (\<lparr>success = True, sha256 = sample_digest\<rparr>, s', w', F')"
    "outbox w' = [(data_bytes 0 True 4 [65], sample_peer)]"
    using sv_sample_sends [OF F, of "\<lambda>bs. sample_digest" True] sample_is_digest(2) by blast
  have t: "sv_sender_setAbortPredicate True (sv_sender_init True sample_peer 500) = sv_sample_sender"
    by (simp add: sv_sender_setAbortPredicate_def sv_sample_sender_def)
  let ?S = "source_server\<lparr>net := w', tree := (sample_store [65])\<lparr>disk := F'\<rparr>\<rparr>"
  have run: "run_download hashing_server sample_source Binary False (sv_sender_init True sample_peer 500) source_server =
      Some (finishTransfer True (transferCompleteMessage sample_digest [] []) (seen_abort False ?S))"
    using sd(1) by (simp add: run_download_def t Let_def isAbortRequested_none source_server_def hashing_server_def idle_world_def)
  show thesis
  proof (rule that [OF run])
    show "sent_between (net source_server) (net (finishTransfer True (transferCompleteMessage sample_digest [] [])
        (seen_abort False ?S))) = [(data_bytes 0 True 4 [65], sample_peer)]"
      by (simp add: sent_between_def sd(2) source_server_def idle_world_def)
    show "toPeer (chan (finishTransfer True (transferCompleteMessage sample_digest [] []) (seen_abort False ?S))) = sample_done"
      using sample_server_calm(1) by (simp add: finishTransfer_def seen_abort_def source_server_def sample_server_def new_session_def
        replyWithCode_calm calm_def sample_done_def del: reply_text.simps)
  qed
qed

lemma fetching_retrieve:
  obtains C' where "run_retrieve hashing_client ''d'' ActiveData 30 zero_addr sample_peer Binary fetching_client = Some C'"
    "sent_between (cnet fetching_client) (cnet C') = [(cl_ack 0, sample_peer)]"
proof -
  let ?r = "cl_expectPeerIp (sin_addr sample_peer) (cl_setAbortPredicate True ((cl_fresh_receiver True)\<lparr>rcvTimeout := DATA_IDLE_TIMEOUT_MS\<rparr>))"
  let ?os = "cl_probe hashing_client ''d''"
  have r: "cl_at_start ?r" "udpSocketOk ?r"
    by (simp_all add: cl_at_start_def cl_expectPeerIp_def cl_setAbortPredicate_def cl_applyDataTimeout_def cl_fresh_receiver_def)
  have os: "resolveDestination ?os ''d'' = Inr ''d''" by (simp add: resolveDestination_def hashing_client_def sample_system_def)
  have w: "cnet fetching_client = sample_arrival 4" "cdisk fetching_client = sample_disk" by (simp_all add: fetching_client_def)
  obtain r' w' F' where rv: "cl_receiveFile ?os True ''d'' Binary ?r (sample_arrival 4) sample_disk = Some (True, [], r', w', F')"
    "outbox w' = [(cl_ack 0, sample_peer)]"
    using cl_sample_receives [OF r(1) _ _ _ _ os, of "sample_arrival 4" 4 "[]" sample_disk "''t''" "[''u'']" True]
    by (auto simp: sample_arrival_def idle_world_def)
  obtain C1 where a: "cl_aborted (fetching_client\<lparr>cnet := sample_arrival 4\<rparr>) = (False, C1)" "cnet C1 = sample_arrival 4" "cdisk C1 = sample_disk"
    by (simp add: cl_aborted_def isAbortRequested_none sample_arrival_def idle_world_def on_cst_def w)
  let ?D = "C1\<lparr>cnet := w', cdisk := F'\<rparr>"
  obtain completion C2 where p: "cl_readReply ?D = (completion, C2)" by fastforce
  have s: "cl_RdtReceiver_existing True (sample_arrival 4) = ((cl_fresh_receiver True)\<lparr>rcvTimeout := DATA_IDLE_TIMEOUT_MS\<rparr>, sample_arrival 4)"
    by (simp add: cl_RdtReceiver_existing_def syscall_def sample_arrival_def idle_world_def)
  let ?C' = "end_worker 30 (report_download hashing_client ''d'' Binary True [] completion C2)"
  have run: "run_retrieve hashing_client ''d'' ActiveData 30 zero_addr sample_peer Binary fetching_client = Some ?C'"
    unfolding run_retrieve_def w s Let_def prod.case using r(2) a rv(1) p by simp
  have "same_data ?D ?C'"
    unfolding same_data_print by (rule same_data_trans [OF cl_readReply_data [OF p] report_download_data])
  then have "sent_between (cnet fetching_client) (cnet ?C') = [(cl_ack 0, sample_peer)]"
    using rv(2) by (simp add: same_data_def sent_between_def w sample_arrival_def idle_world_def)
  with run show thesis by (rule that)
qed


lemma sample_download_net:
  assumes "sent_between (net source_server) (net S') = [(data_bytes 0 True 4 [65], sample_peer)]"
    "sent_between (cnet fetching_client) (cnet C') = [(cl_ack 0, sample_peer)]"
  shows "network_delivers (sent_between (net source_server) (net S')) sample_peer (inbox (cnet fetching_client))"
    "network_delivers (sent_between (cnet fetching_client) (cnet C')) sample_peer (inbox (net source_server))"
    "learned FLAG_DATA sample_peer (inbox (cnet fetching_client))"
proof -
  have "data_bytes 0 True 4 [65] = sample_packet 4" by (simp add: data_bytes_def sample_packet_def)
  moreover have "sv_sample_ack = cl_ack 0" by (simp add: sv_sample_ack_def cl_response_header_def)
  ultimately show "network_delivers (sent_between (net source_server) (net S')) sample_peer (inbox (cnet fetching_client))"
    "network_delivers (sent_between (cnet fetching_client) (cnet C')) sample_peer (inbox (net source_server))"
    using assms by (simp_all add: network_delivers_def source_server_def fetching_client_def sample_arrival_def idle_world_def)
  show "learned FLAG_DATA sample_peer (inbox (cnet fetching_client))"
    by (auto simp: learned_def heard_def fetching_client_def sample_arrival_def idle_world_def)
qed

lemma sample_download_setting:
  "calm (chan source_server)" "files (disk (tree source_server)) (native sample_source) = Some [65]"
  "resolveDestination (cl_probe hashing_client ''d'') ''d'' = Inr ''d''" "fresh_names (cdisk fetching_client) ''d''"
  using sample_server_calm(1) sample_writing(1)
  by (simp_all add: source_server_def sample_store_def sample_source_def resolveDestination_def hashing_client_def sample_system_def
      fetching_client_def)

theorem retrieve_end_to_end_witness:
  "\<exists>S' C'. run_download hashing_server sample_source Binary False (sv_sender_init True sample_peer 500) source_server = Some S' \<and>
     run_retrieve hashing_client ''d'' ActiveData 30 zero_addr sample_peer Binary fetching_client = Some C' \<and>
     toPeer (chan S') = sample_done \<and> files (cdisk C') ''d'' = Some [65]"
proof -
  obtain S' where S: "run_download hashing_server sample_source Binary False (sv_sender_init True sample_peer 500) source_server = Some S'"
    "sent_between (net source_server) (net S') = [(data_bytes 0 True 4 [65], sample_peer)]" "toPeer (chan S') = sample_done"
    by (rule source_download)
  obtain C' where C: "run_retrieve hashing_client ''d'' ActiveData 30 zero_addr sample_peer Binary fetching_client = Some C'"
    "sent_between (cnet fetching_client) (cnet C') = [(cl_ack 0, sample_peer)]" by (rule fetching_retrieve)
  note nets = sample_download_net [OF S(2) C(2)]
  have fits: "fits (wire_content Binary [65])" by (simp add: wire_content_def sample_writing(3))
  have out: "toPeer (chan S') = toPeer (chan source_server) @ sample_done"
    by (simp add: S(3) source_server_def sample_server_def)
  have d: "sample_done \<noteq> []" "sample_done \<noteq> reply_text 426 [''Transfer failed.'']" by code_simp+
  have "files (cdisk C') ''d'' = Some (wire_content Binary [65])"
    using retrieve_end_to_end [OF S(1) refl _ sample_download_setting(1,2) fits, of sample_peer hashing_client "''d''" 30 zero_addr
      sample_peer fetching_client C' sample_peer "''d''"] C(1) sample_download_setting(3,4) nets out d
    by (auto simp del: reply_text.simps)
  with S C show ?thesis by (auto simp: wire_content_def)
qed


end
