(* ===== verification/Upload_Pair.thy ===== *)
theory Upload_Pair
  imports Download_Pair Disk_Frame
begin

text \<open>
  A whole upload (STOR, STOU and APPE): the worker of the client (\<^verbatim>\<open>storeFile\<close> of its \<^verbatim>\<open>Session.cpp\<close>) and
  the worker of the server (\<^verbatim>\<open>startUploadTransfer\<close> of its \<^verbatim>\<open>CommandDispatcher.cpp\<close>).
\<close>

section \<open>The worker of an upload\<close>

definition receive_path :: "fspath \<Rightarrow> path option \<Rightarrow> path" where
  "receive_path dst staging = (case staging of Some q \<Rightarrow> q | None \<Rightarrow> native dst)"

lemma run_upload_run:
  assumes "run_upload X dst staging mode pas peer kind name t S = Some S'" "kind = Append \<longleftrightarrow> staging \<noteq> None"
  obtains (idle) w b where "exchanged (\<lambda>bs. bs = seal_control sv_syn_header) (net S) w"
      "S' = on_sess (pendingUniqueFilename_update (\<lambda>_. [])) (finishTransfer False (transferCompleteMessage [] name [])
         (remove_if (kind = Unique) (native dst) (remove_opt staging (seen_abort b (S\<lparr>net := w\<rparr>)))))"
  | (ran) r w ok r' w2 F w3 b h g st ok2 S4 where
      "exchanged (\<lambda>bs. bs = seal_control sv_syn_header) (net S) w"
      "if pas then r = sv_setAbortPredicate True t
       else announced ((sv_setAbortPredicate True t)\<lparr>peerAddr := peer, peerKnown := True\<rparr>) (net S) r"
      "sv_receiveFile (absolute_of X) True (receive_path dst staging) mode r w (disk (tree S)) = Some (ok, r', w2, F)"
      "(ok2, h, g, st) = (ok, [], [], (tree S)\<lparr>disk := F\<rparr>) \<and> kind \<noteq> Append \<or>
       kind = Append \<and> ok \<and> \<not> b \<and> (ok2, h, g, st) = finish_append X dst (receive_path dst staging) mode ((tree S)\<lparr>disk := F\<rparr>) \<or>
       kind = Append \<and> (\<not> ok \<or> b) \<and> (ok2, h, g, st) = (ok, [], [], (tree S)\<lparr>disk := F\<rparr>)"
      "S4 = remove_if (\<not> ok2 \<and> kind = Unique) (native dst) (remove_opt staging (seen_abort b (S\<lparr>net := w3, tree := st\<rparr>)))"
      "S' = on_sess (pendingUniqueFilename_update (\<lambda>_. [])) (finishTransfer ok2
         (transferCompleteMessage (if ok2 \<and> mode = Binary \<and> kind \<noteq> Append then hash_path X (native dst) (tree S4) else h) name g) S4)"
      "outbox w3 = outbox w2"
proof -
  let ?P = "\<lambda>bs. bs = seal_control sv_syn_header"
  let ?t = "sv_setAbortPredicate True t"
  obtain ready t1 w1 where r: "(if pas then Some (True, ?t, net S) else sv_initiateActiveHandshake peer ?t (net S)) = Some (ready, t1, w1)"
    using assms by (auto simp: run_upload_def Let_def split: option.splits)
  obtain ab w2 where a: "(if ready then isAbortRequested True w1 else (True, w1)) = (ab, w2)" by fastforce
  have rp: "(case staging of Some p \<Rightarrow> if kind = Append then p else native dst | None \<Rightarrow> native dst) = receive_path dst staging"
    using assms(2) by (auto simp: receive_path_def split: option.split)
  obtain ok t2 w3 F where f: "(if ready \<and> \<not> ab then sv_receiveFile (absolute_of X) True (receive_path dst staging) mode t1 w2 (disk (tree S))
      else Some (False, t1, w2, disk (tree S))) = Some (ok, t2, w3, F)"
    using assms(1) unfolding run_upload_def Let_def r option.case prod.case a rp by (auto split: option.splits)
  obtain ab2 w4 where a2: "(if ok \<and> kind = Append then isAbortRequested True w3 else (False, w3)) = (ab2, w4)" by fastforce
  let ?b = "ready \<and> ab \<or> ab2"
  let ?S2 = "seen_abort ?b (S\<lparr>tree := (tree S)\<lparr>disk := F\<rparr>, net := w4\<rparr>)"
  obtain ok2 h g st where p: "(if ok \<and> kind = Append \<and> \<not> ab2 then finish_append X dst (receive_path dst staging) mode (tree ?S2)
      else (ok, [], [], tree ?S2)) = (ok2, h, g, st)"
    by (metis prod_cases4)
  let ?S4 = "remove_if (\<not> ok2 \<and> kind = Unique) (native dst) (remove_opt staging (?S2\<lparr>tree := st\<rparr>))"
  let ?h = "if ok2 \<and> mode = Binary \<and> kind \<noteq> Append then hash_path X (native dst) (tree ?S4) else h"
  have S2: "?S2\<lparr>tree := u\<rparr> = seen_abort ?b (S\<lparr>net := w4, tree := u\<rparr>)" for u by (simp add: seen_abort_def on_sess_def)
  have S': "S' = on_sess (pendingUniqueFilename_update (\<lambda>_. [])) (finishTransfer ok2 (transferCompleteMessage ?h name g) ?S4)"
    using assms(1) unfolding run_upload_def Let_def r option.case prod.case a rp f a2 p by simp
  have e1: "exchanged ?P (net S) w1 \<and> (if pas then t1 = ?t else
      ready \<longrightarrow> announced (?t\<lparr>peerAddr := peer, peerKnown := True\<rparr>) (net S) t1)"
    using r sv_initiateActiveHandshake_outcome [of peer ?t "net S" ready t1 w1] by (auto simp: exchanged_quiet split: if_splits)
  have e2: "exchanged ?P (net S) w2"
  proof (cases ready)
    case True
    then have "isAbortRequested True w1 = (ab, w2)" using a by simp
    from exchanged_abort [OF this] e1 show ?thesis using exchanged_trans by blast
  qed (use e1 a in simp)
  show thesis
  proof (cases "ready \<and> \<not> ab")
    case False
    then have no: "\<not> ok" "F = disk (tree S)" "w4 = w2" using f a2 by auto
    then have q: "ok2 = False" "h = []" "g = []" "st = tree S" using p by (auto simp: seen_abort_def)
    have keep: "(seen_abort ?b (S\<lparr>net := w2\<rparr>))\<lparr>tree := tree S\<rparr> = seen_abort ?b (S\<lparr>net := w2\<rparr>)"
      by (simp add: seen_abort_def on_sess_def)
    have "S' = on_sess (pendingUniqueFilename_update (\<lambda>_. [])) (finishTransfer False (transferCompleteMessage [] name [])
        (remove_if (kind = Unique) (native dst) (remove_opt staging ((seen_abort ?b (S\<lparr>net := w2\<rparr>))\<lparr>tree := tree S\<rparr>))))"
      using S' q no by simp
    from idle [OF e2 this [unfolded keep]] show thesis .
  next
    case True
    then have rv: "sv_receiveFile (absolute_of X) True (receive_path dst staging) mode t1 w2 (disk (tree S)) = Some (ok, t2, w3, F)"
      using f by simp
    have w4: "outbox w4 = outbox w3" using a2 isAbortRequested_frame(2) [of True w3] by (auto split: if_splits)
    show thesis
      by (rule ran [OF e2 _ rv _ _ S' [unfolded S2] w4]) (use e1 p True in \<open>auto simp: seen_abort_def split: if_splits\<close>)
  qed
qed

definition upload_content :: "UploadKind \<Rightarrow> bytes \<Rightarrow> bytes \<Rightarrow> bytes" where
  "upload_content kind old wire = (if kind = Append then old @ wire else wire)"

definition upload_report :: "surroundings \<Rightarrow> TransferMode \<Rightarrow> UploadKind \<Rightarrow> string \<Rightarrow> bytes \<Rightarrow> bytes \<Rightarrow> string" where
  "upload_report X mode kind name old wire =
     transferCompleteMessage (if mode = Binary then sha256_of X wire else []) name
       (if mode = Binary \<and> kind = Append then sha256_of X (old @ wire) else [])"

lemma finish_append_outcome:
  assumes "finish_append X dst inc mode st = (ok, h, g, st')" "files (disk st) inc = Some wire"
    "\<forall>t \<in> set (tmpNames (disk st)). t \<noteq> inc \<and> t \<noteq> native dst"
  shows "if ok then files (disk st') (native dst) = Some (old_content st dst @ wire) \<and>
      h = (if mode = Binary then sha256_of X wire else []) \<and>
      g = (if mode = Binary then sha256_of X (old_content st dst @ wire) else [])
    else files (disk st') (native dst) = files (disk st) (native dst)"
proof -
  let ?h = "if mode = Binary then hash_path X inc st else []"
  let ?hash = "if mode = Binary then Some (sha256_of X) else None"
  obtain res st1 where ap: "appendAtomically ?hash dst inc st = (res, st1)" by fastforce
  have h: "?h = (if mode = Binary then sha256_of X wire else [])" using assms(2) by (simp add: hash_path_def)
  have d: "native dst \<notin> set (tmpNames (disk st))" using assms(3) by blast
  have run: "(ok, h, g, st') = (if mode = Binary \<and> ?h = [] then (False, [], [], st)
      else case res of None \<Rightarrow> (False, ?h, [], st1) | Some f \<Rightarrow> (True, ?h, f, st1))"
    using assms(1) unfolding finish_append_def Let_def ap prod.case by (cases res) (simp_all split: if_splits)
  from appendAtomically_outcome [OF ap assms(3)] run h d assms(2) show ?thesis
    by (auto split: if_splits option.splits)
qed

lemma remove_path_other: "p \<noteq> q \<Longrightarrow> files (disk (tree (remove_path p S))) q = files (disk (tree S)) q"
  using fs_remove_files [of p "disk (tree S)"] by (auto simp: remove_path_def same_except_def)

lemma remove_opt_other: "p \<noteq> Some q \<Longrightarrow> files (disk (tree (remove_opt p S))) q = files (disk (tree S)) q"
  by (cases p) (simp_all add: remove_opt_def remove_path_other)

lemma remove_if_not [simp]: "remove_if False p S = S"
  by (simp add: remove_if_def)

lemma chan_remove [simp]:
  "chan (remove_if b p S) = chan S" "chan (remove_opt q S) = chan S" "chan (seen_abort b S) = chan S"
  by (simp_all add: remove_if_def remove_opt_def remove_path_def seen_abort_def split: option.split)

lemma tree_seen_abort [simp]: "tree (seen_abort b S) = tree S"
  by (simp add: seen_abort_def)

lemma run_upload_stores:
  assumes "run_upload X dst staging mode pas peer kind name t S = Some S'" "kind = Append \<longleftrightarrow> staging \<noteq> None"
    and "t = (fresh_receiver True)\<lparr>rcvTimeout := tm\<rparr>" "\<not> pas \<longrightarrow> peer = client" "calm (chan S)"
    and "absolute_of X (receive_path dst staging) = Some (receive_path dst staging)" "fresh_names (disk (tree S)) (receive_path dst staging)"
    and "\<forall>t \<in> set (tmpNames (disk (tree S))). t \<noteq> native dst" "staging \<noteq> Some (native dst)"
    and "network_delivers sent client (inbox (net S))" "\<forall>p \<in> set sent. carries_stream (file_stream wire) (fst p)" "fits wire"
    and "pas \<longrightarrow> learned FLAG_DATA client (inbox (net S))" "wire_content mode wire = wire"
  shows "(kind = Unique \<or> files (disk (tree S')) (native dst) = files (disk (tree S)) (native dst) \<or>
      files (disk (tree S')) (native dst) = Some (upload_content kind (old_content (tree S) dst) wire)) \<and>
    (\<exists>out. toPeer (chan S') = toPeer (chan S) @ out \<and>
      (out = [] \<or> out = reply_text 426 [''Transfer failed.''] \<or>
       out = reply_text 226 [upload_report X mode kind name (old_content (tree S) dst) wire] \<and>
       files (disk (tree S')) (native dst) = Some (upload_content kind (old_content (tree S) dst) wire)))"
  using assms(1,2)
proof (cases rule: run_upload_run)
  case (idle w b)
  have "files (disk (tree S')) (native dst) = files (disk (tree S)) (native dst)" if "kind \<noteq> Unique"
    using idle that remove_opt_other [OF assms(9)] by simp
  moreover have "\<exists>out. toPeer (chan S') = toPeer (chan S) @ out \<and> (out = [] \<or> out = reply_text 426 [''Transfer failed.''])"
    using idle finishTransfer_says [of "remove_if (kind = Unique) (native dst) (remove_opt staging (seen_abort b (S\<lparr>net := w\<rparr>)))" False]
      assms(5) by simp
  ultimately show ?thesis by blast
next
  case (ran r w ok r' w2 F w3 b h g st ok2 S4)
  let ?rp = "receive_path dst staging" and ?old = "old_content (tree S) dst" and ?st = "(tree S)\<lparr>disk := F\<rparr>"
  let ?t = "sv_setAbortPredicate True t"
  have t0: "outOfOrderBuffer ?t = Map.empty" "pendingDatagram ?t = []" "expected_seq ?t = 0"
    by (simp_all add: assms(3) sv_setAbortPredicate_def sv_applyDataTimeout_def fresh_receiver_def)
  have sub: "set (inbox w) \<subseteq> set (inbox (net S))" using ran(1) by (simp add: exchanged_def)
  have st: "stream_inv (file_stream wire) r (inbox w)"
  proof (cases pas)
    case True
    with learned_stream [OF assms(10,11) _ t0(1,2) sub] ran(2) assms(13) show ?thesis by simp
  next
    case False
    then have "announced (?t\<lparr>peerAddr := client, peerKnown := True\<rparr>) (net S) r" using ran(2) assms(4) by simp
    from announced_stream [OF assms(10,11) this _ _ _ _ sub] t0 show ?thesis by simp
  qed
  have seq: "expected_seq r = 0" using ran(2) t0 by (auto simp: announced_def split: if_splits)
  have got: "ok \<Longrightarrow> files F ?rp = Some wire"
    using sv_receiveFile_outcome [OF ran(3) assms(6,7) st assms(12) seq] assms(14) by simp
  have keep: "ok \<or> files F ?rp = files (disk (tree S)) ?rp" "p \<in> set (tmpNames (disk (tree S))) \<or> p = ?rp \<or> files F p = files (disk (tree S)) p" for p
    using sv_receiveFile_frame [OF ran(3) assms(6,7)] by blast+
  have names: "set (tmpNames F) \<subseteq> set (tmpNames (disk (tree S)))"
    using touches_receiveFile [OF ran(3), of UNIV] by (simp add: touches_def)
  have rp: "if kind = Append then ?rp \<noteq> native dst else ?rp = native dst"
    using assms(2,9) by (auto simp: receive_path_def)
  have old: "kind = Append \<Longrightarrow> files F (native dst) = files (disk (tree S)) (native dst) \<and> old_content ?st dst = ?old"
    using keep(2) [of "native dst"] assms(8) rp by (auto simp: old_content_def)
  have fresh: "\<forall>t \<in> set (tmpNames (disk ?st)). t \<noteq> ?rp \<and> t \<noteq> native dst"
    using names assms(7,8) by (auto simp: fresh_names_def)
  let ?done = "files (disk st) (native dst) = Some (upload_content kind ?old wire)"
  have res: "if ok2 \<and> \<not> (kind = Append \<and> b) then ?done \<and> (kind \<noteq> Append \<longrightarrow> h = [] \<and> g = []) \<and>
        (kind = Append \<longrightarrow> h = (if mode = Binary then sha256_of X wire else []) \<and>
           g = (if mode = Binary then sha256_of X (?old @ wire) else []))
      else files (disk st) (native dst) = files (disk (tree S)) (native dst)"
  proof (cases "kind = Append")
    case False
    with ran(4) have "ok2 = ok" "h = []" "g = []" "st = ?st" by auto
    with False got keep(1) rp show ?thesis by (auto simp: upload_content_def)
  next
    case True
    show ?thesis
    proof (cases "ok \<and> \<not> b")
      case False
      with True ran(4) old show ?thesis by auto
    next
      case ok: True
      then have fa: "finish_append X dst ?rp mode ?st = (ok2, h, g, st)" using ran(4) True by auto
      from finish_append_outcome [OF fa _ fresh, of wire] got ok old [OF True] True show ?thesis
        by (auto simp: upload_content_def split: if_splits)
    qed
  qed
  have S4: "tree S4 = tree (remove_if (\<not> ok2 \<and> kind = Unique) (native dst) (remove_opt staging (seen_abort b (S\<lparr>net := w3, tree := st\<rparr>))))"
    "chan S4 = chan S" "b \<Longrightarrow> abortRequested (sess S4)" using ran(5) by simp_all
  have left: "files (disk (tree S4)) (native dst) = files (disk st) (native dst)" if "ok2 \<or> kind \<noteq> Unique"
    using that S4(1) remove_opt_other [OF assms(9)] by auto
  let ?msg = "transferCompleteMessage (if ok2 \<and> mode = Binary \<and> kind \<noteq> Append then hash_path X (native dst) (tree S4) else h) name g"
  have tree: "tree S' = tree S4" using ran(6) by simp
  have msg: "?msg = upload_report X mode kind name ?old wire" if "ok2" "\<not> (kind = Append \<and> b)"
    using that res left by (auto simp: upload_report_def upload_content_def hash_path_def)
  have says: "\<exists>out. toPeer (chan S') = toPeer (chan S) @ out \<and>
      (out = [] \<or> (if ok2 then out = reply_text 226 [?msg] \<and> \<not> b else out = reply_text 426 [''Transfer failed.'']))"
  proof (cases "b")
    case True
    then have "chan S' = chan S" using ran(6) S4(2,3) by (simp add: finishTransfer_def)
    then show ?thesis by simp
  next
    case False
    with finishTransfer_says [of S4 ok2 ?msg] ran(6) S4(2) assms(5) show ?thesis by auto
  qed
  have "kind = Unique \<or> files (disk (tree S')) (native dst) = files (disk (tree S)) (native dst) \<or>
      files (disk (tree S')) (native dst) = Some (upload_content kind ?old wire)"
    using res left tree by (auto split: if_splits)
  moreover have "\<exists>out. toPeer (chan S') = toPeer (chan S) @ out \<and>
      (out = [] \<or> out = reply_text 426 [''Transfer failed.''] \<or>
       out = reply_text 226 [upload_report X mode kind name ?old wire] \<and>
       files (disk (tree S')) (native dst) = Some (upload_content kind ?old wire))"
  proof (cases "ok2 \<and> \<not> b")
    case True
    then have "files (disk (tree S')) (native dst) = Some (upload_content kind ?old wire)" using res left tree by simp
    with says msg True show ?thesis by (auto simp del: reply_text.simps)
  next
    case False
    with says show ?thesis by (cases ok2) (auto simp del: reply_text.simps)
  qed
  ultimately show ?thesis by blast
qed


section \<open>The client's worker of an upload\<close>

lemma report_upload_data: "same_data C (report_upload verb mode res completion C)"
  by (rule report_upload_rule) (auto dest: cl_aborted_data intro: same_data_trans)

lemma printReply_data: "printReply C = (r, C') \<Longrightarrow> same_data C C'"
  by (auto simp: printReply_def split: prod.splits option.splits dest: cl_readReply_data)

definition reports_upload :: "string \<Rightarrow> TransferMode \<Rightarrow> nat \<Rightarrow> SendResult \<Rightarrow> client \<Rightarrow> client \<Rightarrow> bool" where
  "reports_upload verb mode k res C C' \<longleftrightarrow>
     (\<exists>D completion C1. console D = console C \<and> ctl D = ctl C \<and> c_replyBuffer (cst D) = c_replyBuffer (cst C) \<and>
        printReply D = (completion, C1) \<and> C' = end_worker k (report_upload verb mode res completion C1))"

lemma run_store_wire:
  assumes "run_store Y verb p dm k pa sa mode C = Some C'"
    and "files (cdisk C) (cl_denotes Y p) = Some bs" "fits (wire_content mode bs)"
  shows "(\<forall>p \<in> set (sent_between (cnet C) (cnet C')). carries_stream (file_stream (wire_content mode bs)) (fst p) \<and>
      (is_data (fst p) \<or> (\<exists>k. fst p = seal_control (cl_ready_ack_header k)))) \<and>
    (\<exists>res. reports_upload verb mode k res C C' \<and> (sha256 res = [] \<or> sha256 res = cl_hash Y bs))"
proof -
  let ?f = "file_stream (wire_content mode bs)"
  let ?P = "\<lambda>bs. carries_stream ?f bs \<and> (is_data bs \<or> (\<exists>k. bs = seal_control (cl_ready_ack_header k)))"
  obtain s w1 where s: "(if dm = PassiveData then cl_RdtSender_existing True pa 500 (cnet C) else cl_RdtSender_active True 500 (cnet C)) = (s, w1)"
    by fastforce
  let ?s = "cl_sender_setAbortPredicate True s"
  obtain ready s2 w2 where r: "(if dm = PassiveData then Some (True, ?s, w1) else waitForServerReady (sin_addr sa) ?s w1) = Some (ready, s2, w2)"
    using assms unfolding run_store_def Let_def s prod.case by (auto split: option.splits)
  obtain ab C1 where a: "(if ready then cl_aborted (C\<lparr>cnet := w2\<rparr>) else (True, C\<lparr>cnet := w2\<rparr>)) = (ab, C1)" by fastforce
  obtain result s3 w3 F where f: "(if ready \<and> \<not> ab then cl_sendFile (cl_hash Y) True (cl_denotes Y p) mode s2 (cnet C1) (cdisk C1)
      else Some (\<lparr>success = False, sha256 = []\<rparr>, s2, cnet C1, cdisk C1)) = Some (result, s3, w3, F)"
    using assms unfolding run_store_def Let_def s prod.case r option.case a by (auto split: option.splits)
  let ?C1 = "C1\<lparr>cnet := w3, cdisk := F\<rparr>"
  obtain completion C2 where p: "printReply ?C1 = (completion, C2)" by fastforce
  have C': "C' = end_worker k (report_upload verb mode result completion C2)"
    using assms unfolding run_store_def Let_def s prod.case r option.case a f p by simp
  have e1: "exchanged ?P (cnet C) w1"
    using s syscall_frame [of "cnet C"]
    by (auto simp: cl_RdtSender_existing_def cl_RdtSender_active_def exchanged_quiet split: prod.splits if_splits)
  have e2: "exchanged ?P (cnet C) w2"
  proof (cases "dm = PassiveData")
    case False
    then have "waitForServerReady (sin_addr sa) ?s w1 = Some (ready, s2, w2)" using r by simp
    from waitForServerReady_outcome [OF this] have "exchanged ?P w1 w2"
      by (auto elim!: exchanged_weaken simp: handshake_carries)
    with e1 show ?thesis by (rule exchanged_trans)
  qed (use r e1 in simp)
  have d1: "same_data (C\<lparr>cnet := w2\<rparr>) C1" using a cl_aborted_data [of "C\<lparr>cnet := w2\<rparr>" ab C1] by (auto split: if_splits)
  then have e3: "exchanged ?P (cnet C) (cnet C1)" using e2 by (auto simp: same_data_def exchanged_quiet intro: exchanged_trans)
  have e4: "exchanged ?P (cnet C1) w3 \<and> (sha256 result = [] \<or> sha256 result = cl_hash Y bs)"
  proof (cases "ready \<and> \<not> ab")
    case True
    then have cs: "cl_sendFile (cl_hash Y) True (cl_denotes Y p) mode s2 (cnet C1) (cdisk C1) = Some (result, s3, w3, F)"
      using f by simp
    have src: "files (cdisk C1) (cl_denotes Y p) = Some bs" using d1 assms(2) by (simp add: same_data_def)
    from cl_snd.send_file_outcome [OF cs [unfolded cl_sendFile_def] src assms(3) TrueI, unfolded cl_snd.frame_def]
    have "exchanged ?P (cnet C1) w3" unfolding exchanged_def sends_stream_def by blast
    with send_file_digest [OF cs [unfolded cl_sendFile_def] src] show ?thesis by blast
  qed (use f in \<open>auto simp: exchanged_quiet\<close>)
  have "same_data ?C1 C'"
    unfolding C' same_data_print by (rule same_data_trans [OF printReply_data [OF p] report_upload_data])
  then have "exchanged ?P w3 (cnet C')" by (simp add: same_data_def exchanged_quiet)
  with e3 e4 have "exchanged ?P (cnet C) (cnet C')" by (blast intro: exchanged_trans)
  then have sent: "\<forall>p \<in> set (sent_between (cnet C) (cnet C')). ?P (fst p)" by (rule exchanged_sent)
  have "quiet (C\<lparr>cnet := w2\<rparr>) C1" "console C1 = console C"
    using a cl_aborted_quiet [of "C\<lparr>cnet := w2\<rparr>" ab C1] by (auto simp: cl_aborted_def on_cst_def split: if_splits prod.splits)
  then have "reports_upload verb mode k result C C'"
    unfolding reports_upload_def using p C' by (intro exI [of _ ?C1] exI [of _ completion] exI [of _ C2]) (simp add: quiet_def)
  with e4 sent show ?thesis by blast
qed

lemma run_store_sends:
  assumes "run_store Y verb p dm k pa sa mode C = Some C'"
    and "files (cdisk C) (cl_denotes Y p) = Some bs" "fits (wire_content mode bs)"
  shows "\<forall>p \<in> set (sent_between (cnet C) (cnet C')). carries_stream (file_stream (wire_content mode bs)) (fst p)"
  using run_store_wire [OF assms] by blast

text \<open>
  C2: STOR, STOU and APPE, end to end, from the worker of the client to the worker of the server, in both data
  modes, over the same network. After a STOR or an APPE the destination holds what it held before, or exactly the
  file of the client (after its old content in the case of APPE, and with line ends translated in ASCII mode);
  a failed STOU may remove its reservation. If the server reports completion, it is the new content, and the
  reply carries the digest of it and the name chosen by STOU.
\<close>

theorem store_end_to_end:
  assumes "run_store Y verb p dm k pa sa mode C = Some C'"
    and "files (cdisk C) (cl_denotes Y p) = Some bs" "fits (wire_content mode bs)"
    and "run_upload X dst staging mode pas peer kind name t S = Some S'" "kind = Append \<longleftrightarrow> staging \<noteq> None"
    and "t = (fresh_receiver True)\<lparr>rcvTimeout := tm\<rparr>" "\<not> pas \<longrightarrow> peer = client" "calm (chan S)"
    and "absolute_of X (receive_path dst staging) = Some (receive_path dst staging)" "fresh_names (disk (tree S)) (receive_path dst staging)"
    and "\<forall>t \<in> set (tmpNames (disk (tree S))). t \<noteq> native dst" "staging \<noteq> Some (native dst)"
    and "network_delivers (sent_between (cnet C) (cnet C')) client (inbox (net S))"
    and "pas \<longrightarrow> learned FLAG_DATA client (inbox (net S))"
  shows "(kind = Unique \<or> files (disk (tree S')) (native dst) = files (disk (tree S)) (native dst) \<or>
      files (disk (tree S')) (native dst) = Some (upload_content kind (old_content (tree S) dst) (wire_content mode bs))) \<and>
    (\<exists>out. toPeer (chan S') = toPeer (chan S) @ out \<and>
      (out = [] \<or> out = reply_text 426 [''Transfer failed.''] \<or>
       out = reply_text 226 [upload_report X mode kind name (old_content (tree S) dst) (wire_content mode bs)] \<and>
       files (disk (tree S')) (native dst) = Some (upload_content kind (old_content (tree S) dst) (wire_content mode bs))))"
  by (rule run_upload_stores [OF assms(4-13) run_store_sends [OF assms(1-3)] assms(3,14) wire_content_idem])


lemma report_upload_calm:
  assumes "\<And>r h. completion = Some r \<Longrightarrow> mode = Binary \<Longrightarrow> sha256 res \<noteq> [] \<Longrightarrow>
       extractHashField (rline r) ''SHA256'' = Some h \<Longrightarrow> sha256 res = h"
  shows "calmly C (report_upload verb mode res completion C)"
proof (rule report_upload_rule, goal_cases)
  case (2 D b D')
  then show ?case using calmly_same_trans [OF 2(2) cl_aborted_console [OF 2(1)]] by simp
next
  case (3 D)
  have "calmly D (print_line (Cerr ''Upload failed.'') D)" by (rule calmly_print) (simp add: alarm_def has_prefix_def)
  with 3 show ?case by (rule calmly_trans)
next
  case (4 D s)
  have "calmly D (print_line (Cout s) D)" by (rule calmly_print) (simp add: alarm_def)
  with 4 show ?case by (rule calmly_trans)
next
  case (5 D r h)
  then show ?case using calmly_trans [OF 5(5) calmly_hashes] assms [OF 5(1-4)] by simp
qed simp

text \<open>
  C4: no false alarm on an upload. When the client reads the completion reply of this very upload (or none),
  both programs compute the same digests, and the datagrams meet the assumptions of the previous property, the
  client never prints the warning about mismatching hashes.
\<close>

theorem store_no_alarm:
  assumes "run_store Y verb p dm k pa sa mode C = Some C'"
    and "files (cdisk C) (cl_denotes Y p) = Some bs" "fits (wire_content mode bs)"
    and "run_upload X dst staging mode pas peer kind name t S = Some S'" "kind = Append \<longleftrightarrow> staging \<noteq> None"
    and "t = (fresh_receiver True)\<lparr>rcvTimeout := tm\<rparr>" "\<not> pas \<longrightarrow> peer = client" "calm (chan S)"
    and "absolute_of X (receive_path dst staging) = Some (receive_path dst staging)" "fresh_names (disk (tree S)) (receive_path dst staging)"
    and "\<forall>t \<in> set (tmpNames (disk (tree S))). t \<noteq> native dst" "staging \<noteq> Some (native dst)"
    and "network_delivers (sent_between (cnet C) (cnet C')) client (inbox (net S))"
    and "pas \<longrightarrow> learned FLAG_DATA client (inbox (net S))"
    and "cl_hash Y = sha256_of X" "\<forall>bs. is_digest (sha256_of X bs)" "list_all (\<lambda>c. \<not> is_space c) name"
    and "\<forall>out. toPeer (chan S') = toPeer (chan S) @ out \<longrightarrow> incoming (c_replyBuffer (cst C)) (ctl C) out"
  shows "\<forall>l \<in> set (new_lines C C'). \<not> alarm l"
proof -
  obtain res where res: "reports_upload verb mode k res C C'" "sha256 res = [] \<or> sha256 res = cl_hash Y bs"
    using run_store_wire [OF assms(1-3)] by blast
  obtain D completion C1 where D: "console D = console C" "ctl D = ctl C" "c_replyBuffer (cst D) = c_replyBuffer (cst C)"
    "printReply D = (completion, C1)" "C' = end_worker k (report_upload verb mode res completion C1)"
    using res(1) by (auto simp: reports_upload_def)
  obtain C0 where C0: "cl_readReply D = (completion, C0)" "calmly C0 C1"
    using D(4) calmly_stored by (auto simp: printReply_def split: prod.splits option.splits)
  let ?g = "if mode = Binary \<and> kind = Append then sha256_of X (old_content (tree S) dst @ wire_content mode bs) else []"
  obtain out where out: "toPeer (chan S') = toPeer (chan S) @ out" "out = [] \<or> out = reply_text 426 [''Transfer failed.''] \<or>
      out = reply_text 226 [upload_report X mode kind name (old_content (tree S) dst) (wire_content mode bs)]"
    using run_upload_stores [OF assms(4-13) run_store_sends [OF assms(1-3)] assms(3,14) wire_content_idem] by blast
  then have inc: "incoming (c_replyBuffer (cst D)) (ctl D) out" using assms(18) D(2,3) by simp
  have "calmly C1 (report_upload verb mode res completion C1)"
  proof (rule report_upload_calm)
    fix r h assume r: "completion = Some r" "mode = Binary" "sha256 res \<noteq> []" "extractHashField (rline r) ''SHA256'' = Some h"
    have "is_digest (sha256_of X bs)" "?g = [] \<or> is_digest ?g" using assms(16) by simp_all
    moreover have "out = [] \<or> out = reply_text 426 [''Transfer failed.''] \<or>
        out = reply_text 226 [transferCompleteMessage (sha256_of X bs) name ?g]"
      using out(2) r(2) by (cases "kind = Append") (simp_all add: upload_report_def wire_content_def del: reply_text.simps)
    ultimately have "h = sha256_of X bs" using completion_digest [OF C0(1) inc _ _ _ assms(17) r(1,4)] by blast
    with res(2) r(3) assms(15) show "sha256 res = h" by simp
  qed
  moreover have "console C0 = console C" using cl_readReply_console [OF C0(1)] D(1) by simp
  then have "calmly C C1" using C0(2) by (simp add: calmly_def)
  ultimately have "calmly C (report_upload verb mode res completion C1)" using calmly_trans by blast
  then have "calmly C C'" using calmly_same_trans end_worker_console D(5) by simp
  then show ?thesis using calmly_lines by blast
qed

section \<open>Instances\<close>

text \<open>An upload in passive mode of a file of one byte.\<close>

definition sending_client :: client where
  "sending_client = (sample_client [sample_done])\<lparr>cdisk := sample_disk, cnet := idle_world [Received sample_ack sample_peer]\<rparr>"

definition sink_server :: server where
  "sink_server = sample_server\<lparr>tree := sample_store [1], net := sample_arrival 1\<rparr>"

definition sink_receiver :: receiver where
  "sink_receiver = (fresh_receiver True)\<lparr>rcvTimeout := receiverIdleTimeout\<rparr>"

lemma sending_store:
  obtains C' where "run_store hashing_client ''STOR'' ''a'' PassiveData 30 sample_peer sample_peer Binary sending_client = Some C'"
    "sent_between (cnet sending_client) (cnet C') = [(chunk_packet [65] 0, sample_peer)]"
proof -
  let ?w = "idle_world [Received sample_ack sample_peer]"
  let ?s = "cl_sender_setAbortPredicate True (cl_sender_init True sample_peer 500)"
  have w: "cnet sending_client = ?w" "cdisk sending_client = sample_disk" by (simp_all add: sending_client_def)
  have dest: "cs_destAddr ?s = sample_peer" by (simp add: cl_sender_setAbortPredicate_def cl_sender_init_def)
  have "is_ack_event (cs_destAddr ?s) 0 (Received sample_ack sample_peer)"
    using sample_ack_decode by (auto simp: is_ack_event_def dest)
  then obtain w' F' where sd: "cl_sendFile (\<lambda>bs. sample_digest) True ''a'' Binary ?s ?w sample_disk =
      Some (\<lparr>success = True, sha256 = sample_digest\<rparr>, ?s, w', F')" "outbox w' = [(chunk_packet [65] 0, sample_peer)]"
    using cl_sendFile_succeeds [of ?w sample_disk "''t''" "[''u'']" "''a''" "[65]" Binary "\<lambda>bs. sample_digest"
        "[Received sample_ack sample_peer]" "[]" ?s True] sample_is_digest(2)
    by (auto simp: idle_world_def dest wire_content_def chunk_count_def MAX_PAYLOAD_def)
  obtain C1 where a: "cl_aborted (sending_client\<lparr>cnet := ?w\<rparr>) = (False, C1)" "cnet C1 = ?w" "cdisk C1 = sample_disk"
    by (simp add: cl_aborted_def isAbortRequested_none idle_world_def on_cst_def w)
  let ?D = "C1\<lparr>cnet := w', cdisk := F'\<rparr>" and ?res = "\<lparr>success = True, sha256 = sample_digest\<rparr>"
  obtain completion C2 where p: "printReply ?D = (completion, C2)" by fastforce
  have s: "cl_RdtSender_existing True sample_peer 500 ?w = (cl_sender_init True sample_peer 500, ?w)"
    by (simp add: cl_RdtSender_existing_def syscall_def idle_world_def)
  have h: "cl_hash hashing_client = (\<lambda>bs. sample_digest)" "cl_denotes hashing_client ''a'' = ''a''"
    by (simp_all add: hashing_client_def sample_system_def)
  let ?C' = "end_worker 30 (report_upload ''STOR'' Binary ?res completion C2)"
  have run: "run_store hashing_client ''STOR'' ''a'' PassiveData 30 sample_peer sample_peer Binary sending_client = Some ?C'"
    unfolding run_store_def w s Let_def h using a sd(1) p s by simp
  have "same_data ?D ?C'"
    unfolding same_data_print by (rule same_data_trans [OF printReply_data [OF p] report_upload_data])
  then have "sent_between (cnet sending_client) (cnet ?C') = [(chunk_packet [65] 0, sample_peer)]"
    using sd(2) by (simp add: same_data_def sent_between_def w idle_world_def)
  with run show thesis by (rule that)
qed

lemma native_nonempty: "native (sample_path n) \<noteq> []" "native (sample_path n) \<noteq> native (sample_path m) \<longleftrightarrow> n \<noteq> m"
  by (auto simp: sample_path_def path_text_def sample_root_def)

lemma sink_upload:
  obtains S' where "run_upload hashing_server sample_source None Binary True zero_addr Store [] sink_receiver sink_server = Some S'"
    "toPeer (chan S') = sample_done"
proof -
  let ?r = "sv_setAbortPredicate True sink_receiver" and ?F = "disk (sample_store [1])" and ?d = "native sample_source"
  let ?t = "native (sample_path ''hfa'')"
  have r: "sv_at_start ?r"
    by (simp add: sv_at_start_def sv_setAbortPredicate_def sv_applyDataTimeout_def fresh_receiver_def sink_receiver_def)
  obtain r' w' F' where rv: "sv_receiveFile Some True ?d Binary ?r (sample_arrival 1) ?F = Some (True, r', w', F')"
    "aborts w' = []" "files F' = (files ?F)(?t := None, ?d \<mapsto> [65])"
    using sv_sample_receives [of ?r "sample_arrival 1" 1 "[]" Some ?d ?d ?F ?t "[]" True] native_nonempty r
    by (auto simp: sample_arrival_def idle_world_def sample_store_def sample_source_def)
  let ?S = "seen_abort False (sink_server\<lparr>tree := (sample_store [1])\<lparr>disk := F'\<rparr>, net := w'\<rparr>)"
  let ?S' = "on_sess (pendingUniqueFilename_update (\<lambda>_. [])) (finishTransfer True (transferCompleteMessage sample_digest [] []) ?S)"
  have "run_upload hashing_server sample_source None Binary True zero_addr Store [] sink_receiver sink_server = Some ?S'"
    using rv by (simp add: run_upload_def Let_def isAbortRequested_none sink_server_def hashing_server_def sample_surroundings_def
      sample_arrival_def idle_world_def remove_opt_def hash_path_def)
  moreover have "toPeer (chan ?S') = sample_done"
    using sample_server_calm(1) by (simp add: finishTransfer_def seen_abort_def sink_server_def sample_server_def new_session_def
        replyWithCode_calm calm_def sample_done_def del: reply_text.simps)
  ultimately show thesis by (rule that)
qed

lemma sample_upload_setting:
  "files (cdisk sending_client) (cl_denotes hashing_client ''a'') = Some [65]" "fits (wire_content Binary [65])"
  "sink_receiver = (fresh_receiver True)\<lparr>rcvTimeout := receiverIdleTimeout\<rparr>" "calm (chan sink_server)"
  "absolute_of hashing_server (receive_path sample_source None) = Some (receive_path sample_source None)"
  "fresh_names (disk (tree sink_server)) (receive_path sample_source None)"
  "\<forall>t \<in> set (tmpNames (disk (tree sink_server))). t \<noteq> native sample_source"
  "learned FLAG_DATA sample_peer (inbox (net sink_server))"
  using sample_server_calm(1) sample_writing(3) native_nonempty
  by (auto simp: sending_client_def hashing_client_def sample_system_def sink_receiver_def sink_server_def hashing_server_def
      sample_surroundings_def fresh_names_def receive_path_def sample_store_def sample_source_def learned_def heard_def
      sample_arrival_def idle_world_def wire_content_def)

lemma sample_upload_net:
  assumes "sent_between (cnet sending_client) (cnet C') = [(chunk_packet [65] 0, sample_peer)]"
  shows "network_delivers (sent_between (cnet sending_client) (cnet C')) sample_peer (inbox (net sink_server))"
proof -
  have "chunk_packet [65] 0 = sample_packet 1"
    by (simp add: chunk_packet_def chunk_count_def MAX_PAYLOAD_def data_bytes_def sample_packet_def)
  then show ?thesis using assms by (simp add: network_delivers_def sink_server_def sample_arrival_def idle_world_def)
qed

theorem store_end_to_end_witness:
  "\<exists>C' S'. run_store hashing_client ''STOR'' ''a'' PassiveData 30 sample_peer sample_peer Binary sending_client = Some C' \<and>
     run_upload hashing_server sample_source None Binary True zero_addr Store [] sink_receiver sink_server = Some S' \<and>
     toPeer (chan S') = sample_done \<and> files (disk (tree S')) (native sample_source) = Some [65]"
proof -
  obtain C' where C: "run_store hashing_client ''STOR'' ''a'' PassiveData 30 sample_peer sample_peer Binary sending_client = Some C'"
    "sent_between (cnet sending_client) (cnet C') = [(chunk_packet [65] 0, sample_peer)]" by (rule sending_store)
  obtain S' where S: "run_upload hashing_server sample_source None Binary True zero_addr Store [] sink_receiver sink_server = Some S'"
    "toPeer (chan S') = sample_done" by (rule sink_upload)
  have out: "toPeer (chan S') = toPeer (chan sink_server) @ sample_done"
    by (simp add: S(2) sink_server_def sample_server_def)
  have d: "sample_done \<noteq> []" "sample_done \<noteq> reply_text 426 [''Transfer failed.'']" by code_simp+
  from store_end_to_end [OF C(1) sample_upload_setting(1,2) S(1) _ sample_upload_setting(3) _ sample_upload_setting(4-7) _
      sample_upload_net [OF C(2)]] sample_upload_setting(8) out d
  have "files (disk (tree S')) (native sample_source) = Some (upload_content Store (old_content (tree sink_server) sample_source)
      (wire_content Binary [65]))"
    by (auto simp del: reply_text.simps)
  with S C show ?thesis by (auto simp: wire_content_def upload_content_def)
qed

theorem store_no_alarm_witness:
  "\<exists>C'. run_store hashing_client ''STOR'' ''a'' PassiveData 30 sample_peer sample_peer Binary sending_client = Some C' \<and>
     (\<forall>l \<in> set (new_lines sending_client C'). \<not> alarm l)"
proof -
  obtain C' where C: "run_store hashing_client ''STOR'' ''a'' PassiveData 30 sample_peer sample_peer Binary sending_client = Some C'"
    "sent_between (cnet sending_client) (cnet C') = [(chunk_packet [65] 0, sample_peer)]" by (rule sending_store)
  obtain S' where S: "run_upload hashing_server sample_source None Binary True zero_addr Store [] sink_receiver sink_server = Some S'"
    "toPeer (chan S') = sample_done" by (rule sink_upload)
  have inc: "\<forall>out. toPeer (chan S') = toPeer (chan sink_server) @ out \<longrightarrow>
      incoming (c_replyBuffer (cst sending_client)) (ctl sending_client) out"
    by (simp add: S(2) sink_server_def sample_server_def incoming_def sending_client_def sample_client_def new_client_state_def
      sample_done_def)
  have "\<forall>l \<in> set (new_lines sending_client C'). \<not> alarm l"
    by (rule store_no_alarm [OF C(1) sample_upload_setting(1,2) S(1) _ sample_upload_setting(3) _ sample_upload_setting(4-7) _
      sample_upload_net [OF C(2)] _ _ _ _ inc])
      (use sample_upload_setting(8) sample_is_digest in \<open>simp_all add: hashing_client_def hashing_server_def sample_system_def\<close>)
  with C(1) show ?thesis by blast
qed

end
