(* ===== verification/Wire_Types.thy ===== *)
theory Wire_Types
  imports Upload_Pair
begin

text \<open>
  The messages of the data channel as a type of their own, and what each side of a transfer puts on the
  wire, whatever the network and the peer do: a sender only data packets and the answer to a handshake, a
  receiver only handshakes, acknowledgements and refusals.
\<close>

unbundle bit_operations_syntax

section \<open>Messages\<close>

datatype message = Syn | Ack u32 | Nak u32 | Data u32 bool bytes

text \<open>What a datagram is, if it is a message at all: valid, of one kind, and without payload unless it is data.\<close>

definition message_of :: "bytes \<Rightarrow> message option" where
  "message_of bs =
     (case decodeValidatedDatagram bs of
        None \<Rightarrow> None
      | Some h \<Rightarrow>
          if flags h = FLAG_DATA \<or> flags h = FLAG_DATA OR FLAG_FIN
          then Some (Data (seq_num h) (flags h = FLAG_DATA OR FLAG_FIN) (datagram_payload h bs))
          else if payload_len h \<noteq> 0 then None
          else if flags h = FLAG_SYN then Some Syn
          else if flags h = FLAG_ACK then Some (Ack (ack_num h))
          else if flags h = FLAG_NAK then Some (Nak (ack_num h))
          else None)"

fun from_sender :: "message \<Rightarrow> bool" where
  "from_sender (Data n fin data) \<longleftrightarrow> length data \<le> MAX_PAYLOAD"
| "from_sender (Ack n) \<longleftrightarrow> True"
| "from_sender m \<longleftrightarrow> False"

fun from_receiver :: "message \<Rightarrow> bool" where
  "from_receiver (Data n fin data) \<longleftrightarrow> False"
| "from_receiver m \<longleftrightarrow> True"

text \<open>Datagrams that are messages of a role.\<close>

definition speaks :: "(message \<Rightarrow> bool) \<Rightarrow> bytes \<Rightarrow> bool" where
  "speaks role bs \<longleftrightarrow> (case message_of bs of None \<Rightarrow> False | Some m \<Rightarrow> role m)"

lemma message_control:
  assumes "payload_len h = 0" "checksum h = 0" "flags h \<noteq> FLAG_DATA" "flags h \<noteq> FLAG_DATA OR FLAG_FIN"
  shows "message_of (seal_control h) =
    (if flags h = FLAG_SYN then Some Syn else if flags h = FLAG_ACK then Some (Ack (ack_num h))
     else if flags h = FLAG_NAK then Some (Nak (ack_num h)) else None)"
  using assms by (simp add: message_of_def decode_seal_control)

lemma control_messages:
  "message_of (seal_control sv_syn_header) = Some Syn" "message_of (seal_control cl_syn_header) = Some Syn"
  "message_of (sv_ack n) = Some (Ack n)" "message_of (cl_ack n) = Some (Ack n)" "message_of (cl_nak n) = Some (Nak n)"
  "message_of (seal_control (sv_ready_ack_header n)) = Some (Ack n)"
  "message_of (seal_control (cl_ready_ack_header n)) = Some (Ack n)"
  by (subst message_control; simp add: sv_syn_header_def cl_syn_header_def sv_ack_header_def cl_response_header_def
      sv_ready_ack_header_def cl_ready_ack_header_def zero_header_def flag_defs)+

lemma data_message:
  assumes "length data \<le> MAX_PAYLOAD"
  shows "message_of (data_bytes n fin win data) = Some (Data n fin data)"
proof -
  let ?h = "header (make_data_packet n fin win data)"
  have "flags ?h = FLAG_DATA OR (if fin then FLAG_FIN else 0)"
    using assms by (simp add: make_data_packet_eq Let_def data_header_def)
  moreover have "datagram_payload ?h (data_bytes n fin win data) = data"
    using data_header_fields(4) [OF assms, of n fin win] by (simp add: datagram_payload_def data_bytes_def HEADER_SIZE_def)
  ultimately show ?thesis
    using data_header_fields(1) [OF assms, of n fin win]
    by (cases fin) (simp_all add: message_of_def data_bytes_decode [OF assms] flag_defs)
qed

lemma speaks_sender:
  "is_data bs \<Longrightarrow> speaks from_sender bs" "speaks from_sender (seal_control (sv_ready_ack_header k))"
  "speaks from_sender (seal_control (cl_ready_ack_header k))"
  by (auto simp: speaks_def is_data_def data_message control_messages)

lemma speaks_receiver:
  "speaks from_receiver (seal_control sv_syn_header)" "speaks from_receiver (seal_control cl_syn_header)"
  "speaks from_receiver (sv_ack n)" "speaks from_receiver (cl_ack n)" "speaks from_receiver (cl_nak n)"
  by (simp_all add: speaks_def control_messages)

section \<open>Receivers, whatever arrives\<close>

context receive_routine
begin

lemma next_exchanged:
  assumes "receive_next idleMs loop r w = Some (res, r', w')"
    and "\<And>bs a r w r' w'. handle bs a r w = Again r' w' \<Longrightarrow> exchanged P w w'"
    and "\<And>bs a r w c r' w'. handle bs a r w = Stop c r' w' \<Longrightarrow> exchanged P w w'"
  shows "exchanged P w w'"
  using assms(1)
proof (cases rule: receive_next_cases)
  case (looped d w2)
  have got: "exchanged P v v2" if "input_ok s v (Got bs a s1 v1)" "exchanged P v1 v2" for s v bs a s1 v1 v2
  proof -
    have "exchanged P v v1" using that(1) by (auto simp: input_ok_def exchanged_def)
    then show ?thesis using that(2) by (rule exchanged_trans)
  qed
  have "exchanged P w2 w'"
  proof (rule loop_rule [OF looped(2), where P = "\<lambda>s v. exchanged P w2 v"])
    show "exchanged P w2 w2" by (simp add: exchanged_quiet)
    show "exchanged P w2 v2" if "exchanged P w2 v" "receive_round handle d s v = Again s2 v2" for s v s2 v2
      using that(2)
    proof (cases rule: receive_round_AgainE)
      case timeout
      then have "exchanged P v v2" by (auto simp: input_ok_def exchanged_def)
      with that(1) show ?thesis by (rule exchanged_trans)
    next
      case (handled bs a s1 v1)
      from exchanged_trans [OF that(1) got [OF handled(1) assms(2) [OF handled(2)]]] show ?thesis .
    qed
    show "exchanged P w2 v2" if "exchanged P w2 v" "receive_round handle d s v = Stop c s2 v2" for s v c s2 v2
      using that(2)
    proof (cases rule: receive_round_StopE)
      case failed
      then have "exchanged P v v2" by (auto simp: input_ok_def exchanged_def)
      with that(1) show ?thesis by (rule exchanged_trans)
    next
      case (handled bs a s1 v1)
      from exchanged_trans [OF that(1) got [OF handled(1) assms(3) [OF handled(2)]]] show ?thesis .
    qed
  qed
  with looped(3,4) show ?thesis by (simp add: exchanged_def)
qed (simp_all add: exchanged_quiet)

end

lemma sv_sendAck_exchanged: "P (sv_ack n) \<Longrightarrow> exchanged P w (sv_sendAck n a w)"
  unfolding sv_sendAck_def by (rule exchanged_send [where ok = "fst (sendto (sv_ack n) a w)"]) simp_all

lemma cl_sendAck_exchanged: "cl_sendAck n a w = (sent, w') \<Longrightarrow> P (cl_ack n) \<Longrightarrow> exchanged P w w'"
  by (auto simp: cl_sendAck_def sendControlResponse_def intro: exchanged_send)

lemma sv_receiveNext_exchanged:
  assumes "sv_receiveNext r w = Some (res, r', w')"
  shows "exchanged (speaks from_receiver) w w'"
proof (rule sv_recv.next_exchanged [OF assms [unfolded sv_receiveNext_def]])
  fix bs a r w r' w' assume "sv_handle_datagram bs a r w = Again r' w'"
  then show "exchanged (speaks from_receiver) w w'"
    by (cases rule: sv_handle_AgainE) (simp_all add: exchanged_quiet sv_sendAck_exchanged speaks_receiver)
next
  fix bs a r w c r' w' assume "sv_handle_datagram bs a r w = Stop c r' w'"
  then show "exchanged (speaks from_receiver) w w'"
    by (cases rule: sv_handle_StopE) (simp add: sv_sendAck_exchanged speaks_receiver)
qed

lemma cl_accept_world:
  "cl_accept h d fin r w = Again r' w' \<Longrightarrow> w' = w" "cl_accept h d fin r w = Stop c r' w' \<Longrightarrow> w' = w"
  by (auto simp: cl_accept_def split: if_splits)

lemma cl_handle_exchanged:
  assumes "cl_handle_datagram bs a r w = Again r' w' \<or> cl_handle_datagram bs a r w = Stop c r' w'"
  shows "exchanged (speaks from_receiver) w w'"
proof (cases rule: cl_handle_cases [of bs a r w])
  case (accepted h w1)
  have "exchanged (speaks from_receiver) w w1"
    using accepted(7) cl_sendAck_exchanged [where P = "speaks from_receiver" and sent = True and w' = w1]
    by (auto simp: exchanged_quiet speaks_receiver split: if_splits)
  moreover have "w' = w1" using assms accepted(1) cl_accept_world by auto
  ultimately show ?thesis by simp
next
  case (failed s w1)
  with assms cl_sendAck_exchanged [OF failed(3), of "speaks from_receiver"] show ?thesis by (simp add: speaks_receiver)
next
  case (duplicate h w1)
  with assms cl_sendAck_exchanged [OF duplicate(5), of "speaks from_receiver"] show ?thesis by (simp add: speaks_receiver)
qed (use assms in \<open>auto simp: exchanged_quiet\<close>)

lemma cl_receiveNext_exchanged:
  assumes "cl_receiveNext r w = Some (res, r', w')"
  shows "exchanged (speaks from_receiver) w w'"
  by (rule cl_recv.next_exchanged [OF assms [unfolded cl_receiveNext_def]]) (blast intro: cl_handle_exchanged)+

lemma confirmReceive_exchanged:
  assumes "confirmReceive n ok r w = (x, r', w')"
  shows "exchanged (speaks from_receiver) w w'"
proof -
  obtain s1 w1 where nak: "sendto (cl_nak n) (peerAddr r) w = (s1, w1)" by fastforce
  obtain s2 w2 where ack: "sendto (cl_ack n) (peerAddr r) w = (s2, w2)" by fastforce
  have "w' = w \<or> w' = w1 \<or> w' = w2" using assms nak ack
    by (auto simp: confirmReceive_def cl_sendNak_def cl_sendAck_def sendControlResponse_def Let_def split: if_splits)
  then show ?thesis
    using exchanged_send [OF nak, of "speaks from_receiver"] exchanged_send [OF ack, of "speaks from_receiver"]
    by (auto simp: exchanged_quiet speaks_receiver)
qed

text \<open>The loop over the chunks.\<close>

lemma receive_file_loop_exchanged:
  assumes "receive_file_loop rn ap rj mode b t wr F r w = Some (oc, wr', F', r', w')"
    and rn: "\<And>r w res r' w'. rn r w = Some (res, r', w') \<Longrightarrow> exchanged P w w'"
    and rj: "\<And>n r w r' w'. rj n r w = (r', w') \<Longrightarrow> exchanged P w w'"
  shows "exchanged P w w'"
proof (rule receive_file_loop_rule [OF assms(1), where I = "\<lambda>t wr F r v. exchanged P w v"])
  show "exchanged P w w" by (simp add: exchanged_quiet)
  have step: "exchanged P w v2" if "exchanged P w v" "inbox v1 = inbox v" "outbox v1 = outbox v" "rn s v1 = Some (res, s2, v2)"
    for v v1 s res s2 v2
  proof -
    have "exchanged P v v1" using that by (simp add: exchanged_quiet)
    from exchanged_trans [OF exchanged_trans [OF that(1) this] rn [OF that(4)]] show ?thesis .
  qed
  have same: "exchanged P w v3" if "exchanged P w v2" "inbox v3 = inbox v2" "outbox v3 = outbox v2" for v2 v3
    using that by (simp add: exchanged_def)
  show "exchanged P w v2" if "exchanged P w v" "receive_file_round rn ap rj mode b t1 wr1 F1 s v = Some (Inr (t2, wr2, F2, s2, v2))"
    for t1 wr1 F1 s v t2 wr2 F2 s2 v2
    using that(2)
  proof (cases rule: receive_file_roundE)
    case (stored v1 n d fin r3 v3 v4 d' t3 wr3 F3)
    from same [OF step [OF that(1) stored(2,1,3)] stored(5,4)] stored(8) show ?thesis by (simp split: if_splits)
  qed simp_all
  show "exchanged P w w'" if "exchanged P w v"
      "receive_file_round rn ap rj mode b t1 wr1 F1 s v = Some (Inl (oc, wr', F', r', w'))" for t1 wr1 F1 s v
    using that(2)
  proof (cases rule: receive_file_roundE)
    case (early v1)
    from same [OF that(1) early(2,1)] early(3) show ?thesis by simp
  next
    case (lost v1 r2 v2)
    from step [OF that(1) lost(2,1,3)] lost(4) show ?thesis by simp
  next
    case (late v1 n d fin r2 v2 v3 r3 v4)
    from exchanged_trans [OF same [OF step [OF that(1) late(2,1,3)] late(5,4)] rj [OF late(6)]] late(7) show ?thesis by simp
  next
    case (refused v1 n d d' fin r2 v2 v3 wr2 F2 r3 v4)
    from exchanged_trans [OF same [OF step [OF that(1) refused(2,1,3)] refused(5,4)] rj [OF refused(7)]] refused(8)
    show ?thesis by simp
  next
    case (stored v1 n d fin r3 v3 v4 d' t3 wr3 F3)
    from same [OF step [OF that(1) stored(2,1,3)] stored(5,4)] stored(8) show ?thesis by (simp split: if_splits)
  qed
qed

lemma sv_receiveFile_exchanged:
  assumes "sv_receiveFile absolute b p mode r w F = Some (ok, r', w', F')"
  shows "exchanged (speaks from_receiver) w w'"
proof -
  obtain wr F1 where wr: "sv_writer_new absolute p F = (wr, F1)" by fastforce
  show ?thesis
  proof (cases "valid wr")
    case False
    with assms wr show ?thesis by (simp add: sv_receiveFile_def exchanged_quiet)
  next
    case True
    obtain oc wr2 F2 r2 w2 where lp: "receive_file_loop sv_receiveNext sv_appendChunk (\<lambda>n r w. (r, w)) mode b new_translator wr F1 r w =
        Some (oc, wr2, F2, r2, w2)"
      using assms wr True by (auto simp: sv_receiveFile_def split: option.splits)
    have e: "exchanged (speaks from_receiver) w w2"
      by (rule receive_file_loop_exchanged [OF lp]) (auto simp: exchanged_quiet intro: sv_receiveNext_exchanged)
    have "w' = w2 \<or> w' = snd (isAbortRequested b w2)"
      using assms True unfolding sv_receiveFile_def wr prod.case Let_def lp option.case
      by (auto split: receive_end.splits prod.splits)
    then show ?thesis using e exchanged_trans [OF e exchanged_abort_snd] by auto
  qed
qed

lemma cl_receiveFile_exchanged:
  assumes "cl_receiveFile os b p mode r w F = Some (ok, why, r', w', F')"
  shows "exchanged (speaks from_receiver) w w'"
proof -
  obtain wr F1 where wr: "cl_writer_new os p F = (wr, F1)" by fastforce
  show ?thesis
  proof (cases "valid wr")
    case False
    with assms wr show ?thesis by (simp add: cl_receiveFile_def exchanged_quiet)
  next
    case True
    obtain oc wr2 F2 r2 w2 where lp: "receive_file_loop cl_receiveNext cl_appendChunk cl_reject mode b new_translator wr F1 r w =
        Some (oc, wr2, F2, r2, w2)"
      using assms wr True by (auto simp: cl_receiveFile_def split: option.splits)
    have rj: "exchanged (speaks from_receiver) v v'" if "cl_reject n s v = (s', v')" for n s v s' v'
      using that confirmReceive_exchanged [of n False s v _ s' v'] by (cases "confirmReceive n False s v") (simp add: cl_reject_def)
    have e: "exchanged (speaks from_receiver) w w2"
      by (rule receive_file_loop_exchanged [OF lp]) (auto intro: cl_receiveNext_exchanged rj)
    show ?thesis
    proof (cases "\<exists>n. oc = Complete n")
      case False
      then have "w' = w2" using assms True unfolding cl_receiveFile_def wr prod.case Let_def lp option.case
        by (auto split: receive_end.splits)
      with e show ?thesis by simp
    next
      case oc: True
      then obtain n where n: "oc = Complete n" by blast
      obtain ab w3 where ab: "isAbortRequested b w2 = (ab, w3)" by fastforce
      obtain c wr3 F3 where c: "(if ab then (False, wr2, F2) else cl_commit wr2 F2) = (c, wr3, F3)" by (rule prod_cases3)
      obtain x r3 w4 where x: "confirmReceive n c r2 w3 = (x, r3, w4)" by (rule prod_cases3)
      note e4 = exchanged_trans [OF exchanged_trans [OF e exchanged_abort [OF ab]] confirmReceive_exchanged [OF x]]
      have "w' = w4 \<or> w' = snd (isAbortRequested b w4)"
        using assms True unfolding cl_receiveFile_def wr prod.case Let_def lp option.case n receive_end.case ab c x
        by (auto split: prod.splits if_splits)
      then show ?thesis using e4 exchanged_trans [OF e4 exchanged_abort_snd] by auto
    qed
  qed
qed

section \<open>The workers\<close>

text \<open>What is asked of a worker before it runs: a file to send is there and has numbers for all its packets.\<close>

definition sendable :: "TransferMode \<Rightarrow> bytes option \<Rightarrow> bool" where
  "sendable mode content \<longleftrightarrow> (\<exists>bs. content = Some bs \<and> fits (wire_content mode bs))"

lemma run_download_speaks:
  assumes "run_download X src mode pas t S = Some S'" "t = sv_sender_init True a tt"
    "sendable mode (files (disk (tree S)) (native src))"
  shows "exchanged (speaks from_sender) (net S) (net S')"
  using assms(1)
proof (cases rule: run_download_run)
  case (idle w b)
  then have "exchanged (speaks from_sender) (net S) w" by (auto elim!: exchanged_weaken simp: speaks_sender)
  with idle(2) show ?thesis by simp
next
  case (ran a' tm t' w res t2 w2 F)
  obtain bs where bs: "files (disk (tree S)) (native src) = Some bs" "fits (wire_content mode bs)"
    using assms(3) by (auto simp: sendable_def)
  have inv: "sender_inv (file_stream (wire_content mode bs)) t'"
    using ran(3) assms(2) sv_sender_init_inv [of _ True a tt] by (simp add: sender_inv_def)
  have "exchanged (speaks from_sender) (net S) w" using ran(1) by (auto elim!: exchanged_weaken simp: speaks_sender)
  moreover have "exchanged (speaks from_sender) w w2"
    using sv_snd.send_file_outcome [OF ran(4) [unfolded sv_sendFile_def] bs inv] speaks_sender(1)
    unfolding sv_snd.frame_def exchanged_def sends_stream_def by blast
  ultimately show ?thesis using ran(5) by (auto intro: exchanged_trans)
qed

lemma net_remove [simp]: "net (remove_if b p S) = net S" "net (remove_opt q S) = net S" "net (on_sess f S) = net S"
  by (simp_all add: remove_if_def remove_opt_def remove_path_def on_sess_def split: option.split)

lemma run_upload_speaks:
  assumes "run_upload X dst staging mode pas peer kind name t S = Some S'" "kind = Append \<longleftrightarrow> staging \<noteq> None"
  shows "\<forall>p \<in> set (sent_between (net S) (net S')). speaks from_receiver (fst p)"
  using assms
proof (cases rule: run_upload_run)
  case (idle w b)
  have "exchanged (speaks from_receiver) (net S) w" using idle(1) by (auto elim!: exchanged_weaken simp: speaks_receiver)
  with idle(2) show ?thesis by (simp add: exchanged_sent)
next
  case (ran r w ok r' w2 F w3 b h g st ok2 S4)
  have "exchanged (speaks from_receiver) (net S) w" using ran(1) by (auto elim!: exchanged_weaken simp: speaks_receiver)
  with sv_receiveFile_exchanged [OF ran(3)] have "exchanged (speaks from_receiver) (net S) w2" by (auto intro: exchanged_trans)
  then have "\<forall>p \<in> set (sent_between (net S) w2). speaks from_receiver (fst p)" by (rule exchanged_sent)
  with ran(5-7) show ?thesis by (simp add: sent_between_def)
qed

lemma run_retrieve_speaks:
  assumes "run_retrieve Y p dm k pa sa mode C = Some C'"
  shows "\<forall>p \<in> set (sent_between (cnet C) (cnet C')). speaks from_receiver (fst p)"
  using assms
proof (cases rule: run_retrieve_run)
  case idle
  have "exchanged (speaks from_receiver) (cnet C) (cnet C')" using idle(1) by (auto elim!: exchanged_weaken simp: speaks_receiver)
  then show ?thesis by (rule exchanged_sent)
next
  case (ran r0 r w ok reason r' w' F)
  have "exchanged (speaks from_receiver) (cnet C) w" using ran(2) by (auto elim!: exchanged_weaken simp: speaks_receiver)
  with cl_receiveFile_exchanged [OF ran(4)] have "exchanged (speaks from_receiver) (cnet C) w'" by (auto intro: exchanged_trans)
  then have "\<forall>p \<in> set (sent_between (cnet C) w'). speaks from_receiver (fst p)" by (rule exchanged_sent)
  with ran(5) show ?thesis by (simp add: sent_between_def)
qed

lemma run_store_speaks:
  assumes "run_store Y verb p dm k pa sa mode C = Some C'" "sendable mode (files (cdisk C) (cl_denotes Y p))"
  shows "\<forall>p \<in> set (sent_between (cnet C) (cnet C')). speaks from_sender (fst p)"
proof -
  obtain bs where bs: "files (cdisk C) (cl_denotes Y p) = Some bs" "fits (wire_content mode bs)"
    using assms(2) by (auto simp: sendable_def)
  from run_store_wire [OF assms(1) bs] show ?thesis using speaks_sender(1,3) by metis
qed

text \<open>What the workers of the two programs need, and the role they have.\<close>

definition sv_prepared :: "server \<Rightarrow> bool" where
  "sv_prepared S \<longleftrightarrow>
     (case transferWorker (sess S) of
        Some (Download src mode pas t) \<Rightarrow>
          (\<exists>a tt. t = sv_sender_init True a tt) \<and> sendable mode (files (disk (tree S)) (native src))
      | Some (Upload dst staging mode pas peer kind name t) \<Rightarrow> kind = Append \<longleftrightarrow> staging \<noteq> None
      | _ \<Rightarrow> True)"

definition cl_prepared :: "cl_system \<Rightarrow> client \<Rightarrow> bool" where
  "cl_prepared Y C \<longleftrightarrow>
     (case c_transferWorker (cst C) of
        Some (Storing verb p dm k pa sa mode) \<Rightarrow> sendable mode (files (cdisk C) (cl_denotes Y p))
      | _ \<Rightarrow> True)"

definition sv_role :: "worker option \<Rightarrow> message \<Rightarrow> bool" where
  "sv_role k = (case k of Some (Download src mode pas t) \<Rightarrow> from_sender | _ \<Rightarrow> from_receiver)"

definition cl_role :: "cl_worker option \<Rightarrow> message \<Rightarrow> bool" where
  "cl_role k = (case k of Some (Storing verb p dm i pa sa mode) \<Rightarrow> from_sender | _ \<Rightarrow> from_receiver)"

lemma sv_worker_speaks:
  assumes "run_worker X S = Some S'" "sv_prepared S"
  shows "\<forall>p \<in> set (sent_between (net S) (net S')). speaks (sv_role (transferWorker (sess S))) (fst p)"
proof -
  have silent: "sent_between (net S) (net S) = []" by (simp add: sent_between_def)
  consider (down) src mode pas t S1 where "transferWorker (sess S) = Some (Download src mode pas t)"
      "run_download X src mode pas t S = Some S1" "net S' = net S1"
    | (up) dst staging mode pas peer kind name t S1 where
      "transferWorker (sess S) = Some (Upload dst staging mode pas peer kind name t)"
      "run_upload X dst staging mode pas peer kind name t S = Some S1" "net S' = net S1"
    | (none) "S' = S"
    using assms(1) by (auto simp: run_worker_def split: option.splits worker.splits)
  then show ?thesis
  proof cases
    case down
    then obtain a tt where "t = sv_sender_init True a tt" "sendable mode (files (disk (tree S)) (native src))"
      using assms(2) by (auto simp: sv_prepared_def)
    from exchanged_sent [OF run_download_speaks [OF down(2) this]] down show ?thesis by (simp add: sv_role_def)
  next
    case up
    then have "kind = Append \<longleftrightarrow> staging \<noteq> None" using assms(2) by (simp add: sv_prepared_def)
    from run_upload_speaks [OF up(2) this] up show ?thesis by (simp add: sv_role_def)
  qed (simp add: silent)
qed

lemma cl_worker_speaks:
  assumes "cl_run_worker Y C = Some C'" "cl_prepared Y C"
  shows "\<forall>p \<in> set (sent_between (cnet C) (cnet C')). speaks (cl_role (c_transferWorker (cst C))) (fst p)"
proof -
  have silent: "sent_between (cnet C) (cnet C) = []" by (simp add: sent_between_def)
  consider (store) verb p dm k pa sa mode where "c_transferWorker (cst C) = Some (Storing verb p dm k pa sa mode)"
      "run_store Y verb p dm k pa sa mode C = Some C'"
    | (retrieve) p dm k pa sa mode where "c_transferWorker (cst C) = Some (Retrieving p dm k pa sa mode)"
      "run_retrieve Y p dm k pa sa mode C = Some C'"
    | (none) "C' = C"
    using assms(1) by (auto simp: cl_run_worker_def split: option.splits cl_worker.splits)
  then show ?thesis
  proof cases
    case store
    with assms(2) run_store_speaks [OF store(2)] show ?thesis by (simp add: cl_prepared_def cl_role_def)
  next
    case retrieve
    with run_retrieve_speaks [OF retrieve(2)] show ?thesis by (simp add: cl_role_def)
  qed (simp add: silent)
qed

text \<open>
  C6: the datagrams are well typed. Whatever the network, the peer and the system do, every datagram that a worker
  of either program puts on the wire is a valid message of its role: a worker that sends a file emits only data
  packets of at most 1024 bytes and the acknowledgement of a handshake, a worker that receives one only handshakes,
  acknowledgements and refusals.
\<close>

theorem messages_typed:
  assumes "run_worker X S = Some S'" "sv_prepared S" "cl_run_worker Y C = Some C'" "cl_prepared Y C"
  shows "(\<forall>p \<in> set (sent_between (net S) (net S')). speaks (sv_role (transferWorker (sess S))) (fst p)) \<and>
    (\<forall>p \<in> set (sent_between (cnet C) (cnet C')). speaks (cl_role (c_transferWorker (cst C))) (fst p))"
  using sv_worker_speaks [OF assms(1,2)] cl_worker_speaks [OF assms(3,4)] by blast

theorem messages_typed_witness:
  "\<exists>S' C'. run_worker hashing_server source_server = Some S' \<and> cl_run_worker hashing_client fetching_client = Some C' \<and>
     map (message_of \<circ> fst) (sent_between (net source_server) (net S')) = [Some (Data 0 True [65])] \<and>
     (\<forall>p \<in> set (sent_between (net source_server) (net S')). speaks from_sender (fst p)) \<and>
     (\<forall>p \<in> set (sent_between (cnet fetching_client) (cnet C')). speaks from_receiver (fst p))"
proof -
  have k: "transferWorker (sess source_server) = Some (Download sample_source Binary False (sv_sender_init True sample_peer 500))"
    "c_transferWorker (cst fetching_client) = Some (Retrieving ''d'' ActiveData 30 zero_addr sample_peer Binary)"
    by (simp_all add: source_server_def fetching_client_def)
  obtain S1 where S1: "run_download hashing_server sample_source Binary False (sv_sender_init True sample_peer 500) source_server = Some S1"
    "sent_between (net source_server) (net S1) = [(data_bytes 0 True 4 [65], sample_peer)]" "toPeer (chan S1) = sample_done"
    by (rule source_download)
  let ?S' = "on_sess (transferWorker_update (\<lambda>_. Some WorkerDone)) S1"
  obtain C' where C: "run_retrieve hashing_client ''d'' ActiveData 30 zero_addr sample_peer Binary fetching_client = Some C'"
    "sent_between (cnet fetching_client) (cnet C') = [(cl_ack 0, sample_peer)]" by (rule fetching_retrieve)
  have run: "run_worker hashing_server source_server = Some ?S'" "cl_run_worker hashing_client fetching_client = Some C'"
    using S1(1) C(1) by (simp_all add: run_worker_def cl_run_worker_def k)
  have ready: "sv_prepared source_server" "cl_prepared hashing_client fetching_client"
    using sample_download_setting(2) sample_writing(3)
    by (auto simp: sv_prepared_def cl_prepared_def k sendable_def wire_content_def)
  have msgs: "map (message_of \<circ> fst) (sent_between (net source_server) (net ?S')) = [Some (Data 0 True [65])]"
    using S1(2) by (simp add: data_message MAX_PAYLOAD_def)
  from messages_typed [OF run(1) ready(1) run(2) ready(2)] run msgs show ?thesis
    by (intro exI [of _ ?S'] exI [of _ C']) (simp add: k sv_role_def cl_role_def)
qed

end
