(* ===== verification/Abort_Race.thy ===== *)
theory Abort_Race
  imports Session_Pair
begin

text \<open>
  ABOR and the end of a transfer. The server answers ABOR even if the worker has already sent its completion
  reply; the client reads one reply for both. The two programs are then out of step by one reply.
\<close>

section \<open>The client reads one reply\<close>

text \<open>A worker takes one reply from the connection, whatever becomes of its transfer.\<close>

lemma readReply_takes:
  assumes "cl_readReply C = (completion, C')" "reply_code code" "ls \<noteq> []" "\<forall>l \<in> set ls. LF \<notin> set l"
    "incoming (c_replyBuffer (cst C)) (ctl C) (reply_text code ls @ rest)"
  shows "incoming (c_replyBuffer (cst C')) (ctl C') rest \<and> toPeer (ctl C') = toPeer (ctl C) \<and>
    sendResults (ctl C') = sendResults (ctl C) \<and> shut (ctl C') = shut (ctl C)"
proof -
  obtain b c where r: "incoming b c rest" "read_reply (c_replyBuffer (cst C)) False no_reply (ctl C) =
      (True, \<lparr>rcode = code, rline = last (shown code ls), rlines = shown code ls\<rparr>, b, c)"
    using read_reply_text [OF assms(2-4) _ assms(5), of no_reply False] by (auto simp: no_reply_def)
  with read_reply_frame [OF r(2)] assms(1) show ?thesis by (auto simp: cl_readReply_def readReply_def on_cst_def)
qed

lemma worker_takes_reply:
  assumes "cl_run_worker X C = Some C'" "worker_socket (c_transferWorker (cst C)) \<noteq> []" "reply_code code" "ls \<noteq> []"
    "\<forall>l \<in> set ls. LF \<notin> set l" "incoming (c_replyBuffer (cst C)) (ctl C) (reply_text code ls @ rest)"
  shows "incoming (c_replyBuffer (cst C')) (ctl C') rest \<and> toPeer (ctl C') = toPeer (ctl C) \<and>
    sendResults (ctl C') = sendResults (ctl C) \<and> shut (ctl C') = shut (ctl C)"
proof -
  obtain k where "worker_socket (c_transferWorker (cst C)) = [k]" using worker_socket_one [OF assms(2)] by blast
  from cl_run_worker_outcome [OF assms(1) this] obtain completion C1 C2 C3
    where o: "quiet C C1" "cl_readReply C1 = (completion, C2)" "quiet C2 C3" "C' = end_worker k C3" by metis
  have "incoming (c_replyBuffer (cst C1)) (ctl C1) (reply_text code ls @ rest)" using o(1) assms(6) by (simp add: quiet_def)
  from readReply_takes [OF o(2) assms(3-5) this] o(1,3) show ?thesis
    unfolding o(4) end_worker_def by (simp add: quiet_def)
qed

lemma client_abor:
  assumes "client_line Y input C = Some (Returns (b, C'))" "upper_string (hd (split_words input)) = ''ABOR''"
    "length (split_words input) = 1" "c_transferActive (cst C)" "worker_socket (c_transferWorker (cst C)) \<noteq> []"
    "calm (ctl C)" "reply_code code" "ls \<noteq> []" "\<forall>l \<in> set ls. LF \<notin> set l"
    "incoming (c_replyBuffer (cst C)) (ctl C) (reply_text code ls @ rest)"
  shows "b \<and> toPeer (ctl C') = toPeer (ctl C) @ ''ABOR'' @ CRLF \<and> calm (ctl C') \<and> \<not> c_transferActive (cst C') \<and>
    incoming (c_replyBuffer (cst C')) (ctl C') rest"
proof -
  let ?A = "on_cst (c_abortRequested_update (\<lambda>_. True)) C"
  let ?C1 = "?A\<lparr>ctl := (ctl C)\<lparr>toPeer := toPeer (ctl C) @ ''ABOR'' @ CRLF\<rparr>\<rparr>"
  have ne: "split_words input \<noteq> []" using assms(3) by auto
  have send: "cl_send ''ABOR'' ?A = (True, ?C1)" using assms(6) by (simp add: cl_send_def sendCommand_calm)
  obtain C2 where j: "cl_join_worker Y ?C1 = Some C2" "b" "C' = on_cst (c_transferActive_update (\<lambda>_. False)) C2"
    using assms(1-4) ne send by (auto simp: client_line_def Let_def)
  have w: "c_transferWorker (cst ?C1) = c_transferWorker (cst C)" by simp
  have "c_transferWorker (cst C) \<noteq> None" using assms(5) by (cases "c_transferWorker (cst C)") simp_all
  then obtain C3 where C3: "cl_run_worker Y ?C1 = Some C3" "C2 = on_cst (c_transferWorker_update (\<lambda>_. None)) C3"
    using j(1) w by (auto simp: cl_join_worker_def)
  have "incoming (c_replyBuffer (cst ?C1)) (ctl ?C1) (reply_text code ls @ rest)" using assms(10) by (simp add: incoming_def)
  from worker_takes_reply [OF C3(1) _ assms(7-9) this] assms(5,6) show ?thesis
    unfolding j(3) C3(2) using j(2) by (simp add: calm_def)
qed

section \<open>The server sends two\<close>

lemma abor_answer:
  assumes "handle_line X (''ABOR'' @ [CR]) S = Some (Returns S')" "calm (chan S)" "ctlSocket (sess S) \<noteq> None"
    "authenticated (sess S)" "\<not> transferActive (sess S)"
  shows "toPeer (chan S') = toPeer (chan S) @ reply_text 226 [''No transfer in progress.'']"
proof -
  have v: "list_all is_word [''ABOR'']" "upper_string ''ABOR'' = ''ABOR''" by code_simp+
  have m: "map_of commandMap ''ABOR'' = Some cmd_ABOR" by (simp add: commandMap_def)
  have "executeCommand X \<lparr>rawCommand = ''ABOR'', cmdType = ''ABOR'', cmdArgs = []\<rparr> S = Some (Returns S')"
    using say [of "''ABOR''" "[]" X S] v assms(1) by simp
  with m assms(2-5) show ?thesis
    by (auto simp: executeCommand_def Let_def cmd_ABOR_def replyWithCode_calm simp del: reply_text.simps)
qed

text \<open>
  C15: after ABOR the client may be one reply behind. A transfer of the server ends with its reply just before ABOR
  arrives; ABOR is answered as well. The client sends ABOR while its worker still runs, and reads one
  reply for both. The reply to ABOR is left over: the next command the user gives is shown this reply as its
  answer, and a TYPE that the server refuses changes the client's transfer mode.
\<close>

theorem abort_out_of_step:
  assumes "run_worker X1 S = Some S1" "chan S1 = replyWithCode code msg (chan S)" "reply_code code" "LF \<notin> set msg"
    and "handle_line X2 (''ABOR'' @ [CR]) S1 = Some (Returns S2)" "calm (chan S)" "ctlSocket (sess S) \<noteq> None"
    and "authenticated (sess S)"
    and "client_line Y input C = Some (Returns (b, C'))" "length (split_words input) = 1" "upper_string (hd (split_words input)) = ''ABOR''" "c_transferActive (cst C)"
    and "worker_socket (c_transferWorker (cst C)) \<noteq> []" "calm (ctl C)" "toPeer (chan S2) = toPeer (chan S) @ sent"
    and "incoming (c_replyBuffer (cst C)) (ctl C) (sent @ later)"
  shows "b \<and> incoming (c_replyBuffer (cst C')) (ctl C') (reply_text 226 [''No transfer in progress.''] @ later) \<and>
    (\<exists>C''. forwardCommand ''TYPE A'' [''TYPE'', ''A''] C' = (True, C'') \<and>
       console C'' = console C' @ [Cout ''226 No transfer in progress.''] \<and>
       c_transferMode (cst C'') = ASCII \<and> incoming (c_replyBuffer (cst C'')) (ctl C'') later)"
proof -
  have c1: "toPeer (chan S1) = toPeer (chan S) @ reply_text code [msg]" "calm (chan S1)"
    using assms(2,6) by (simp_all add: replyWithCode_calm calm_def del: reply_text.simps)
  then have "S1 \<noteq> S" by (cases "reply_text code [msg]") auto
  then have left: "\<not> transferActive (sess S1) \<and> authenticated (sess S1) \<and> ctlSocket (sess S1) \<noteq> None"
    using run_worker_left [OF assms(1)] assms(7,8) by (auto simp: worker_left_def)
  have "toPeer (chan S2) = toPeer (chan S1) @ reply_text 226 [''No transfer in progress.'']"
    using abor_answer [OF assms(5) c1(2)] left by blast
  with c1(1) assms(15) have sent: "sent = reply_text code [msg] @ reply_text 226 [''No transfer in progress.'']"
    by (simp del: reply_text.simps)
  have "b \<and> calm (ctl C') \<and>
      incoming (c_replyBuffer (cst C')) (ctl C') (reply_text 226 [''No transfer in progress.''] @ later)"
    using client_abor [OF assms(9,11,10,12-14,3), of "[msg]"] assms(4,16) sent
    by (simp del: reply_text.simps)
  then have C': "b" "calm (ctl C')"
    "incoming (c_replyBuffer (cst C')) (ctl C') (reply_text 226 [''No transfer in progress.''] @ later)" by blast+
  have n: "reply_code 226" "[''No transfer in progress.''] \<noteq> []" "\<forall>l \<in> set [''No transfer in progress.'']. LF \<notin> set l" by simp_all
  obtain b2 c where f: "forwardCommand ''TYPE A'' [''TYPE'', ''A''] C' =
      (True, C'\<lparr>cst := (cst C')\<lparr>c_replyBuffer := b2, c_transferMode := told [''TYPE'', ''A''] 226 (c_transferMode (cst C'))\<rparr>, ctl := c,
         console := console C' @ map Cout (shown 226 [''No transfer in progress.''])\<rparr>)" "incoming b2 c later"
    using forwardCommand_reply [OF C'(2) n C'(3), of "''TYPE A''" "[''TYPE'', ''A'']"] by blast
  have "told [''TYPE'', ''A''] 226 m = ASCII" for m by code_simp
  moreover have "shown 226 [''No transfer in progress.''] = [''226 No transfer in progress.'']" by code_simp
  ultimately show ?thesis using C'(1,3) f by simp
qed

section \<open>Example\<close>

definition busy_client :: "string list \<Rightarrow> client" where
  "busy_client pieces = (sample_client pieces)\<lparr>cst := (new_client_state zero_addr)\<lparr>c_transferActive := True,
     c_transferWorker := Some (Retrieving ''x'' PassiveData 30 zero_addr zero_addr Binary)\<rparr>,
     cnet := (idle_world [])\<lparr>aborts := [True]\<rparr>\<rparr>"

definition busy_server :: server where
  "busy_server = on_sess (\<lambda>s. s\<lparr>authenticated := True, transferActive := True,
     transferWorker := Some (Download (sample_path ''a'') Binary False (sv_sender_init True zero_addr 500))\<rparr>) sample_server"

lemma busy_served:
  "case run_worker sample_surroundings busy_server of
     Some S1 \<Rightarrow> chan S1 = replyWithCode 426 ''Transfer failed.'' (chan busy_server) \<and>
       (case handle_line sample_surroundings (''ABOR'' @ [CR]) S1 of
          Some (Returns S2) \<Rightarrow> toPeer (chan S2) = ''426 Transfer failed.'' @ CRLF @ ''226 No transfer in progress.'' @ CRLF
        | _ \<Rightarrow> False)
   | None \<Rightarrow> False"
  by code_simp

lemma busy_aborts:
  "case client_line sample_system ''abor'' (busy_client [''426 Transfer failed.'' @ CRLF @ ''226 No transfer in progress.'' @ CRLF]) of
     Some (Returns (b, C')) \<Rightarrow> b | _ \<Rightarrow> False"
  by code_simp

theorem abort_out_of_step_witness:
  "\<exists>C' C''. client_line sample_system ''abor''
       (busy_client [''426 Transfer failed.'' @ CRLF @ ''226 No transfer in progress.'' @ CRLF]) = Some (Returns (True, C')) \<and>
     forwardCommand ''TYPE A'' [''TYPE'', ''A''] C' = (True, C'') \<and> c_transferMode (cst C'') = ASCII"
proof -
  let ?s = "''426 Transfer failed.'' @ CRLF @ ''226 No transfer in progress.'' @ CRLF"
  let ?C = "busy_client [?s]"
  obtain S1 S2 where S: "run_worker sample_surroundings busy_server = Some S1"
    "chan S1 = replyWithCode 426 ''Transfer failed.'' (chan busy_server)"
    "handle_line sample_surroundings (''ABOR'' @ [CR]) S1 = Some (Returns S2)" "toPeer (chan S2) = ?s"
    using busy_served by (auto split: option.splits outcome.splits)
  obtain b C' where c: "client_line sample_system ''abor'' ?C = Some (Returns (b, C'))"
    using busy_aborts by (auto split: option.splits outcome.splits)
  have w: "split_words ''abor'' = [''abor'']" "upper_string ''abor'' = ''ABOR''" by code_simp+
  have s: "calm (chan busy_server)" "ctlSocket (sess busy_server) \<noteq> None" "authenticated (sess busy_server)"
    "toPeer (chan busy_server) = []"
    by (simp_all add: busy_server_def sample_server_def new_session_def calm_def)
  have k: "c_transferActive (cst ?C)" "worker_socket (c_transferWorker (cst ?C)) \<noteq> []" "calm (ctl ?C)"
    "incoming (c_replyBuffer (cst ?C)) (ctl ?C) (?s @ [])"
    by (simp_all add: busy_client_def sample_client_def new_client_state_def calm_def incoming_def)
  have t: "toPeer (chan S2) = toPeer (chan busy_server) @ ?s" using S(4) s(4) by simp
  from abort_out_of_step [OF S(1,2) _ _ S(3) s(1-3) c _ _ k(1-3) t k(4)] w c show ?thesis by auto
qed

end
