(* ===== verification/Transfer_Session.thy ===== *)
theory Transfer_Session
  imports Wire_Types Abort_Race
begin

text \<open>
  A transfer on the control connection: the command, the preliminary reply, the workers of both programs and
  the completion reply. Both sides are in step again when both workers have ended.
\<close>

section \<open>The server's side\<close>

text \<open>A session without a running worker, and what a worker is when it is started.\<close>

definition at_rest :: "server \<Rightarrow> bool" where
  "at_rest S \<longleftrightarrow> \<not> transferActive (sess S) \<and> (transferWorker (sess S) = None \<or> transferWorker (sess S) = Some WorkerDone)"

definition startable :: "worker option \<Rightarrow> bool" where
  "startable wk \<longleftrightarrow>
     (case wk of
        Some (Download src mode pas t) \<Rightarrow> True
      | Some (Upload dst staging mode pas peer kind name t) \<Rightarrow> (kind = Append \<longleftrightarrow> staging \<noteq> None) \<and> LF \<notin> set name
      | _ \<Rightarrow> False)"

lemma at_rest_runs: "at_rest S \<Longrightarrow> run_worker X S = Some S"
  by (auto simp: at_rest_def run_worker_def)

definition opened :: "tcp \<Rightarrow> tcp" where
  "opened c = replyWithCode 150 ''Opening data connection.'' c"

text \<open>
  What the command of a transfer does with a connection \<open>c\<close>: it is refused, opened and then given up, or opened
  with a worker.
\<close>

definition takes_up :: "tcp \<Rightarrow> server \<Rightarrow> bool" where
  "takes_up c S \<longleftrightarrow>
     (\<exists>code msg. code \<noteq> 150 \<and> reply_code code \<and> LF \<notin> set msg \<and> chan S = replyWithCode code msg c \<and> at_rest S) \<or>
     (\<exists>msg. LF \<notin> set msg \<and> chan S = replyWithCode 425 msg (opened c) \<and> at_rest S) \<or>
     (chan S = opened c \<and> startable (transferWorker (sess S)) \<and> transferActive (sess S))"

lemma takes_up_refused:
  "code \<noteq> 150 \<Longrightarrow> reply_code code \<Longrightarrow> LF \<notin> set msg \<Longrightarrow> chan S = replyWithCode code msg c \<Longrightarrow> at_rest S \<Longrightarrow> takes_up c S"
  unfolding takes_up_def by blast

lemma takes_up_reply [intro!]:
  "code \<noteq> 150 \<Longrightarrow> reply_code code \<Longrightarrow> LF \<notin> set msg \<Longrightarrow> at_rest S \<Longrightarrow> chan S = c \<Longrightarrow> takes_up c (reply code msg S)"
  "code \<noteq> 150 \<Longrightarrow> reply_code code \<Longrightarrow> LF \<notin> set msg \<Longrightarrow> at_rest S \<Longrightarrow> chan S = c \<Longrightarrow> ctlSocket (sess S) \<noteq> None \<Longrightarrow>
   takes_up c (sessionReply code msg S)"
  by (auto simp: at_rest_def intro!: takes_up_refused)

lemma takes_up_removed [simp]: "takes_up c (remove_if b p S) = takes_up c S"
  by (simp add: takes_up_def at_rest_def)

lemma takes_up_given: "LF \<notin> set msg \<Longrightarrow> chan S = replyWithCode 425 msg (opened c) \<Longrightarrow> at_rest S \<Longrightarrow> takes_up c S"
  unfolding takes_up_def by blast

lemma takes_up_started:
  "chan S = opened c \<Longrightarrow> startable (transferWorker (sess S)) \<Longrightarrow> transferActive (sess S) \<Longrightarrow> takes_up c S"
  unfolding takes_up_def by blast

lemma startDownloadTransfer_takes_up:
  assumes "ctlSocket (sess S) \<noteq> None" "at_rest S"
  shows "takes_up (chan S) (startDownloadTransfer X src S)"
proof -
  let ?J = "joinCompletedTransfer S"
  let ?passive = "dataChannelMode (sess ?J) = Passive"
  obtain t w where tw: "(if ?passive then sv_RdtSender_existing (pendingDataSocket (sess ?J) \<noteq> None) DEFAULT_TIMEOUT_MS (net ?J)
     else sv_RdtSender_target (inet_pton_of X) (dotted (sin_addr (pendingPeerAddr (sess ?J))))
            (sin_port (pendingPeerAddr (sess ?J))) DEFAULT_TIMEOUT_MS (net ?J)) = (t, w)" by fastforce
  show ?thesis
  proof (cases "dataChannelMode (sess S) = NoChannel")
    case True
    with assms show ?thesis
      by (auto simp: startDownloadTransfer_def)
  next
    case False
    note run = startDownloadTransfer_def [of X src S, unfolded Let_def tw prod.case]
    consider "\<not> ss_socketOk t" | "ss_socketOk t" "\<not> threadStarts X" | "ss_socketOk t" "threadStarts X" by blast
    then show ?thesis
    proof cases
      case 1
      show ?thesis unfolding run by (rule takes_up_refused [of 425 "''Could not open data connection.''"]) (use False assms 1 in \<open>auto simp: at_rest_def\<close>)
    next
      case 2
      show ?thesis unfolding run
        by (rule takes_up_given [of "''Could not start transfer worker.''"]) (use False assms 2 in \<open>auto simp: at_rest_def opened_def\<close>)
    next
      case 3
      show ?thesis unfolding run
        by (rule takes_up_started) (use False assms 3 in \<open>auto simp: at_rest_def opened_def startable_def\<close>)
    qed
  qed
qed

lemma startUploadTransfer_takes_up:
  assumes "ctlSocket (sess S) \<noteq> None" "at_rest S" "LF \<notin> set name"
  shows "takes_up (chan S) (startUploadTransfer X dst kind name S)"
proof -
  obtain staging st where g: "(if kind = Append then createSiblingTemporaryPath dst (tree S) else (None, tree S)) = (staging, st)"
    by fastforce
  let ?J = "joinCompletedTransfer (S\<lparr>tree := st\<rparr>)"
  let ?passive = "dataChannelMode (sess ?J) = Passive"
  obtain t w where tw: "(if ?passive then sv_RdtReceiver_existing (pendingDataSocket (sess ?J) \<noteq> None) (net ?J)
     else sv_RdtReceiver_listen (net ?J)) = (t, w)" by fastforce
  show ?thesis
  proof (cases "dataChannelMode (sess S) = NoChannel \<or> kind = Append \<and> staging = None")
    case True
    with assms show ?thesis unfolding startUploadTransfer_def g by (auto simp: at_rest_def Let_def)
  next
    case False
    have k: "kind = Append \<longleftrightarrow> staging \<noteq> None" using False g by (auto split: if_splits)
    note run = startUploadTransfer_def [of X dst kind name S, unfolded g Let_def prod.case tw]
    consider "\<not> udpSocketOk t" | "udpSocketOk t" "\<not> threadStarts X" | "udpSocketOk t" "threadStarts X" by blast
    then show ?thesis
    proof cases
      case 1
      show ?thesis unfolding run by (rule takes_up_refused [of 425 "''Could not open data connection.''"]) (use False assms 1 in \<open>auto simp: at_rest_def\<close>)
    next
      case 2
      show ?thesis unfolding run
        by (rule takes_up_given [of "''Could not start transfer worker.''"]) (use False assms 2 in \<open>auto simp: at_rest_def opened_def\<close>)
    next
      case 3
      show ?thesis unfolding run
        by (rule takes_up_started) (use False assms k 3 in \<open>auto simp: at_rest_def opened_def startable_def\<close>)
    qed
  qed
qed

lemma startDownload_takes_up_at:
  "ctlSocket (sess S1) \<noteq> None \<Longrightarrow> at_rest S1 \<Longrightarrow> chan S1 = c \<Longrightarrow> takes_up c (startDownloadTransfer X src S1)"
  using startDownloadTransfer_takes_up by blast

lemma startUpload_takes_up_at:
  "ctlSocket (sess S1) \<noteq> None \<Longrightarrow> at_rest S1 \<Longrightarrow> LF \<notin> set name \<Longrightarrow> chan S1 = c \<Longrightarrow>
   takes_up c (startUploadTransfer X dst kind name S1)"
  using startUploadTransfer_takes_up by blast

lemma upload_name_line: "LF \<notin> set (upload_name n)"
  using no_LF_to_string [of "unat n"] by (auto simp: upload_name_def pad4_def LF_def)

lemma reserved_name_line:
  "reserveUniqueUpload E cur n st = (Some (p, name), n', st') \<Longrightarrow> LF \<notin> set name"
  using reserve_loop_outcome [of 10000 E cur n st] upload_name_line by (auto simp: reserveUniqueUpload_def)

lemma transfer_handler:
  assumes "map_of commandMap verb = Some h" "verb \<in> set transfer_commands" "h X args S = Some (Returns S')"
    "ctlSocket (sess S) \<noteq> None" "at_rest S"
  shows "takes_up (chan S) S'"
proof -
  have h: "h = cmd_RETR \<or> h = cmd_STOR \<or> h = cmd_STOU \<or> h = cmd_APPE"
    using assms(1,2) by (auto simp: transfer_commands_def commandMap_def)
  have r: "at_rest (S\<lparr>tree := st\<rparr>)" "at_rest (S\<lparr>nextId := n, tree := st\<rparr>)" for st n using assms(5) by (simp_all add: at_rest_def)
  from h assms(3) show ?thesis
  proof (elim disjE)
    assume "h = cmd_RETR"
    with assms(3) show ?thesis using assms(4,5) r
      by (auto simp: cmd_RETR_def at_rest_def split: if_splits option.splits prod.splits
          intro!: startDownload_takes_up_at)
  next
    assume "h = cmd_STOR"
    with assms(3) show ?thesis using assms(4,5) r
      by (auto simp: cmd_STOR_def at_rest_def split: if_splits option.splits prod.splits
          intro!: startUpload_takes_up_at)
  next
    assume "h = cmd_STOU"
    with assms(3) show ?thesis using assms(4,5) r
      by (auto simp: cmd_STOU_def at_rest_def split: if_splits option.splits prod.splits
          intro!: startUpload_takes_up_at dest: reserved_name_line)
  next
    assume "h = cmd_APPE"
    with assms(3) show ?thesis using assms(4,5) r
      by (auto simp: cmd_APPE_def at_rest_def split: if_splits option.splits prod.splits
          intro!: startUpload_takes_up_at)
  qed
qed

lemma transfer_line:
  assumes "handle_line X line S = Some (Returns S')" "cmdType (parseCommand (strip_cr line)) \<in> set transfer_commands"
    "ctlSocket (sess S) \<noteq> None" "at_rest S"
  shows "takes_up (chan S) S'"
proof -
  let ?p = "parseCommand (strip_cr line)"
  have v: "cmdType ?p \<noteq> []" "cmdType ?p \<notin> set open_commands" "\<exists>h. map_of commandMap (cmdType ?p) = Some h"
    using assms(2) by (auto simp: transfer_commands_def open_commands_def commandMap_def)
  have ex: "executeCommand X ?p S = Some (Returns S')" using assms(1) v(1) by (simp add: handle_line_def Let_def)
  obtain h where h: "map_of commandMap (cmdType ?p) = Some h" using v(3) by blast
  show ?thesis
  proof (cases "authenticated (sess S)")
    case False
    then have "S' = reply 530 ''Please log in using USER and PASS.'' S" using ex v(2) by (simp add: executeCommand_def)
    with assms(4) show ?thesis by (intro takes_up_refused [of 530]) (auto simp: at_rest_def)
  next
    case True
    have run: "h X (cmdArgs ?p) (joinCompletedTransfer S) = Some (Returns S')"
      using ex True assms(4) h by (simp add: executeCommand_def at_rest_def Let_def)
    have "at_rest (joinCompletedTransfer S)" using assms(4) by (simp add: at_rest_def)
    from transfer_handler [OF h assms(2) run _ this] assms(3) show ?thesis by simp
  qed
qed

subsection \<open>The end of the worker\<close>

lemma finishTransfer_reports:
  assumes "ctlSocket (sess S) \<noteq> None" "\<not> abortRequested (sess S)" "LF \<notin> set msg"
  shows "\<exists>code m. (code = 226 \<or> code = 426) \<and> LF \<notin> set m \<and> chan (finishTransfer ok msg S) = replyWithCode code m (chan S)"
  using assms
  by (intro exI [of _ "if ok then 226 else 426"] exI [of _ "if ok then msg else ''Transfer failed.''"])
    (auto simp: finishTransfer_def)

lemma finishTransfer_flag [simp]: "abortRequested (sess (finishTransfer ok msg S)) = abortRequested (sess S)"
  by (simp add: finishTransfer_def)

lemma send_file_hash:
  assumes "send_file_over sendChunk flush hashFile b path mode s w F = Some (res, s', w', F')"
  shows "sha256 res = [] \<or> (\<exists>bs. sha256 res = hashFile bs)"
proof -
  obtain snap F1 where sn: "source_snapshot path F = (snap, F1)" by fastforce
  with assms show ?thesis
    by (auto simp: send_file_over_def Let_def split: option.splits TransferMode.splits if_splits)
qed

lemma append_rest_digest:
  "append_rest hash d i c F = (Some g, F') \<Longrightarrow> g = [] \<or> (\<exists>h bs. hash = Some h \<and> g = h bs)"
  by (auto simp: append_rest_def Let_def split: prod.splits bool.splits option.splits if_splits)

lemma appendAtomically_digest:
  "appendAtomically hash d i st = (Some g, st') \<Longrightarrow> g = [] \<or> (\<exists>h bs. hash = Some h \<and> g = h bs)"
  by (auto simp: appendAtomically_def append_body_def on_disk_def Let_def dest: append_rest_digest
      split: prod.splits bool.splits option.splits if_splits)

lemma finish_append_lines:
  assumes "finish_append X d i mode st = (ok, h, g, st')" "clean X"
  shows "LF \<notin> set h" "LF \<notin> set g"
proof -
  have c: "LF \<notin> set (sha256_of X bs)" for bs using assms(2) by (simp add: clean_def)
  show "LF \<notin> set h" "LF \<notin> set g"
    using assms(1) c hash_path_clean [OF assms(2)]
    by (auto simp: finish_append_def Let_def dest!: appendAtomically_digest split: if_splits prod.splits option.splits)
qed

lemma run_download_reports:
  assumes "run_download X src mode pas t S = Some S'" "clean X" "ctlSocket (sess S) \<noteq> None" "\<not> abortRequested (sess S')"
  shows "\<exists>code m. (code = 226 \<or> code = 426) \<and> LF \<notin> set m \<and> chan S' = replyWithCode code m (chan S)"
  using assms(1)
proof (cases rule: run_download_run)
  case (idle w b)
  with assms(3,4) show ?thesis
    using finishTransfer_reports [of "seen_abort b (S\<lparr>net := w\<rparr>)" "transferCompleteMessage [] [] []" False]
    by (simp add: transferCompleteMessage_line)
next
  case (ran a tm t' w res t2 w2 F)
  have "LF \<notin> set (sha256 res)"
    using send_file_hash [OF ran(4) [unfolded sv_sendFile_def]] assms(2) by (auto simp: clean_def)
  then have "LF \<notin> set (transferCompleteMessage (if mode = Binary then sha256 res else []) [] [])"
    by (simp add: transferCompleteMessage_line)
  with ran(5) assms(3,4) show ?thesis
    using finishTransfer_reports [of "seen_abort False (S\<lparr>net := w2, tree := (tree S)\<lparr>disk := F\<rparr>\<rparr>)" _ "success res"]
    by simp
qed

lemma run_upload_reports:
  assumes "run_upload X dst staging mode pas peer kind name t S = Some S'" "kind = Append \<longleftrightarrow> staging \<noteq> None" "LF \<notin> set name"
    "clean X" "ctlSocket (sess S) \<noteq> None" "\<not> abortRequested (sess S')"
  shows "\<exists>code m. (code = 226 \<or> code = 426) \<and> LF \<notin> set m \<and> chan S' = replyWithCode code m (chan S)"
  using assms(1,2)
proof (cases rule: run_upload_run)
  case (idle w b)
  let ?S = "remove_if (kind = Unique) (native dst) (remove_opt staging (seen_abort b (S\<lparr>net := w\<rparr>)))"
  have "LF \<notin> set (transferCompleteMessage [] name [])" using assms(3) by (simp add: transferCompleteMessage_line)
  from finishTransfer_reports [OF _ _ this, of ?S False] idle(2) assms(5,6) show ?thesis
    by simp
next
  case (ran r w ok r' w2 F w3 b h g st ok2 S4)
  let ?h = "if ok2 \<and> mode = Binary \<and> kind \<noteq> Append then hash_path X (native dst) (tree S4) else h"
  have "LF \<notin> set h \<and> LF \<notin> set g"
    using ran(4) finish_append_lines [of X dst "receive_path dst staging" mode "(tree S)\<lparr>disk := F\<rparr>" ok2 h g st] assms(4) by auto
  then have "LF \<notin> set (transferCompleteMessage ?h name g)"
    using hash_path_clean [OF assms(4)] assms(3) by (intro transferCompleteMessage_line) simp_all
  from finishTransfer_reports [OF _ _ this, of S4 ok2] ran(5,6) assms(5,6) show ?thesis
    by simp
qed

lemma worker_reports:
  assumes "run_worker X S = Some S'" "startable (transferWorker (sess S))" "clean X" "ctlSocket (sess S) \<noteq> None"
    "\<not> abortRequested (sess S')"
  shows "\<exists>code m. (code = 226 \<or> code = 426) \<and> LF \<notin> set m \<and> chan S' = replyWithCode code m (chan S)"
proof -
  consider (down) src mode pas t S1 where "run_download X src mode pas t S = Some S1"
      "S' = on_sess (transferWorker_update (\<lambda>_. Some WorkerDone)) S1"
    | (up) dst staging mode pas peer kind name t S1 where "kind = Append \<longleftrightarrow> staging \<noteq> None" "LF \<notin> set name"
      "run_upload X dst staging mode pas peer kind name t S = Some S1"
      "S' = on_sess (transferWorker_update (\<lambda>_. Some WorkerDone)) S1"
  proof (cases "\<exists>src mode pas t. transferWorker (sess S) = Some (Download src mode pas t)")
    case True
    with assms(1) down show thesis by (auto simp: run_worker_def)
  next
    case False
    then obtain dst staging mode pas peer kind name t where
      "transferWorker (sess S) = Some (Upload dst staging mode pas peer kind name t)" "kind = Append \<longleftrightarrow> staging \<noteq> None"
      "LF \<notin> set name" using assms(2) by (auto simp: startable_def split: option.splits worker.splits)
    with assms(1) up [of kind staging name dst mode pas peer t] show thesis by (auto simp: run_worker_def)
  qed
  then show ?thesis
  proof cases
    case down
    with run_download_reports [OF down(1) assms(3,4)] assms(5) show ?thesis by simp
  next
    case up
    with run_upload_reports [OF up(3,1,2) assms(3,4)] assms(5) show ?thesis by simp
  qed
qed

lemma worker_at_rest:
  assumes "run_worker X S = Some S'" "startable (transferWorker (sess S))"
  shows "at_rest S'" "transferMode (sess S') = transferMode (sess S)"
proof -
  have "transferWorker (sess S') = Some WorkerDone" using assms
    by (auto simp: run_worker_def startable_def split: option.splits worker.splits)
  moreover have "transferWorker (sess S) \<noteq> Some WorkerDone" using assms(2) by (auto simp: startable_def)
  ultimately show "at_rest S'" "transferMode (sess S') = transferMode (sess S)"
    using run_worker_left [OF assms(1)] by (auto simp: worker_left_def at_rest_def)
qed

section \<open>The client's side\<close>

text \<open>The command of a transfer as the client sends it.\<close>

definition transfer_request :: "string \<Rightarrow> bool" where
  "transfer_request command \<longleftrightarrow> cmdType (parseCommand command) \<in> set transfer_commands"

lemma request_words:
  assumes "verb \<in> set transfer_commands"
  shows "transfer_request verb" "transfer_request (verb @ '' '' @ rest)"
proof -
  have w: "is_word verb" "upper_string verb = verb"
    using assms by (auto simp: transfer_commands_def) code_simp+
  have sp: "split_words verb = [verb]" "split_words (verb @ '' '' @ rest) = verb # split_words (CHR '' '' # rest)"
    using split_words_step [of verb "[]"] split_words_step [of verb "'' '' @ rest"] w(1) by (simp_all add: is_space_def)
  show "transfer_request verb" "transfer_request (verb @ '' '' @ rest)"
    using parseCommand_words(1) [of verb] parseCommand_words(1) [of "verb @ '' '' @ rest"] sp w(2) assms
    by (simp_all add: transfer_request_def)
qed

definition requests :: "cl_system \<Rightarrow> client \<Rightarrow> bool \<Rightarrow> client \<Rightarrow> bool" where
  "requests Y C alive C1 \<longleftrightarrow>
     (\<exists>command job failure k F. request_transfer Y command job failure k (C\<lparr>cdisk := F\<rparr>) = (alive, C1) \<and>
        transfer_request command \<and> (\<forall>dm a b t. worker_socket (Some (job dm k a b t)) = [k]))"

lemma requestsI:
  "request_transfer Y command job failure k (C\<lparr>cdisk := F\<rparr>) = (alive, C1) \<Longrightarrow> transfer_request command \<Longrightarrow>
   (\<And>dm a b t. worker_socket (Some (job dm k a b t)) = [k]) \<Longrightarrow> requests Y C alive C1"
  unfolding requests_def by blast

lemma retrieveFile_requests:
  assumes "retrieveFile Y ts C = (alive, C1)" "toPeer (ctl C1) \<noteq> toPeer (ctl C)"
  shows "requests Y C alive C1"
proof -
  have w: "''RETR'' \<in> set transfer_commands" by (simp add: transfer_commands_def)
  show ?thesis using assms request_words(2) [OF w]
    by (auto simp: retrieveFile_def Let_def split: if_splits option.splits prod.splits intro!: requestsI)
qed

lemma storeFile_requests:
  assumes "storeFile Y ts C = Returns (alive, C1)" "toPeer (ctl C1) \<noteq> toPeer (ctl C)" "ts \<noteq> []"
    "upper_string (hd ts) \<in> set transfer_commands"
  shows "requests Y C alive C1"
proof -
  have w: "''STOU'' \<in> set transfer_commands" by (simp add: transfer_commands_def)
  note request = request_words(2) [OF assms(4)] request_words(1) [OF w]
  show ?thesis
    using assms(1-3) request
    by (auto simp: storeFile_def Let_def split: if_splits option.splits prod.splits bool.splits intro!: requestsI)
qed

lemma client_requests:
  assumes "client_line Y input C = Some (Returns (alive, C1))" "\<not> c_transferActive (cst C)"
    "upper_string (hd (split_words input)) \<in> set transfer_commands" "toPeer (ctl C1) \<noteq> toPeer (ctl C)"
  shows "requests Y (cl_joinCompletedTransfer C) alive C1"
proof -
  let ?J = "cl_joinCompletedTransfer C" and ?ts = "split_words input" and ?verb = "upper_string (hd (split_words input))"
  have ts: "?ts \<noteq> []" using assms(1,4) by (auto simp: client_line_def)
  then have d: "dispatch Y input ?ts ?J = Returns (alive, C1)"
    using assms(1-3) by (auto simp: client_line_def Let_def transfer_commands_def split: outcome.splits)
  have n: "toPeer (ctl C1) \<noteq> toPeer (ctl ?J)" using assms(4) by simp
  show ?thesis
  proof (cases "?verb = ''RETR''")
    case True
    then have "retrieveFile Y ?ts ?J = (alive, C1)" using d by (simp add: dispatch_def)
    then show ?thesis using n by (rule retrieveFile_requests)
  next
    case False
    then have "?verb = ''STOR'' \<or> ?verb = ''STOU'' \<or> ?verb = ''APPE''" using assms(3) by (auto simp: transfer_commands_def)
    then have "storeFile Y ?ts ?J = Returns (alive, C1)" using d by (auto simp: dispatch_def)
    then show ?thesis using n ts assms(3) by (rule storeFile_requests)
  qed
qed

text \<open>The exchange of the command and the preliminary reply.\<close>

lemma request_sends:
  assumes "request_transfer Y command job failure k D = (alive, C1)" "calm (ctl D)"
  shows "toPeer (ctl C1) = toPeer (ctl D) @ command @ CRLF"
proof -
  let ?D = "D\<lparr>ctl := (ctl D)\<lparr>toPeer := toPeer (ctl D) @ command @ CRLF\<rparr>\<rparr>"
  have send: "cl_send command D = (True, ?D)" using assms(2) by (simp add: cl_send_def sendCommand_calm)
  obtain r C2 where p: "printReply ?D = (r, C2)" by fastforce
  have "toPeer (ctl C2) = toPeer (ctl ?D)"
    using p read_reply_frame
    by (auto simp: printReply_def cl_readReply_def readReply_def split: prod.splits option.splits if_splits)
  with assms(1) show ?thesis unfolding request_transfer_def send prod.case bool.case p
    by (auto simp: start_worker_def Let_def split: option.splits if_splits)
qed

lemma request_reads:
  assumes "request_transfer Y command job failure k D = (alive, C1)" "calm (ctl D)" "\<not> c_transferActive (cst D)"
    "c_transferWorker (cst D) = None" "reply_code code" "LF \<notin> set msg"
    "incoming (c_replyBuffer (cst D)) (ctl D) (reply_text code [msg] @ rest)"
  shows "alive \<and> toPeer (ctl C1) = toPeer (ctl D) @ command @ CRLF \<and> calm (ctl C1) \<and>
    incoming (c_replyBuffer (cst C1)) (ctl C1) rest \<and> c_transferMode (cst C1) = c_transferMode (cst D) \<and>
    c_pendingDataSocket (cst C1) = None \<and>
    (if code = 150 \<and> cl_threadStarts Y
     then c_transferActive (cst C1) \<and> (\<exists>dm a b t. c_transferWorker (cst C1) = Some (job dm k a b t))
     else \<not> c_transferActive (cst C1) \<and> c_transferWorker (cst C1) = None)"
proof -
  have "\<forall>l \<in> set [msg]. LF \<notin> set l" using assms(6) by simp
  then obtain C0 b c where x: "cl_send command D = (True, C0)"
    "printReply C0 = (Some \<lparr>rcode = code, rline = last (shown code [msg]), rlines = shown code [msg]\<rparr>,
       D\<lparr>cst := (cst D)\<lparr>c_replyBuffer := b\<rparr>, ctl := c, console := console D @ map Cout (shown code [msg])\<rparr>)"
    "calm c" "toPeer c = toPeer (ctl D) @ command @ CRLF" "incoming b c rest"
    by (rule exchange [OF assms(2,5) not_Cons_self2 _ assms(7), of command]) (rule that)
  have C1: "alive" "C1 = (let C2 = D\<lparr>cst := (cst D)\<lparr>c_replyBuffer := b\<rparr>, ctl := c, console := console D @ map Cout (shown code [msg])\<rparr>
      in if code \<noteq> 150 then closeDataState C2 else start_worker Y job failure k C2)"
    using assms(1) unfolding request_transfer_def x(1) prod.case bool.case x(2) option.case by (simp_all add: Let_def)
  show ?thesis
  proof (cases "code = 150")
    case False
    with C1 x(3-5) assms(3,4) show ?thesis by (simp add: Let_def)
  next
    case True
    with C1 x(3-5) assms(3,4) show ?thesis
      by (cases "cl_threadStarts Y") (auto simp: Let_def start_worker_def)
  qed
qed

lemma transfer_worker_reads:
  assumes "cl_run_worker Y C = Some C'" "worker_socket (c_transferWorker (cst C)) = [k]" "calm (ctl C)" "reply_code code" "LF \<notin> set msg"
    "incoming (c_replyBuffer (cst C)) (ctl C) (reply_text code [msg] @ rest)"
  shows "calm (ctl C')" "incoming (c_replyBuffer (cst C')) (ctl C') rest" "\<not> c_transferActive (cst C')"
    "toPeer (ctl C') = toPeer (ctl C)" "c_transferMode (cst C') = c_transferMode (cst C)"
    "c_pendingDataSocket (cst C') = c_pendingDataSocket (cst C)"
proof -
  have "worker_socket (c_transferWorker (cst C)) \<noteq> []" using assms(2) by simp
  from worker_takes_reply [OF assms(1) this assms(4) _ _ assms(6)] assms(3,5)
  show "calm (ctl C')" "incoming (c_replyBuffer (cst C')) (ctl C') rest" "toPeer (ctl C') = toPeer (ctl C)"
    by (simp_all add: calm_def)
  obtain completion C1 C2 C3 where o: "quiet C C1" "cl_readReply C1 = (completion, C2)" "quiet C2 C3" "C' = end_worker k C3"
    by (rule cl_run_worker_outcome [OF assms(1,2)]) (rule that)
  have "same_links C C3"
    using o(1,3) unfolding quiet_def by (blast intro: same_links_trans cl_readReply_links [OF o(2)])
  then show "\<not> c_transferActive (cst C')" "c_transferMode (cst C') = c_transferMode (cst C)"
    "c_pendingDataSocket (cst C') = c_pendingDataSocket (cst C)"
    by (simp_all add: o(4) end_worker_def same_links_def)
qed

section \<open>Both sides\<close>

text \<open>What the server says during a transfer: the preliminary reply, and a completion unless it refused.\<close>

lemma transfer_replies:
  assumes "handle_line X line S = Some (Returns S1)" "cmdType (parseCommand (strip_cr line)) \<in> set transfer_commands"
    "ctlSocket (sess S) \<noteq> None" "at_rest S" "calm (chan S)" "run_worker X1 S1 = Some S2" "clean X1"
    "ctlSocket (sess S1) \<noteq> None" "transferActive (sess S1) \<longrightarrow> \<not> abortRequested (sess S2)"
  shows "at_rest S2 \<and> calm (chan S2) \<and> (\<exists>code msg second. reply_code code \<and> LF \<notin> set msg \<and>
    toPeer (chan S2) = toPeer (chan S) @ reply_text code [msg] @ second \<and>
    (if code = 150 then \<exists>code2 msg2. reply_code code2 \<and> LF \<notin> set msg2 \<and> second = reply_text code2 [msg2] else second = []))"
proof -
  have o: "opened (chan S) = (chan S)\<lparr>toPeer := toPeer (chan S) @ reply_text 150 [''Opening data connection.'']\<rparr>"
    "calm (opened (chan S))"
    using assms(5) by (simp_all add: opened_def replyWithCode_calm calm_def del: reply_text.simps)
  let ?first = "\<lambda>code msg second. reply_code code \<and> LF \<notin> set msg \<and>
    toPeer (chan S2) = toPeer (chan S) @ reply_text code [msg] @ second \<and>
    (if code = 150 then \<exists>code2 msg2. reply_code code2 \<and> LF \<notin> set msg2 \<and> second = reply_text code2 [msg2] else second = [])"
  from transfer_line [OF assms(1-4)] consider
      (refused) code msg where "code \<noteq> 150" "reply_code code" "LF \<notin> set msg" "chan S1 = replyWithCode code msg (chan S)" "at_rest S1"
    | (given) msg where "LF \<notin> set msg" "chan S1 = replyWithCode 425 msg (opened (chan S))" "at_rest S1"
    | (started) "chan S1 = opened (chan S)" "startable (transferWorker (sess S1))" "transferActive (sess S1)"
    unfolding takes_up_def by blast
  then have "at_rest S2 \<and> calm (chan S2) \<and> (\<exists>code msg second. ?first code msg second)"
  proof cases
    case refused
    then have "S2 = S1" using assms(6) at_rest_runs by simp
    with refused assms(5) have "?first code msg []" "at_rest S2" "calm (chan S2)"
      by (simp_all add: replyWithCode_calm calm_def del: reply_text.simps)
    then show ?thesis by blast
  next
    case given
    then have "S2 = S1" using assms(6) at_rest_runs by simp
    with given o have "toPeer (chan S2) = toPeer (chan S) @ reply_text 150 [''Opening data connection.''] @ reply_text 425 [msg]"
      "at_rest S2" "calm (chan S2)"
      by (simp_all add: replyWithCode_calm calm_def del: reply_text.simps)
    moreover have "\<exists>code2 msg2. reply_code code2 \<and> LF \<notin> set msg2 \<and> reply_text 425 [msg] = reply_text code2 [msg2]"
      using given(1) by (intro exI [of _ 425] exI [of _ msg]) simp
    ultimately have "?first 150 ''Opening data connection.'' (reply_text 425 [msg])"
      by (simp del: reply_text.simps)
    then show ?thesis using \<open>at_rest S2\<close> \<open>calm (chan S2)\<close> by blast
  next
    case started
    have "\<not> abortRequested (sess S2)" using assms(9) started(3) by blast
    from worker_reports [OF assms(6) started(2) assms(7,8) this] started(1)
    obtain code m where m: "code = 226 \<or> code = 426" "LF \<notin> set m" "chan S2 = replyWithCode code m (opened (chan S))" by auto
    have rc: "reply_code code" using m(1) by auto
    have "at_rest S2" by (rule worker_at_rest(1) [OF assms(6) started(2)])
    moreover have "toPeer (chan S2) = toPeer (chan S) @ reply_text 150 [''Opening data connection.''] @ reply_text code [m]"
      "calm (chan S2)" using m(3) o by (simp_all add: replyWithCode_calm calm_def del: reply_text.simps)
    moreover from this(1) m(2) rc have "?first 150 ''Opening data connection.'' (reply_text code [m])"
      by (auto simp del: reply_text.simps)
    ultimately show ?thesis by blast
  qed
  then show ?thesis by simp
qed

text \<open>
  C5: a transfer leaves the two programs in step. The user types RETR, STOR, STOU or APPE, the client sends the command,
  and the server handles it; the workers of both programs, if they are started, run to their end, and nobody asks for an
  abort. Then neither is at work any more, and the client has read exactly the replies the server has given, whatever
  became of the transfer. If however the client cannot start its thread, the completion reply stays unread: the
  answer to the next command of the user will be this reply.
\<close>

theorem transfers_in_step:
  assumes "handle_line X line S = Some (Returns S1)" "ctlSocket (sess S) \<noteq> None" "at_rest S" "calm (chan S)"
    and "run_worker X1 S1 = Some S2" "clean X1" "ctlSocket (sess S1) \<noteq> None" "transferActive (sess S1) \<longrightarrow> \<not> abortRequested (sess S2)"
    and "client_line Y input C = Some (Returns (alive, C1))" "upper_string (hd (split_words input)) \<in> set transfer_commands"
    and "\<not> c_transferActive (cst C)" "calm (ctl C)" "toPeer (ctl C1) = toPeer (ctl C) @ line @ [LF]"
    and "cl_run_worker Y1 C1 = Some C2"
    and "toPeer (chan S2) = toPeer (chan S) @ sent" "incoming (c_replyBuffer (cst C)) (ctl C) (sent @ later)"
  shows "alive \<and> at_rest S2 \<and> calm (chan S2) \<and> calm (ctl C2) \<and> \<not> c_transferActive (cst C2) \<and> toPeer (ctl C2) = toPeer (ctl C1) \<and>
    c_transferMode (cst C2) = c_transferMode (cst C) \<and> c_pendingDataSocket (cst C2) = None \<and>
    (\<exists>code msg second. sent = reply_text code [msg] @ second \<and>
       (if code = 150 then \<exists>code2 msg2. second = reply_text code2 [msg2] else second = []) \<and>
       incoming (c_replyBuffer (cst C2)) (ctl C2) (if cl_threadStarts Y then later else second @ later))"
proof -
  let ?J = "cl_joinCompletedTransfer C"
  have "toPeer (ctl C1) \<noteq> toPeer (ctl C)" using assms(13) by simp
  then obtain command job failure k F where
    rq: "request_transfer Y command job failure k (?J\<lparr>cdisk := F\<rparr>) = (alive, C1)"
      "transfer_request command" "\<And>dm a b t. worker_socket (Some (job dm k a b t)) = [k]"
    using client_requests [OF assms(9,11,10)] unfolding requests_def by blast
  have J: "calm (ctl (?J\<lparr>cdisk := F\<rparr>))" "\<not> c_transferActive (cst (?J\<lparr>cdisk := F\<rparr>))" "c_transferWorker (cst (?J\<lparr>cdisk := F\<rparr>)) = None"
    using assms(11,12) by simp_all
  have line: "line = command @ [CR]" if "toPeer (ctl C1) = toPeer (ctl C) @ command @ CRLF"
    using that assms(13) by simp
  have parsed: "cmdType (parseCommand (strip_cr (command @ [CR]))) \<in> set transfer_commands"
    using rq(2) by (simp add: transfer_request_def strip_cr_def)
  have ctl: "toPeer (ctl C1) = toPeer (ctl C) @ command @ CRLF" using request_sends [OF rq(1) J(1)] by simp
  from transfer_replies [OF assms(1) _ assms(2-8)] parsed line [OF ctl]
  obtain code msg second where f: "at_rest S2" "calm (chan S2)" "reply_code code" "LF \<notin> set msg"
    "toPeer (chan S2) = toPeer (chan S) @ reply_text code [msg] @ second"
    "if code = 150 then \<exists>code2 msg2. reply_code code2 \<and> LF \<notin> set msg2 \<and> second = reply_text code2 [msg2] else second = []"
    by auto
  have sent: "sent = reply_text code [msg] @ second" using f(5) assms(15) by simp
  have "incoming (c_replyBuffer (cst (?J\<lparr>cdisk := F\<rparr>))) (ctl (?J\<lparr>cdisk := F\<rparr>)) (reply_text code [msg] @ second @ later)"
    using assms(16) sent by simp
  note rd = request_reads [OF rq(1) J f(3,4) this]
  show ?thesis
  proof (cases "code = 150 \<and> cl_threadStarts Y")
    case False
    then have "c_transferWorker (cst C1) = None" "\<not> c_transferActive (cst C1)" using rd by auto
    then have "C2 = C1" using assms(14) by (simp add: cl_run_worker_def)
    moreover have "\<exists>code msg second'. sent = reply_text code [msg] @ second' \<and>
       (if code = 150 then \<exists>code2 msg2. second' = reply_text code2 [msg2] else second' = []) \<and>
       incoming (c_replyBuffer (cst C1)) (ctl C1) (if cl_threadStarts Y then later else second' @ later)"
      using rd f(6) sent False by (intro exI [of _ code] exI [of _ msg] exI [of _ second]) (auto split: if_splits simp del: reply_text.simps)
    ultimately show ?thesis using rd f(1,2) \<open>\<not> c_transferActive (cst C1)\<close> by simp
  next
    case True
    then obtain code2 msg2 where s2: "reply_code code2" "LF \<notin> set msg2" "second = reply_text code2 [msg2]" using f(6) by auto
    obtain dm a b t where w: "c_transferWorker (cst C1) = Some (job dm k a b t)" using rd True by auto
    have "incoming (c_replyBuffer (cst C1)) (ctl C1) (reply_text code2 [msg2] @ later)" using rd s2(3) by simp
    then have inc: "incoming (c_replyBuffer (cst C1)) (ctl C1) (reply_text code2 [msg2] @ later)" .
    have "worker_socket (c_transferWorker (cst C1)) = [k]" using w rq(3) by simp
    note wk = transfer_worker_reads [OF assms(14) this _ s2(1,2) inc]
    have "calm (ctl C1)" using rd by simp
    note wk = wk [OF this]
    have "\<exists>code msg second'. sent = reply_text code [msg] @ second' \<and>
       (if code = 150 then \<exists>code2 msg2. second' = reply_text code2 [msg2] else second' = []) \<and>
       incoming (c_replyBuffer (cst C2)) (ctl C2) (if cl_threadStarts Y then later else second' @ later)"
      using wk(2) s2 sent True by (intro exI [of _ code] exI [of _ msg] exI [of _ second]) (auto simp del: reply_text.simps)
    with wk rd f(1,2) show ?thesis by simp
  qed
qed

section \<open>Example\<close>

text \<open>
  A download that fails on both sides: the client cannot open its receiver, and the server hears nothing of it.
\<close>

definition ready_server :: server where
  "ready_server = (on_sess (\<lambda>s. s\<lparr>authenticated := True, dataChannelMode := Passive, pendingDataSocket := Some 5\<rparr>) sample_server)
     \<lparr>net := idle_world [RecvError 10054]\<rparr>"

definition ready_client :: "string list \<Rightarrow> client" where
  "ready_client pieces = (sample_client pieces)\<lparr>cst := (new_client_state zero_addr)\<lparr>c_dataMode := PassiveData, c_pendingDataSocket := Some 30\<rparr>,
     cdisk := \<lparr>files = Map.empty, fsOk = [], tmpNames = [''t''], lastError = ([], [])\<rparr>, cnet := (idle_world [])\<lparr>sysOk := [False]\<rparr>\<rparr>"

lemma ready_served:
  "case handle_line sample_surroundings (''RETR log'' @ [CR]) ready_server of
     Some (Returns S1) \<Rightarrow> ctlSocket (sess S1) \<noteq> None \<and>
       (case run_worker sample_surroundings S1 of
          Some S2 \<Rightarrow> \<not> abortRequested (sess S2) \<and>
            toPeer (chan S2) = ''150 Opening data connection.'' @ CRLF @ ''426 Transfer failed.'' @ CRLF
        | None \<Rightarrow> False)
   | _ \<Rightarrow> False"
  by code_simp

lemma ready_requests:
  "case client_line sample_system ''retr log'' (ready_client [''150 Opening data connection.'' @ CRLF, ''426 Transfer failed.'' @ CRLF]) of
     Some (Returns (b, C1)) \<Rightarrow> toPeer (ctl C1) = ''RETR log'' @ CRLF \<and>
       (case cl_run_worker sample_system C1 of Some C2 \<Rightarrow> True | None \<Rightarrow> False)
   | _ \<Rightarrow> False"
  by code_simp

theorem transfers_in_step_witness:
  "\<exists>C1 C2. client_line sample_system ''retr log'' (ready_client [''150 Opening data connection.'' @ CRLF, ''426 Transfer failed.'' @ CRLF]) =
       Some (Returns (True, C1)) \<and>
     cl_run_worker sample_system C1 = Some C2 \<and> incoming (c_replyBuffer (cst C2)) (ctl C2) [] \<and> \<not> c_transferActive (cst C2)"
proof -
  let ?s = "''150 Opening data connection.'' @ CRLF @ ''426 Transfer failed.'' @ CRLF"
  let ?C = "ready_client [''150 Opening data connection.'' @ CRLF, ''426 Transfer failed.'' @ CRLF]"
  obtain S1 S2 where S: "handle_line sample_surroundings (''RETR log'' @ [CR]) ready_server = Some (Returns S1)"
    "ctlSocket (sess S1) \<noteq> None" "run_worker sample_surroundings S1 = Some S2" "\<not> abortRequested (sess S2)" "toPeer (chan S2) = ?s"
    using ready_served by (auto split: option.splits outcome.splits)
  obtain b C1 C2 where c: "client_line sample_system ''retr log'' ?C = Some (Returns (b, C1))"
    "toPeer (ctl C1) = ''RETR log'' @ CRLF" "cl_run_worker sample_system C1 = Some C2"
    using ready_requests by (auto split: option.splits outcome.splits)
  have v: "upper_string (hd (split_words ''retr log'')) = ''RETR''" by code_simp
  have s: "ctlSocket (sess ready_server) \<noteq> None" "at_rest ready_server" "calm (chan ready_server)" "toPeer (chan ready_server) = []"
    by (simp_all add: ready_server_def sample_server_def new_session_def calm_def at_rest_def)
  have k: "\<not> c_transferActive (cst ?C)" "calm (ctl ?C)" "toPeer (ctl ?C) = []" "incoming (c_replyBuffer (cst ?C)) (ctl ?C) (?s @ [])"
    by (simp_all add: ready_client_def sample_client_def new_client_state_def calm_def incoming_def)
  have t: "toPeer (chan S2) = toPeer (chan ready_server) @ ?s" "toPeer (ctl C1) = toPeer (ctl ?C) @ (''RETR log'' @ [CR]) @ [LF]"
    using S(5) s(4) c(2) k(3) by simp_all
  have "upper_string (hd (split_words ''retr log'')) \<in> set transfer_commands" using v by (simp add: transfer_commands_def)
  from transfers_in_step [OF S(1) s(1-3) S(3) sample_clean S(2) _ c(1) this k(1,2) t(2) c(3) t(1) k(4)] S(4)
  have "b" "incoming (c_replyBuffer (cst C2)) (ctl C2) []" "\<not> c_transferActive (cst C2)"
    by (auto simp: sample_system_def)
  moreover from this(1) c(1) have "client_line sample_system ''retr log'' ?C = Some (Returns (True, C1))" by simp
  ultimately show ?thesis using c(3) by blast
qed

end
