(* ===== verification/Sha256_Hasher.thy ===== *)
theory Sha256_Hasher
  imports File_Io Text_Format
begin

unbundle bit_operations_syntax

text \<open>
  \<^verbatim>\<open>Sha256Hasher::hashFile\<close>: reading a file in blocks of 64 KiB, feeding them to the cryptography library
  of the system and writing the digest in hexadecimal. The library is a parameter: whether the
  algorithm can be opened, the sizes it reports, the state of a new hash, taking in a block, and the
  digest at the end; each can fail.
\<close>

record 'h bcrypt =
  openAlgorithm :: bool
  objectLength :: "nat option"
  hashLength :: "nat option"
  createHash :: "'h option"
  hashData :: "'h \<Rightarrow> bytes \<Rightarrow> 'h option"
  finishHash :: "'h \<Rightarrow> bytes option"

definition BLOCK :: nat where "BLOCK = 65536"

text \<open>\<^verbatim>\<open>while (input.read(...) || input.gcount() > 0)\<close>\<close>

function hash_blocks :: "'h bcrypt \<Rightarrow> bytes \<Rightarrow> 'h \<Rightarrow> 'h option" where
  "hash_blocks lib bs h =
     (if bs = [] then Some h
      else case hashData lib h (take BLOCK bs) of
          None \<Rightarrow> None
        | Some h1 \<Rightarrow> hash_blocks lib (drop BLOCK bs) h1)"
  by pat_completeness auto
termination
  by (relation "measure (\<lambda>(lib, bs, h). length bs)") (simp_all add: BLOCK_def)

declare hash_blocks.simps [simp del]

definition hex_digit :: "byte \<Rightarrow> char" where
  "hex_digit n = ''0123456789abcdef'' ! unat n"

definition hex :: "bytes \<Rightarrow> string" where
  "hex digest = concat (map (\<lambda>b. [hex_digit (drop_bit 4 b AND 0x0f), hex_digit (b AND 0x0f)]) digest)"

definition sha256_hashFile :: "'h bcrypt \<Rightarrow> path \<Rightarrow> fsys \<Rightarrow> string" where
  "sha256_hashFile lib p F =
     (if \<not> openAlgorithm lib then []
      else case objectLength lib of
          None \<Rightarrow> []
        | Some objSize \<Rightarrow>
            if objSize = 0 then []
            else case hashLength lib of
                None \<Rightarrow> []
              | Some len \<Rightarrow>
                  if len = 0 then []
                  else case createHash lib of
                      None \<Rightarrow> []
                    | Some h \<Rightarrow>
                        (case files F p of
                           None \<Rightarrow> []
                         | Some bs \<Rightarrow>
                             (case hash_blocks lib bs h of
                                None \<Rightarrow> []
                              | Some h1 \<Rightarrow> (case finishHash lib h1 of None \<Rightarrow> [] | Some digest \<Rightarrow> hex digest))))"

section \<open>Properties\<close>

text \<open>
  What the library documents: data may be taken in by parts, and the digest has the size it reported.
\<close>

definition incremental :: "'h bcrypt \<Rightarrow> bool" where
  "incremental lib \<longleftrightarrow>
     (\<forall>h a b. Option.bind (hashData lib h a) (\<lambda>h1. hashData lib h1 b) = hashData lib h (a @ b)) \<and>
     (\<forall>h d. finishHash lib h = Some d \<longrightarrow> hashLength lib = Some (length d))"

lemma hash_blocks_whole: "incremental lib \<Longrightarrow> bs \<noteq> [] \<Longrightarrow> hash_blocks lib bs h = hashData lib h bs"
proof (induction lib bs h rule: hash_blocks.induct)
  case (1 lib bs h)
  have join: "Option.bind (hashData lib h (take BLOCK bs)) (\<lambda>h1. hashData lib h1 (drop BLOCK bs)) = hashData lib h bs"
    using "1.prems"(1) by (simp add: incremental_def)
  show ?case
  proof (cases "hashData lib h (take BLOCK bs)")
    case None
    with "1.prems"(2) join show ?thesis by (simp add: hash_blocks.simps [of lib bs])
  next
    case (Some h1)
    then have step: "hash_blocks lib bs h = hash_blocks lib (drop BLOCK bs) h1"
      using "1.prems"(2) by (simp add: hash_blocks.simps [of lib bs])
    show ?thesis
    proof (cases "drop BLOCK bs = []")
      case True
      then have "take BLOCK bs = bs" by simp
      with Some step True show ?thesis by (simp add: hash_blocks.simps [of lib "[]"])
    next
      case False
      with "1.IH" [OF "1.prems"(2) Some "1.prems"(1)] step join Some show ?thesis by simp
    qed
  qed
qed

text \<open>The digits are those the client looks for, and tell the digests apart.\<close>

lemma unat_low_nibble: "unat (b AND 0x0f :: byte) < 16"
proof -
  have "b AND 0x0f = take_bit 4 b" by (simp add: take_bit_eq_mask mask_eq_exp_minus_1)
  then show ?thesis by (simp add: unsigned_take_bit_eq take_bit_nat_def)
qed

lemma hex_digits_distinct: "distinct ''0123456789abcdef''" "length ''0123456789abcdef'' = 16"
  by simp_all

lemma hex_digit_xdigit: "unat n < 16 \<Longrightarrow> is_xdigit (hex_digit n)"
proof -
  assume "unat n < 16"
  then have "hex_digit n \<in> set ''0123456789abcdef''" unfolding hex_digit_def by (intro nth_mem) simp
  then show ?thesis by (auto simp: is_xdigit_def is_digit_def)
qed

lemma hex_digit_inject: "unat m < 16 \<Longrightarrow> unat n < 16 \<Longrightarrow> hex_digit m = hex_digit n \<longleftrightarrow> m = n"
  using nth_eq_iff_index_eq [OF hex_digits_distinct(1)] by (simp add: hex_digit_def word_unat_eq_iff)

lemma nibbles: "(drop_bit 4 b AND 0x0f) = (drop_bit 4 c AND 0x0f) \<Longrightarrow> (b AND 0x0f) = (c AND 0x0f) \<Longrightarrow> b = (c :: byte)"
proof (rule bit_word_eqI)
  fix n
  assume hi: "(drop_bit 4 b AND 0x0f) = (drop_bit 4 c AND 0x0f)" and lo: "(b AND 0x0f) = (c AND 0x0f)" and n: "n < LENGTH(8)"
  have m: "bit (0x0f :: byte) k \<longleftrightarrow> k < 4" for k
  proof -
    have "(0x0f :: byte) = mask 4" by (simp add: mask_eq_exp_minus_1)
    then show ?thesis by (simp only: bit_mask_iff) auto
  qed
  show "bit b n = bit c n"
  proof (cases "n < 4")
    case True
    then show ?thesis using arg_cong [OF lo, of "\<lambda>x. bit x n"] by (simp only: bit_and_iff m simp_thms)
  next
    case False
    then have "n - 4 < 4" "4 + (n - 4) = n" using n by simp_all
    then show ?thesis using arg_cong [OF hi, of "\<lambda>x. bit x (n - 4)"]
      by (simp only: bit_and_iff m bit_drop_bit_eq o_apply simp_thms)
  qed
qed

lemma hex_Cons: "hex (b # bs) = hex_digit (drop_bit 4 b AND 0x0f) # hex_digit (b AND 0x0f) # hex bs"
  by (simp add: hex_def)

lemma hex_Nil [simp]: "hex [] = []"
  by (simp add: hex_def)

lemma hex_length: "length (hex bs) = 2 * length bs"
  by (induction bs) (simp_all add: hex_Cons)

lemma hex_xdigits: "list_all is_xdigit (hex bs)"
  by (induction bs) (simp_all add: hex_Cons hex_digit_xdigit unat_low_nibble)

lemma hex_inject: "hex bs = hex cs \<longleftrightarrow> bs = cs"
proof (induction bs arbitrary: cs)
  case Nil
  then show ?case by (cases cs) (simp_all add: hex_Cons)
next
  case (Cons b bs)
  show ?case
  proof (cases cs)
    case (Cons c cs')
    then show ?thesis using Cons.IH nibbles [of b c] unat_low_nibble by (auto simp: hex_Cons hex_digit_inject)
  qed (simp add: hex_Cons)
qed

text \<open>The digest of a content, as the transfers use it.\<close>

definition digest_text :: "'h bcrypt \<Rightarrow> bytes \<Rightarrow> string" where
  "digest_text lib bs =
     (if openAlgorithm lib \<and> objectLength lib \<notin> {None, Some 0} \<and> hashLength lib \<notin> {None, Some 0}
      then case Option.bind (createHash lib) (\<lambda>h. Option.bind (if bs = [] then Some h else hashData lib h bs) (finishHash lib)) of
          None \<Rightarrow> []
        | Some d \<Rightarrow> hex d
      else [])"

text \<open>
  Reading in blocks makes no difference. If the library may be fed by parts, hashing a file is
  hashing its whole content at once; a digest the library reports as \<open>n\<close> bytes becomes \<open>2 n\<close>
  hexadecimal digits, and two contents with the same text have the same digest.
\<close>

theorem sha256_hashFile_digest:
  assumes "incremental lib" "files F p = Some bs" "sha256_hashFile lib p F \<noteq> []"
  shows "sha256_hashFile lib p F = digest_text lib bs \<and>
    (\<exists>d. sha256_hashFile lib p F = hex d \<and> hashLength lib = Some (length d) \<and>
      length (hex d) = 2 * length d \<and> list_all is_xdigit (hex d) \<and> (\<forall>d'. hex d' = hex d \<longrightarrow> d' = d))"
proof -
  obtain objSize len h h1 d where lib: "openAlgorithm lib" "objectLength lib = Some objSize" "objSize \<noteq> 0"
    "hashLength lib = Some len" "len \<noteq> 0" "createHash lib = Some h" "hash_blocks lib bs h = Some h1"
    "finishHash lib h1 = Some d" "sha256_hashFile lib p F = hex d"
    using assms(2,3) by (auto simp: sha256_hashFile_def split: if_splits option.splits)
  have "(if bs = [] then Some h else hashData lib h bs) = Some h1"
    using lib(7) hash_blocks_whole [OF assms(1), of bs h] by (auto simp: hash_blocks.simps [of lib "[]"])
  then have "digest_text lib bs = hex d" using lib by (auto simp: digest_text_def)
  with lib(4,8,9) assms(1) hex_length [of d] hex_xdigits [of d] hex_inject show ?thesis
    by (auto simp: incremental_def)
qed

definition sample_bcrypt :: "bytes bcrypt" where
  "sample_bcrypt = \<lparr>openAlgorithm = True, objectLength = Some 1, hashLength = Some 1, createHash = Some [],
     hashData = (\<lambda>h b. Some (h @ b)), finishHash = (\<lambda>h. Some [sum_list h])\<rparr>"

definition sample_hashed :: fsys where
  "sample_hashed = \<lparr>files = [''f'' \<mapsto> [0x41, 0x61]], fsOk = [], tmpNames = [], lastError = ([], [])\<rparr>"

lemma sample_lib:
  "openAlgorithm sample_bcrypt" "objectLength sample_bcrypt = Some 1" "hashLength sample_bcrypt = Some 1"
  "createHash sample_bcrypt = Some []" "finishHash sample_bcrypt h = Some [sum_list h]"
  by (simp_all add: sample_bcrypt_def)

theorem sha256_hashFile_digest_witness:
  "\<exists>d. sha256_hashFile sample_bcrypt ''f'' sample_hashed = hex d \<and> sha256_hashFile sample_bcrypt ''f'' sample_hashed = ''a2''"
proof -
  have inc: "incremental sample_bcrypt" by (simp add: incremental_def sample_bcrypt_def)
  have f: "files sample_hashed ''f'' = Some [0x41, 0x61]" by (simp add: sample_hashed_def)
  have "hash_blocks sample_bcrypt [0x41, 0x61] [] = Some [0x41, 0x61]"
    by (subst hash_blocks.simps) (simp add: sample_bcrypt_def BLOCK_def hash_blocks.simps [of _ "[]"])
  then have v: "sha256_hashFile sample_bcrypt ''f'' sample_hashed = ''a2''"
    by (simp add: sha256_hashFile_def f hex_def hex_digit_def sample_lib)
  then have "sha256_hashFile sample_bcrypt ''f'' sample_hashed \<noteq> []" by simp
  from sha256_hashFile_digest [OF inc f this] v show ?thesis by blast
qed

end
