(* ===== verification/Server_Threads.thy ===== *)
theory Server_Threads
  imports Server_Cleanup Server_Safety
begin

text \<open>
  The whole server: \<^verbatim>\<open>runSession\<close> of \<^verbatim>\<open>server/src/control/Session.cpp\<close> accepts connections and starts a thread for
  each; the threads share the table of clients, the disk and the counter of unique names. A step is the
  acceptance of a client, the arrival of data, a command, the end of a worker, or one of the two parts of
  the end of a session: closing the socket, and the destructor of \<^verbatim>\<open>registryGuard\<close>, which runs after it.
\<close>

section \<open>The state of the process\<close>

text \<open>
  A thread in \<^verbatim>\<open>handleClient\<close>: the socket it was started for, its session, its end of the connection, the
  network of its transfers, \<^verbatim>\<open>inBuffer\<close>, and whether its socket is closed and only the guard is left.
\<close>

record client_thread =
  t_socket :: SOCKET
  t_sess :: ClientSession
  t_chan :: tcp
  t_net :: world
  t_buffer :: string
  t_leaving :: bool

record host =
  threads :: "nat \<Rightarrow> client_thread option"
  h_clients :: registry
  h_tree :: store
  h_nextId :: "64 word"
  h_closed :: "SOCKET list"

text \<open>The server as one thread sees it, and what it leaves.\<close>

definition seen_by :: "client_thread \<Rightarrow> host \<Rightarrow> server" where
  "seen_by t H = \<lparr>sess = t_sess t, chan = t_chan t, clients = h_clients H, tree = h_tree H, net = t_net t,
     nextId = h_nextId H, closedSockets = h_closed H\<rparr>"

definition put_back :: "nat \<Rightarrow> client_thread \<Rightarrow> server \<Rightarrow> host \<Rightarrow> host" where
  "put_back i t S H =
     \<lparr>threads = (threads H)(i \<mapsto> t\<lparr>t_sess := sess S, t_chan := chan S, t_net := net S\<rparr>), h_clients = clients S,
      h_tree = tree S, h_nextId = nextId S, h_closed = closedSockets S\<rparr>"

section \<open>The steps\<close>

text \<open>
  One turn of the loop of \<^verbatim>\<open>runSession\<close>. \<open>None\<close> is a failed \<^verbatim>\<open>accept\<close>: the loop goes on. The constructor of
  \<^verbatim>\<open>std::thread\<close> is called outside any handler: if no thread can be started, the program ends.
\<close>

definition accept_client ::
  "surroundings \<Rightarrow> nat \<Rightarrow> (SOCKET \<times> sockaddr_in) option \<Rightarrow> tcp \<Rightarrow> world \<Rightarrow> host \<Rightarrow> host outcome" where
  "accept_client X i accepted c w H =
     (case accepted of
        None \<Rightarrow> Returns H
      | Some (k, peer) \<Rightarrow>
          if \<not> threadStarts X then Terminates
          else let t = \<lparr>t_socket = k, t_sess = new_session k (serverRoot (paths X)) peer, t_chan = c, t_net = w,
                        t_buffer = [], t_leaving = False\<rparr>
            in Returns (put_back i t (begin_session X k peer (seen_by t H)) H))"

definition receive_data :: "nat \<Rightarrow> client_thread \<Rightarrow> string \<Rightarrow> host \<Rightarrow> host" where
  "receive_data i t piece H = H\<lparr>threads := (threads H)(i \<mapsto> t\<lparr>t_buffer := t_buffer t @ piece\<rparr>)\<rparr>"

definition run_command :: "surroundings \<Rightarrow> nat \<Rightarrow> client_thread \<Rightarrow> host \<Rightarrow> host outcome option" where
  "run_command X i t H =
     (case cut_line (t_buffer t) of
        None \<Rightarrow> Some (Returns H)
      | Some (raw, rest) \<Rightarrow>
          (case handle_line X raw (seen_by t H) of
             None \<Rightarrow> None
           | Some Terminates \<Rightarrow> Some Terminates
           | Some (Returns S) \<Rightarrow> Some (Returns (put_back i (t\<lparr>t_buffer := rest\<rparr>) S H))))"

definition end_transfer :: "surroundings \<Rightarrow> nat \<Rightarrow> client_thread \<Rightarrow> host \<Rightarrow> host option" where
  "end_transfer X i t H = map_option (\<lambda>S. put_back i t S H) (run_worker X (seen_by t H))"

definition close_thread :: "surroundings \<Rightarrow> nat \<Rightarrow> client_thread \<Rightarrow> host \<Rightarrow> host option" where
  "close_thread X i t H =
     map_option (\<lambda>S. put_back i (t\<lparr>t_leaving := True\<rparr>) S H) (leave_session X (t_socket t) (seen_by t H))"

definition end_thread :: "nat \<Rightarrow> client_thread \<Rightarrow> host \<Rightarrow> host" where
  "end_thread i t H =
     H\<lparr>threads := (threads H)(i := None), h_clients := removeClient (t_socket t) (h_clients H)\<rparr>"

text \<open>
  A new socket is not one of those that are open. Once a socket is closed the system may give its number
  again, also while the guard of the thread that had it is still to run; with \<open>reuse = False\<close> it does not.
\<close>

definition is_open :: "client_thread \<Rightarrow> bool" where
  "is_open t \<longleftrightarrow> \<not> t_leaving t \<and> ctlSocket (t_sess t) = Some (t_socket t)"

definition new_number :: "bool \<Rightarrow> host \<Rightarrow> SOCKET \<Rightarrow> bool" where
  "new_number reuse H k \<longleftrightarrow> (\<forall>i t. threads H i = Some t \<longrightarrow> t_socket t = k \<longrightarrow> reuse \<and> \<not> is_open t)"

inductive host_step :: "bool \<Rightarrow> fspath \<Rightarrow> host \<Rightarrow> host \<Rightarrow> bool" for reuse r where
  accepts: "\<lbrakk>fits_root r X; threads H i = None; \<forall>k peer. accepted = Some (k, peer) \<longrightarrow> new_number reuse H k;
     accept_client X i accepted c w H = Returns H'\<rbrakk> \<Longrightarrow> host_step reuse r H H'"
| receives: "\<lbrakk>threads H i = Some t; is_open t\<rbrakk> \<Longrightarrow> host_step reuse r H (receive_data i t piece H)"
| commands: "\<lbrakk>fits_root r X; threads H i = Some t; is_open t; new_number reuse H (newSocket X);
     run_command X i t H = Some (Returns H')\<rbrakk> \<Longrightarrow> host_step reuse r H H'"
| transfers: "\<lbrakk>fits_root r X; threads H i = Some t; \<not> t_leaving t; transferActive (t_sess t);
     end_transfer X i t H = Some H'\<rbrakk> \<Longrightarrow> host_step reuse r H H'"
| closes: "\<lbrakk>fits_root r X; threads H i = Some t; \<not> t_leaving t; close_thread X i t H = Some H'\<rbrakk> \<Longrightarrow> host_step reuse r H H'"
| ends: "\<lbrakk>threads H i = Some t; t_leaving t\<rbrakk> \<Longrightarrow> host_step reuse r H (end_thread i t H)"

abbreviation host_run :: "bool \<Rightarrow> fspath \<Rightarrow> host \<Rightarrow> host \<Rightarrow> bool" where
  "host_run reuse r \<equiv> (host_step reuse r)\<^sup>*\<^sup>*"

section \<open>The parts of a step\<close>

lemma seen_by_simps [simp]:
  "sess (seen_by t H) = t_sess t" "chan (seen_by t H) = t_chan t" "clients (seen_by t H) = h_clients H"
  "tree (seen_by t H) = h_tree H" "net (seen_by t H) = t_net t" "nextId (seen_by t H) = h_nextId H"
  "closedSockets (seen_by t H) = h_closed H"
  by (simp_all add: seen_by_def)

lemma put_back_simps [simp]:
  "threads (put_back i t S H) = (threads H)(i \<mapsto> t\<lparr>t_sess := sess S, t_chan := chan S, t_net := net S\<rparr>)"
  "h_clients (put_back i t S H) = clients S" "h_tree (put_back i t S H) = tree S"
  "h_closed (put_back i t S H) = closedSockets S"
  by (simp_all add: put_back_def)

text \<open>What a step of a thread does to the session it belongs to, as steps of Server\_Invariant.\<close>

lemma leave_session_ok:
  assumes "fits_root r X" "server_ok r T st0 ctl S" "leave_session X k S = Some S'"
  shows "server_ok r T st0 ctl S'"
proof -
  let ?S = "on_sess (abortRequested_update (\<lambda>_. True)) S"
  obtain S1 where j: "join_worker X ?S = Some S1" and S': "sess S' = sess (clearDataState (on_sess (transferActive_update (\<lambda>_. False)) S1))"
    "tree S' = tree S1"
    using assms(3) by (auto simp: leave_session_def shutdownSession_def)
  have a: "server_ok r T st0 ctl ?S" by (rule server_ok_sess [OF assms(2)]) (use server_okD(1) [OF assms(2)] in \<open>simp_all add: session_ok_def\<close>)
  have "server_ok r T st0 ctl (on_sess (transferActive_update (\<lambda>_. False)) S1)"
  proof (cases "transferWorker (sess ?S) = None")
    case True
    then have "S1 = ?S" using j by (simp add: join_worker_def)
    with a True show ?thesis by (auto simp: server_ok_def session_ok_def)
  next
    case False
    then obtain S2 where S2: "run_worker X ?S = Some S2" "S1 = on_sess (transferWorker_update (\<lambda>_. None)) S2"
      using j by (auto simp: join_worker_def)
    from run_worker_ok [OF S2(1) a assms(1)] S2(2) show ?thesis by (auto simp: server_ok_def session_ok_def)
  qed
  from server_ok_clear [OF this] S' show ?thesis by (simp add: server_ok_def)
qed

lemma leave_session_frame:
  assumes "leave_session X k S = Some S'" "pendingDataSocket (sess S) \<noteq> Some k"
  shows "clients S' = clients S" "username (sess S') = username (sess S)" "ctlSocket (sess S') = ctlSocket (sess S)"
    "controlPeerAddr (sess S') = controlPeerAddr (sess S)" "pendingDataSocket (sess S') = None"
proof -
  obtain S1 where "shutdownSession X S = Some S1" "sess S' = sess S1" "clients S' = clients S1"
    using assms(1) by (auto simp: leave_session_def)
  with shutdownSession_frame [OF _ assms(2), of X S1] show "clients S' = clients S" "username (sess S') = username (sess S)"
    "ctlSocket (sess S') = ctlSocket (sess S)" "controlPeerAddr (sess S') = controlPeerAddr (sess S)" "pendingDataSocket (sess S') = None"
    by simp_all
qed

text \<open>Every step but that of a guard changes one thread to what one of the operations leaves.\<close>

inductive_cases host_stepE: "host_step reuse r H H'"

lemma accept_clientE:
  assumes "accept_client X i accepted c w H = Returns H'"
  obtains (failed) "accepted = None" "H' = H"
    | (started) k peer t where "accepted = Some (k, peer)" "t_socket t = k" "\<not> t_leaving t"
      "H' = put_back i t (begin_session X k peer (seen_by t H)) H"
proof (cases accepted)
  case None
  with assms show thesis by (intro failed) (simp_all add: accept_client_def)
next
  case (Some a)
  obtain k peer where a: "a = (k, peer)" by fastforce
  let ?t = "\<lparr>t_socket = k, t_sess = new_session k (serverRoot (paths X)) peer, t_chan = c, t_net = w, t_buffer = [], t_leaving = False\<rparr>"
  have "H' = put_back i ?t (begin_session X k peer (seen_by ?t H)) H"
    using assms Some a by (simp add: accept_client_def Let_def split: if_splits)
  then show thesis using Some a by (intro started [of k peer ?t]) simp_all
qed

lemma run_commandE:
  assumes "run_command X i t H = Some (Returns H')"
  obtains (none) "H' = H"
    | (ran) raw rest S where "cut_line (t_buffer t) = Some (raw, rest)" "handle_line X raw (seen_by t H) = Some (Returns S)"
      "H' = put_back i (t\<lparr>t_buffer := rest\<rparr>) S H"
  using assms by (auto simp: run_command_def split: option.splits outcome.splits)

section \<open>Confinement of all sessions together\<close>

definition host_ok :: "fspath \<Rightarrow> path set \<Rightarrow> store \<Rightarrow> host \<Rightarrow> bool" where
  "host_ok r T st0 H \<longleftrightarrow> disk_ok r T st0 (h_tree H) \<and> (\<forall>q \<in> T. full_name q) \<and>
     (\<forall>i t. threads H i = Some t \<longrightarrow> session_ok r T (t_sess t))"

lemma host_ok_view:
  "host_ok r T st0 H \<Longrightarrow> threads H i = Some t \<Longrightarrow> server_ok r T st0 (controlPeerAddr (t_sess t)) (seen_by t H)"
  by (simp add: host_ok_def server_ok_def)

lemma host_ok_put:
  "host_ok r T st0 H \<Longrightarrow> server_ok r T st0 ctl S \<Longrightarrow> host_ok r T st0 (put_back i t S H)"
  unfolding host_ok_def server_ok_def put_back_simps by auto

lemma host_step_ok:
  assumes "host_step reuse r H H'" "host_ok r T st0 H"
  shows "host_ok r T st0 H'"
  using assms(1)
proof cases
  case (accepts X i accepted c w)
  from accepts(4) show ?thesis
  proof (cases rule: accept_clientE)
    case (started k peer t)
    have "server_ok r T st0 peer (begin_session X k peer (seen_by t H))"
      using assms(2) accepts(1) by (simp add: begin_session_def server_ok_def host_ok_def session_ok_def new_session_def fits_root_def)
    from host_ok_put [OF assms(2) this] started(4) show ?thesis by simp
  qed (use assms(2) in simp)
next
  case (receives i t piece)
  with assms(2) show ?thesis by (auto simp: receive_data_def host_ok_def)
next
  case (commands X i t)
  from commands(5) show ?thesis
  proof (cases rule: run_commandE)
    case (ran raw rest S)
    from host_ok_put [OF assms(2) handle_line_ok [OF commands(1) host_ok_view [OF assms(2) commands(2)] ran(2)]] ran(3)
    show ?thesis by simp
  qed (use assms(2) in simp)
next
  case (transfers X i t)
  then obtain S where S: "run_worker X (seen_by t H) = Some S" "H' = put_back i t S H" by (auto simp: end_transfer_def)
  from host_ok_put [OF assms(2) run_worker_ok [OF S(1) host_ok_view [OF assms(2) transfers(2)] transfers(1)]] S(2)
  show ?thesis by simp
next
  case (closes X i t)
  then obtain S where S: "leave_session X (t_socket t) (seen_by t H) = Some S" "H' = put_back i (t\<lparr>t_leaving := True\<rparr>) S H"
    by (auto simp: close_thread_def)
  from host_ok_put [OF assms(2) leave_session_ok [OF closes(1) host_ok_view [OF assms(2) closes(2)] S(1)]] S(2)
  show ?thesis by simp
next
  case (ends i t)
  with assms(2) show ?thesis by (auto simp: end_thread_def host_ok_def split: if_splits)
qed

lemma host_run_ok: "host_run reuse r H H' \<Longrightarrow> host_ok r T st0 H \<Longrightarrow> host_ok r T st0 H'"
  by (induction rule: rtranclp_induct) (auto intro: host_step_ok)

text \<open>
  C7: all clients together cannot leave the root. From the start of the server, however many clients
  connect and however their commands and transfers interleave, nothing outside the root is created,
  changed or removed but temporary files; every session stays inside the root, and no session's active mode aims
  at another host than that of its own control connection.
\<close>

theorem host_confined:
  assumes "host_run reuse r H0 H" "\<forall>i. threads H0 i = None" "root_reachable r (h_tree H0)"
    "\<forall>t \<in> set (tmpNames (disk (h_tree H0))). full_name t" "\<not> under_root r q"
  shows "directories (h_tree H) q = directories (h_tree H0) q \<and> special (h_tree H) q = special (h_tree H0) q \<and>
    (q \<in> set (tmpNames (disk (h_tree H0))) \<or> files (disk (h_tree H)) q = files (disk (h_tree H0)) q) \<and>
    (\<forall>i t. threads H i = Some t \<longrightarrow> inside r (currentDir (t_sess t)) \<and>
       (dataChannelMode (t_sess t) = Active \<longrightarrow>
          sin_addr (pendingPeerAddr (t_sess t)) = sin_addr (controlPeerAddr (t_sess t))))"
proof -
  have "host_ok r (set (tmpNames (disk (h_tree H0)))) (h_tree H0) H0"
    using assms(2-4) by (simp add: host_ok_def disk_ok_def)
  from host_run_ok [OF assms(1) this] assms(5) show ?thesis
    by (auto simp: host_ok_def disk_ok_def session_ok_def)
qed

section \<open>The table of clients\<close>

text \<open>What the table shows of a thread, and what has to hold of a thread for it.\<close>

definition shows_thread :: "registry \<Rightarrow> client_thread \<Rightarrow> bool" where
  "shows_thread reg t \<longleftrightarrow>
     findClient (t_socket t) reg =
       Some \<lparr>clientAddress = peer_text (controlPeerAddr (t_sess t)), clientUsername = username (t_sess t)\<rparr> \<and>
     (ctlSocket (t_sess t) = None \<or> ctlSocket (t_sess t) = Some (t_socket t)) \<and>
     pendingDataSocket (t_sess t) \<noteq> Some (t_socket t)"

definition listed :: "host \<Rightarrow> bool" where
  "listed H \<longleftrightarrow>
     (\<forall>i j t u. threads H i = Some t \<longrightarrow> threads H j = Some u \<longrightarrow> t_socket t = t_socket u \<longrightarrow> i = j) \<and>
     (\<forall>i t. threads H i = Some t \<longrightarrow> shows_thread (h_clients H) t) \<and>
     (\<forall>k. findClient k (h_clients H) \<noteq> None \<longrightarrow> (\<exists>i t. threads H i = Some t \<and> t_socket t = k))"

lemma listedI:
  assumes "\<And>i j t u. threads H i = Some t \<Longrightarrow> threads H j = Some u \<Longrightarrow> t_socket t = t_socket u \<Longrightarrow> i = j"
    "\<And>i t. threads H i = Some t \<Longrightarrow> shows_thread (h_clients H) t"
    "\<And>k. findClient k (h_clients H) \<noteq> None \<Longrightarrow> \<exists>i t. threads H i = Some t \<and> t_socket t = k"
  shows "listed H"
  using assms unfolding listed_def by blast

lemma listedD:
  assumes "listed H"
  shows "threads H i = Some t \<Longrightarrow> threads H j = Some u \<Longrightarrow> t_socket t = t_socket u \<Longrightarrow> i = j"
    "threads H i = Some t \<Longrightarrow> shows_thread (h_clients H) t"
    "findClient k (h_clients H) \<noteq> None \<Longrightarrow> \<exists>i t. threads H i = Some t \<and> t_socket t = k"
  using assms unfolding listed_def by blast+

text \<open>A table that differs only in the entry of another socket.\<close>

lemma shows_thread_other:
  "shows_thread reg t \<Longrightarrow> findClient (t_socket t) reg' = findClient (t_socket t) reg \<Longrightarrow> shows_thread reg' t"
  by (simp add: shows_thread_def)

lemma listed_put:
  assumes "listed H" "threads H i = Some t" "t_socket t' = t_socket t"
    "\<forall>k. k \<noteq> t_socket t \<longrightarrow> findClient k (clients S) = findClient k (h_clients H)"
    "shows_thread (clients S) (t'\<lparr>t_sess := sess S, t_chan := chan S, t_net := net S\<rparr>)"
  shows "listed (put_back i t' S H)"
proof -
  note L = listedD [OF assms(1)]
  have other: "t_socket u \<noteq> t_socket t" if "threads H j = Some u" "j \<noteq> i" for j u
    using L(1) [OF that(1) assms(2)] that(2) by blast
  show ?thesis
  proof (rule listedI)
    fix a b u v
    assume "threads (put_back i t' S H) a = Some u" "threads (put_back i t' S H) b = Some v" "t_socket u = t_socket v"
    then show "a = b"
      using other [of a] other [of b] L(1) [of a u b v] assms(3) by (cases "a = i"; cases "b = i") auto
  next
    fix j u
    assume u: "threads (put_back i t' S H) j = Some u"
    show "shows_thread (h_clients (put_back i t' S H)) u"
    proof (cases "j = i")
      case True
      with u assms(5) show ?thesis by auto
    next
      case False
      with u have v: "threads H j = Some u" by simp
      from shows_thread_other [OF L(2) [OF v]] assms(4) other [OF v False] show ?thesis by simp
    qed
  next
    fix k
    assume k: "findClient k (h_clients (put_back i t' S H)) \<noteq> None"
    show "\<exists>j u. threads (put_back i t' S H) j = Some u \<and> t_socket u = k"
    proof (cases "k = t_socket t")
      case True
      with assms(3) show ?thesis by (intro exI [of _ i]) simp
    next
      case False
      with k assms(4) have "findClient k (h_clients H) \<noteq> None" by simp
      from L(3) [OF this] obtain j u where u: "threads H j = Some u" "t_socket u = k" by blast
      with False assms(2) have "j \<noteq> i" by auto
      with u show ?thesis by (intro exI [of _ j] exI [of _ u]) simp
    qed
  qed
qed

lemma host_step_listed:
  assumes "host_step False r H H'" "listed H" "host_ok r T st0 H"
  shows "listed H'"
  using assms(1)
proof cases
  case (accepts X i accepted c w)
  from accepts(4) show ?thesis
  proof (cases rule: accept_clientE)
    case (started k peer t)
    have fresh: "t_socket u \<noteq> k" if "threads H j = Some u" for j u
      using accepts(3) started(1) that by (auto simp: new_number_def)
    let ?S = "begin_session X k peer (seen_by t H)"
    have c: "findClient j (clients ?S) = (if j = k then Some \<lparr>clientAddress = peer_text peer, clientUsername = []\<rparr>
        else findClient j (h_clients H))" for j
      by (simp add: begin_session_def reg.find_add)
    have s: "sess ?S = new_session k (serverRoot (paths X)) peer" by (simp add: begin_session_def)
    note L = listedD [OF assms(2)]
    show ?thesis unfolding started(4)
    proof (rule listedI)
      fix a b u v
      assume "threads (put_back i t ?S H) a = Some u" "threads (put_back i t ?S H) b = Some v" "t_socket u = t_socket v"
      then show "a = b"
        using fresh [of a] fresh [of b] L(1) [of a u b v] started(2) by (cases "a = i"; cases "b = i") auto
    next
      fix j u
      assume u: "threads (put_back i t ?S H) j = Some u"
      show "shows_thread (h_clients (put_back i t ?S H)) u"
      proof (cases "j = i")
        case True
        with u started(2) show ?thesis by (auto simp: shows_thread_def c s new_session_def)
      next
        case False
        with u have v: "threads H j = Some u" by simp
        from shows_thread_other [OF L(2) [OF v]] fresh [OF v] show ?thesis by (simp add: c)
      qed
    next
      fix m
      assume m: "findClient m (h_clients (put_back i t ?S H)) \<noteq> None"
      show "\<exists>j u. threads (put_back i t ?S H) j = Some u \<and> t_socket u = m"
      proof (cases "m = k")
        case True
        with started(2) show ?thesis by (intro exI [of _ i]) simp
      next
        case False
        with m have "findClient m (h_clients H) \<noteq> None" by (simp add: c)
        from L(3) [OF this] obtain j u where u: "threads H j = Some u" "t_socket u = m" by blast
        with accepts(2) have "j \<noteq> i" by auto
        with u show ?thesis by (intro exI [of _ j] exI [of _ u]) simp
      qed
    qed
  qed (use assms(2) in simp)
next
  case (receives i t piece)
  have e: "receive_data i t piece H = put_back i (t\<lparr>t_buffer := t_buffer t @ piece\<rparr>) (seen_by t H) H"
    by (cases H; cases t) (simp add: receive_data_def put_back_def seen_by_def)
  from listedD(2) [OF assms(2) receives(2)] show ?thesis unfolding receives(1) e
    by (intro listed_put [OF assms(2) receives(2)]) (simp_all add: shows_thread_def)
next
  case (commands X i t)
  from commands(5) show ?thesis
  proof (cases rule: run_commandE)
    case (ran raw rest S)
    have sh: "shows_thread (h_clients H) t" using assms(2) commands(2) by (simp add: listed_def)
    have n: "newSocket X \<noteq> t_socket t" using commands(2,4) unfolding new_number_def by metis
    have "holding (t_socket t) (seen_by t H)" using commands(3) sh by (simp add: holding_def is_open_def shows_thread_def)
    from handle_line_tidy [OF this n ran(2)] have tidy: "tidy (t_socket t) False (seen_by t H) S" by (rule tidy_weaken)
    have "controlPeerAddr (sess S) = controlPeerAddr (t_sess t)"
      using handle_line_ok [OF commands(1) host_ok_view [OF assms(3) commands(2)] ran(2)] by (simp add: server_ok_def)
    with tidy sh show ?thesis unfolding ran(3)
      by (intro listed_put [OF assms(2) commands(2)]) (auto simp: tidy_def shows_thread_def)
  qed (use assms(2) in simp)
next
  case (transfers X i t)
  then obtain S where S: "run_worker X (seen_by t H) = Some S" "H' = put_back i t S H" by (auto simp: end_transfer_def)
  have sh: "shows_thread (h_clients H) t" using assms(2) transfers(2) by (simp add: listed_def)
  have "clients S = h_clients H" using run_worker_frame [OF S(1)] by simp
  moreover have "username (sess S) = username (t_sess t) \<and> ctlSocket (sess S) = ctlSocket (t_sess t) \<and>
      pendingDataSocket (sess S) = pendingDataSocket (t_sess t) \<and> controlPeerAddr (sess S) = controlPeerAddr (t_sess t)"
    using run_worker_left [OF S(1)] by (auto simp: worker_left_def)
  ultimately show ?thesis unfolding S(2) using sh
    by (intro listed_put [OF assms(2) transfers(2)]) (simp_all add: shows_thread_def)
next
  case (closes X i t)
  then obtain S where S: "leave_session X (t_socket t) (seen_by t H) = Some S" "H' = put_back i (t\<lparr>t_leaving := True\<rparr>) S H"
    by (auto simp: close_thread_def)
  have sh: "shows_thread (h_clients H) t" using assms(2) closes(2) by (simp add: listed_def)
  then have "pendingDataSocket (sess (seen_by t H)) \<noteq> Some (t_socket t)" by (simp add: shows_thread_def)
  note fr = leave_session_frame [OF S(1) this]
  show ?thesis unfolding S(2) using sh fr
    by (intro listed_put [OF assms(2) closes(2)]) (simp_all add: shows_thread_def)
next
  case (ends i t)
  have other: "t_socket u \<noteq> t_socket t" if "threads H j = Some u" "j \<noteq> i" for j u
    using assms(2) ends(2) that unfolding listed_def by blast
  note L = listedD [OF assms(2)]
  show ?thesis unfolding ends(1)
  proof (rule listedI)
    fix a b u v
    assume "threads (end_thread i t H) a = Some u" "threads (end_thread i t H) b = Some v" "t_socket u = t_socket v"
    with L(1) show "a = b" by (auto simp: end_thread_def split: if_splits)
  next
    fix j u
    assume "threads (end_thread i t H) j = Some u"
    then have v: "threads H j = Some u" "j \<noteq> i" by (auto simp: end_thread_def split: if_splits)
    from shows_thread_other [OF L(2) [OF v(1)]] other [OF v] show "shows_thread (h_clients (end_thread i t H)) u"
      by (simp add: end_thread_def reg.find_remove)
  next
    fix k
    assume "findClient k (h_clients (end_thread i t H)) \<noteq> None"
    then have "k \<noteq> t_socket t" "findClient k (h_clients H) \<noteq> None" by (auto simp: end_thread_def reg.find_remove split: if_splits)
    from L(3) [OF this(2)] obtain j u where u: "threads H j = Some u" "t_socket u = k" by blast
    with ends(2) \<open>k \<noteq> t_socket t\<close> have "j \<noteq> i" by auto
    with u show "\<exists>j u. threads (end_thread i t H) j = Some u \<and> t_socket u = k"
      by (intro exI [of _ j] exI [of _ u]) (simp add: end_thread_def)
  qed
qed


section \<open>A number used again\<close>

lemma begin_session_left:
  "sess (begin_session X k peer S) = new_session k (serverRoot (paths X)) peer" "net (begin_session X k peer S) = net S"
  "ctlSocket (new_session k r peer) = Some k"
  by (simp_all add: begin_session_def new_session_def)

text \<open>
  C16: the guard of a session can remove the entry of another client. The socket is closed before the guard runs.
  Where the system gives its number to the next connection in between, the guard of the old thread removes the
  entry of the new client: a client is connected and served, and is not in the table.
\<close>

theorem stale_guard:
  assumes "host_run True r H0 H" "threads H i = Some t" "t_leaving t" "threads H j = None"
    "\<forall>m u. threads H m = Some u \<longrightarrow> t_socket u = t_socket t \<longrightarrow> \<not> is_open u" "fits_root r X" "threadStarts X"
  shows "\<exists>H' u. host_run True r H0 H' \<and> threads H' j = Some u \<and> is_open u \<and> t_socket u = t_socket t \<and>
    findClient (t_socket u) (h_clients H') = None"
proof -
  let ?k = "t_socket t" and ?c = "t_chan t" and ?w = "t_net t"
  define u where "u = \<lparr>t_socket = ?k, t_sess = new_session ?k (serverRoot (paths X)) zero_addr, t_chan = ?c, t_net = ?w,
    t_buffer = [], t_leaving = False\<rparr>"
  define H1 where "H1 = put_back j u (begin_session X ?k zero_addr (seen_by u H)) H"
  have "accept_client X j (Some (?k, zero_addr)) ?c ?w H = Returns H1"
    using assms(7) by (simp add: accept_client_def Let_def H1_def u_def)
  moreover have "\<forall>k peer. Some (?k, zero_addr) = Some (k, peer) \<longrightarrow> new_number True H k"
    using assms(5) by (simp add: new_number_def)
  ultimately have s1: "host_step True r H H1" using assms(4,6) by (intro host_step.accepts)
  have ne: "i \<noteq> j" using assms(2,4) by auto
  then have t1: "threads H1 i = Some t" using assms(2) by (simp add: H1_def)
  have s2: "host_step True r H1 (end_thread i t H1)" by (rule host_step.ends [OF t1 assms(3)])
  have j1: "threads (end_thread i t H1) j = Some (u\<lparr>t_sess := new_session ?k (serverRoot (paths X)) zero_addr,
      t_chan := chan (begin_session X ?k zero_addr (seen_by u H)), t_net := ?w\<rparr>)" (is "_ = Some ?v")
    using ne by (simp add: end_thread_def H1_def begin_session_left u_def)
  have "is_open ?v" "t_socket ?v = ?k" by (simp_all add: is_open_def u_def begin_session_left)
  moreover have "findClient ?k (h_clients (end_thread i t H1)) = None" by (simp add: end_thread_def reg.find_remove)
  moreover have "host_run True r H0 (end_thread i t H1)" using assms(1) s1 s2 by (meson rtranclp.rtrancl_into_rtrancl)
  ultimately show ?thesis using j1 by (intro exI [of _ "end_thread i t H1"] exI [of _ ?v]) simp
qed

section \<open>Examples\<close>

definition sample_host :: host where
  "sample_host = \<lparr>threads = (\<lambda>_. None), h_clients = [], h_tree = sample_store [1], h_nextId = 1, h_closed = []\<rparr>"

abbreviation fresh_tcp :: tcp where
  "fresh_tcp \<equiv> \<lparr>toPeer = [], sendResults = [], fromPeer = [], shut = False\<rparr>"

lemma sample_host_start: "\<forall>i. threads sample_host i = None" "h_clients sample_host = []" "h_tree sample_host = tree sample_server"
  by (simp_all add: sample_host_def sample_server_def)

text \<open>Client 7 connects; then its connection ends, and its socket is closed.\<close>

lemma sample_accepted:
  "\<exists>H t. host_step reuse sample_root sample_host H \<and> threads H 0 = Some t \<and> t_socket t = 7 \<and> is_open t \<and> \<not> t_leaving t \<and>
     (\<forall>i. i \<noteq> 0 \<longrightarrow> threads H i = None) \<and> t_sess t = new_session 7 sample_root zero_addr"
proof -
  let ?t = "\<lparr>t_socket = 7, t_sess = new_session 7 sample_root zero_addr, t_chan = fresh_tcp, t_net = idle_world [],
    t_buffer = [], t_leaving = False\<rparr>"
  let ?S = "begin_session jail_surroundings 7 zero_addr (seen_by ?t sample_host)"
  have root: "serverRoot (paths jail_surroundings) = sample_root" by (simp add: jail_surroundings_def jail_places_def)
  have "accept_client jail_surroundings 0 (Some (7, zero_addr)) fresh_tcp (idle_world []) sample_host =
      Returns (put_back 0 ?t ?S sample_host)"
    by (simp add: accept_client_def Let_def root) (simp add: jail_surroundings_def sample_surroundings_def)
  moreover have "new_number reuse sample_host k" for k by (simp add: new_number_def sample_host_def)
  ultimately have "host_step reuse sample_root sample_host (put_back 0 ?t ?S sample_host)"
    by (intro host_step.accepts [OF jail_fits]) (simp_all add: sample_host_def)
  moreover have "threads (put_back 0 ?t ?S sample_host) 0 = Some (?t\<lparr>t_sess := sess ?S, t_chan := chan ?S, t_net := net ?S\<rparr>)"
    by simp
  moreover have "sess ?S = new_session 7 sample_root zero_addr" by (simp add: begin_session_left root)
  ultimately show ?thesis
    by (intro exI [of _ "put_back 0 ?t ?S sample_host"] exI [of _ "?t\<lparr>t_sess := sess ?S, t_chan := chan ?S, t_net := net ?S\<rparr>"])
      (simp add: is_open_def begin_session_left sample_host_start)
qed

lemma sample_closed:
  "\<exists>H t. host_run reuse sample_root sample_host H \<and> threads H 0 = Some t \<and> t_socket t = 7 \<and> t_leaving t \<and>
     (\<forall>i. i \<noteq> 0 \<longrightarrow> threads H i = None)"
proof -
  obtain H t where h: "host_step reuse sample_root sample_host H" "threads H 0 = Some t" "t_socket t = 7" "\<not> t_leaving t"
    "\<forall>i. i \<noteq> 0 \<longrightarrow> threads H i = None" "t_sess t = new_session 7 sample_root zero_addr"
    using sample_accepted by blast
  have "leave_session jail_surroundings 7 (seen_by t H) \<noteq> None"
    using h(6) by (simp add: leave_session_def shutdownSession_def join_worker_def new_session_def)
  then obtain S where S: "leave_session jail_surroundings 7 (seen_by t H) = Some S" by auto
  then have "close_thread jail_surroundings 0 t H = Some (put_back 0 (t\<lparr>t_leaving := True\<rparr>) S H)"
    using h(3) by (simp add: close_thread_def)
  from host_step.closes [OF jail_fits h(2,4) this] h(1)
  have "host_run reuse sample_root sample_host (put_back 0 (t\<lparr>t_leaving := True\<rparr>) S H)"
    by (meson rtranclp.rtrancl_into_rtrancl rtranclp.rtrancl_refl)
  with h(3,5) show ?thesis by (intro exI [of _ "put_back 0 (t\<lparr>t_leaving := True\<rparr>) S H"]) auto
qed

theorem host_confined_witness:
  "\<exists>H t. host_run True sample_root sample_host H \<and> threads H 0 = Some t \<and> inside sample_root (currentDir (t_sess t)) \<and>
     files (disk (h_tree H)) ''D:'' = files (disk (h_tree sample_host)) ''D:''"
proof -
  obtain H t where h: "host_run True sample_root sample_host H" "threads H 0 = Some t" using sample_closed by blast
  have o: "\<not> under_root sample_root ''D:''" by (simp add: under_root_def below_def sample_root_def path_text_def)
  have n: "''D:'' \<notin> set (tmpNames (disk (h_tree sample_host)))"
    by (simp add: sample_host_def sample_store_def sample_path_def sample_root_def path_text_def)
  from host_confined [OF h(1) sample_host_start(1) sample_start(2,3) [folded sample_host_start(3)] o] h n show ?thesis by blast
qed


theorem stale_guard_witness:
  "\<exists>H u. host_run True sample_root sample_host H \<and> threads H 1 = Some u \<and> is_open u \<and> findClient 7 (h_clients H) = None"
proof -
  obtain H t where h: "host_run True sample_root sample_host H" "threads H 0 = Some t" "t_socket t = 7" "t_leaving t"
    "\<forall>i. i \<noteq> 0 \<longrightarrow> threads H i = None"
    using sample_closed by blast
  have c: "\<forall>m u. threads H m = Some u \<longrightarrow> t_socket u = t_socket t \<longrightarrow> \<not> is_open u"
  proof (intro allI impI)
    fix m u
    assume "threads H m = Some u"
    with h(2,5) have "u = t" by (cases "m = 0") auto
    with h(4) show "\<not> is_open u" by (simp add: is_open_def)
  qed
  have j: "threads H 1 = None" using h(5) by simp
  have s: "threadStarts jail_surroundings" by (simp add: jail_surroundings_def sample_surroundings_def)
  from stale_guard [OF h(1,2,4) j c jail_fits s] h(3) show ?thesis by auto
qed

end
