(* ===== verification/Spec2Isabelle.thy ===== *)
theory Spec2Isabelle
  imports Transfer_Session Sha256_Hasher Server_Threads
begin

text \<open>
  A verification library for the hybrid FTP programs of this repository: a server (\<^verbatim>\<open>src/server\<close>) and a
  client (\<^verbatim>\<open>src/client\<close>) that talk over a TCP control connection and move files over UDP with a reliable
  protocol of their own. This text says what the theories model, how they correspond to the code, what
  their lemmas show, and what is left out.

  \<^bold>\<open>Conventions.\<close> A struct or class is a record with the fields of the source, an enumeration a datatype,
  a 16, 32 or 64 bit integer a word of that width. A function that changes objects takes their state and
  gives it back changed. What the system answers is scripted: \<open>world\<close> (theory Net_World) holds the
  datagrams that will arrive, the outcomes of sends and other socket calls, the readings of the clock and
  the answers of the abort predicate, each consumed in order, and collects what is sent; \<open>fsys\<close> (File_Io)
  holds files, the outcomes of file operations and the names of temporary files; \<open>store\<close>
  (Directory_Service) adds directories and special files; \<open>tcp\<close> (Control_Channel) is a connection with
  the outcomes of its sends. A theorem for all worlds and stores is a theorem for every behaviour of the
  system. A call that waits for input that never comes has the value \<open>None\<close>; so has a caller that waits
  for it.

  \<^bold>\<open>The wire.\<close> Rdt_Header: \<^verbatim>\<open>RdtHeader.h\<close>, the 16 byte header. Check_Sum: \<^verbatim>\<open>CheckSum.h\<close>, equal to the
  ones-complement sum of RFC 1071. Datagram: building and validating whole datagrams, as both programs do.

  \<^bold>\<open>Reliable transfer.\<close> Receiver_State: the state and the shared loop of the receivers, and the locale
  \<open>receive_routine\<close> of what is proved once for both. Server_Receiver and Client_Receiver:
  \<^verbatim>\<open>RdtReceiver.cpp\<close> of the two programs; they interpret the locale. Sender_State, Client_Sender (stop and
  wait), Server_Sender and Server_Sender_Facts (window, round trip times, congestion): \<^verbatim>\<open>RdtSender.cpp\<close>.
  Double_Rounding: rounding of binary64 numbers, for the estimates of the round trip time. The lemmas
  give the invariants of window and buffer, delivery in order and once, acknowledgements that mean
  delivery, and the end of retransmission.

  \<^bold>\<open>Files.\<close> File_Io: the chunked readers and the writers that replace a file atomically
  (\<^verbatim>\<open>ChunkedFileReader.cpp\<close>, \<^verbatim>\<open>ChunkedFileWriter.cpp\<close>, \<^verbatim>\<open>AsciiChunkedReader.cpp\<close>), with the locales
  \<open>chunk_reader\<close> and \<open>chunk_writer\<close>. Ascii_Translator: line ends. Data_Channel_Send and
  Data_Channel_Receive: \<^verbatim>\<open>DataChannelSession.cpp\<close> of both programs over the contracts of transport and file
  (locales \<open>chunk_sender\<close>, \<open>file_sender\<close>, \<open>file_receiver\<close>). Sha256_Hasher: \<^verbatim>\<open>Sha256Hasher.cpp\<close>.

  \<^bold>\<open>The control connection.\<close> Text_Format: decimal text, words, formatted input. Endpoint_Format: the texts of
  PASV and PORT and the sockets behind them (\<^verbatim>\<open>ActiveModeHandler.cpp\<close>, \<^verbatim>\<open>PassiveModeHandler.cpp\<close>,
  \<^verbatim>\<open>ActiveModeClient.cpp\<close>, \<^verbatim>\<open>PassiveModeClient.cpp\<close>). Control_Channel: replies and commands over TCP with
  partial sends, and the reader of replies (\<^verbatim>\<open>Session.cpp\<close> of both programs). Command_Parser:
  \<^verbatim>\<open>CommandParser.cpp\<close>.

  \<^bold>\<open>The server.\<close> Path_Resolver and Directory_Service: \<^verbatim>\<open>PathResolver.cpp\<close> and \<^verbatim>\<open>DirectoryService.cpp\<close>.
  Transfer_Files and Transfer_Report: the append, the reserved names and the completion report of
  \<^verbatim>\<open>CommandDispatcher.cpp\<close>. Client_Registry: \<^verbatim>\<open>ClientRegistry.cpp\<close>, a refinement of a finite map (locale
  \<open>client_table\<close>). Server_State: \<^verbatim>\<open>ClientSession\<close> and the transfers;
  Command_Dispatcher: the 28 handlers and \<^verbatim>\<open>executeCommand\<close>; Server_Loop: \<^verbatim>\<open>handleClient\<close> and
  \<^verbatim>\<open>initializeSession\<close>. Server_Replies: every command is answered once. Disk_Frame: what each routine
  touches on the disk. Server_Invariant and Server_Safety: sessions as a transition system (a step is a
  command or the end of a worker), its invariant by rule induction, and what follows: confinement to the
  root, targets of active mode, nothing before the login. Server_Cleanup: what a session leaves in the
  table of clients and among the sockets. Server_Threads: \<^verbatim>\<open>runSession\<close>, the process with a thread for each
  client, as a transition system over the shared table, disk and counter, with its invariants.

  \<^bold>\<open>The client.\<close> Client_Session: \<^verbatim>\<open>Session.cpp\<close> of the client, from the connection to the end of the loop
  over the lines of the user, with all that is printed. Client_Facts: every step keeps the invariant
  between the pending data socket, the worker and the flag \<^verbatim>\<open>transferActive\<close>, and accounts for the sockets.

  \<^bold>\<open>Both programs together.\<close> Command_Line: a line of the user arrives as the command it is. Session_Pair: the two
  control loops over one connection stay in step, one reply for each command, with equal transfer modes,
  and PASV and PORT leave both with the same data endpoint. Abort_Race: where they fall out of step. Data_Link: a network that loses, repeats,
  reorders and damages datagrams, what the handshakes before a transfer establish over it, and what each side may
  conclude from a datagram that arrives. Download_Pair and Upload_Pair: the transfer workers of both programs over
  this network, RETR, STOR, STOU and APPE in both data modes, from the open file to the reply on the control
  connection and the comparison of digests at the client: correct end to end, and without false alarms. Wire_Types:
  the messages of the data channel as a datatype, and that every worker sends only messages of its role.
  Transfer_Session: a transfer seen from the control connection, from the command over the preliminary reply and the
  workers to the completion reply: both sides are in step again. This theory states the same for \<^verbatim>\<open>sendFile\<close> and \<^verbatim>\<open>receiveFile\<close> alone, with any abort predicate.

  \<^bold>\<open>Bounds.\<close> Files are shorter than 2^32 packets (\<open>fits\<close>), since sequence numbers of 32 bits are not
  reused; the checksum is exact up to 131072 bytes, more than any datagram. Loops that wait for input
  recurse on what is left of the script, so no fuel is needed; loops with a limit of the source
  (retransmissions, 10000 names) count it down.

  \<^bold>\<open>Not modelled.\<close> Third-party and system code is a parameter with its documented behaviour as named
  hypotheses: \<^verbatim>\<open>weakly_canonical\<close> and \<^verbatim>\<open>absolute\<close> (\<open>good_places\<close>, \<open>fits_root\<close>), BCrypt (\<open>incremental\<close>),
  \<^verbatim>\<open>inet_pton\<close> (\<open>inet_pton_accepts\<close>), the outcome of \<^verbatim>\<open>sscanf\<close> beyond the range of int. A worker thread of
  either program runs as one step: on the server, replies of the control thread between the steps of a
  worker (only refusals are possible then) are ordered before or after it; on the client, every line of
  the user comes with whether the worker has ended before it is read, and the answers of the abort
  predicate are scripted. Between the threads of the server a command is one step, though on the machine
  their single accesses to the disk interleave. Not modelled are logging, the client's \<^verbatim>\<open>main\<close> (it connects
  and runs a session), the conversion of file times, the tests, and the scripts of the build.
\<close>

text \<open>
  Downloads, end to end. A server that runs \<^verbatim>\<open>sendFile\<close> for a file with content \<open>bs\<close> and a client that
  runs \<^verbatim>\<open>receiveFile\<close> are connected by a network that loses, repeats, reorders and damages datagrams as
  it likes. If either of the two reports success, the client's destination holds exactly \<open>bs\<close> (with
  line ends translated in ASCII mode).
\<close>

theorem download_end_to_end:
  assumes "sv_sendFile hashFile a path mode s ws F = Some (res, s', ws', F')"
    and "s = (sv_sender_init True client t)\<lparr>ss_abortInstalled := i\<rparr>"
    and "files F path = Some bs" "fits (wire_content mode bs)"
    and "cl_receiveFile os b dpath mode r wc G = Some (ok, reason, r', wc', G')"
    and "receiver_ready server r" "\<not> finalAcknowledgementPending r"
    and "resolveDestination os dpath = Inr dest" "fresh_names G dest"
    and "network_delivers (sent_between ws ws') server (arrivals r wc)"
    and "network_delivers (sent_between wc wc') client (inbox ws)"
    and "success res \<or> ok"
  shows "files G' dest = Some (wire_content mode bs)"
proof -
  let ?wire = "wire_content mode bs" and ?n = "of_nat (chunk_count (wire_content mode bs) - 1) :: u32"
  let ?A = "\<lambda>n. cl_ack n \<in> fst ` set (sent_between wc wc')"
  have inv: "sender_inv (file_stream ?wire) s"
    using assms(2) sv_sender_init_inv [of _ True client t] by (simp add: sender_inv_def)
  have dest: "destAddr s = client" using assms(2) by (simp add: sv_sender_init_def Let_def)
  note snd = sv_snd.send_file_outcome [OF assms(1) [unfolded sv_sendFile_def] assms(3,4) inv,
      unfolded sv_snd.frame_def dest]
  have st: "stream_inv (file_stream ?wire) r (inbox wc)"
    using network_stream [OF _ assms(10,6)] snd by blast
  have ready: "expected_seq r = 0" "outOfOrderBuffer r = Map.empty" using assms(6) by (simp_all add: receiver_ready_def)
  obtain new where new: "outbox wc' = outbox wc @ new"
    "\<forall>p \<in> set new. \<exists>s. fst p = cl_ack s \<or> fst p = cl_nak s"
    "ok \<or> cl_ack ?n \<in> fst ` set new \<longrightarrow> files G' dest = Some (wire_content mode ?wire)"
    using cl_receiveFile_outcome [OF assms(5,8,9) st assms(4) ready assms(7) file_stream_last_exists(1) [OF assms(4)]]
    by blast
  have "acks_honest ?A client (inbox ws)"
  proof -
    have "cl_ack (ack_num h) \<in> fst ` set new"
      if "Received d client \<in> set (inbox ws)" "decodeValidatedDatagram d = Some h" "has_flag h FLAG_ACK" for d h
    proof -
      have "d \<in> fst ` set new"
        using assms(11) that(1,2) sent_between_append [OF new(1)] by (auto simp: network_delivers_def)
      moreover from this have "d = cl_ack (ack_num h)" using new(2) by (intro cl_ack_decode [OF that(2,3)]) auto
      ultimately show ?thesis by simp
    qed
    then show ?thesis unfolding acks_honest_def using sent_between_append [OF new(1)] by auto
  qed
  with snd have "success res \<longrightarrow> cl_ack ?n \<in> fst ` set new"
    using file_stream_last_exists(2) [OF assms(4)] sent_between_append [OF new(1)] by blast
  with new(3) assms(12) show ?thesis by (auto simp: wire_content_idem)
qed

text \<open>
  Uploads, end to end. If the server's \<^verbatim>\<open>receiveFile\<close> reports success, its destination holds exactly
  the file the client sends (with line ends translated in ASCII mode); and if the client's \<^verbatim>\<open>sendFile\<close>
  reports success, the server's receiver has taken every chunk.
\<close>

theorem upload_end_to_end:
  assumes "cl_sendFile hashFile a path mode s wc F = Some (res, s', wc', F')"
    and "files F path = Some bs" "fits (wire_content mode bs)"
    and "sv_receiveFile absolute b dpath mode r ws G = Some (ok, r', ws', G')"
    and "receiver_ready client r" "absolute dpath = Some dest" "fresh_names G dest"
    and "network_delivers (sent_between wc wc') client (arrivals r ws)"
    and "network_delivers (sent_between ws ws') (cs_destAddr s) (inbox wc)"
  shows "(ok \<longrightarrow> files G' dest = Some (wire_content mode bs)) \<and>
    (success res \<longrightarrow> (\<forall>j. file_stream (wire_content mode bs) j = None \<or> holds r' (of_nat j)))"
proof -
  let ?wire = "wire_content mode bs"
  note snd = cl_snd.send_file_outcome [OF assms(1) [unfolded cl_sendFile_def] assms(2,3) TrueI, unfolded cl_snd.frame_def]
  have st: "stream_inv (file_stream ?wire) r (inbox ws)"
    using network_stream [OF _ assms(8,5)] snd by blast
  have "expected_seq r = 0" using assms(5) by (simp add: receiver_ready_def)
  from sv_receiveFile_outcome [OF assms(4,6,7) st assms(3) this]
  obtain new where new: "outbox ws' = outbox ws @ new"
    "\<forall>p \<in> set new. \<exists>s. fst p = seal_control (sv_ack_header s) \<and> holds r' s"
    "ok \<longrightarrow> files G' dest = Some (wire_content mode ?wire)" by blast
  have "acks_honest (holds r') (cs_destAddr s) (inbox wc)"
  proof -
    have "holds r' (ack_num h)"
      if "Received d (cs_destAddr s) \<in> set (inbox wc)" "decodeValidatedDatagram d = Some h" for d h
    proof -
      have "d \<in> fst ` set new"
        using assms(9) that sent_between_append [OF new(1)] by (auto simp: network_delivers_def)
      then obtain n where "d = seal_control (sv_ack_header n)" "holds r' n" using new(2) by auto
      with sv_ack_decode that(2) show ?thesis by blast
    qed
    then show ?thesis unfolding acks_honest_def by auto
  qed
  then have "success res \<longrightarrow> (\<forall>j. file_stream ?wire j \<noteq> None \<longrightarrow> holds r' (of_nat j))"
    using snd by blast
  with new(3) show ?thesis using wire_content_idem [of mode bs] by fastforce
qed

section \<open>Instances\<close>

lemma sample_wire: "data_bytes 0 True win [65] = sample_packet win" "chunk_packet [65] 0 = sample_packet 1"
  "decodeValidatedDatagram [] = None"
  by (simp_all add: data_bytes_def sample_packet_def chunk_packet_def chunk_count_def MAX_PAYLOAD_def
      decodeValidatedDatagram_def HEADER_SIZE_def)

lemma sample_acks: "sv_sample_ack = cl_ack 0" "sample_ack = seal_control (sv_ack_header 0)"
  by (simp_all add: sv_sample_ack_def cl_response_header_def sample_ack_def cl_ready_ack_header_def sv_ack_header_def
      zero_header_def)

theorem download_end_to_end_witness:
  "\<exists>res s' ws' F' ok reason r' wc' G'.
     sv_sendFile (\<lambda>bs. ''h'') False ''a'' Binary sv_sample_sender (idle_world sv_sample_events) sample_disk =
       Some (res, s', ws', F') \<and> success res \<and>
     cl_receiveFile sample_probe False ''d'' Binary cl_sample_receiver (sample_arrival 4) sample_disk =
       Some (ok, reason, r', wc', G') \<and> files G' ''d'' = Some [65]"
proof -
  let ?ws = "idle_world sv_sample_events"
  obtain s' ws' F' where sv: "sv_sendFile (\<lambda>bs. ''h'') False ''a'' Binary sv_sample_sender ?ws sample_disk =
      Some (\<lparr>success = True, sha256 = ''h''\<rparr>, s', ws', F')" "outbox ws' = [(data_bytes 0 True 4 [65], sample_peer)]"
    using sv_sample_sendFile by blast
  obtain r' wc' G' where cl: "cl_receiveFile sample_probe False ''d'' Binary cl_sample_receiver (sample_arrival 4)
      sample_disk = Some (True, [], r', wc', G')" "outbox wc' = [(cl_ack 0, sample_peer)]"
    using cl_sample_receiveFile by blast
  have s: "sv_sample_sender = (sv_sender_init True sample_peer 500)\<lparr>ss_abortInstalled := True\<rparr>"
    by (simp add: sv_sample_sender_def sv_sender_init_def Let_def)
  have nets: "network_delivers (sent_between ?ws ws') sample_peer (arrivals cl_sample_receiver (sample_arrival 4))"
    "network_delivers (sent_between (sample_arrival 4) wc') sample_peer (inbox ?ws)"
    using sv(2) cl(2) by (simp_all add: network_delivers_def sent_between_def arrivals_def idle_world_def sample_arrival_def
        sample_wire sample_acks cl_sample_receiver_def cl_fresh_receiver_def)
  have "receiver_ready sample_peer cl_sample_receiver" "\<not> finalAcknowledgementPending cl_sample_receiver"
    by (simp_all add: receiver_ready_def cl_sample_receiver_def cl_fresh_receiver_def)
  from download_end_to_end [OF sv(1) s _ _ cl(1) this sample_writing(4,1) nets, of "[65]"] sv(1) cl(1)
  show ?thesis by (auto simp: wire_content_def sample_writing(3))
qed

theorem upload_end_to_end_witness:
  "\<exists>res s' wc' F' r' ws' G'.
     cl_sendFile (\<lambda>bs. ''h'') True ''a'' Binary cl_sample_sender (idle_world [Received sample_ack sample_peer]) sample_disk =
       Some (res, s', wc', F') \<and> success res \<and>
     sv_receiveFile Some False ''d'' Binary sample_receiver (sample_arrival 1) sample_disk = Some (True, r', ws', G') \<and>
     files G' ''d'' = Some [65] \<and> holds r' 0"
proof -
  let ?wc = "idle_world [Received sample_ack sample_peer]"
  obtain wc' F' where cl: "cl_sendFile (\<lambda>bs. ''h'') True ''a'' Binary cl_sample_sender ?wc sample_disk =
      Some (\<lparr>success = True, sha256 = ''h''\<rparr>, cl_sample_sender, wc', F')" "outbox wc' = [(chunk_packet [65] 0, sample_peer)]"
    using cl_sample_sendFile by blast
  obtain r' ws' G' where sv: "sv_receiveFile Some False ''d'' Binary sample_receiver (sample_arrival 1) sample_disk =
      Some (True, r', ws', G')" "outbox ws' = [(seal_control (sv_ack_header 0), sample_peer)]"
    using sv_sample_receiveFile by blast
  have nets: "network_delivers (sent_between ?wc wc') sample_peer (arrivals sample_receiver (sample_arrival 1))"
    "network_delivers (sent_between (sample_arrival 1) ws') (cs_destAddr cl_sample_sender) (inbox ?wc)"
    using sv(2) cl(2) by (simp_all add: network_delivers_def sent_between_def arrivals_def idle_world_def sample_arrival_def
        sample_wire sample_acks sample_receiver_def fresh_receiver_def)
  have "receiver_ready sample_peer sample_receiver"
    by (simp add: receiver_ready_def sample_receiver_def fresh_receiver_def)
  from upload_end_to_end [OF cl(1) _ _ sv(1) this refl sample_writing(1) nets, of "[65]"] sample_writing(3)
  have "files G' ''d'' = Some [65] \<and> (\<forall>j. file_stream [65] j = None \<or> holds r' (of_nat j))"
    by (simp add: wire_content_def)
  then have "files G' ''d'' = Some [65]" "file_stream [65] 0 = None \<or> holds r' (of_nat 0)" by blast+
  with cl(1) sv(1) show ?thesis by (simp add: sample_file_stream sample_stream_def)
qed

end
